(* ===== verification/Go_Prelude.thy ===== *)
theory Go_Prelude
  imports Complex_Main "HOL-Library.Word" "HOL-Library.AList" "HOL-Library.List_Lexorder"
    "HOL-Library.Char_ord" "HOL-Library.Log_Nat"
begin

text \<open>
  Shared vocabulary of the development: the Go values a decoded JSON object holds, the Go
  string, number and map operations the components use, the generic lemmas about them,
  and the two interfaces (row maps and codecs) the components are proved against.

  Conventions. A Go \<^verbatim>\<open>string\<close> is its list of bytes (\<^typ>\<open>string\<close>). Case mapping is the
  ASCII one: every string the code folds is a MAC, a hexadecimal key, a model name or a
  keyword. A Go \<^verbatim>\<open>int\<close>/\<^verbatim>\<open>int64\<close> that only holds counters and unix times is \<^typ>\<open>int\<close>;
  bytes and wire fields are words. A \<^verbatim>\<open>float64\<close> is its exact value, a rational
  (JSON has no NaN and no infinity). A Go map is an association list read with
  \<open>jget\<close>; Go's iteration order is unspecified, and every result the code computes by
  iterating over a map is sorted or order-independent.
\<close>

named_theorems row_simps \<open>reading a row map after an update\<close>
named_theorems mac_simps \<open>facts on MAC spellings\<close>

type_synonym u8 = "8 word"
type_synonym u16 = "16 word"
type_synonym u32 = "32 word"
type_synonym bytes = "u8 list"

section \<open>Strings\<close>

definition lower_char :: "char \<Rightarrow> char" where
  "lower_char c = (if 65 \<le> (of_char c :: nat) \<and> (of_char c :: nat) \<le> 90
     then char_of ((of_char c :: nat) + 32) else c)"

definition upper_char :: "char \<Rightarrow> char" where
  "upper_char c = (if 97 \<le> (of_char c :: nat) \<and> (of_char c :: nat) \<le> 122
     then char_of ((of_char c :: nat) - 32) else c)"

definition to_lower :: "string \<Rightarrow> string" where
  "to_lower s = map lower_char s"

definition to_upper :: "string \<Rightarrow> string" where
  "to_upper s = map upper_char s"

definition equal_fold :: "string \<Rightarrow> string \<Rightarrow> bool" where
  "equal_fold a b \<longleftrightarrow> to_lower a = to_lower b"

lemma lower_char_idem [simp]: "lower_char (lower_char c) = lower_char c"
proof (cases "65 \<le> (of_char c :: nat) \<and> (of_char c :: nat) \<le> 90")
  case True
  then have "(of_char (char_of ((of_char c :: nat) + 32)) :: nat) = of_char c + 32"
    by (simp add: of_char_of)
  with True show ?thesis by (simp add: lower_char_def)
next
  case False
  then show ?thesis by (auto simp: lower_char_def)
qed

lemma to_lower_idem [simp]: "to_lower (to_lower s) = to_lower s"
  by (simp add: to_lower_def)

lemma length_to_lower [simp]: "length (to_lower s) = length s"
  by (simp add: to_lower_def)

lemma to_lower_Nil_iff [simp]: "to_lower s = [] \<longleftrightarrow> s = []"
  by (simp add: to_lower_def)

lemma equal_fold_refl [simp]: "equal_fold s s"
  by (simp add: equal_fold_def)

lemma equal_fold_lower [simp]:
  "equal_fold (to_lower a) b \<longleftrightarrow> equal_fold a b"
  "equal_fold a (to_lower b) \<longleftrightarrow> equal_fold a b"
  by (simp_all add: equal_fold_def)

lemma equal_fold_sym: "equal_fold a b \<longleftrightarrow> equal_fold b a"
  by (auto simp: equal_fold_def)

lemma equal_fold_Nil [simp]: "equal_fold [] b \<longleftrightarrow> b = []"
  by (auto simp: equal_fold_def to_lower_def)

lemma equal_fold_trans: "equal_fold a b \<Longrightarrow> equal_fold b c \<Longrightarrow> equal_fold a c"
  by (simp add: equal_fold_def)

fun has_prefix :: "string \<Rightarrow> string \<Rightarrow> bool" where
  "has_prefix [] s = True"
| "has_prefix (p # ps) [] = False"
| "has_prefix (p # ps) (c # cs) = (p = c \<and> has_prefix ps cs)"

fun contains_str :: "string \<Rightarrow> string \<Rightarrow> bool" where
  "contains_str p [] = (p = [])"
| "contains_str p (c # cs) = (has_prefix p (c # cs) \<or> contains_str p cs)"

fun join_with :: "string \<Rightarrow> string list \<Rightarrow> string" where
  "join_with sep [] = []"
| "join_with sep [s] = s"
| "join_with sep (s # t # r) = s @ sep @ join_with sep (t # r)"

text \<open>\<^verbatim>\<open>strconv.Itoa\<close>: decimal digits, with a leading minus sign.\<close>

definition digit_char :: "nat \<Rightarrow> char" where
  "digit_char d = char_of (48 + d)"

fun dec_nat :: "nat \<Rightarrow> string" where
  "dec_nat n = (if n < 10 then [digit_char n] else dec_nat (n div 10) @ [digit_char (n mod 10)])"

declare dec_nat.simps [simp del]

definition itoa :: "int \<Rightarrow> string" where
  "itoa i = (if i < 0 then CHR ''-'' # dec_nat (nat (- i)) else dec_nat (nat i))"

definition digit_val :: "char \<Rightarrow> nat" where
  "digit_val c = (of_char c :: nat) - 48"

definition undec :: "string \<Rightarrow> nat" where
  "undec s = foldl (\<lambda>acc c. acc * 10 + digit_val c) 0 s"

lemma digit_val_char [simp]: "d < 10 \<Longrightarrow> digit_val (digit_char d) = d"
  by (simp add: digit_val_def digit_char_def of_char_of)

lemma undec_dec_nat [simp]: "undec (dec_nat n) = n"
proof (induction n rule: dec_nat.induct)
  case (1 n)
  show ?case
  proof (cases "n < 10")
    case True
    then show ?thesis by (simp add: dec_nat.simps [of n] undec_def)
  next
    case False
    with 1 have "undec (dec_nat (n div 10)) = n div 10" by simp
    with False show ?thesis
      by (simp add: dec_nat.simps [of n] undec_def)
  qed
qed

lemma dec_nat_inject [simp]: "dec_nat m = dec_nat n \<longleftrightarrow> m = n"
  by (metis undec_dec_nat)

section \<open>Numbers\<close>

text \<open>
  IEEE double precision on exact values: \<open>f64_round\<close> is round-to-nearest-even to 53
  significant bits (no overflow to infinity: the code's numbers are far below it).
\<close>

definition pow2 :: "int \<Rightarrow> rat" where
  "pow2 e = (if 0 \<le> e then 2 ^ nat e else 1 / 2 ^ nat (- e))"

definition ilog2 :: "nat \<Rightarrow> int" where
  "ilog2 n = int (floorlog 2 n) - 1"

definition f64_exp :: "rat \<Rightarrow> int" where
  "f64_exp x = (let (p, q) = quotient_of x; k = ilog2 (nat p) - ilog2 (nat q)
     in if pow2 k \<le> x then k else k - 1)"

definition rne :: "rat \<Rightarrow> int" where
  "rne x = (let f = \<lfloor>x\<rfloor>; d = x - of_int f in
     if d < 1/2 then f else if 1/2 < d then f + 1 else if even f then f else f + 1)"

definition f64_round :: "rat \<Rightarrow> rat" where
  "f64_round x = (if x = 0 then 0
     else let e = max (f64_exp \<bar>x\<bar> - 52) (- 1074)
          in sgn x * (of_int (rne (\<bar>x\<bar> / pow2 e)) * pow2 e))"

text \<open>\<^verbatim>\<open>float64(n)\<close> and \<^verbatim>\<open>int64(f)\<close>: the latter truncates; out of range it is the amd64 value.\<close>

definition f64_of_int :: "int \<Rightarrow> rat" where
  "f64_of_int n = f64_round (of_int n)"

definition trunc :: "rat \<Rightarrow> int" where
  "trunc x = (if x < 0 then \<lceil>x\<rceil> else \<lfloor>x\<rfloor>)"

definition int64_of_f64 :: "rat \<Rightarrow> int" where
  "int64_of_f64 x = (let t = trunc x in
     if - (2 ^ 63) \<le> t \<and> t < 2 ^ 63 then t else - (2 ^ 63))"

text \<open>Two's complement wrap-around of Go's 64-bit \<^verbatim>\<open>int\<close> and \<^verbatim>\<open>int64\<close> arithmetic.\<close>

definition wrap64 :: "int \<Rightarrow> int" where
  "wrap64 n = (n + 2 ^ 63) mod 2 ^ 64 - 2 ^ 63"

lemma wrap64_id: "- (2 ^ 63) \<le> n \<Longrightarrow> n < 2 ^ 63 \<Longrightarrow> wrap64 n = n"
  by (simp add: wrap64_def)

lemma rne_of_int [simp]: "rne (of_int n) = n"
  by (simp add: rne_def)

lemma rne_of_nat [simp]: "rne (of_nat n) = int n"
  using rne_of_int [of "int n"] by simp

lemma trunc_of_int [simp]: "trunc (of_int n) = n"
  by (simp add: trunc_def)

lemma pow2_pos [simp]: "0 < pow2 e"
  by (simp add: pow2_def)

lemma pow2_neq_0 [simp]: "pow2 e \<noteq> 0"
  using pow2_pos [of e] by linarith

lemma pow2_nonneg_int: "0 \<le> e \<Longrightarrow> pow2 e = of_int (2 ^ nat e)"
  by (simp add: pow2_def)

lemma ilog2_of_1 [simp]: "ilog2 (Suc 0) = 0"
  by (simp add: ilog2_def floorlog_def)

lemma ilog2_bounds:
  assumes "0 < n"
  shows "0 \<le> ilog2 n" and "2 ^ nat (ilog2 n) \<le> n" and "n < 2 ^ Suc (nat (ilog2 n))"
proof -
  have b: "2 ^ (floorlog 2 n - 1) \<le> n \<and> n < 2 ^ floorlog 2 n"
    using floorlog_bounds [of n 2] assms by simp
  have p: "0 < floorlog 2 n"
    using assms by (simp add: floorlog_def)
  then show "0 \<le> ilog2 n" by (simp add: ilog2_def)
  have e: "nat (ilog2 n) = floorlog 2 n - 1"
    using p by (simp add: ilog2_def)
  show "2 ^ nat (ilog2 n) \<le> n" using b e by simp
  show "n < 2 ^ Suc (nat (ilog2 n))" using b e p by (simp del: power_Suc)
qed

lemma f64_exp_of_nat: "0 < n \<Longrightarrow> f64_exp (of_nat n) = ilog2 n"
proof -
  assume n: "0 < n"
  have q: "quotient_of (of_nat n :: rat) = (int n, 1)"
    using quotient_of_int [of "int n"] by (simp add: Rat.of_int_def)
  have "pow2 (ilog2 n) = of_nat (2 ^ nat (ilog2 n))"
    using ilog2_bounds(1) [OF n] by (simp add: pow2_def)
  also have "\<dots> \<le> (of_nat n :: rat)"
    using ilog2_bounds(2) [OF n] of_nat_le_iff by blast
  finally show ?thesis
    by (simp add: f64_exp_def q)
qed

lemma f64_round_nonneg: "0 \<le> x \<Longrightarrow> 0 \<le> f64_round x"
proof -
  assume "0 \<le> x"
  have "0 \<le> rne y" if "0 \<le> y" for y
  proof -
    have "0 \<le> \<lfloor>y\<rfloor>" using that by simp
    then show ?thesis by (auto simp: rne_def Let_def)
  qed
  moreover have "0 \<le> \<bar>x\<bar> / pow2 (max (f64_exp \<bar>x\<bar> - 52) (- 1074))"
    by (simp add: divide_nonneg_pos)
  ultimately have "0 \<le> of_int (rne (\<bar>x\<bar> / pow2 (max (f64_exp \<bar>x\<bar> - 52) (- 1074))))
      * pow2 (max (f64_exp \<bar>x\<bar> - 52) (- 1074))"
    by (intro mult_nonneg_nonneg) (simp_all add: less_imp_le [OF pow2_pos])
  then show ?thesis
    unfolding f64_round_def Let_def using \<open>0 \<le> x\<close> by (simp add: sgn_if)
qed

lemma pow2_powi: "pow2 e = 2 powi e"
  unfolding pow2_def power_int_def inverse_eq_divide by (simp add: power_one_over)

lemma pow2_minus: "pow2 (a - b) = pow2 a / pow2 b"
  unfolding pow2_powi by (rule power_int_diff) simp

lemma pow2_mono: "a \<le> b \<Longrightarrow> pow2 a \<le> pow2 b"
  unfolding pow2_powi by (rule power_int_increasing) simp_all

lemma f64_exp_le:
  assumes "0 < x"
  shows "pow2 (f64_exp x) \<le> x"
proof -
  obtain p q where pq: "quotient_of x = (p, q)" by fastforce
  have q: "0 < q" "x = of_int p / of_int q"
    using quotient_of_denom_pos [OF pq] quotient_of_div [OF pq] by simp_all
  then have p: "0 < p" using assms by (simp add: zero_less_divide_iff)
  define a where "a = ilog2 (nat p)"
  define b where "b = ilog2 (nat q)"
  have an: "0 \<le> a" "pow2 a \<le> of_int p"
  proof -
    show "0 \<le> a" using ilog2_bounds(1) [of "nat p"] p by (simp add: a_def)
    have "2 ^ nat a \<le> nat p" using ilog2_bounds(2) [of "nat p"] p by (simp add: a_def)
    then have "int (2 ^ nat a) \<le> p" using p by linarith
    then have "of_int (int (2 ^ nat a)) \<le> (of_int p :: rat)" by (simp only: of_int_le_iff)
    then show "pow2 a \<le> of_int p" using \<open>0 \<le> a\<close> by (simp add: pow2_def)
  qed
  have bn: "of_int q < pow2 (b + 1)"
  proof -
    have b0: "0 \<le> b" using ilog2_bounds(1) [of "nat q"] q by (simp add: b_def)
    have "nat q < 2 ^ Suc (nat b)" using ilog2_bounds(3) [of "nat q"] q by (simp add: b_def)
    then have "q < int (2 ^ Suc (nat b))" using q by linarith
    then have "(of_int q :: rat) < of_int (int (2 ^ Suc (nat b)))" by (simp only: of_int_less_iff)
    moreover have "nat (b + 1) = Suc (nat b)" using b0 by simp
    ultimately show ?thesis using b0 by (simp add: pow2_def)
  qed
  have "pow2 (a - b - 1) = pow2 a / pow2 (b + 1)" by (simp add: diff_diff_eq flip: pow2_minus)
  also have "\<dots> \<le> of_int p / of_int q"
    using an bn q p by (intro frac_le) simp_all
  finally have "pow2 (a - b - 1) \<le> x" using q by simp
  then show ?thesis by (simp add: f64_exp_def pq a_def b_def Let_def)
qed

lemma rne_le: "of_int (rne x) \<le> x + 1"
proof -
  have "of_int \<lfloor>x\<rfloor> \<le> x" by simp
  then have "of_int \<lfloor>x\<rfloor> \<le> x + 1" "1 / 2 \<le> x - of_int \<lfloor>x\<rfloor> \<Longrightarrow> of_int (\<lfloor>x\<rfloor> + 1) \<le> x + 1"
    by simp_all linarith
  then show ?thesis by (auto simp: rne_def Let_def not_less)
qed

lemma f64_round_le:
  assumes "0 \<le> x"
  shows "f64_round x \<le> 2 * x + 1"
proof (cases "x = 0")
  case True
  then show ?thesis by (simp add: f64_round_def)
next
  case False
  define e where "e = max (f64_exp x - 52) (- 1074)"
  have x: "0 < x" using assms False by simp
  have "f64_round x = of_int (rne (x / pow2 e)) * pow2 e"
    using x by (simp add: f64_round_def e_def Let_def)
  also have "\<dots> \<le> (x / pow2 e + 1) * pow2 e"
    by (intro mult_right_mono rne_le) (simp add: less_imp_le)
  also have "\<dots> = x + pow2 e" by (simp add: field_simps)
  also have "pow2 e \<le> x + 1"
  proof (cases "e = - 1074")
    case True
    have "pow2 e \<le> pow2 0" using True by (intro pow2_mono) simp
    then show ?thesis using x by (simp add: pow2_def)
  next
    case False
    then have "e \<le> f64_exp x" by (simp add: e_def max_def split: if_splits)
    then have "pow2 e \<le> x" using pow2_mono f64_exp_le [OF x] by fastforce
    then show ?thesis by simp
  qed
  finally show ?thesis by simp
qed

lemma f64_round_of_nat:
  assumes "n \<le> 2 ^ 53"
  shows "f64_round (of_nat n) = of_nat n"
proof (cases "n = 0")
  case True
  then show ?thesis by (simp add: f64_round_def)
next
  case False
  define e where "e = max (ilog2 n - 52) (- 1074)"
  have n0: "0 < n" using False by simp
  have ex: "\<exists>k::int. (of_nat n :: rat) / pow2 e = of_int k"
  proof (cases "e \<le> 0")
    case True
    then have "(of_nat n :: rat) / pow2 e = of_int (int n * 2 ^ nat (- e))"
      by (simp add: pow2_def)
    then show ?thesis by blast
  next
    case e1: False
    then have l: "53 \<le> ilog2 n" by (simp add: e_def)
    have g: "(2::nat) ^ 53 \<le> 2 ^ nat (ilog2 n)"
      using l by (intro power_increasing) auto
    then have n: "n = 2 ^ 53" using assms ilog2_bounds(2) [OF n0] by linarith
    then have "(2::nat) ^ nat (ilog2 n) = 2 ^ 53"
      using g ilog2_bounds(2) [OF n0] by linarith
    then have "nat (ilog2 n) = 53"
      by (metis numeral_eq_iff power_inject_exp one_less_numeral_iff semiring_norm(76))
    then have "e = 1" using l by (simp add: e_def)
    then have "(of_nat n :: rat) / pow2 e = of_int (2 ^ 52)"
      by (simp add: pow2_def n)
    then show ?thesis by blast
  qed
  then obtain k where k: "(of_nat n :: rat) / pow2 e = of_int k" by blast
  have "f64_round (of_nat n) = of_int (rne ((of_nat n :: rat) / pow2 e)) * pow2 e"
    using n0 by (simp add: f64_round_def f64_exp_of_nat e_def Let_def)
  also have "\<dots> = (of_nat n :: rat)"
    using k pow2_pos [of e] by (simp only: k rne_of_int) (simp flip: k)
  finally show ?thesis .
qed

lemma f64_round_minus: "f64_round (- x) = - f64_round x"
  by (simp add: f64_round_def Let_def)

lemma f64_of_int_exact:
  assumes "\<bar>n\<bar> \<le> 2 ^ 53"
  shows "f64_of_int n = of_int n"
proof (cases "0 \<le> n")
  case True
  then have "nat n \<le> 2 ^ 53" using assms by (simp add: nat_le_iff)
  with True show ?thesis
    using f64_round_of_nat [of "nat n"] by (simp add: f64_of_int_def)
next
  case False
  then have "nat (- n) \<le> 2 ^ 53" using assms by (simp add: nat_le_iff)
  with False show ?thesis
    using f64_round_of_nat [of "nat (- n)"] f64_round_minus [of "of_int n"]
    by (simp add: f64_of_int_def)
qed

lemma int64_f64_roundtrip [simp]:
  "\<bar>n\<bar> \<le> 2 ^ 53 \<Longrightarrow> int64_of_f64 (f64_of_int n) = n"
  by (auto simp: f64_of_int_exact int64_of_f64_def Let_def)


text \<open>
  \<^verbatim>\<open>strconv.FormatFloat(f, 'g', -1, 64)\<close>: the shortest decimal that reads back as \<open>f\<close>
  (the closest one of that length), in exponent form when the decimal exponent is below -4
  or at least 6, the threshold Go uses for the shortest precision.
\<close>

definition pow10 :: "int \<Rightarrow> rat" where
  "pow10 e = (if 0 \<le> e then 10 ^ nat e else 1 / 10 ^ nat (- e))"

definition dec_exp :: "rat \<Rightarrow> int" where
  "dec_exp x = (if 1 \<le> x then int (length (dec_nat (nat \<lfloor>x\<rfloor>))) - 1
     else case find (\<lambda>k. 1 \<le> x * 10 ^ k) [0..<400] of None \<Rightarrow> - 400 | Some k \<Rightarrow> - int k)"

definition shortest_at :: "rat \<Rightarrow> nat \<Rightarrow> int option" where
  "shortest_at x n = (let u = pow10 (dec_exp x - int n + 1); lo = \<lfloor>x / u\<rfloor>;
       ok = (\<lambda>c. f64_round (of_int c * u) = x)
     in if ok lo \<and> (\<not> ok (lo + 1) \<or> x - of_int lo * u \<le> of_int (lo + 1) * u - x) then Some lo
        else if ok (lo + 1) then Some (lo + 1) else None)"

definition shortest_digits :: "rat \<Rightarrow> string \<times> int" where
  "shortest_digits x = (case find (\<lambda>n. shortest_at x n \<noteq> None) [1..<18] of
       None \<Rightarrow> (''0'', 1)
     | Some n \<Rightarrow> (let ds = dec_nat (nat (the (shortest_at x n)))
         in (rev (dropWhile (\<lambda>c. c = CHR ''0'') (rev ds)),
             int (length ds) + dec_exp x - int n + 1)))"

definition fmt_e :: "string \<Rightarrow> int \<Rightarrow> string" where
  "fmt_e ds dp = (let x = dp - 1; e = dec_nat (nat \<bar>x\<bar>)
     in take 1 ds @ (if length ds > 1 then ''.'' @ drop 1 ds else [])
        @ ''e'' @ (if x < 0 then ''-'' else ''+'') @ (if length e < 2 then ''0'' @ e else e))"

definition fmt_f :: "string \<Rightarrow> int \<Rightarrow> string" where
  "fmt_f ds dp = (if dp \<le> 0 then ''0.'' @ replicate (nat (- dp)) (CHR ''0'') @ ds
     else if int (length ds) \<le> dp then ds @ replicate (nat dp - length ds) (CHR ''0'')
     else take (nat dp) ds @ ''.'' @ drop (nat dp) ds)"

definition format_g :: "rat \<Rightarrow> string" where
  "format_g x = (if x = 0 then ''0''
     else let (ds, dp) = shortest_digits \<bar>x\<bar>
       in (if x < 0 then ''-'' else [])
          @ (if dp - 1 < - 4 \<or> 6 \<le> dp - 1 then fmt_e ds dp else fmt_f ds dp))"

section \<open>Go values and row maps\<close>

text \<open>
  The dynamic types an \<^verbatim>\<open>any\<close> takes in this program: what \<^verbatim>\<open>encoding/json\<close> decodes to
  (\<^verbatim>\<open>nil\<close>, bool, string, float64, \<^verbatim>\<open>[]any\<close>, \<^verbatim>\<open>map[string]any\<close>) and what the controller itself
  writes into a record (\<^verbatim>\<open>int\<close>, \<^verbatim>\<open>int64\<close>, \<^verbatim>\<open>[]string\<close>, \<^verbatim>\<open>store.JSONMap\<close>). A \<^verbatim>\<open>json.Number\<close> is the
  pair of results of its two accessors \<^verbatim>\<open>Int64()\<close> and \<^verbatim>\<open>Float64()\<close> (\<open>None\<close> for an error).
\<close>

datatype gval =
    GNil
  | GBool bool
  | GStr string
  | GFloat rat
  | GInt int
  | GInt64 int
  | GNumber "int option" "rat option"
  | GArr "gval list"
  | GStrs "string list"
  | GObj "(string \<times> gval) list"
  | GMap "(string \<times> gval) list"

type_synonym jmap = "(string \<times> gval) list"

definition jget :: "('k \<times> 'v) list \<Rightarrow> 'k \<Rightarrow> 'v option" where
  "jget m k = map_of m k"

definition jset :: "'k \<Rightarrow> 'v \<Rightarrow> ('k \<times> 'v) list \<Rightarrow> ('k \<times> 'v) list" where
  "jset k v m = AList.update k v m"

definition jdel :: "'k \<Rightarrow> ('k \<times> 'v) list \<Rightarrow> ('k \<times> 'v) list" where
  "jdel k m = AList.delete k m"

lemma jget_Nil [simp]: "jget [] k = None"
  by (simp add: jget_def)

lemma jget_Cons [simp]: "jget ((k', v) # m) k = (if k = k' then Some v else jget m k)"
  by (auto simp: jget_def)

lemma jset_Nil [simp]: "jset k v [] = [(k, v)]"
  by (simp add: jset_def)

lemma jset_Cons [simp]:
  "jset k v ((k', v') # m) = (if k' = k then (k, v) # m else (k', v') # jset k v m)"
  by (simp add: jset_def)

lemma jdel_Nil [simp]: "jdel k [] = []"
  by (simp add: jdel_def)

lemma jdel_Cons [simp]:
  "jdel k ((k', v') # m) = (if k' = k then jdel k m else (k', v') # jdel k m)"
  by (simp add: jdel_def AList.delete_eq)

lemma jget_jset [row_simps]: "jget (jset k v m) k' = (if k' = k then Some v else jget m k')"
  by (simp add: jget_def jset_def update_conv')

lemma jget_jdel [row_simps]: "jget (jdel k m) k' = (if k' = k then None else jget m k')"
  by (simp add: jget_def jdel_def delete_conv')

lemma distinct_jset [intro]: "distinct (map fst m) \<Longrightarrow> distinct (map fst (jset k v m))"
  by (simp add: jset_def distinct_update)

lemma distinct_jdel [intro]: "distinct (map fst m) \<Longrightarrow> distinct (map fst (jdel k m))"
  by (simp add: jdel_def distinct_delete)

lemma jget_set: "distinct (map fst m) \<Longrightarrow> jget m k = Some v \<longleftrightarrow> (k, v) \<in> set m"
  by (simp add: jget_def)

lemma jget_None_iff: "jget m k = None \<longleftrightarrow> k \<notin> fst ` set m"
  by (simp add: jget_def map_of_eq_None_iff)

lemma in_keys_iff: "k \<in> fst ` set m \<longleftrightarrow> jget m k \<noteq> None"
  by (simp add: jget_None_iff)

lemma keys_jset: "fst ` set (jset k v m) = insert k (fst ` set m)"
  by (rule set_eqI) (simp add: in_keys_iff row_simps)

lemma keys_jdel: "fst ` set (jdel k m) = fst ` set m - {k}"
  by (rule set_eqI) (simp add: in_keys_iff row_simps)

text \<open>The typed reads \<^verbatim>\<open>v, ok := m[k].(T)\<close>.\<close>

definition get_str :: "jmap \<Rightarrow> string \<Rightarrow> string option" where
  "get_str m k = (case jget m k of Some (GStr s) \<Rightarrow> Some s | _ \<Rightarrow> None)"

definition get_obj :: "jmap \<Rightarrow> string \<Rightarrow> jmap option" where
  "get_obj m k = (case jget m k of Some (GObj o') \<Rightarrow> Some o' | _ \<Rightarrow> None)"

definition get_arr :: "jmap \<Rightarrow> string \<Rightarrow> gval list option" where
  "get_arr m k = (case jget m k of Some (GArr a) \<Rightarrow> Some a | _ \<Rightarrow> None)"

definition get_bool :: "jmap \<Rightarrow> string \<Rightarrow> bool option" where
  "get_bool m k = (case jget m k of Some (GBool b) \<Rightarrow> Some b | _ \<Rightarrow> None)"

definition get_float :: "jmap \<Rightarrow> string \<Rightarrow> rat option" where
  "get_float m k = (case jget m k of Some (GFloat f) \<Rightarrow> Some f | _ \<Rightarrow> None)"

lemmas typed_reads = get_str_def get_obj_def get_arr_def get_bool_def get_float_def

definition opt_or :: "'a \<Rightarrow> 'a option \<Rightarrow> 'a" where
  "opt_or d x = (case x of None \<Rightarrow> d | Some v \<Rightarrow> v)"

lemma opt_or_simps [simp]: "opt_or d None = d" "opt_or d (Some v) = v"
  by (simp_all add: opt_or_def)

text \<open>The early return of a fallible call: \<^verbatim>\<open>if err != nil { return err }\<close>.\<close>

fun and_then :: "'e + 'a \<Rightarrow> ('a \<Rightarrow> 'e + 'b) \<Rightarrow> 'e + 'b" where
  "and_then (Inl e) f = Inl e"
| "and_then (Inr x) f = f x"

lemma and_then_Inr: "and_then r f = Inr y \<longleftrightarrow> (\<exists>x. r = Inr x \<and> f x = Inr y)"
  by (cases r) simp_all

lemma and_then_Inl: "and_then r f = Inl e \<longleftrightarrow> r = Inl e \<or> (\<exists>x. r = Inr x \<and> f x = Inl e)"
  by (cases r) simp_all

section \<open>Interfaces\<close>

text \<open>
  A row map: what the record code relies on of the map it keeps rows in. The client
  lemmas are about the three loops the record code runs over a list of keys: restore a key
  the old map holds, restore-or-delete it, and delete it.
\<close>

locale row_map =
  fixes get :: "'m \<Rightarrow> 'k \<Rightarrow> 'v option"
    and put :: "'k \<Rightarrow> 'v \<Rightarrow> 'm \<Rightarrow> 'm"
    and del :: "'k \<Rightarrow> 'm \<Rightarrow> 'm"
  assumes get_put: "get (put k v m) k' = (if k' = k then Some v else get m k')"
    and get_del: "get (del k m) k' = (if k' = k then None else get m k')"
begin

lemma get_restore:
  "get (fold (\<lambda>k e. case get prev k of Some v \<Rightarrow> put k v e | None \<Rightarrow> e) ks m) k
   = (if k \<in> set ks \<and> get prev k \<noteq> None then get prev k else get m k)"
  by (induction ks arbitrary: m) (auto simp: get_put split: option.splits)

lemma get_restore_or_delete:
  "get (fold (\<lambda>k e. case get prev k of Some v \<Rightarrow> put k v e | None \<Rightarrow> del k e) ks m) k
   = (if k \<in> set ks then get prev k else get m k)"
  by (induction ks arbitrary: m) (auto simp: get_put get_del split: option.splits)

lemma get_del_all:
  "get (fold del ks m) k = (if k \<in> set ks then None else get m k)"
  by (induction ks arbitrary: m) (auto simp: get_del)

lemma get_refresh:
  "get (fold (\<lambda>k e. case get e k of Some _ \<Rightarrow> e
     | None \<Rightarrow> (case get prev k of Some v \<Rightarrow> put k v e | None \<Rightarrow> e)) ks m) k
   = (case get m k of Some v \<Rightarrow> Some v | None \<Rightarrow> if k \<in> set ks then get prev k else None)"
  by (induction ks arbitrary: m) (auto simp: get_put split: option.splits)

end

interpretation rows: row_map jget jset jdel
  by unfold_locales (simp_all add: row_simps)

text \<open>
  A codec: an encoder and a partial decoder that reads back what the encoder wrote, on the
  values the encoder is meant for.
\<close>

locale codec =
  fixes enc :: "'a \<Rightarrow> 'b" and dec :: "'b \<Rightarrow> 'a option" and ok :: "'a \<Rightarrow> bool"
  assumes dec_enc: "ok x \<Longrightarrow> dec (enc x) = Some x"
begin

lemma enc_inject: "ok x \<Longrightarrow> ok y \<Longrightarrow> enc x = enc y \<Longrightarrow> x = y"
  by (metis dec_enc option.inject)

end

interpretation decimal: codec dec_nat "\<lambda>s. Some (undec s)" "\<lambda>_. True"
  by unfold_locales simp

text \<open>
  A machine: a step function with an invariant every step keeps. Runs over a list of
  events keep it.
\<close>

locale machine =
  fixes step :: "'s \<Rightarrow> 'e \<Rightarrow> 's" and inv :: "'s \<Rightarrow> bool"
  assumes step_inv: "inv s \<Longrightarrow> inv (step s e)"
begin

lemma run_inv: "inv s \<Longrightarrow> inv (foldl step s es)"
  by (induction es arbitrary: s) (simp_all add: step_inv)

lemma run_inv_prefix: "inv s \<Longrightarrow> inv (foldl step s (take n es))"
  by (rule run_inv)

end

section \<open>Sorting and folding\<close>

lemma insort_filter_set: "set (sort_key f xs) = set xs"
  by simp

lemma distinct_map_sort: "distinct (map f (sort_key g xs)) \<longleftrightarrow> distinct (map f xs)"
  by (simp add: distinct_map)

lemma sorted_list_eq:
  fixes xs ys :: "'a::linorder list"
  assumes "sorted xs" "sorted ys" "distinct xs" "distinct ys" "set xs = set ys"
  shows "xs = ys"
  using assms by (simp add: sorted_distinct_set_unique)

lemma foldl_mono_inv:
  "P s \<Longrightarrow> (\<And>s x. P s \<Longrightarrow> x \<in> set xs \<Longrightarrow> P (f s x)) \<Longrightarrow> P (foldl f s xs)"
  by (induction xs arbitrary: s) auto

end
