(* ===== verification/Device_Record.thy ===== *)
theory Device_Record
  imports Go_Prelude
begin

text \<open>
  The device record and MAC identity of \<^verbatim>\<open>internal/store/store.go\<close>: the record type, the two
  MAC spellings every package shares, the deep copy, and the key=value line writer of
  \<^verbatim>\<open>internal/configtext\<close>.
\<close>

section \<open>The record\<close>

definition StatePending :: int where "StatePending = 1"
definition StateAdopting :: int where "StateAdopting = 2"
definition StateAdopted :: int where "StateAdopted = 3"
definition StateLost :: int where "StateLost = 4"

lemmas device_states = StatePending_def StateAdopting_def StateAdopted_def StateLost_def

record device =
  dev_mac :: string
  dev_name :: string
  dev_model :: string
  dev_firmware :: string
  dev_serial :: string
  dev_site_id :: string
  dev_state :: int
  dev_ip :: string
  dev_inform_url :: string
  dev_last_seen :: int
  dev_first_seen :: int
  dev_cfg_version :: string
  dev_applied_cfg :: string
  dev_authkeys :: "string list"
  dev_x_authkey :: string
  dev_aes_gcm :: bool
  dev_key_confirmed :: bool
  dev_last_ups :: "jmap option"
  dev_extra :: "jmap option"
  dev_led_override :: string
  dev_disabled :: bool
  dev_led_brightness :: "int option"
  dev_led_color :: string
  dev_ssh_password :: string
  dev_country_code :: int
  dev_ssh_keys :: "string list"

text \<open>Go's zero value with a MAC: \<^verbatim>\<open>Device{MAC: mac}\<close>.\<close>

definition new_device :: "string \<Rightarrow> device" where
  "new_device mac = \<lparr>dev_mac = mac, dev_name = [], dev_model = [], dev_firmware = [],
     dev_serial = [], dev_site_id = [], dev_state = 0, dev_ip = [], dev_inform_url = [],
     dev_last_seen = 0, dev_first_seen = 0, dev_cfg_version = [], dev_applied_cfg = [],
     dev_authkeys = [], dev_x_authkey = [], dev_aes_gcm = False, dev_key_confirmed = False,
     dev_last_ups = None, dev_extra = None, dev_led_override = [], dev_disabled = False,
     dev_led_brightness = None, dev_led_color = [], dev_ssh_password = [],
     dev_country_code = 0, dev_ssh_keys = []\<rparr>"

text \<open>
  \<^verbatim>\<open>d.Extra\<close> read as a map (a nil map reads as empty), and the write idiom
  \<^verbatim>\<open>if d.Extra == nil { d.Extra = JSONMap{} }; d.Extra[k] = v\<close>.
\<close>

definition ext :: "device \<Rightarrow> jmap" where
  "ext d = opt_or [] (dev_extra d)"

definition ext_set :: "string \<Rightarrow> gval \<Rightarrow> device \<Rightarrow> device" where
  "ext_set k v d = d\<lparr>dev_extra := Some (jset k v (ext d))\<rparr>"

definition ext_del :: "string \<Rightarrow> device \<Rightarrow> device" where
  "ext_del k d = d\<lparr>dev_extra := map_option (jdel k) (dev_extra d)\<rparr>"

lemma ext_ext_set [simp]: "ext (ext_set k v d) = jset k v (ext d)"
  by (simp add: ext_set_def ext_def)

lemma ext_ext_del [simp]: "ext (ext_del k d) = jdel k (ext d)"
  by (cases "dev_extra d") (simp_all add: ext_del_def ext_def)

lemma ext_extra_update [simp]: "ext (d\<lparr>dev_extra := Some m\<rparr>) = m"
  by (simp add: ext_def)

lemma ext_materialized [simp]: "ext (d\<lparr>dev_extra := Some (ext d)\<rparr>) = ext d"
  by (simp add: ext_def)

section \<open>MAC identity\<close>

definition is_hex :: "char \<Rightarrow> bool" where
  "is_hex c \<longleftrightarrow> (let n = (of_char c :: nat) in
     48 \<le> n \<and> n \<le> 57 \<or> 97 \<le> n \<and> n \<le> 102 \<or> 65 \<le> n \<and> n \<le> 70)"

definition mac_separator :: "char \<Rightarrow> bool" where
  "mac_separator c \<longleftrightarrow> c = CHR '':'' \<or> c = CHR ''-'' \<or> c = CHR ''.'' \<or> c = CHR '' ''"

definition canonicalMAC :: "string \<Rightarrow> string" where
  "canonicalMAC mac = to_lower (filter (\<lambda>c. \<not> mac_separator c) mac)"

datatype mac_error = MacLength nat | MacNotHex

definition CanonicalMAC :: "string \<Rightarrow> mac_error + string" where
  "CanonicalMAC mac = (let c = canonicalMAC mac in
     if length c \<noteq> 12 then Inl (MacLength (length c))
     else if \<not> list_all is_hex c then Inl MacNotHex
     else Inr c)"

fun colon_pairs :: "string \<Rightarrow> string list" where
  "colon_pairs (a # b # r) = [a, b] # colon_pairs r"
| "colon_pairs _ = []"

definition ColonMAC :: "string \<Rightarrow> string" where
  "ColonMAC canonical = (let low = to_lower canonical in
     if length low \<noteq> 12 then low else join_with '':'' (colon_pairs low))"

text \<open>The canonical form, as a predicate: 12 lower-case hexadecimal characters.\<close>

definition canonical :: "string \<Rightarrow> bool" where
  "canonical c \<longleftrightarrow> length c = 12 \<and> list_all is_hex c \<and> to_lower c = c"

lemma is_hex_not_sep: "is_hex c \<Longrightarrow> \<not> mac_separator c"
  by (auto simp: is_hex_def mac_separator_def)

lemma filter_hex: "list_all is_hex s \<Longrightarrow> filter (\<lambda>c. \<not> mac_separator c) s = s"
  by (induction s) (auto simp: is_hex_not_sep)

lemma canonicalMAC_id [mac_simps]: "canonical c \<Longrightarrow> canonicalMAC c = c"
  by (simp add: canonicalMAC_def canonical_def filter_hex)

lemma CanonicalMAC_Inr: "CanonicalMAC m = Inr c \<longleftrightarrow> canonicalMAC m = c \<and> canonical c"
  by (auto simp: CanonicalMAC_def Let_def canonical_def canonicalMAC_def)

lemma CanonicalMAC_canonical [mac_simps]: "canonical c \<Longrightarrow> CanonicalMAC c = Inr c"
  by (simp add: CanonicalMAC_Inr canonicalMAC_id)

lemma CanonicalMAC_D: "CanonicalMAC m = Inr c \<Longrightarrow> canonical c"
  by (simp add: CanonicalMAC_Inr)

lemma canonical_idem: "CanonicalMAC m = Inr c \<Longrightarrow> CanonicalMAC c = Inr c"
  by (simp add: CanonicalMAC_D CanonicalMAC_canonical)

lemma filter_colon_pairs:
  "list_all is_hex s \<Longrightarrow> even (length s) \<Longrightarrow>
   filter (\<lambda>c. \<not> mac_separator c) (join_with '':'' (colon_pairs s)) = s"
proof (induction s rule: colon_pairs.induct)
  case (1 a b r)
  then have ih: "filter (\<lambda>c. \<not> mac_separator c) (join_with '':'' (colon_pairs r)) = r" by simp
  have h: "\<not> mac_separator a" "\<not> mac_separator b" using 1 by (simp_all add: is_hex_not_sep)
  show ?case
  proof (cases "colon_pairs r")
    case Nil
    with ih h show ?thesis by simp
  next
    case (Cons p ps)
    with ih h show ?thesis by (simp add: mac_separator_def)
  qed
qed simp_all

lemma CanonicalMAC_ColonMAC [mac_simps]:
  assumes "canonical c"
  shows "CanonicalMAC (ColonMAC c) = Inr c"
proof -
  have "filter (\<lambda>c. \<not> mac_separator c) (ColonMAC c) = c"
    using assms by (simp add: ColonMAC_def canonical_def Let_def filter_colon_pairs)
  then have "canonicalMAC (ColonMAC c) = c"
    using assms by (simp add: canonicalMAC_def canonical_def)
  with assms show ?thesis by (simp add: CanonicalMAC_Inr)
qed

lemma ColonMAC_inject: "canonical a \<Longrightarrow> canonical b \<Longrightarrow> ColonMAC a = ColonMAC b \<longleftrightarrow> a = b"
  by (metis CanonicalMAC_ColonMAC sum.inject(2))

interpretation colon_mac: codec ColonMAC
  "\<lambda>s. case CanonicalMAC s of Inr c \<Rightarrow> Some c | Inl _ \<Rightarrow> None" canonical
  by unfold_locales (simp add: mac_simps)

section \<open>Deep copy\<close>

fun cloneValue :: "gval \<Rightarrow> gval" where
  "cloneValue (GMap m) = GMap (map (\<lambda>(k, v). (k, cloneValue v)) m)"
| "cloneValue (GObj m) = GObj (map (\<lambda>(k, v). (k, cloneValue v)) m)"
| "cloneValue (GArr a) = GArr (map cloneValue a)"
| "cloneValue (GStrs a) = GStrs a"
| "cloneValue v = v"

definition cloneRows :: "jmap \<Rightarrow> jmap" where
  "cloneRows m = map (\<lambda>(k, v). (k, cloneValue v)) m"

definition CloneDevice :: "device \<Rightarrow> device" where
  "CloneDevice d = d\<lparr>dev_led_brightness := dev_led_brightness d,
     dev_authkeys := dev_authkeys d,
     dev_last_ups := map_option cloneRows (dev_last_ups d),
     dev_extra := map_option cloneRows (dev_extra d)\<rparr>"

lemma cloneValue_id [simp]: "cloneValue v = v"
proof (induction v rule: cloneValue.induct)
  case (1 m)
  then have "map (\<lambda>(k, v). (k, cloneValue v)) m = m"
    by (intro map_idI) force
  then show ?case by simp
next
  case (2 m)
  then have "map (\<lambda>(k, v). (k, cloneValue v)) m = m"
    by (intro map_idI) force
  then show ?case by simp
next
  case (3 a)
  then have "map cloneValue a = a" by (intro map_idI) auto
  then show ?case by simp
qed simp_all

lemma cloneRows_id [simp]: "cloneRows m = m"
  by (simp add: cloneRows_def case_prod_beta)

lemma CloneDevice_id [simp]: "CloneDevice d = d"
  by (cases "dev_last_ups d"; cases "dev_extra d") (simp_all add: CloneDevice_def)

section \<open>Config lines\<close>

text \<open>
  \<^verbatim>\<open>configtext.LineWriter\<close>: a row is appended unless its value holds CR or LF, in which case
  the key is reported; the writer's state is the text so far and the skipped keys.
\<close>

definition has_newline :: "string \<Rightarrow> bool" where
  "has_newline v \<longleftrightarrow> CHR 0x0A \<in> set v \<or> CHR 0x0D \<in> set v"

definition LineWriter :: "string \<Rightarrow> string \<Rightarrow> string \<times> string list \<Rightarrow> string \<times> string list" where
  "LineWriter k v st = (case st of (b, warns) \<Rightarrow>
     if has_newline v then (b, warns @ [k])
     else (b @ k @ ''='' @ v @ [CHR 0x0A], warns))"

definition SiteRef :: "device \<Rightarrow> string" where
  "SiteRef d = (if dev_site_id d = [] then ''default'' else dev_site_id d)"

text \<open>The number of lines a text holds; a row adds one, whatever its value.\<close>

definition line_count :: "string \<Rightarrow> nat" where
  "line_count b = count_list b (CHR 0x0A)"

lemma LineWriter_lines:
  assumes "CHR 0x0A \<notin> set k"
  shows "line_count (fst (LineWriter k v (b, w))) = (if has_newline v then line_count b else line_count b + 1)"
  using assms by (auto simp: LineWriter_def line_count_def has_newline_def count_list_0_iff)

section \<open>Properties\<close>

text \<open>
  A MAC the store accepts has one canonical spelling: it is twelve lower-case hexadecimal
  characters, it is accepted as itself, and its colon spelling reads back to it.
\<close>

theorem CanonicalMAC_stable:
  assumes "CanonicalMAC m = Inr c"
  shows "canonical c \<and> CanonicalMAC c = Inr c \<and> CanonicalMAC (ColonMAC c) = Inr c"
  using assms by (simp add: CanonicalMAC_D canonical_idem CanonicalMAC_ColonMAC)

lemma CanonicalMAC_stable_witness:
  "CanonicalMAC (ColonMAC ''aabbcc001122'') = Inr ''aabbcc001122''"
proof -
  have "CanonicalMAC ''AA-BB.CC 00:11:22'' = Inr ''aabbcc001122''" by code_simp
  from CanonicalMAC_stable [OF this] show ?thesis by blast
qed

end
