(* ===== verification/Store_Locks.thy ===== *)
theory Store_Locks
  imports Device_Record
begin

text \<open>
  The per-MAC locking protocol of \<^verbatim>\<open>internal/store/store.go\<close> (\<open>macLock\<close>, \<open>update\<close>,
  \<open>Delete\<close>) as a step relation over goroutines. Each goroutine resolves the lock of its
  MAC (creating it lazily), acquires it, runs its cycle and releases it; \<open>Delete\<close> also
  drops the lock's map entry while it holds the lock. A cycle that has read the record either writes it
  back or aborts (the closure failed, or \<^verbatim>\<open>UpdateExisting\<close> found no record) and writes nothing. The record is abstracted to a
  version counter which every committed update cycle increments.
\<close>

datatype cycle_kind = Upd | UpdExisting | Del

datatype pc =
    Idle
  | Waiting cycle_kind string nat          \<comment> \<open>lock resolved, not yet acquired\<close>
  | Locked cycle_kind string nat
  | HasCopy cycle_kind string nat "nat option"  \<comment> \<open>after \<^verbatim>\<open>Get\<close>, before \<^verbatim>\<open>Put\<close> or an abort\<close>
  | Finished string nat

record lock_state =
  ls_locks :: "string \<Rightarrow> nat option"       \<comment> \<open>\<^verbatim>\<open>upLocks\<close>\<close>
  ls_next :: nat                            \<comment> \<open>next mutex address\<close>
  ls_held :: "nat \<Rightarrow> nat option"            \<comment> \<open>mutex to holding goroutine\<close>
  ls_pc :: "nat \<Rightarrow> pc"
  ls_val :: "string \<Rightarrow> nat option"         \<comment> \<open>the stored record's version\<close>

datatype lock_event =
    EvResolve nat cycle_kind string
  | EvAcquire nat
  | EvGet nat
  | EvPut nat string
  | EvAbort nat
  | EvRemove nat
  | EvUnlock nat

definition init_locks :: lock_state where
  "init_locks = \<lparr>ls_locks = (\<lambda>_. None), ls_next = 0, ls_held = (\<lambda>_. None),
     ls_pc = (\<lambda>_. Idle), ls_val = (\<lambda>_. None)\<rparr>"

definition goto :: "nat \<Rightarrow> pc \<Rightarrow> lock_state \<Rightarrow> lock_state" where
  "goto t p s = s\<lparr>ls_pc := (ls_pc s)(t := p)\<rparr>"

definition macLock :: "string \<Rightarrow> lock_state \<Rightarrow> nat \<times> lock_state" where
  "macLock mac s = (case ls_locks s mac of
     Some l \<Rightarrow> (l, s)
   | None \<Rightarrow> (ls_next s, s\<lparr>ls_locks := (ls_locks s)(mac \<mapsto> ls_next s), ls_next := Suc (ls_next s)\<rparr>))"

inductive lock_step :: "lock_state \<Rightarrow> lock_event \<Rightarrow> lock_state \<Rightarrow> bool" where
  resolve: "ls_pc s t = Idle \<Longrightarrow> macLock mac s = (l, s') \<Longrightarrow>
     lock_step s (EvResolve t k mac) (goto t (Waiting k mac l) s')"
| acquire: "ls_pc s t = Waiting k mac l \<Longrightarrow> ls_held s l = None \<Longrightarrow>
     lock_step s (EvAcquire t) (goto t (Locked k mac l) (s\<lparr>ls_held := (ls_held s)(l \<mapsto> t)\<rparr>))"
| get: "ls_pc s t = Locked k mac l \<Longrightarrow> k \<noteq> Del \<Longrightarrow>
     lock_step s (EvGet t) (goto t (HasCopy k mac l (ls_val s mac)) s)"
| put: "ls_pc s t = HasCopy k mac l v \<Longrightarrow> k = UpdExisting \<longrightarrow> v \<noteq> None \<Longrightarrow>
     lock_step s (EvPut t mac) (goto t (Finished mac l)
       (s\<lparr>ls_val := (ls_val s)(mac \<mapsto> Suc (opt_or 0 v))\<rparr>))"
| abort: "ls_pc s t = HasCopy k mac l v \<Longrightarrow>
     lock_step s (EvAbort t) (goto t (Finished mac l) s)"
| remove: "ls_pc s t = Locked Del mac l \<Longrightarrow> ls_val s mac = Some v \<Longrightarrow>
     lock_step s (EvRemove t) (goto t (Finished mac l)
       (s\<lparr>ls_val := (ls_val s)(mac := None), ls_locks := (ls_locks s)(mac := None)\<rparr>))"
| absent: "ls_pc s t = Locked Del mac l \<Longrightarrow> ls_val s mac = None \<Longrightarrow>
     lock_step s (EvRemove t) (goto t (Finished mac l) s)"
| unlock: "ls_pc s t = Finished mac l \<Longrightarrow>
     lock_step s (EvUnlock t) (goto t Idle (s\<lparr>ls_held := (ls_held s)(l := None)\<rparr>))"

inductive_simps lock_step_simps:
  "lock_step s (EvResolve t k mac) s'"
  "lock_step s (EvAcquire t) s'"
  "lock_step s (EvGet t) s'"
  "lock_step s (EvPut t m) s'"
  "lock_step s (EvAbort t) s'"
  "lock_step s (EvRemove t) s'"
  "lock_step s (EvUnlock t) s'"

inductive lock_run :: "lock_state \<Rightarrow> lock_event list \<Rightarrow> lock_state \<Rightarrow> bool" where
  run_nil: "lock_run s [] s"
| run_snoc: "lock_run s es s' \<Longrightarrow> lock_step s' e s'' \<Longrightarrow> lock_run s (es @ [e]) s''"

text \<open>Which MAC and lock a goroutine is working on, and whether it is inside its cycle.\<close>

fun pc_lock :: "pc \<Rightarrow> (string \<times> nat) option" where
  "pc_lock Idle = None"
| "pc_lock (Waiting k mac l) = Some (mac, l)"
| "pc_lock (Locked k mac l) = Some (mac, l)"
| "pc_lock (HasCopy k mac l v) = Some (mac, l)"
| "pc_lock (Finished mac l) = Some (mac, l)"

fun holding :: "pc \<Rightarrow> bool" where
  "holding (Locked _ _ _) = True"
| "holding (HasCopy _ _ _ _) = True"
| "holding (Finished _ _) = True"
| "holding _ = False"

definition in_cycle :: "lock_state \<Rightarrow> nat \<Rightarrow> string \<Rightarrow> bool" where
  "in_cycle s t mac \<longleftrightarrow> holding (ls_pc s t) \<and> (\<exists>l. pc_lock (ls_pc s t) = Some (mac, l))"

fun is_delete :: "pc \<Rightarrow> bool" where
  "is_delete (Waiting k _ _) = (k = Del)"
| "is_delete (Locked k _ _) = (k = Del)"
| "is_delete _ = False"

text \<open>A held mutex has one holder, with or without deletes.\<close>

definition held_inv :: "lock_state \<Rightarrow> bool" where
  "held_inv s \<longleftrightarrow> (\<forall>t mac l. holding (ls_pc s t) \<longrightarrow> pc_lock (ls_pc s t) = Some (mac, l)
     \<longrightarrow> ls_held s l = Some t)"

text \<open>Without deletes the map entry of a MAC in use never changes.\<close>

definition entry_inv :: "lock_state \<Rightarrow> bool" where
  "entry_inv s \<longleftrightarrow> (\<forall>t mac l. pc_lock (ls_pc s t) = Some (mac, l) \<longrightarrow> ls_locks s mac = Some l)
     \<and> (\<forall>t. \<not> is_delete (ls_pc s t))"

lemma macLock_frame:
  "macLock mac s = (l, s') \<Longrightarrow> ls_held s' = ls_held s \<and> ls_pc s' = ls_pc s \<and> ls_val s' = ls_val s
     \<and> ls_locks s' mac = Some l \<and> (\<forall>m l'. ls_locks s m = Some l' \<longrightarrow> ls_locks s' m = Some l')"
  by (auto simp: macLock_def split: option.splits)

lemma held_inv_goto:
  assumes "\<And>t' mac l. t' \<noteq> t \<Longrightarrow> holding (ls_pc s t') \<Longrightarrow> pc_lock (ls_pc s t') = Some (mac, l)
      \<Longrightarrow> ls_held s l = Some t'"
    and "\<And>mac l. holding p \<Longrightarrow> pc_lock p = Some (mac, l) \<Longrightarrow> ls_held s l = Some t"
  shows "held_inv (goto t p s)"
  using assms by (auto simp: held_inv_def goto_def)

lemma held_invD:
  "held_inv s \<Longrightarrow> holding (ls_pc s t) \<Longrightarrow> pc_lock (ls_pc s t) = Some (mac, l) \<Longrightarrow> ls_held s l = Some t"
  by (auto simp: held_inv_def)

lemma held_inv_step: "lock_step s e s' \<Longrightarrow> held_inv s \<Longrightarrow> held_inv s'"
proof (induction rule: lock_step.induct)
  case (resolve s t mac l s' k)
  then show ?case
    using macLock_frame [OF resolve(2)] by (intro held_inv_goto) (auto dest: held_invD)
next
  case (acquire s t k mac l)
  then show ?case by (intro held_inv_goto) (auto dest: held_invD)
next
  case (get s t k mac l)
  then have "ls_held s l = Some t" by (auto intro: held_invD [where t = t and mac = mac])
  with get show ?case by (intro held_inv_goto) (auto dest: held_invD)
next
  case (put s t k mac l v)
  then have "ls_held s l = Some t" by (auto intro: held_invD [where t = t and mac = mac])
  with put show ?case by (intro held_inv_goto) (auto dest: held_invD)
next
  case (abort s t k mac l v)
  then have "ls_held s l = Some t" by (auto intro: held_invD [where t = t and mac = mac])
  with abort show ?case by (intro held_inv_goto) (auto dest: held_invD)
next
  case (remove s t mac l v)
  then have "ls_held s l = Some t" by (auto intro: held_invD [where t = t and mac = mac])
  with remove show ?case by (intro held_inv_goto) (auto dest: held_invD)
next
  case (absent s t mac l)
  then have "ls_held s l = Some t" by (auto intro: held_invD [where t = t and mac = mac])
  with absent show ?case by (intro held_inv_goto) (auto dest: held_invD)
next
  case (unlock s t mac l)
  then have "ls_held s l = Some t" by (auto intro: held_invD [where t = t and mac = mac])
  with unlock show ?case by (intro held_inv_goto) (auto dest: held_invD)
qed

lemma entry_inv_goto:
  assumes "entry_inv s" and "\<not> is_delete p"
    and "\<And>mac l. pc_lock p = Some (mac, l) \<Longrightarrow> ls_locks s' mac = Some l"
    and "ls_pc s' = ls_pc s" and "\<And>m l. ls_locks s m = Some l \<Longrightarrow> ls_locks s' m = Some l"
  shows "entry_inv (goto t p s')"
  using assms by (auto simp: entry_inv_def goto_def)

lemma entry_invD:
  assumes "entry_inv s"
  shows "pc_lock (ls_pc s t) = Some (mac, l) \<Longrightarrow> ls_locks s mac = Some l" and "\<not> is_delete (ls_pc s t)"
  using assms unfolding entry_inv_def by blast+

lemma entry_inv_step:
  "lock_step s e s' \<Longrightarrow> entry_inv s \<Longrightarrow> \<forall>t mac. e \<noteq> EvResolve t Del mac \<Longrightarrow> entry_inv s'"
proof (induction rule: lock_step.induct)
  case (resolve s t mac l s' k)
  have "k \<noteq> Del" using resolve(4) by auto
  with resolve macLock_frame [OF resolve(2)] show ?case
    by (intro entry_inv_goto [OF resolve(3)]) auto
next
  case (acquire s t k mac l)
  then have "ls_locks s mac = Some l" by (simp add: entry_invD [where t = t])
  moreover have "\<not> is_delete (ls_pc s t)" using acquire(3) by (rule entry_invD)
  ultimately show ?case using acquire by (intro entry_inv_goto [OF acquire(3)]) auto
next
  case (get s t k mac l)
  then have "ls_locks s mac = Some l" by (simp add: entry_invD [where t = t])
  with get show ?case by (intro entry_inv_goto [OF get(3)]) auto
next
  case (put s t k mac l v)
  then have "ls_locks s mac = Some l" by (simp add: entry_invD [where t = t])
  with put show ?case by (intro entry_inv_goto [OF put(3)]) auto
next
  case (abort s t k mac l v)
  then have "ls_locks s mac = Some l" by (simp add: entry_invD [where t = t])
  with abort show ?case by (intro entry_inv_goto [OF abort(2)]) auto
next
  case (remove s t mac l v)
  then have "is_delete (ls_pc s t)" by simp
  with entry_invD(2) [OF remove(3)] show ?case by blast
next
  case (absent s t mac l)
  then have "is_delete (ls_pc s t)" by simp
  with entry_invD(2) [OF absent(3)] show ?case by blast
next
  case (unlock s t mac l)
  then show ?case by (intro entry_inv_goto [OF unlock(2)]) auto
qed

lemma entry_run_inv:
  "lock_run s es s' \<Longrightarrow> entry_inv s \<Longrightarrow> \<forall>t mac. EvResolve t Del mac \<notin> set es \<Longrightarrow> entry_inv s'"
proof (induction rule: lock_run.induct)
  case (run_snoc s es s' e s'')
  then have "entry_inv s'" and "\<forall>t mac. e \<noteq> EvResolve t Del mac" by auto
  with run_snoc(2) show ?case by (blast intro: entry_inv_step)
qed simp

lemma held_run_inv: "lock_run s es s' \<Longrightarrow> held_inv s \<Longrightarrow> held_inv s'"
  by (induction rule: lock_run.induct) (auto intro: held_inv_step)

lemma lock_inv_init [simp]: "entry_inv init_locks" "held_inv init_locks"
  by (simp_all add: entry_inv_def held_inv_def init_locks_def)

text \<open>The steps as a function, to run a concrete schedule.\<close>

fun lock_exec :: "lock_state \<Rightarrow> lock_event \<Rightarrow> lock_state option" where
  "lock_exec s (EvResolve t k mac) = (if ls_pc s t = Idle
     then (case macLock mac s of (l, s') \<Rightarrow> Some (goto t (Waiting k mac l) s')) else None)"
| "lock_exec s (EvAcquire t) = (case ls_pc s t of
     Waiting k mac l \<Rightarrow> if ls_held s l = None
       then Some (goto t (Locked k mac l) (s\<lparr>ls_held := (ls_held s)(l \<mapsto> t)\<rparr>)) else None
   | _ \<Rightarrow> None)"
| "lock_exec s (EvGet t) = (case ls_pc s t of
     Locked k mac l \<Rightarrow> if k \<noteq> Del then Some (goto t (HasCopy k mac l (ls_val s mac)) s) else None
   | _ \<Rightarrow> None)"
| "lock_exec s (EvPut t m) = (case ls_pc s t of
     HasCopy k mac l v \<Rightarrow> if m \<noteq> mac \<or> k = UpdExisting \<and> v = None then None
       else Some (goto t (Finished mac l) (s\<lparr>ls_val := (ls_val s)(mac \<mapsto> Suc (opt_or 0 v))\<rparr>))
   | _ \<Rightarrow> None)"
| "lock_exec s (EvAbort t) = (case ls_pc s t of
     HasCopy k mac l v \<Rightarrow> Some (goto t (Finished mac l) s)
   | _ \<Rightarrow> None)"
| "lock_exec s (EvRemove t) = (case ls_pc s t of
     Locked k mac l \<Rightarrow> if k = Del
       then Some (goto t (Finished mac l) (if ls_val s mac = None then s
          else s\<lparr>ls_val := (ls_val s)(mac := None), ls_locks := (ls_locks s)(mac := None)\<rparr>))
       else None
   | _ \<Rightarrow> None)"
| "lock_exec s (EvUnlock t) = (case ls_pc s t of
     Finished mac l \<Rightarrow> Some (goto t Idle (s\<lparr>ls_held := (ls_held s)(l := None)\<rparr>))
   | _ \<Rightarrow> None)"

lemma lock_exec_step: "lock_exec s e = Some s' \<longleftrightarrow> lock_step s e s'"
  by (cases e)
     (auto simp: lock_step_simps split: pc.splits if_splits prod.splits cycle_kind.splits)

fun lock_exec_all :: "lock_state \<Rightarrow> lock_event list \<Rightarrow> lock_state option" where
  "lock_exec_all s [] = Some s"
| "lock_exec_all s (e # es) = (case lock_exec s e of None \<Rightarrow> None | Some s' \<Rightarrow> lock_exec_all s' es)"

lemma lock_run_append: "lock_run s es s' \<Longrightarrow> lock_exec_all s' fs = Some s'' \<Longrightarrow> lock_run s (es @ fs) s''"
proof (induction fs arbitrary: es s')
  case (Cons f fs)
  then obtain u where u: "lock_step s' f u" "lock_exec_all u fs = Some s''"
    by (auto simp: lock_exec_step split: option.splits)
  then have "lock_run s (es @ [f]) u" using Cons.prems(1) by (blast intro: run_snoc)
  with Cons.IH u(2) show ?case by fastforce
qed simp

lemma lock_exec_run: "lock_exec_all s fs = Some s' \<Longrightarrow> lock_run s fs s'"
  using lock_run_append [OF run_nil] by fastforce

text \<open>
  A schedule with one delete: goroutine 1 waits on the old mutex while goroutine 0 deletes
  the record and drops the map entry; goroutine 2 then gets a fresh mutex for the same MAC.
\<close>

definition prune_schedule :: "string \<Rightarrow> lock_event list" where
  "prune_schedule mac =
    [EvResolve 0 Upd mac, EvAcquire 0, EvGet 0, EvPut 0 mac, EvUnlock 0,
     EvResolve 0 Del mac, EvAcquire 0, EvResolve 1 Upd mac, EvRemove 0, EvUnlock 0,
     EvAcquire 1, EvResolve 2 Upd mac, EvAcquire 2, EvGet 1, EvGet 2]"

section \<open>Exclusion\<close>

lemma cycle_unique:
  assumes "held_inv s" "entry_inv s"
    and "holding (ls_pc s t)" "pc_lock (ls_pc s t) = Some (mac, l)"
    and "holding (ls_pc s u)" "pc_lock (ls_pc s u) = Some (mac, l')"
  shows "t = u"
proof -
  have "l = l'" using entry_invD(1) [OF assms(2,4)] entry_invD(1) [OF assms(2,6)] by simp
  with held_invD [OF assms(1,3,4)] held_invD [OF assms(1,5)] assms(6) show ?thesis by simp
qed

text \<open>The copy a goroutine is working on is the stored version.\<close>

definition copy_inv :: "lock_state \<Rightarrow> bool" where
  "copy_inv s \<longleftrightarrow> (\<forall>t k mac l v. ls_pc s t = HasCopy k mac l v \<longrightarrow> v = ls_val s mac)"

lemma copy_inv_goto:
  assumes "copy_inv s" "ls_pc s' = ls_pc s" "\<And>k mac l v. p = HasCopy k mac l v \<Longrightarrow> v = ls_val s' mac"
    and "\<And>u k mac l v. u \<noteq> t \<Longrightarrow> ls_pc s u = HasCopy k mac l v \<Longrightarrow> ls_val s' mac = ls_val s mac"
  shows "copy_inv (goto t p s')"
  using assms by (auto simp: copy_inv_def goto_def)

lemma copy_inv_step:
  "lock_step s e s' \<Longrightarrow> held_inv s \<Longrightarrow> entry_inv s \<Longrightarrow> copy_inv s \<Longrightarrow> copy_inv s'"
proof (induction rule: lock_step.induct)
  case (resolve s t mac l s' k)
  then show ?case
    using macLock_frame [OF resolve(2)] by (intro copy_inv_goto [of s]) auto
next
  case (put s t k mac l v)
  have "m \<noteq> mac" if "u \<noteq> t" "ls_pc s u = HasCopy k' m l' v'" for u k' m l' v'
    using cycle_unique [OF put(3,4), of u mac l' t l] that put(1) by auto
  with put show ?case by (intro copy_inv_goto [of s]) auto
next
  case (remove s t mac l v)
  then have "is_delete (ls_pc s t)" by simp
  with entry_invD(2) [OF remove(4)] show ?case by blast
next
  case (absent s t mac l)
  then show ?case by (intro copy_inv_goto [of s]) auto
qed (auto intro!: copy_inv_goto)

lemma copy_run_inv:
  "lock_run s es s' \<Longrightarrow> held_inv s \<Longrightarrow> entry_inv s \<Longrightarrow> copy_inv s \<Longrightarrow>
   \<forall>t mac. EvResolve t Del mac \<notin> set es \<Longrightarrow> copy_inv s'"
proof (induction rule: lock_run.induct)
  case (run_snoc s es s' e s'')
  have "held_inv s'" using run_snoc held_run_inv by blast
  moreover have "entry_inv s'" using run_snoc entry_run_inv by fastforce
  moreover have "copy_inv s'" using run_snoc by simp
  ultimately show ?case using run_snoc(2) copy_inv_step by blast
qed simp

text \<open>The committed cycles of a MAC.\<close>

definition commits :: "string \<Rightarrow> lock_event list \<Rightarrow> nat" where
  "commits mac es = length (filter (\<lambda>e. case e of EvPut _ m \<Rightarrow> m = mac | _ \<Rightarrow> False) es)"

lemma commits_simps [simp]:
  "commits mac [] = 0"
  "commits mac (es @ [e]) = commits mac es + (case e of EvPut _ m \<Rightarrow> if m = mac then 1 else 0 | _ \<Rightarrow> 0)"
  by (simp_all add: commits_def split: lock_event.splits)

lemma version_step:
  assumes "lock_step s e s'" "copy_inv s" "\<not> (\<exists>t. is_delete (ls_pc s t))"
  shows "opt_or 0 (ls_val s' mac) = opt_or 0 (ls_val s mac) + (case e of EvPut _ m \<Rightarrow> if m = mac then 1 else 0 | _ \<Rightarrow> 0)"
  using assms
proof (induction rule: lock_step.induct)
  case (resolve s t m l s' k)
  then show ?case using macLock_frame [OF resolve(2)] by (simp add: goto_def)
next
  case (put s t k m l v)
  then have "v = ls_val s m" by (auto simp: copy_inv_def)
  then show ?case by (simp add: goto_def)
next
  case (remove s t m l v)
  then have "is_delete (ls_pc s t)" by simp
  with remove show ?case by blast
qed (simp_all add: goto_def)

lemma version_run:
  "lock_run s es s' \<Longrightarrow> held_inv s \<Longrightarrow> entry_inv s \<Longrightarrow> copy_inv s \<Longrightarrow> \<forall>t mac. EvResolve t Del mac \<notin> set es \<Longrightarrow>
   opt_or 0 (ls_val s' mac) = opt_or 0 (ls_val s mac) + commits mac es"
proof (induction rule: lock_run.induct)
  case (run_snoc s es s' e s'')
  then have nd: "\<forall>t mac. EvResolve t Del mac \<notin> set es" by auto
  have "entry_inv s'" using entry_run_inv [OF run_snoc(1)] run_snoc(5) nd by blast
  moreover have "copy_inv s'" using copy_run_inv [OF run_snoc(1)] run_snoc(4-6) nd by blast
  ultimately show ?case
    using version_step [OF run_snoc(2), of mac] run_snoc(3) run_snoc(4-6) nd entry_invD(2) by auto
qed simp

section \<open>Properties\<close>

text \<open>
  C35: as long as no delete is started, the read-modify-write cycles of one MAC exclude each other and no
  update is lost, whichever of them commit and whichever abort (a failing closure, a missing record): two
  goroutines are never inside a cycle of the same MAC, the copy a cycle has read is of the version still
  stored, and the stored version of a record has advanced by exactly the number of committed cycles on it.
\<close>

theorem update_cycles_exclusive:
  assumes "lock_run (init_locks\<lparr>ls_val := v0\<rparr>) es s" "list_all (\<lambda>e. \<forall>t mac. e \<noteq> EvResolve t Del mac) es"
  shows "(in_cycle s t mac \<longrightarrow> in_cycle s u mac \<longrightarrow> t = u)
    \<and> (ls_pc s t = HasCopy k mac l v \<longrightarrow> v = ls_val s mac)
    \<and> opt_or 0 (ls_val s mac) = opt_or 0 (v0 mac) + commits mac es"
proof -
  have nd: "\<forall>t mac. EvResolve t Del mac \<notin> set es" using assms(2) by (auto simp: list_all_iff)
  have i: "held_inv (init_locks\<lparr>ls_val := v0\<rparr>)" "entry_inv (init_locks\<lparr>ls_val := v0\<rparr>)" "copy_inv (init_locks\<lparr>ls_val := v0\<rparr>)"
    by (simp_all add: held_inv_def entry_inv_def copy_inv_def init_locks_def)
  have h: "held_inv s" using assms(1) i(1) by (rule held_run_inv)
  have n: "entry_inv s" using assms(1) i(2) nd by (rule entry_run_inv)
  have "copy_inv s" using assms(1) i nd by (rule copy_run_inv)
  then show ?thesis using cycle_unique [OF h n] version_run [OF assms(1) i nd, of mac] by (auto simp: in_cycle_def copy_inv_def)
qed

definition two_cycles :: "lock_event list" where
  "two_cycles = [EvResolve 1 Upd ''m'', EvResolve 2 UpdExisting ''m'', EvAcquire 1, EvGet 1, EvPut 1 ''m'', EvUnlock 1,
     EvResolve 1 Upd ''m'', EvAcquire 1, EvGet 1, EvAbort 1, EvUnlock 1, EvAcquire 2, EvGet 2]"

lemma update_cycles_exclusive_witness:
  "\<exists>s. lock_run init_locks two_cycles s \<and> in_cycle s 2 ''m'' \<and> \<not> in_cycle s 1 ''m'' \<and> ls_val s ''m'' = Some 1
    \<and> opt_or 0 (ls_val s ''m'') = commits ''m'' two_cycles"
proof -
  obtain s where s: "lock_exec_all init_locks two_cycles = Some s" "in_cycle s 2 ''m''"
      "ls_pc s 2 = HasCopy UpdExisting ''m'' 0 (Some 1)"
    by (simp add: two_cycles_def init_locks_def macLock_def goto_def in_cycle_def)
  have r: "lock_run init_locks two_cycles s" using s(1) by (rule lock_exec_run)
  moreover have "init_locks\<lparr>ls_val := (\<lambda>_. None)\<rparr> = init_locks" by (simp add: init_locks_def)
  ultimately have r0: "lock_run (init_locks\<lparr>ls_val := (\<lambda>_. None)\<rparr>) two_cycles s" by simp
  have "list_all (\<lambda>e. \<forall>t mac. e \<noteq> EvResolve t Del mac) two_cycles" by (simp add: two_cycles_def)
  note p = update_cycles_exclusive [OF r0 this]
  have "\<not> in_cycle s 1 ''m''" using p [of 1 "''m''" 2] s(2) by auto
  moreover have "ls_val s ''m'' = Some 1" using p [of 2 "''m''" 2 UpdExisting 0 "Some 1"] s(3) by simp
  ultimately show ?thesis using r s(2) p [of 2 "''m''" 2] by auto
qed

text \<open>
  A delete breaks the exclusion: it drops the lock's map entry while another goroutine waits
  on that lock, so after it two goroutines run cycles on one MAC at once, and of their two
  committed updates only one is in the stored record.
\<close>

theorem delete_breaks_exclusion:
  "\<exists>s s'. lock_run init_locks (prune_schedule mac) s \<and> in_cycle s 1 mac \<and> in_cycle s 2 mac
    \<and> lock_run init_locks (prune_schedule mac @ [EvPut 1 mac, EvPut 2 mac]) s' \<and> ls_val s' mac = Some 1"
proof -
  obtain s where s: "lock_exec_all init_locks (prune_schedule mac) = Some s"
      "in_cycle s 1 mac" "in_cycle s 2 mac"
    by (simp add: prune_schedule_def init_locks_def macLock_def goto_def in_cycle_def)
  obtain s' where s': "lock_exec_all init_locks (prune_schedule mac @ [EvPut 1 mac, EvPut 2 mac]) = Some s'"
      "ls_val s' mac = Some 1"
    by (simp add: prune_schedule_def init_locks_def macLock_def goto_def)
  show ?thesis using s s' lock_exec_run by blast
qed

end
