(* ===== verification/Trust_Policy.thy ===== *)
theory Trust_Policy
  imports Device_Record
begin

text \<open>
  The record trust policy, \<^verbatim>\<open>internal/store/trustpolicy.go\<close>: the three ownership classes of
  record rows, the factory-reset sweep list derived from them, and \<open>Absorb\<close>, the merge that
  folds a decoded inform body into a record.
\<close>

section \<open>Row keys\<close>

definition SSHSha512PasswdKey :: string where "SSHSha512PasswdKey = ''ssh_sha512passwd''"
definition SSHMd5PasswdKey :: string where "SSHMd5PasswdKey = ''ssh_md5passwd''"
definition SystemCfgExtraLinesKey :: string where "SystemCfgExtraLinesKey = ''system_cfg_extra_lines''"
definition MgmtDevKey :: string where "MgmtDevKey = ''mgmt_dev''"
definition AnonymousControllerIDKey :: string where "AnonymousControllerIDKey = ''anonymous_controller_id''"
definition AnonymousSiteIDKey :: string where "AnonymousSiteIDKey = ''anonymous_site_id''"
definition FlagRebootOnConnect :: string where "FlagRebootOnConnect = ''reboot_on_connect''"
definition FlagSetdefaultArmed :: string where "FlagSetdefaultArmed = ''setdefault_armed''"
definition RadioIntentExtraKey :: string where "RadioIntentExtraKey = ''radio_intent''"
definition DeviceWLANsExtraKey :: string where "DeviceWLANsExtraKey = ''device_wlans''"
definition WlanCfgShaKey :: string where "WlanCfgShaKey = ''wlan_cfg_sha''"
definition WlanCfgPendingShaKey :: string where "WlanCfgPendingShaKey = ''wlan_cfg_pending_sha''"
definition WlanCfgPendingWlansKey :: string where "WlanCfgPendingWlansKey = ''wlan_cfg_pending_wlans''"
definition WlanCfgPendingOldWlansKey :: string where "WlanCfgPendingOldWlansKey = ''wlan_cfg_pending_old_wlans''"
definition WlanCfgAppliedWlansKey :: string where "WlanCfgAppliedWlansKey = ''wlan_cfg_applied_wlans''"
definition WlanCfgPendingPlacementsKey :: string where "WlanCfgPendingPlacementsKey = ''wlan_cfg_pending_placements''"
definition WlanCfgAttemptShaKey :: string where "WlanCfgAttemptShaKey = ''wlan_cfg_attempt_sha''"
definition WlanCfgAttemptsKey :: string where "WlanCfgAttemptsKey = ''wlan_cfg_attempts''"
definition WlanCfgLastAttemptKey :: string where "WlanCfgLastAttemptKey = ''wlan_cfg_last_attempt''"
definition WlanCfgDeliveryStatusKey :: string where "WlanCfgDeliveryStatusKey = ''wlan_cfg_delivery_status''"
definition WlanCfgNotRunningMissesKey :: string where "WlanCfgNotRunningMissesKey = ''wlan_cfg_not_running_misses''"
definition WlanCfgOfferedCfgversionKey :: string where "WlanCfgOfferedCfgversionKey = ''wlan_cfg_offered_cfgversion''"
definition WlanCfgVapNotRunningMissesKey :: string where "WlanCfgVapNotRunningMissesKey = ''wlan_cfg_vap_not_running_misses''"
definition WlanCfgMaterializationRebootKey :: string where "WlanCfgMaterializationRebootKey = ''wlan_cfg_materialization_reboot''"
definition BlockedStaExtraKey :: string where "BlockedStaExtraKey = ''blocked_sta''"
definition BlockedStaShaExtraKey :: string where "BlockedStaShaExtraKey = ''blocked_sta_sha''"
definition SessionsExtraKey :: string where "SessionsExtraKey = ''client_sessions''"
definition SessionDisconnectEventExtraKey :: string where "SessionDisconnectEventExtraKey = ''client_disconnect_pending''"
definition CmdTaskKey :: string where "CmdTaskKey = ''cmd_task''"

lemmas key_defs = SSHSha512PasswdKey_def SSHMd5PasswdKey_def SystemCfgExtraLinesKey_def
  MgmtDevKey_def AnonymousControllerIDKey_def AnonymousSiteIDKey_def FlagRebootOnConnect_def
  FlagSetdefaultArmed_def RadioIntentExtraKey_def DeviceWLANsExtraKey_def WlanCfgShaKey_def
  WlanCfgPendingShaKey_def WlanCfgPendingWlansKey_def WlanCfgPendingOldWlansKey_def
  WlanCfgAppliedWlansKey_def WlanCfgPendingPlacementsKey_def WlanCfgAttemptShaKey_def
  WlanCfgAttemptsKey_def WlanCfgLastAttemptKey_def WlanCfgDeliveryStatusKey_def
  WlanCfgNotRunningMissesKey_def WlanCfgOfferedCfgversionKey_def
  WlanCfgVapNotRunningMissesKey_def WlanCfgMaterializationRebootKey_def BlockedStaExtraKey_def
  BlockedStaShaExtraKey_def SessionsExtraKey_def SessionDisconnectEventExtraKey_def CmdTaskKey_def

section \<open>Ownership classes\<close>

definition controllerOwnedKeys :: "string list" where
  "controllerOwnedKeys =
    [WlanCfgShaKey, WlanCfgPendingShaKey, WlanCfgPendingWlansKey,
     WlanCfgPendingOldWlansKey, WlanCfgAppliedWlansKey,
     WlanCfgPendingPlacementsKey, WlanCfgAttemptShaKey, WlanCfgAttemptsKey,
     WlanCfgLastAttemptKey, WlanCfgDeliveryStatusKey,
     WlanCfgNotRunningMissesKey, WlanCfgOfferedCfgversionKey,
     SessionsExtraKey, SessionDisconnectEventExtraKey]"

definition deviceRefreshableKeys :: "string list" where
  "deviceRefreshableKeys =
    [''radio_table'', ''wifi_caps'', ''fw_caps'', ''if_table'', ''ethernet_table'',
     ''uplink'', ''has_eth1'']"

definition adminOwnedKeys :: "string list" where
  "adminOwnedKeys =
    [SystemCfgExtraLinesKey, MgmtDevKey,
     AnonymousControllerIDKey, AnonymousSiteIDKey,
     FlagRebootOnConnect, FlagSetdefaultArmed,
     BlockedStaExtraKey, BlockedStaShaExtraKey,
     WlanCfgVapNotRunningMissesKey, WlanCfgMaterializationRebootKey,
     SSHSha512PasswdKey, SSHMd5PasswdKey,
     ''led_override'', ''disabled'', ''led_override_color_brightness'',
     ''led_override_color'', ''ssh_password'',
     ''regulatory_country_code'', ''ssh_public_keys'',
     RadioIntentExtraKey, DeviceWLANsExtraKey, CmdTaskKey]"

definition excludeKey :: "string list \<Rightarrow> string \<Rightarrow> string list" where
  "excludeKey keys skip = filter (\<lambda>k. k \<noteq> skip) keys"

definition FactoryResetSweepKeys :: "string list" where
  "FactoryResetSweepKeys = excludeKey controllerOwnedKeys SSHSha512PasswdKey
     @ [WlanCfgVapNotRunningMissesKey, WlanCfgMaterializationRebootKey]"

section \<open>Absorption\<close>

definition jsonString :: "jmap \<Rightarrow> string \<Rightarrow> string" where
  "jsonString m key = opt_or [] (get_str m key)"

definition restore_owned :: "jmap \<Rightarrow> jmap \<Rightarrow> jmap" where
  "restore_owned prev m = fold (\<lambda>k e. case jget prev k of Some v \<Rightarrow> jset k v e | None \<Rightarrow> e)
     controllerOwnedKeys m"

definition keep_refreshable :: "jmap \<Rightarrow> jmap \<Rightarrow> jmap" where
  "keep_refreshable prev m = fold (\<lambda>k e. case jget e k of Some _ \<Rightarrow> e
     | None \<Rightarrow> (case jget prev k of Some v \<Rightarrow> jset k v e | None \<Rightarrow> e)) deviceRefreshableKeys m"

definition restore_admin :: "jmap \<Rightarrow> jmap \<Rightarrow> jmap" where
  "restore_admin prev m = fold (\<lambda>k e. case jget prev k of Some v \<Rightarrow> jset k v e | None \<Rightarrow> jdel k e)
     adminOwnedKeys m"

text \<open>
  \<^verbatim>\<open>d.Extra = JSONMap(body)\<close> makes the record's map and the body one map: every later read of
  the body (the refreshable test, \<^verbatim>\<open>stat\<close>, \<^verbatim>\<open>cfgversion\<close>, \<^verbatim>\<open>x_aes_gcm\<close>) sees the restored rows, so
  the model threads one map \<open>m\<close>. The result is the record and that map, which the caller
  goes on using as the body.
\<close>

definition absorb_identity :: "jmap \<Rightarrow> device \<Rightarrow> device" where
  "absorb_identity body d =
    d\<lparr>dev_model := jsonString body ''model'',
      dev_firmware := jsonString body ''version'',
      dev_serial := jsonString body ''serial'',
      dev_ip := jsonString body ''ip'',
      dev_inform_url := jsonString body ''inform_url''\<rparr>"

definition merged_rows :: "jmap \<Rightarrow> jmap \<Rightarrow> jmap" where
  "merged_rows prev body = restore_admin prev (keep_refreshable prev (restore_owned prev body))"

definition absorb_stat :: "jmap \<Rightarrow> device \<Rightarrow> device" where
  "absorb_stat m d =
    (case get_obj m ''stat'' of Some st \<Rightarrow> d\<lparr>dev_last_ups := Some st\<rparr> | None \<Rightarrow> d)"

definition absorb_cfgversion :: "jmap \<Rightarrow> device \<Rightarrow> device" where
  "absorb_cfgversion m d =
    (case get_str m ''cfgversion'' of
       Some cfg \<Rightarrow> if cfg \<noteq> [] then d\<lparr>dev_applied_cfg := cfg\<rparr> else d
     | None \<Rightarrow> d)"

definition absorb_seen :: "int \<Rightarrow> device \<Rightarrow> device" where
  "absorb_seen now d =
    (let d = d\<lparr>dev_last_seen := now\<rparr>
     in if dev_first_seen d = 0 then d\<lparr>dev_first_seen := now\<rparr> else d)"

definition absorb_gcm :: "jmap \<Rightarrow> bool \<Rightarrow> device \<Rightarrow> device" where
  "absorb_gcm m gcmReq d =
    (let d = (if gcmReq then d\<lparr>dev_aes_gcm := True\<rparr> else d)
     in case get_bool m ''x_aes_gcm'' of
          Some v \<Rightarrow> if v then d\<lparr>dev_aes_gcm := True\<rparr> else d
        | None \<Rightarrow> d)"

definition Absorb :: "jmap \<Rightarrow> int \<Rightarrow> bool \<Rightarrow> device \<Rightarrow> device" where
  "Absorb body now gcmReq d =
    (let prev = ext d;
         d = absorb_identity body d;
         m = merged_rows prev body;
         d = d\<lparr>dev_extra := Some m\<rparr>;
         d = absorb_stat m d;
         d = absorb_cfgversion m d;
         d = absorb_seen now d
     in absorb_gcm m gcmReq d)"

lemmas absorb_defs = absorb_identity_def absorb_stat_def absorb_cfgversion_def absorb_seen_def
  absorb_gcm_def

text \<open>Each stage leaves the columns of the other stages alone.\<close>

lemma absorb_stage_row [simp]:
  "dev_extra (absorb_stat m d) = dev_extra d"
  "dev_extra (absorb_cfgversion m d) = dev_extra d"
  "dev_extra (absorb_seen now d) = dev_extra d"
  "dev_extra (absorb_gcm m g d) = dev_extra d"
  by (simp_all add: absorb_defs Let_def split: option.split)

definition admin_columns where
  "admin_columns d = (dev_mac d, dev_name d, dev_site_id d, dev_state d, dev_cfg_version d,
     dev_authkeys d, dev_x_authkey d, dev_key_confirmed d, dev_led_override d, dev_disabled d,
     dev_led_brightness d, dev_led_color d, dev_ssh_password d, dev_country_code d,
     dev_ssh_keys d)"

lemma absorb_stage_columns [simp]:
  "admin_columns (absorb_identity body d) = admin_columns d"
  "admin_columns (d\<lparr>dev_extra := e\<rparr>) = admin_columns d"
  "admin_columns (absorb_stat m d) = admin_columns d"
  "admin_columns (absorb_cfgversion m d) = admin_columns d"
  "admin_columns (absorb_seen now d) = admin_columns d"
  "admin_columns (absorb_gcm m g d) = admin_columns d"
  by (simp_all add: absorb_defs admin_columns_def Let_def split: option.split)

lemma absorb_stage_gcm [simp]:
  "dev_aes_gcm (absorb_identity body d) = dev_aes_gcm d"
  "dev_aes_gcm (absorb_stat m d) = dev_aes_gcm d"
  "dev_aes_gcm (absorb_cfgversion m d) = dev_aes_gcm d"
  "dev_aes_gcm (absorb_seen now d) = dev_aes_gcm d"
  "dev_aes_gcm (absorb_gcm m g d) = (dev_aes_gcm d \<or> g \<or> get_bool m ''x_aes_gcm'' = Some True)"
  by (auto simp: absorb_defs Let_def split: option.split)

lemma absorb_stage_applied [simp]:
  "dev_applied_cfg (absorb_identity body d) = dev_applied_cfg d"
  "dev_applied_cfg (absorb_stat m d) = dev_applied_cfg d"
  "dev_applied_cfg (absorb_seen now d) = dev_applied_cfg d"
  "dev_applied_cfg (absorb_gcm m g d) = dev_applied_cfg d"
  "dev_applied_cfg (absorb_cfgversion m d) = (case get_str m ''cfgversion'' of
      Some c \<Rightarrow> if c \<noteq> [] then c else dev_applied_cfg d | None \<Rightarrow> dev_applied_cfg d)"
  by (simp_all add: absorb_defs Let_def split: option.split)

lemma absorb_stage_seen [simp]:
  "dev_first_seen (absorb_identity body d) = dev_first_seen d"
  "dev_first_seen (absorb_stat m d) = dev_first_seen d"
  "dev_first_seen (absorb_cfgversion m d) = dev_first_seen d"
  "dev_first_seen (absorb_gcm m g d) = dev_first_seen d"
  "dev_first_seen (absorb_seen now d) = (if dev_first_seen d = 0 then now else dev_first_seen d)"
  "dev_last_seen (absorb_gcm m g d) = dev_last_seen d"
  "dev_last_seen (absorb_seen now d) = now"
  by (simp_all add: absorb_defs Let_def split: option.split)

section \<open>The policy\<close>

lemma classes_disjoint:
  "distinct (controllerOwnedKeys @ deviceRefreshableKeys @ adminOwnedKeys)"
  by code_simp

lemma class_facts:
  "k \<in> set adminOwnedKeys \<Longrightarrow> k \<notin> set controllerOwnedKeys \<and> k \<notin> set deviceRefreshableKeys"
  "k \<in> set controllerOwnedKeys \<Longrightarrow> k \<notin> set adminOwnedKeys \<and> k \<notin> set deviceRefreshableKeys"
  "k \<in> set deviceRefreshableKeys \<Longrightarrow> k \<notin> set adminOwnedKeys \<and> k \<notin> set controllerOwnedKeys"
  using classes_disjoint unfolding distinct_append set_append by blast+

text \<open>What a row reads after absorption, by class.\<close>

definition policy_row :: "jmap \<Rightarrow> jmap \<Rightarrow> string \<Rightarrow> gval option" where
  "policy_row prev body k =
    (if k \<in> set adminOwnedKeys then jget prev k
     else if k \<in> set controllerOwnedKeys
       then (case jget prev k of Some v \<Rightarrow> Some v | None \<Rightarrow> jget body k)
     else if k \<in> set deviceRefreshableKeys
       then (case jget body k of Some v \<Rightarrow> Some v | None \<Rightarrow> jget prev k)
     else jget body k)"

lemma restored_row: "jget (merged_rows prev body) k = policy_row prev body k"
  unfolding merged_rows_def restore_admin_def keep_refreshable_def restore_owned_def
    rows.get_restore_or_delete rows.get_refresh rows.get_restore
  by (auto simp: policy_row_def dest: class_facts split: option.splits)

lemma Absorb_extra: "dev_extra (Absorb body now g d) = Some (merged_rows (ext d) body)"
  by (simp add: Absorb_def Let_def)

lemma Absorb_ext: "ext (Absorb body now g d) = merged_rows (ext d) body"
  by (simp add: Absorb_extra ext_def)

lemma Absorb_row: "jget (ext (Absorb body now g d)) k = policy_row (ext d) body k"
  by (simp add: Absorb_ext restored_row)

text \<open>The rows absorption itself reads out of the merged map are in no class.\<close>

lemma unclassed_row:
  assumes "k \<in> {''stat'', ''cfgversion'', ''x_aes_gcm'', ''_type''}"
  shows "policy_row prev body k = jget body k"
proof -
  have "list_all (\<lambda>k. k \<notin> set (controllerOwnedKeys @ deviceRefreshableKeys @ adminOwnedKeys))
      [''stat'', ''cfgversion'', ''x_aes_gcm'', ''_type'']"
    by code_simp
  with assms show ?thesis by (auto simp: policy_row_def)
qed

lemma unclassed_reads:
  "get_obj (merged_rows prev body) ''stat'' = get_obj body ''stat''"
  "get_str (merged_rows prev body) ''cfgversion'' = get_str body ''cfgversion''"
  "get_bool (merged_rows prev body) ''x_aes_gcm'' = get_bool body ''x_aes_gcm''"
  "get_str (merged_rows prev body) ''_type'' = get_str body ''_type''"
  by (simp_all add: typed_reads restored_row unclassed_row)

text \<open>The columns a device cannot change, and the ones it reports.\<close>

lemma Absorb_columns:
  "admin_columns (Absorb body now g d) = admin_columns d"
  "dev_last_seen (Absorb body now g d) = now"
  "dev_first_seen (Absorb body now g d) = (if dev_first_seen d = 0 then now else dev_first_seen d)"
  "dev_applied_cfg (Absorb body now g d) = (case get_str body ''cfgversion'' of
      Some c \<Rightarrow> if c \<noteq> [] then c else dev_applied_cfg d | None \<Rightarrow> dev_applied_cfg d)"
  "dev_aes_gcm (Absorb body now g d) = (dev_aes_gcm d \<or> g \<or> get_bool body ''x_aes_gcm'' = Some True)"
  by (simp_all add: Absorb_def Let_def unclassed_reads split: option.split)

section \<open>Factory reset\<close>

lemma sweep_keys:
  "set FactoryResetSweepKeys = set controllerOwnedKeys
     \<union> {WlanCfgVapNotRunningMissesKey, WlanCfgMaterializationRebootKey}"
proof -
  have "SSHSha512PasswdKey \<notin> set controllerOwnedKeys" by code_simp
  then show ?thesis by (auto simp: FactoryResetSweepKeys_def excludeKey_def)
qed

lemma sweep_row: "jget (fold jdel FactoryResetSweepKeys m) k
    = (if k \<in> set FactoryResetSweepKeys then None else jget m k)"
  by (rule rows.get_del_all)

section \<open>Properties\<close>

text \<open>
  C31: after absorption every row reads by its ownership class (the admin's rows as the record
  held them, the controller's rows from the record when it has them, the refreshable rows from
  the report when it has them, every other row from the report), and the columns the device does
  not own are unchanged.
\<close>

theorem Absorb_policy:
  "jget (ext (Absorb body now g d)) k = policy_row (ext d) body k
   \<and> admin_columns (Absorb body now g d) = admin_columns d"
  by (simp add: Absorb_row Absorb_columns(1))

end
