(* ===== verification/Wlan_Stored.thy ===== *)
theory Wlan_Stored
  imports Trust_Policy
begin

text \<open>
  The WLAN type of \<^verbatim>\<open>internal/wireless/wireless.go\<close>, the stored WLAN format of
  \<^verbatim>\<open>stored.go\<close>, its record row (\<^verbatim>\<open>device_wlans.go\<close>) and the JSON field readers of \<^verbatim>\<open>plan.go\<close>.

  A JSON document is a value of type \<open>gval\<close> whose numbers are \<open>GInt\<close> (an integer literal) or
  \<open>GFloat\<close>. Writing a document as text and reading it back is \<^verbatim>\<open>encoding/json\<close>'s, a record of two
  functions; the field matching and the type checks of decoding into a struct are here.
\<close>

section \<open>WLANs\<close>

record radius_server =
  rs_ip :: string
  rs_port :: int

text \<open>Slices keep Go's difference between nil (\<open>None\<close>) and empty, which the stored format writes.\<close>

record wlan =
  w_name :: string
  w_ssid :: string
  w_security :: string
  w_passphrase :: string
  w_vlan :: int
  w_enabled :: bool
  w_id :: string
  w_band :: string
  w_radius_servers :: "radius_server list option"
  w_radius_secret :: string
  w_radius_vlan_mode :: string
  w_accounting :: bool
  w_acct_servers :: "radius_server list option"
  w_interim_update :: bool
  w_das :: bool

definition zero_wlan :: wlan where
  "zero_wlan = \<lparr>w_name = [], w_ssid = [], w_security = [], w_passphrase = [], w_vlan = 0,
     w_enabled = False, w_id = [], w_band = [], w_radius_servers = None, w_radius_secret = [],
     w_radius_vlan_mode = [], w_accounting = False, w_acct_servers = None,
     w_interim_update = False, w_das = False\<rparr>"

definition zero_server :: radius_server where
  "zero_server = \<lparr>rs_ip = [], rs_port = 0\<rparr>"

section \<open>Encoding\<close>

definition storedRows :: "radius_server list option \<Rightarrow> gval" where
  "storedRows xs = (case xs of None \<Rightarrow> GNil
     | Some ys \<Rightarrow> GArr (map (\<lambda>s. GObj [(''IP'', GStr (rs_ip s)), (''Port'', GInt (rs_port s))]) ys))"

definition stored_record :: "wlan \<Rightarrow> gval" where
  "stored_record w = GObj
    [(''Name'', GStr (w_name w)), (''SSID'', GStr (w_ssid w)),
     (''Security'', GStr (w_security w)), (''Passphrase'', GStr (w_passphrase w)),
     (''VLAN'', GInt (w_vlan w)), (''Enabled'', GBool (w_enabled w)),
     (''ID'', GStr (w_id w)), (''Band'', GStr (w_band w)),
     (''RadiusServers'', storedRows (w_radius_servers w)),
     (''RadiusSecret'', GStr (w_radius_secret w)),
     (''RadiusVLANMode'', GStr (w_radius_vlan_mode w)),
     (''AccountingEnabled'', GBool (w_accounting w)),
     (''AcctServers'', storedRows (w_acct_servers w)),
     (''InterimUpdateEnabled'', GBool (w_interim_update w)),
     (''RadiusDASEnabled'', GBool (w_das w))]"

definition stored_document :: "wlan list option \<Rightarrow> gval" where
  "stored_document wls = (case wls of None \<Rightarrow> GNil | Some ws \<Rightarrow> GArr (map stored_record ws))"

section \<open>Decoding\<close>

text \<open>
  \<^verbatim>\<open>json.Unmarshal\<close> into one typed destination: null leaves it alone, a value of another type
  is an error (\<open>None\<close>), an integer field takes only an integer literal of its range.
\<close>

definition dec_str :: "gval \<Rightarrow> string \<Rightarrow> string option" where
  "dec_str v old = (case v of GStr s \<Rightarrow> Some s | GNil \<Rightarrow> Some old | _ \<Rightarrow> None)"

definition dec_bool :: "gval \<Rightarrow> bool \<Rightarrow> bool option" where
  "dec_bool v old = (case v of GBool b \<Rightarrow> Some b | GNil \<Rightarrow> Some old | _ \<Rightarrow> None)"

definition int64_range :: "int \<Rightarrow> bool" where
  "int64_range n \<longleftrightarrow> - (2 ^ 63) \<le> n \<and> n < 2 ^ 63"

definition dec_int :: "gval \<Rightarrow> int \<Rightarrow> int option" where
  "dec_int v old = (case v of GInt n \<Rightarrow> if int64_range n then Some n else None
     | GNil \<Rightarrow> Some old | _ \<Rightarrow> None)"

text \<open>Keys match a field name regardless of case; an unknown key is ignored.\<close>

fun dec_server_fields :: "jmap \<Rightarrow> radius_server \<Rightarrow> radius_server option" where
  "dec_server_fields [] s = Some s"
| "dec_server_fields ((k, v) # m) s =
    (if equal_fold k ''ip''
       then Option.bind (dec_str v (rs_ip s)) (\<lambda>x. dec_server_fields m (s\<lparr>rs_ip := x\<rparr>))
     else if equal_fold k ''port''
       then Option.bind (dec_int v (rs_port s)) (\<lambda>x. dec_server_fields m (s\<lparr>rs_port := x\<rparr>))
     else dec_server_fields m s)"

definition dec_server :: "gval \<Rightarrow> radius_server \<Rightarrow> radius_server option" where
  "dec_server v old = (case v of GObj m \<Rightarrow> dec_server_fields m old | GNil \<Rightarrow> Some old | _ \<Rightarrow> None)"

text \<open>
  Decoding an array into a slice decodes each element over the element already there, which a
  repeated key makes visible.
\<close>

fun dec_servers :: "gval list \<Rightarrow> radius_server list \<Rightarrow> radius_server list option" where
  "dec_servers [] old = Some []"
| "dec_servers (v # vs) old = Option.bind
     (dec_server v (case old of [] \<Rightarrow> zero_server | s # _ \<Rightarrow> s))
     (\<lambda>s. map_option (Cons s) (dec_servers vs (drop 1 old)))"

definition dec_slice :: "gval \<Rightarrow> radius_server list option \<Rightarrow> radius_server list option option" where
  "dec_slice v old = (case v of
     GArr vs \<Rightarrow> map_option Some (dec_servers vs (opt_or [] old))
   | GNil \<Rightarrow> Some None
   | _ \<Rightarrow> None)"

text \<open>\<^verbatim>\<open>storedWlan\<close>: the embedded WLAN and the twins that carry the stored spelling.\<close>

record stored_wlan =
  sw_wlan :: wlan
  sw_radius_servers :: "radius_server list option"
  sw_radius_secret :: string
  sw_radius_vlan_mode :: string
  sw_accounting :: bool
  sw_acct_servers :: "radius_server list option"
  sw_interim_update :: bool
  sw_das :: bool

definition zero_stored :: stored_wlan where
  "zero_stored = \<lparr>sw_wlan = zero_wlan, sw_radius_servers = None, sw_radius_secret = [],
     sw_radius_vlan_mode = [], sw_accounting = False, sw_acct_servers = None,
     sw_interim_update = False, sw_das = False\<rparr>"

definition dec_admin_field :: "string \<Rightarrow> gval \<Rightarrow> wlan \<Rightarrow> wlan option" where
  "dec_admin_field k v w =
    (if equal_fold k ''name'' then map_option (\<lambda>x. w\<lparr>w_name := x\<rparr>) (dec_str v (w_name w))
     else if equal_fold k ''ssid'' then map_option (\<lambda>x. w\<lparr>w_ssid := x\<rparr>) (dec_str v (w_ssid w))
     else if equal_fold k ''security'' then map_option (\<lambda>x. w\<lparr>w_security := x\<rparr>) (dec_str v (w_security w))
     else if equal_fold k ''passphrase'' then map_option (\<lambda>x. w\<lparr>w_passphrase := x\<rparr>) (dec_str v (w_passphrase w))
     else if equal_fold k ''vlan'' then map_option (\<lambda>x. w\<lparr>w_vlan := x\<rparr>) (dec_int v (w_vlan w))
     else if equal_fold k ''enabled'' then map_option (\<lambda>x. w\<lparr>w_enabled := x\<rparr>) (dec_bool v (w_enabled w))
     else if equal_fold k ''id'' then map_option (\<lambda>x. w\<lparr>w_id := x\<rparr>) (dec_str v (w_id w))
     else if equal_fold k ''band'' then map_option (\<lambda>x. w\<lparr>w_band := x\<rparr>) (dec_str v (w_band w))
     else if equal_fold k ''radius_servers'' then map_option (\<lambda>x. w\<lparr>w_radius_servers := x\<rparr>) (dec_slice v (w_radius_servers w))
     else if equal_fold k ''radius_secret'' then map_option (\<lambda>x. w\<lparr>w_radius_secret := x\<rparr>) (dec_str v (w_radius_secret w))
     else if equal_fold k ''radius_vlan_mode'' then map_option (\<lambda>x. w\<lparr>w_radius_vlan_mode := x\<rparr>) (dec_str v (w_radius_vlan_mode w))
     else if equal_fold k ''accounting_enabled'' then map_option (\<lambda>x. w\<lparr>w_accounting := x\<rparr>) (dec_bool v (w_accounting w))
     else if equal_fold k ''acct_servers'' then map_option (\<lambda>x. w\<lparr>w_acct_servers := x\<rparr>) (dec_slice v (w_acct_servers w))
     else if equal_fold k ''interim_update_enabled'' then map_option (\<lambda>x. w\<lparr>w_interim_update := x\<rparr>) (dec_bool v (w_interim_update w))
     else if equal_fold k ''radius_das_enabled'' then map_option (\<lambda>x. w\<lparr>w_das := x\<rparr>) (dec_bool v (w_das w))
     else Some w)"

definition dec_stored_field :: "string \<Rightarrow> gval \<Rightarrow> stored_wlan \<Rightarrow> stored_wlan option" where
  "dec_stored_field k v s =
    (if equal_fold k ''RadiusServers'' then map_option (\<lambda>x. s\<lparr>sw_radius_servers := x\<rparr>) (dec_slice v (sw_radius_servers s))
     else if equal_fold k ''RadiusSecret'' then map_option (\<lambda>x. s\<lparr>sw_radius_secret := x\<rparr>) (dec_str v (sw_radius_secret s))
     else if equal_fold k ''RadiusVLANMode'' then map_option (\<lambda>x. s\<lparr>sw_radius_vlan_mode := x\<rparr>) (dec_str v (sw_radius_vlan_mode s))
     else if equal_fold k ''AccountingEnabled'' then map_option (\<lambda>x. s\<lparr>sw_accounting := x\<rparr>) (dec_bool v (sw_accounting s))
     else if equal_fold k ''AcctServers'' then map_option (\<lambda>x. s\<lparr>sw_acct_servers := x\<rparr>) (dec_slice v (sw_acct_servers s))
     else if equal_fold k ''InterimUpdateEnabled'' then map_option (\<lambda>x. s\<lparr>sw_interim_update := x\<rparr>) (dec_bool v (sw_interim_update s))
     else if equal_fold k ''RadiusDASEnabled'' then map_option (\<lambda>x. s\<lparr>sw_das := x\<rparr>) (dec_bool v (sw_das s))
     else map_option (\<lambda>w. s\<lparr>sw_wlan := w\<rparr>) (dec_admin_field k v (sw_wlan s)))"

fun dec_stored_fields :: "jmap \<Rightarrow> stored_wlan \<Rightarrow> stored_wlan option" where
  "dec_stored_fields [] s = Some s"
| "dec_stored_fields ((k, v) # m) s = Option.bind (dec_stored_field k v s) (dec_stored_fields m)"

definition dec_stored :: "gval \<Rightarrow> stored_wlan option" where
  "dec_stored v = (case v of GObj m \<Rightarrow> dec_stored_fields m zero_stored
     | GNil \<Rightarrow> Some zero_stored | _ \<Rightarrow> None)"

definition nil_or_empty :: "'a list option \<Rightarrow> bool" where
  "nil_or_empty xs \<longleftrightarrow> opt_or [] xs = []"

definition merge_spellings :: "stored_wlan \<Rightarrow> wlan" where
  "merge_spellings s =
    (let w = sw_wlan s;
         w = (if nil_or_empty (w_radius_servers w) then w\<lparr>w_radius_servers := sw_radius_servers s\<rparr> else w);
         w = (if w_radius_secret w = [] then w\<lparr>w_radius_secret := sw_radius_secret s\<rparr> else w);
         w = (if w_radius_vlan_mode w = [] then w\<lparr>w_radius_vlan_mode := sw_radius_vlan_mode s\<rparr> else w);
         w = w\<lparr>w_accounting := w_accounting w \<or> sw_accounting s\<rparr>;
         w = (if nil_or_empty (w_acct_servers w) then w\<lparr>w_acct_servers := sw_acct_servers s\<rparr> else w);
         w = w\<lparr>w_interim_update := w_interim_update w \<or> sw_interim_update s\<rparr>
     in w\<lparr>w_das := w_das w \<or> sw_das s\<rparr>)"

fun dec_all :: "gval list \<Rightarrow> stored_wlan list option" where
  "dec_all [] = Some []"
| "dec_all (v # vs) = Option.bind (dec_stored v) (\<lambda>s. map_option (Cons s) (dec_all vs))"

definition decode_document :: "gval \<Rightarrow> wlan list option option" where
  "decode_document v = (case v of
     GNil \<Rightarrow> Some None
   | GArr vs \<Rightarrow> map_option (\<lambda>ss. Some (map merge_spellings ss)) (dec_all vs)
   | _ \<Rightarrow> None)"

section \<open>The text and the record row\<close>

record json_text =
  js_marshal :: "gval \<Rightarrow> string"
  js_unmarshal :: "string \<Rightarrow> gval option"
  sha256_hex :: "string \<Rightarrow> string"

text \<open>
  \<^verbatim>\<open>encoding/json\<close> on one document: what it writes, it reads back. It holds of every
  document whose strings are valid UTF-8.
\<close>

definition json_carries :: "json_text \<Rightarrow> gval \<Rightarrow> bool" where
  "json_carries jt v \<longleftrightarrow> js_unmarshal jt (js_marshal jt v) = Some v"

definition EncodeStoredWlans :: "json_text \<Rightarrow> wlan list option \<Rightarrow> string" where
  "EncodeStoredWlans jt wls = js_marshal jt (stored_document wls)"

definition DecodeStoredWlans :: "json_text \<Rightarrow> string \<Rightarrow> wlan list option option" where
  "DecodeStoredWlans jt raw = Option.bind (js_unmarshal jt raw) decode_document"

definition DeviceWLANs :: "json_text \<Rightarrow> device \<Rightarrow> wlan list option" where
  "DeviceWLANs jt d = (if dev_extra d = None then None
     else case get_str (ext d) DeviceWLANsExtraKey of
       None \<Rightarrow> None
     | Some raw \<Rightarrow> if raw = [] then None
         else (case DecodeStoredWlans jt raw of None \<Rightarrow> None | Some out \<Rightarrow> out))"

definition SetDeviceWLANs :: "json_text \<Rightarrow> wlan list option \<Rightarrow> device \<Rightarrow> device" where
  "SetDeviceWLANs jt wlans d =
    (let d = d\<lparr>dev_extra := Some (ext d)\<rparr>
     in if nil_or_empty wlans then ext_del DeviceWLANsExtraKey d
        else ext_set DeviceWLANsExtraKey (GStr (EncodeStoredWlans jt wlans)) d)"

section \<open>Reading JSON fields\<close>

definition all_digits :: "string \<Rightarrow> bool" where
  "all_digits s \<longleftrightarrow> s \<noteq> [] \<and> list_all (\<lambda>c. 48 \<le> (of_char c :: nat) \<and> (of_char c :: nat) \<le> 57) s"

text \<open>\<^verbatim>\<open>strconv.Atoi\<close>: the value (clamped when out of range, zero on a syntax error) and success.\<close>

definition Atoi :: "string \<Rightarrow> int \<times> bool" where
  "Atoi s =
    (let neg = (case s of c # _ \<Rightarrow> c = CHR ''-'' | [] \<Rightarrow> False);
         body = (case s of c # r \<Rightarrow> if c = CHR ''-'' \<or> c = CHR ''+'' then r else s | [] \<Rightarrow> [])
     in if \<not> all_digits body then (0, False)
        else let n = (if neg then - int (undec body) else int (undec body))
          in if n < - (2 ^ 63) then (- (2 ^ 63), False)
             else if 2 ^ 63 - 1 < n then (2 ^ 63 - 1, False)
             else (n, True))"

definition JSONStr :: "jmap \<Rightarrow> string \<Rightarrow> string \<Rightarrow> string" where
  "JSONStr m key def = (case jget m key of
     Some (GStr t) \<Rightarrow> if t \<noteq> [] then t else def
   | Some (GFloat t) \<Rightarrow> if t = f64_of_int (int64_of_f64 t) then itoa (int64_of_f64 t) else format_g t
   | Some (GBool t) \<Rightarrow> if t then ''true'' else ''false''
   | _ \<Rightarrow> def)"

definition JSONBool :: "jmap \<Rightarrow> string \<Rightarrow> bool" where
  "JSONBool m key = opt_or False (get_bool m key)"

definition JSONInt :: "jmap \<Rightarrow> string \<Rightarrow> int" where
  "JSONInt m key = (case jget m key of
     Some (GFloat t) \<Rightarrow> int64_of_f64 t
   | Some (GStr t) \<Rightarrow> fst (Atoi t)
   | _ \<Rightarrow> 0)"

definition NumFromExtra :: "jmap \<Rightarrow> string \<Rightarrow> bool \<times> int" where
  "NumFromExtra extra key = (case jget extra key of
     Some (GFloat v) \<Rightarrow> (True, int64_of_f64 v) | _ \<Rightarrow> (False, 0))"

section \<open>The stored format reads back\<close>

definition server_ok :: "radius_server \<Rightarrow> bool" where
  "server_ok s \<longleftrightarrow> int64_range (rs_port s)"

definition wlan_ok :: "wlan \<Rightarrow> bool" where
  "wlan_ok w \<longleftrightarrow> int64_range (w_vlan w)
     \<and> list_all server_ok (opt_or [] (w_radius_servers w))
     \<and> list_all server_ok (opt_or [] (w_acct_servers w))"

lemma fold_ip_port [simp]:
  "equal_fold ''IP'' ''ip''" "\<not> equal_fold ''Port'' ''ip''" "equal_fold ''Port'' ''port''"
  by code_simp+

lemma dec_rows: "list_all server_ok xs \<Longrightarrow>
    dec_servers (map (\<lambda>s. GObj [(''IP'', GStr (rs_ip s)), (''Port'', GInt (rs_port s))]) xs) [] = Some xs"
  by (induction xs)
    (simp_all add: dec_server_def dec_str_def dec_int_def server_ok_def zero_server_def)

lemma dec_storedRows: "list_all server_ok (opt_or [] xs) \<Longrightarrow> dec_slice (storedRows xs) None = Some xs"
  by (cases xs) (simp_all add: dec_slice_def storedRows_def dec_rows)

lemma lower_names:
  "to_lower ''Name'' = ''name''"
  "to_lower ''SSID'' = ''ssid''"
  "to_lower ''Security'' = ''security''"
  "to_lower ''Passphrase'' = ''passphrase''"
  "to_lower ''VLAN'' = ''vlan''"
  "to_lower ''Enabled'' = ''enabled''"
  "to_lower ''ID'' = ''id''"
  "to_lower ''Band'' = ''band''"
  "to_lower ''RadiusServers'' = ''radiusservers''"
  "to_lower ''RadiusSecret'' = ''radiussecret''"
  "to_lower ''RadiusVLANMode'' = ''radiusvlanmode''"
  "to_lower ''AccountingEnabled'' = ''accountingenabled''"
  "to_lower ''AcctServers'' = ''acctservers''"
  "to_lower ''InterimUpdateEnabled'' = ''interimupdateenabled''"
  "to_lower ''RadiusDASEnabled'' = ''radiusdasenabled''"
  "to_lower ''name'' = ''name''"
  "to_lower ''ssid'' = ''ssid''"
  "to_lower ''security'' = ''security''"
  "to_lower ''passphrase'' = ''passphrase''"
  "to_lower ''vlan'' = ''vlan''"
  "to_lower ''enabled'' = ''enabled''"
  "to_lower ''id'' = ''id''"
  "to_lower ''band'' = ''band''"
  "to_lower ''radius_servers'' = ''radius_servers''"
  "to_lower ''radius_secret'' = ''radius_secret''"
  "to_lower ''radius_vlan_mode'' = ''radius_vlan_mode''"
  "to_lower ''accounting_enabled'' = ''accounting_enabled''"
  "to_lower ''acct_servers'' = ''acct_servers''"
  "to_lower ''interim_update_enabled'' = ''interim_update_enabled''"
  "to_lower ''radius_das_enabled'' = ''radius_das_enabled''"
  by code_simp+

lemma stored_fields:
  "dec_stored_field ''Name'' v s = map_option (\<lambda>w. s\<lparr>sw_wlan := w\<rparr>)
     (map_option (\<lambda>x. sw_wlan s\<lparr>w_name := x\<rparr>) (dec_str v (w_name (sw_wlan s))))"
  "dec_stored_field ''SSID'' v s = map_option (\<lambda>w. s\<lparr>sw_wlan := w\<rparr>)
     (map_option (\<lambda>x. sw_wlan s\<lparr>w_ssid := x\<rparr>) (dec_str v (w_ssid (sw_wlan s))))"
  "dec_stored_field ''Security'' v s = map_option (\<lambda>w. s\<lparr>sw_wlan := w\<rparr>)
     (map_option (\<lambda>x. sw_wlan s\<lparr>w_security := x\<rparr>) (dec_str v (w_security (sw_wlan s))))"
  "dec_stored_field ''Passphrase'' v s = map_option (\<lambda>w. s\<lparr>sw_wlan := w\<rparr>)
     (map_option (\<lambda>x. sw_wlan s\<lparr>w_passphrase := x\<rparr>) (dec_str v (w_passphrase (sw_wlan s))))"
  "dec_stored_field ''VLAN'' v s = map_option (\<lambda>w. s\<lparr>sw_wlan := w\<rparr>)
     (map_option (\<lambda>x. sw_wlan s\<lparr>w_vlan := x\<rparr>) (dec_int v (w_vlan (sw_wlan s))))"
  "dec_stored_field ''Enabled'' v s = map_option (\<lambda>w. s\<lparr>sw_wlan := w\<rparr>)
     (map_option (\<lambda>x. sw_wlan s\<lparr>w_enabled := x\<rparr>) (dec_bool v (w_enabled (sw_wlan s))))"
  "dec_stored_field ''ID'' v s = map_option (\<lambda>w. s\<lparr>sw_wlan := w\<rparr>)
     (map_option (\<lambda>x. sw_wlan s\<lparr>w_id := x\<rparr>) (dec_str v (w_id (sw_wlan s))))"
  "dec_stored_field ''Band'' v s = map_option (\<lambda>w. s\<lparr>sw_wlan := w\<rparr>)
     (map_option (\<lambda>x. sw_wlan s\<lparr>w_band := x\<rparr>) (dec_str v (w_band (sw_wlan s))))"
  by (simp_all add: dec_stored_field_def dec_admin_field_def equal_fold_def lower_names)

lemma stored_twins:
  "dec_stored_field ''RadiusServers'' v s = map_option (\<lambda>x. s\<lparr>sw_radius_servers := x\<rparr>) (dec_slice v (sw_radius_servers s))"
  "dec_stored_field ''RadiusSecret'' v s = map_option (\<lambda>x. s\<lparr>sw_radius_secret := x\<rparr>) (dec_str v (sw_radius_secret s))"
  "dec_stored_field ''RadiusVLANMode'' v s = map_option (\<lambda>x. s\<lparr>sw_radius_vlan_mode := x\<rparr>) (dec_str v (sw_radius_vlan_mode s))"
  "dec_stored_field ''AccountingEnabled'' v s = map_option (\<lambda>x. s\<lparr>sw_accounting := x\<rparr>) (dec_bool v (sw_accounting s))"
  "dec_stored_field ''AcctServers'' v s = map_option (\<lambda>x. s\<lparr>sw_acct_servers := x\<rparr>) (dec_slice v (sw_acct_servers s))"
  "dec_stored_field ''InterimUpdateEnabled'' v s = map_option (\<lambda>x. s\<lparr>sw_interim_update := x\<rparr>) (dec_bool v (sw_interim_update s))"
  "dec_stored_field ''RadiusDASEnabled'' v s = map_option (\<lambda>x. s\<lparr>sw_das := x\<rparr>) (dec_bool v (sw_das s))"
  by (simp_all add: dec_stored_field_def equal_fold_def lower_names)

lemma dec_scalars [simp]:
  "dec_str (GStr x) s = Some x" "dec_bool (GBool b) b' = Some b"
  "int64_range n \<Longrightarrow> dec_int (GInt n) i = Some n"
  by (simp_all add: dec_str_def dec_bool_def dec_int_def)

lemma dec_stored_record:
  assumes "wlan_ok w"
  shows "\<exists>s. dec_stored (stored_record w) = Some s \<and> merge_spellings s = w"
proof -
  have v: "int64_range (w_vlan w)"
    and r: "dec_slice (storedRows (w_radius_servers w)) None = Some (w_radius_servers w)"
    and a: "dec_slice (storedRows (w_acct_servers w)) None = Some (w_acct_servers w)"
    using assms by (simp_all add: wlan_ok_def dec_storedRows)
  show ?thesis
    by (simp add: dec_stored_def stored_record_def stored_fields stored_twins v r a
        zero_stored_def zero_wlan_def merge_spellings_def Let_def nil_or_empty_def)
qed

lemma decode_encoded:
  assumes "list_all wlan_ok (opt_or [] wls)"
  shows "decode_document (stored_document wls) = Some wls"
proof (cases wls)
  case (Some ws)
  have "list_all wlan_ok ws \<Longrightarrow>
      \<exists>ss. dec_all (map stored_record ws) = Some ss \<and> map merge_spellings ss = ws" for ws
  proof (induction ws)
    case (Cons w ws)
    then obtain ss where "dec_all (map stored_record ws) = Some ss" "map merge_spellings ss = ws"
      by auto
    moreover obtain s where "dec_stored (stored_record w) = Some s" "merge_spellings s = w"
      using Cons.prems dec_stored_record [of w] by auto
    ultimately show ?case by simp
  qed simp
  with assms Some obtain ss where "dec_all (map stored_record ws) = Some ss" "map merge_spellings ss = ws"
    by fastforce
  with Some show ?thesis by (simp add: decode_document_def stored_document_def)
qed (simp add: decode_document_def stored_document_def)

interpretation stored_format: codec stored_document decode_document "\<lambda>wls. list_all wlan_ok (opt_or [] wls)"
  by unfold_locales (rule decode_encoded)

lemma Decode_Encode:
  assumes "list_all wlan_ok (opt_or [] wls)" "json_carries jt (stored_document wls)"
  shows "DecodeStoredWlans jt (EncodeStoredWlans jt wls) = Some wls"
  using assms(2) stored_format.dec_enc [OF assms(1)]
  by (simp add: DecodeStoredWlans_def EncodeStoredWlans_def json_carries_def)

lemma SetDeviceWLANs_reads:
  assumes "list_all wlan_ok (opt_or [] wls)" "json_carries jt (stored_document wls)"
    and "js_marshal jt (stored_document wls) \<noteq> []"
  shows "DeviceWLANs jt (SetDeviceWLANs jt wls d) = (if nil_or_empty wls then None else wls)"
proof -
  have "DecodeStoredWlans jt (js_marshal jt (stored_document wls)) = Some wls"
    using Decode_Encode [OF assms(1,2)] by (simp add: EncodeStoredWlans_def)
  moreover have "dev_extra (SetDeviceWLANs jt wls d) \<noteq> None"
    by (simp add: SetDeviceWLANs_def Let_def ext_del_def ext_set_def)
  ultimately show ?thesis using assms(3)
    by (auto simp: DeviceWLANs_def SetDeviceWLANs_def Let_def row_simps get_str_def EncodeStoredWlans_def)
qed

section \<open>Properties\<close>

text \<open>
  C34: the WLAN list set on a record reads back as it was set, an empty or nil list as none, for
  every list whose numbers are 64-bit and whose document the JSON library carries.
\<close>

theorem DeviceWLANs_roundtrip:
  assumes "list_all wlan_ok (opt_or [] wls)" "json_carries jt (stored_document wls)"
    and "js_marshal jt (stored_document wls) \<noteq> []"
  shows "DeviceWLANs jt (SetDeviceWLANs jt wls d) = (if nil_or_empty wls then None else wls)"
  using SetDeviceWLANs_reads [OF assms] .

text \<open>A JSON library for one document: it writes it as one text and reads only that text.\<close>

definition one_document :: "gval \<Rightarrow> json_text" where
  "one_document v = \<lparr>js_marshal = (\<lambda>x. if x = v then ''document'' else ''other''),
     js_unmarshal = (\<lambda>s. if s = ''document'' then Some v else None), sha256_hex = rev\<rparr>"

definition guest_wlan :: wlan where
  "guest_wlan = zero_wlan\<lparr>w_name := ''guest'', w_ssid := ''Guest'', w_vlan := 20, w_enabled := True,
     w_radius_servers := Some [\<lparr>rs_ip = ''10.0.0.1'', rs_port = 1812\<rparr>]\<rparr>"

lemma DeviceWLANs_roundtrip_witness:
  "DeviceWLANs (one_document (stored_document (Some [guest_wlan])))
     (SetDeviceWLANs (one_document (stored_document (Some [guest_wlan]))) (Some [guest_wlan]) (new_device ''m''))
   = Some [guest_wlan]"
proof -
  have "wlan_ok guest_wlan"
    by (simp add: guest_wlan_def zero_wlan_def wlan_ok_def server_ok_def int64_range_def)
  then show ?thesis
    using DeviceWLANs_roundtrip [of "Some [guest_wlan]" "one_document (stored_document (Some [guest_wlan]))" "new_device ''m''"]
    by (simp add: json_carries_def one_document_def nil_or_empty_def)
qed

end
