(* ===== verification/Inform_Wire.thy ===== *)
theory Inform_Wire
  imports Go_Prelude
begin

unbundle bit_operations_syntax

text \<open>
  The inform packet codec, \<^verbatim>\<open>internal/inform\<close>: framing (\<^verbatim>\<open>inform.go\<close>), the CBC and GCM lanes
  (\<^verbatim>\<open>crypto_cbc.go\<close>, \<^verbatim>\<open>crypto_gcm.go\<close>) and the two verbs \<open>Decode\<close> and \<open>Respond\<close>
  (\<^verbatim>\<open>codec.go\<close>). The AES block cipher, the GCM AEAD, the zlib reader, the JSON parser and the
  random source are parameters (record \<open>crypto\<close>); CBC chaining, padding, header layout,
  key selection and every error branch are the code's own and are modelled.
\<close>

section \<open>Wire constants and errors\<close>

definition Magic :: u32 where "Magic = 0x544E4255"
definition PacketVersion :: u32 where "PacketVersion = 0"
definition DataVersion :: u32 where "DataVersion = 1"
definition MaxBodySize :: nat where "MaxBodySize = 0xA00000"
definition HeaderLen :: nat where "HeaderLen = 40"
definition DefaultKeyHex :: string where "DefaultKeyHex = ''ba86f2bbe107c7c57eb5f2690775c712''"

definition FlagEncCBC :: u16 where "FlagEncCBC = 1"
definition FlagZlib :: u16 where "FlagZlib = 2"
definition FlagSnappy :: u16 where "FlagSnappy = 4"
definition FlagGCM :: u16 where "FlagGCM = 8"

definition blockSize :: nat where "blockSize = 16"
definition gcmTagSize :: nat where "gcmTagSize = 16"

lemmas wire_consts = Magic_def PacketVersion_def DataVersion_def MaxBodySize_def HeaderLen_def
lemmas wire_flags = FlagEncCBC_def FlagZlib_def FlagSnappy_def FlagGCM_def

datatype wire_error =
    ContentTooShort | ContentTooLong | BadMagic | HeaderTooShort | BadLength
  | BadDataVersion u32
  | BadMACLength nat
  | KeyHexLength nat | KeyHexChars
  | BadKeySize nat
  | SnappyUnsupported
  | GCMShort | GCMNonce nat | GCMAuth
  | CBCBadIV nat | CBCBadLength nat | CBCPanic
  | ZlibError | ZlibTooLong
  | RandError
  | BadMACString string
  | NotJSONObject
  | NoValidJSON "wire_error option"

record packet =
  p_version :: u32
  p_mac :: bytes
  p_flags :: u16
  p_iv :: bytes
  p_data_version :: u32
  p_payload :: bytes

text \<open>The two array fields have the lengths their Go types and the constructors give them.\<close>

definition wf_packet :: "packet \<Rightarrow> bool" where
  "wf_packet p \<longleftrightarrow> length (p_mac p) = 6 \<and> length (p_iv p) = 16"

section \<open>Big-endian fields\<close>

definition slice :: "nat \<Rightarrow> nat \<Rightarrow> 'a list \<Rightarrow> 'a list" where
  "slice i j xs = take (j - i) (drop i xs)"

definition be32 :: "bytes \<Rightarrow> u32" where
  "be32 b = push_bit 24 (ucast (b ! 0)) OR push_bit 16 (ucast (b ! 1))
     OR push_bit 8 (ucast (b ! 2)) OR ucast (b ! 3)"

definition be16 :: "bytes \<Rightarrow> u16" where
  "be16 b = push_bit 8 (ucast (b ! 0)) OR ucast (b ! 1)"

definition put32 :: "u32 \<Rightarrow> bytes" where
  "put32 w = [ucast (drop_bit 24 w), ucast (drop_bit 16 w), ucast (drop_bit 8 w), ucast w]"

definition put16 :: "u16 \<Rightarrow> bytes" where
  "put16 w = [ucast (drop_bit 8 w), ucast w]"

lemma length_put [simp]: "length (put32 w) = 4" "length (put16 h) = 2"
  by (simp_all add: put32_def put16_def)

lemma be32_put32 [simp]: "be32 (put32 w) = w"
proof (rule bit_word_eqI)
  fix n assume n: "n < LENGTH(32)"
  then consider "n < 8" | "8 \<le> n" "n < 16" | "16 \<le> n" "n < 24" | "24 \<le> n" "n < 32" by fastforce
  then show "bit (be32 (put32 w)) n = bit w n"
    by cases (auto simp: be32_def put32_def bit_simps)
qed

lemma be16_put16 [simp]: "be16 (put16 w) = w"
proof (rule bit_word_eqI)
  fix n assume n: "n < LENGTH(16)"
  then consider "n < 8" | "8 \<le> n" "n < 16" by fastforce
  then show "bit (be16 (put16 w)) n = bit w n"
    by cases (auto simp: be16_def put16_def bit_simps)
qed

lemma bit_u8_ge [simp]: "8 \<le> n \<Longrightarrow> bit (b :: u8) n \<longleftrightarrow> False"
  using bit_imp_le_length [of b n] by auto

lemma put32_be32:
  assumes "length b = 4"
  shows "put32 (be32 b) = b"
proof -
  obtain b0 b1 b2 b3 where b: "b = [b0, b1, b2, b3]"
    using assms by (auto simp: numeral_eq_Suc length_Suc_conv)
  show ?thesis
    by (auto simp: b put32_def be32_def bit_simps intro!: bit_word_eqI)
qed

lemma put16_be16:
  assumes "length b = 2"
  shows "put16 (be16 b) = b"
proof -
  obtain b0 b1 where b: "b = [b0, b1]"
    using assms by (auto simp: numeral_eq_Suc length_Suc_conv)
  show ?thesis
    by (auto simp: b put16_def be16_def bit_simps intro!: bit_word_eqI)
qed

lemma length_slice [simp]: "length (slice i j xs) = min (j - i) (length xs - i)"
  by (simp add: slice_def)

lemma slice_append_slice: "i \<le> j \<Longrightarrow> j \<le> k \<Longrightarrow> slice i j xs @ slice j k xs = slice i k xs"
proof -
  assume "i \<le> j" "j \<le> k"
  then have "k - i = (j - i) + (k - j)" and "drop (j - i) (drop i xs) = drop j xs"
    by simp_all
  then show ?thesis by (simp only: slice_def take_add)
qed

lemma unat_word_of_nat: "n < 2 ^ LENGTH('a) \<Longrightarrow> unat (word_of_nat n :: 'a::len word) = n"
  by (simp add: unsigned_of_nat take_bit_nat_eq_self)

section \<open>Framing: \<open>ParsePacket\<close> and \<open>Serialize\<close>\<close>

definition ParsePacket :: "bytes \<Rightarrow> wire_error + packet" where
  "ParsePacket body =
    (if length body < 8 then Inl ContentTooShort
     else if length body > MaxBodySize then Inl ContentTooLong
     else if be32 (slice 0 4 body) \<noteq> Magic then Inl BadMagic
     else if length body < HeaderLen then Inl HeaderTooShort
     else let dataLen = be32 (slice 36 40 body) in
       if dataLen > word_of_nat (length body - HeaderLen) then Inl BadLength
       else let dv = be32 (slice 32 36 body) in
         if dv \<noteq> DataVersion then Inl (BadDataVersion dv)
         else Inr \<lparr>p_version = be32 (slice 4 8 body),
                   p_mac = slice 8 14 body,
                   p_flags = be16 (slice 14 16 body),
                   p_iv = slice 16 32 body,
                   p_data_version = dv,
                   p_payload = slice HeaderLen (HeaderLen + unat dataLen) body\<rparr>)"

text \<open>\<open>putHeader\<close> writes the 40-byte header; its callers have checked the MAC length.\<close>

definition putHeader :: "packet \<Rightarrow> u32 \<Rightarrow> bytes" where
  "putHeader p payloadLen = put32 Magic @ put32 (p_version p) @ p_mac p @ put16 (p_flags p)
     @ p_iv p @ put32 (p_data_version p) @ put32 payloadLen"

definition headerBytes :: "packet \<Rightarrow> u32 \<Rightarrow> wire_error + bytes" where
  "headerBytes p payloadLen =
    (if length (p_mac p) \<noteq> 6 then Inl (BadMACLength (length (p_mac p)))
     else Inr (putHeader p payloadLen))"

definition Serialize :: "packet \<Rightarrow> wire_error + bytes" where
  "Serialize p =
    (if length (p_mac p) \<noteq> 6 then Inl (BadMACLength (length (p_mac p)))
     else Inr (putHeader p (word_of_nat (length (p_payload p))) @ p_payload p))"

definition NewPacket :: "bytes \<Rightarrow> bytes \<Rightarrow> packet" where
  "NewPacket mac iv = \<lparr>p_version = PacketVersion, p_mac = mac, p_flags = 0, p_iv = iv,
     p_data_version = DataVersion, p_payload = []\<rparr>"

lemma length_putHeader: "wf_packet p \<Longrightarrow> length (putHeader p n) = 40"
  by (simp add: putHeader_def wf_packet_def)

lemma ParsePacket_wf: "ParsePacket body = Inr p \<Longrightarrow> wf_packet p \<and> p_data_version p = DataVersion"
  by (auto simp: ParsePacket_def Let_def wf_packet_def wire_consts split: if_splits)

lemma header_slices:
  assumes "wf_packet p"
  shows "slice 0 4 (putHeader p n @ r) = put32 Magic"
    and "slice 4 8 (putHeader p n @ r) = put32 (p_version p)"
    and "slice 8 14 (putHeader p n @ r) = p_mac p"
    and "slice 14 16 (putHeader p n @ r) = put16 (p_flags p)"
    and "slice 16 32 (putHeader p n @ r) = p_iv p"
    and "slice 32 36 (putHeader p n @ r) = put32 (p_data_version p)"
    and "slice 36 40 (putHeader p n @ r) = put32 n"
    and "slice 40 (40 + k) (putHeader p n @ r) = take k r"
  using assms by (simp_all add: slice_def putHeader_def wf_packet_def)

lemma ParsePacket_Serialize:
  assumes wf: "wf_packet p" and dv: "p_data_version p = DataVersion"
    and len: "HeaderLen + length (p_payload p) \<le> MaxBodySize"
    and s: "Serialize p = Inr b"
  shows "ParsePacket b = Inr p"
proof -
  let ?n = "word_of_nat (length (p_payload p)) :: u32"
  have b: "b = putHeader p ?n @ p_payload p"
    using s wf by (simp add: Serialize_def wf_packet_def)
  have u: "unat ?n = length (p_payload p)"
    using len by (simp add: wire_consts unat_word_of_nat)
  have lb: "length b = 40 + length (p_payload p)"
    using length_putHeader [OF wf] by (simp add: b)
  show ?thesis
    using len dv unfolding ParsePacket_def lb unfolding b
    by (simp add: Let_def wire_consts header_slices [OF wf] u)
qed

lemma Serialize_ParsePacket:
  assumes "ParsePacket body = Inr p"
  shows "Serialize p = Inr (take (HeaderLen + length (p_payload p)) body)"
proof -
  let ?d = "be32 (slice 36 40 body)"
  have l: "40 \<le> length body" "length body \<le> MaxBodySize" "be32 (slice 0 4 body) = Magic"
    and d: "?d \<le> word_of_nat (length body - 40)"
    and p: "p = \<lparr>p_version = be32 (slice 4 8 body), p_mac = slice 8 14 body,
       p_flags = be16 (slice 14 16 body), p_iv = slice 16 32 body,
       p_data_version = be32 (slice 32 36 body), p_payload = slice 40 (40 + unat ?d) body\<rparr>"
    using assms by (auto simp: ParsePacket_def Let_def wire_consts split: if_splits)
  have u: "unat (word_of_nat (length body - 40) :: u32) = length body - 40"
    using l(2) by (simp add: MaxBodySize_def unat_word_of_nat)
  have dl: "unat ?d \<le> length body - 40"
    using d u by (simp add: word_le_nat_alt)
  then have lp: "length (p_payload p) = unat ?d"
    by (simp add: p)
  have pb: "put32 (be32 (slice i (i + 4) body)) = slice i (i + 4) body" if "i + 4 \<le> 40" for i
    using that l(1) by (intro put32_be32) simp
  have ph: "put16 (be16 (slice 14 16 body)) = slice 14 16 body"
    using l(1) by (intro put16_be16) simp
  have m: "put32 Magic = slice 0 4 body"
    using pb [of 0] l(3) by simp
  have "putHeader p ?d = slice 0 4 body @ slice 4 8 body @ slice 8 14 body @ slice 14 16 body
      @ slice 16 32 body @ slice 32 36 body @ slice 36 40 body"
    using pb [of 4] pb [of 32] pb [of 36] ph m by (simp add: putHeader_def p)
  also have "\<dots> = slice 0 40 body"
    by (simp add: slice_append_slice)
  finally have h: "putHeader p ?d = slice 0 40 body" .
  have "Serialize p = Inr (putHeader p ?d @ slice 40 (40 + unat ?d) body)"
    using l(1) lp by (simp add: Serialize_def) (simp add: p)
  also have "\<dots> = Inr (slice 0 (40 + unat ?d) body)"
    unfolding h by (simp add: slice_append_slice)
  finally show ?thesis by (simp add: lp HeaderLen_def slice_def)
qed

section \<open>Properties\<close>

definition frame_ok :: "packet \<Rightarrow> bool" where
  "frame_ok p \<longleftrightarrow> wf_packet p \<and> p_data_version p = DataVersion
     \<and> HeaderLen + length (p_payload p) \<le> MaxBodySize"

definition frame_bytes :: "packet \<Rightarrow> bytes" where
  "frame_bytes p = (case Serialize p of Inr b \<Rightarrow> b | Inl _ \<Rightarrow> [])"

lemma frame_bytes_ok:
  "wf_packet p \<Longrightarrow> frame_bytes p = putHeader p (word_of_nat (length (p_payload p))) @ p_payload p"
  by (simp add: frame_bytes_def Serialize_def wf_packet_def)

text \<open>Bytes after the announced payload are ignored.\<close>

lemma ParsePacket_trailing:
  assumes ok: "frame_ok p" and len: "length (frame_bytes p @ rest) \<le> MaxBodySize"
  shows "ParsePacket (frame_bytes p @ rest) = Inr p"
proof -
  let ?n = "word_of_nat (length (p_payload p)) :: u32"
  have wf: "wf_packet p" and dv: "p_data_version p = DataVersion" using ok by (simp_all add: frame_ok_def)
  note b = frame_bytes_ok [OF wf]
  have lb: "length (frame_bytes p @ rest) = 40 + length (p_payload p) + length rest"
    using length_putHeader [OF wf] by (simp add: b)
  have m: "40 + length (p_payload p) + length rest \<le> MaxBodySize" using len by (simp only: lb)
  have u: "unat ?n = length (p_payload p)"
    "unat (word_of_nat (length (p_payload p) + length rest) :: u32) = length (p_payload p) + length rest"
    using m unat_word_of_nat [of "length (p_payload p) + length rest", where 'a = 32]
    by (simp_all add: wire_consts unat_word_of_nat del: of_nat_add)
  have le: "\<not> ?n > word_of_nat (length (p_payload p) + length rest)"
    using u by (simp add: word_less_nat_alt)
  show ?thesis
    using m le dv unfolding ParsePacket_def lb unfolding b append_assoc
    by (simp add: Let_def wire_consts header_slices [OF wf] u)
qed

lemma ParsePacket_prefix:
  assumes "ParsePacket body = Inr p"
  shows "frame_ok p \<and> length body \<le> MaxBodySize \<and> (\<exists>rest. body = frame_bytes p @ rest)"
proof -
  have l: "40 \<le> length body" "length body \<le> MaxBodySize"
    using assms by (auto simp: ParsePacket_def Let_def wire_consts split: if_splits)
  have f: "frame_bytes p = take (HeaderLen + length (p_payload p)) body"
    using Serialize_ParsePacket [OF assms] by (simp add: frame_bytes_def)
  have w: "wf_packet p" "p_data_version p = DataVersion" using ParsePacket_wf [OF assms] by simp_all
  have "length (frame_bytes p) = 40 + length (p_payload p)"
    using length_putHeader [OF w(1)] by (simp add: frame_bytes_ok [OF w(1)])
  then have "40 + length (p_payload p) \<le> length body" by (simp add: f)
  then show ?thesis using w l f by (metis HeaderLen_def append_take_drop_id frame_ok_def le_trans)
qed

text \<open>
  C18: the packet parser accepts exactly the wire forms of the well-formed packets, within the
  body cap, followed by any trailing bytes, and returns the packet that was framed.
\<close>

theorem ParsePacket_accepts:
  "ParsePacket body = Inr p \<longleftrightarrow>
     frame_ok p \<and> length body \<le> MaxBodySize \<and> (\<exists>rest. body = frame_bytes p @ rest)"
  using ParsePacket_prefix ParsePacket_trailing by blast

end
