(* ===== verification/Go_Text.thy ===== *)
theory Go_Text
  imports Go_Prelude
begin

text \<open>
  The text operations of Go's standard library that the discovery parser, the event history and
  the configuration emitters use: bytes as text, white-space trimming and splitting
  (\<^verbatim>\<open>strings.TrimSpace\<close>, \<^verbatim>\<open>strings.Fields\<close>, \<^verbatim>\<open>strings.Split\<close>), cutting at a separator and unsigned
  decimal parsing. White space is Unicode's: the six ASCII characters and the UTF-8 encodings of the
  other code points \<^verbatim>\<open>unicode.IsSpace\<close> accepts.
\<close>

section \<open>Bytes and text\<close>

definition text_of :: "bytes \<Rightarrow> string" where
  "text_of b = map (\<lambda>w. char_of (unat w)) b"

definition bytes_of :: "string \<Rightarrow> bytes" where
  "bytes_of s = map (\<lambda>c. word_of_nat (of_char c)) s"

lemma text_of_bytes_of [simp]: "text_of (bytes_of s) = s"
proof -
  have "char_of (unat (word_of_nat (of_char c) :: u8)) = c" for c
  proof -
    have "(of_char c :: nat) < 2 ^ 8" using nat_of_char_less_256 [of c] by simp
    then show ?thesis by (simp add: unsigned_of_nat take_bit_nat_eq_self)
  qed
  then show ?thesis by (simp add: text_of_def bytes_of_def comp_def)
qed

lemma bytes_of_text_of [simp]: "bytes_of (text_of b) = b"
proof -
  have "word_of_nat (of_char (char_of (unat w) :: char)) = w" for w :: u8
  proof -
    have "unat w < 256" using unsigned_less [of w] by simp
    then show ?thesis by (simp add: of_char_of)
  qed
  then show ?thesis by (simp add: text_of_def bytes_of_def comp_def)
qed

lemma length_bytes_of [simp]: "length (bytes_of s) = length s"
  by (simp add: bytes_of_def)

lemma length_text_of [simp]: "length (text_of b) = length b"
  by (simp add: text_of_def)

section \<open>White space\<close>

definition utf8_text :: "nat list \<Rightarrow> string" where
  "utf8_text ns = map char_of ns"

definition space_runes :: "string list" where
  "space_runes = map utf8_text ([[9], [10], [11], [12], [13], [32], [0xC2, 0x85], [0xC2, 0xA0], [0xE1, 0x9A, 0x80]]
     @ map (\<lambda>i. [0xE2, 0x80, i]) ([0x80..<0x8B] @ [0xA8, 0xA9, 0xAF])
     @ [[0xE2, 0x81, 0x9F], [0xE3, 0x80, 0x80]])"

lemma space_runes_list [code]: "space_runes = [[CHR 0x09], [CHR 0x0A], [CHR 0x0B], [CHR 0x0C], [CHR 0x0D], [CHR 0x20],
    [CHR 0xC2, CHR 0x85], [CHR 0xC2, CHR 0xA0], [CHR 0xE1, CHR 0x9A, CHR 0x80]]
  @ map (\<lambda>c. [CHR 0xE2, CHR 0x80, c]) [CHR 0x80, CHR 0x81, CHR 0x82, CHR 0x83, CHR 0x84, CHR 0x85, CHR 0x86, CHR 0x87,
      CHR 0x88, CHR 0x89, CHR 0x8A, CHR 0xA8, CHR 0xA9, CHR 0xAF]
  @ [[CHR 0xE2, CHR 0x81, CHR 0x9F], [CHR 0xE3, CHR 0x80, CHR 0x80]]"
  by (simp add: space_runes_def utf8_text_def upt_rec char_of_def bit_0)

text \<open>Stripping every leading occurrence of a list of prefixes.\<close>

function strip :: "string list \<Rightarrow> string \<Rightarrow> string" where
  "strip ps s = (case find (\<lambda>p. p \<noteq> [] \<and> has_prefix p s) ps of
     None \<Rightarrow> s | Some p \<Rightarrow> strip ps (drop (length p) s))"
  by pat_completeness auto

lemma has_prefix_iff: "has_prefix p s \<longleftrightarrow> (\<exists>t. s = p @ t)"
  by (induction p s rule: has_prefix.induct) auto

termination strip
proof (relation "measure (length \<circ> snd)")
  fix ps s p assume "find (\<lambda>p. p \<noteq> [] \<and> has_prefix p s) ps = Some p"
  then have "p \<noteq> []" "has_prefix p s" by (auto simp: find_Some_iff)
  then show "((ps, drop (length p) s), ps, s) \<in> measure (length \<circ> snd)"
    by (cases p) (auto simp: has_prefix_iff)
qed simp

declare strip.simps [simp del]

definition trim_left :: "string \<Rightarrow> string" where
  "trim_left s = strip space_runes s"

definition trim_right :: "string \<Rightarrow> string" where
  "trim_right s = rev (strip (map rev space_runes) (rev s))"

definition trim_space :: "string \<Rightarrow> string" where
  "trim_space s = trim_right (trim_left s)"

lemma strip_suffix: "\<exists>p. s = p @ strip ps s"
proof (induction ps s rule: strip.induct)
  case (1 ps s)
  show ?case
  proof (cases "find (\<lambda>p. p \<noteq> [] \<and> has_prefix p s) ps")
    case None
    then show ?thesis by (simp add: strip.simps [of ps s])
  next
    case (Some p)
    then obtain t where "s = p @ t" by (auto simp: find_Some_iff has_prefix_iff)
    moreover have "strip ps s = strip ps (drop (length p) s)"
      by (simp add: strip.simps [of ps s] Some)
    ultimately show ?thesis using 1 [OF Some] by (metis append_assoc append_eq_conv_conj)
  qed
qed

lemma strip_stuck: "q \<in> set ps \<Longrightarrow> q \<noteq> [] \<Longrightarrow> \<not> has_prefix q (strip ps s)"
proof (induction ps s rule: strip.induct)
  case (1 ps s)
  show ?case
  proof (cases "find (\<lambda>p. p \<noteq> [] \<and> has_prefix p s) ps")
    case None
    then have "\<not> has_prefix q s" using 1 by (auto simp: find_None_iff)
    with None show ?thesis by (simp add: strip.simps [of ps s])
  next
    case (Some p)
    with 1 show ?thesis by (simp add: strip.simps [of ps s])
  qed
qed

lemma trim_space_infix: "\<exists>a b. s = a @ trim_space s @ b"
proof -
  obtain a where a: "s = a @ trim_left s" using strip_suffix unfolding trim_left_def by blast
  obtain b where "rev (trim_left s) = b @ strip (map rev space_runes) (rev (trim_left s))"
    using strip_suffix by blast
  then have "trim_left s = trim_space s @ rev b"
    unfolding trim_space_def trim_right_def by (metis rev_append rev_rev_ident)
  with a show ?thesis by metis
qed

lemma set_trim_space: "set (trim_space s) \<subseteq> set s"
proof -
  obtain a b where "s = a @ trim_space s @ b" using trim_space_infix by blast
  then have "set s = set (a @ trim_space s @ b)" by simp
  then show ?thesis by auto
qed

lemma space_rune_rev: "q \<in> set space_runes \<Longrightarrow> q \<noteq> []"
  by (auto simp: space_runes_def utf8_text_def)

section \<open>Splitting and joining\<close>

text \<open>\<^verbatim>\<open>strings.Split(s, sep)\<close> for a one-byte separator, and \<^verbatim>\<open>strings.ReplaceAll(s, c, "")\<close>.\<close>

fun split_on :: "char \<Rightarrow> string \<Rightarrow> string list" where
  "split_on c [] = [[]]"
| "split_on c (x # xs) = (if x = c then [] # split_on c xs
     else case split_on c xs of [] \<Rightarrow> [[x]] | w # ws \<Rightarrow> (x # w) # ws)"

definition remove_char :: "char \<Rightarrow> string \<Rightarrow> string" where
  "remove_char c s = filter (\<lambda>x. x \<noteq> c) s"

lemma split_on_not_Nil [simp]: "split_on c s \<noteq> []"
  by (cases s) (auto split: list.splits)

lemma split_on_no_sep: "c \<notin> set s \<Longrightarrow> split_on c s = [s]"
  by (induction s) auto

lemma split_on_sep: "c \<notin> set a \<Longrightarrow> split_on c (a @ c # s) = a # split_on c s"
  by (induction a) (auto split: list.splits)

lemma split_join:
  assumes "ws \<noteq> []" "\<forall>w \<in> set ws. c \<notin> set w"
  shows "split_on c (join_with [c] ws) = ws"
  using assms
proof (induction ws rule: induct_list012)
  case (3 x y zs)
  then show ?case by (simp add: split_on_sep)
qed (simp_all add: split_on_no_sep)

text \<open>\<^verbatim>\<open>strings.Cut(s, sep)\<close> for a one-byte separator, and \<^verbatim>\<open>strings.CutSuffix\<close>.\<close>

fun cut_at :: "char \<Rightarrow> string \<Rightarrow> (string \<times> string) option" where
  "cut_at c [] = None"
| "cut_at c (x # xs) = (if x = c then Some ([], xs) else map_option (\<lambda>(a, b). (x # a, b)) (cut_at c xs))"

definition cut_suffix :: "string \<Rightarrow> string \<Rightarrow> string option" where
  "cut_suffix suf s = (if has_prefix (rev suf) (rev s) then Some (take (length s - length suf) s) else None)"

lemma cut_at_Some: "cut_at c s = Some (a, b) \<longleftrightarrow> s = a @ c # b \<and> c \<notin> set a"
proof (induction s arbitrary: a)
  case (Cons x xs)
  then show ?case by (cases a) auto
qed simp

lemma cut_at_None: "cut_at c s = None \<longleftrightarrow> c \<notin> set s"
  by (induction s) auto

text \<open>\<^verbatim>\<open>strings.Fields\<close>: the maximal runs of text between white space.\<close>

function words_from :: "string \<Rightarrow> string \<Rightarrow> string list" where
  "words_from cur [] = (if cur = [] then [] else [cur])"
| "words_from cur (c # cs) = (case find (\<lambda>p. p \<noteq> [] \<and> has_prefix p (c # cs)) space_runes of
     Some p \<Rightarrow> (if cur = [] then [] else [cur]) @ words_from [] (drop (length p) (c # cs))
   | None \<Rightarrow> words_from (cur @ [c]) cs)"
  by pat_completeness auto

termination words_from
proof (relation "measure (length \<circ> snd)")
  fix cur c cs p assume "find (\<lambda>p. p \<noteq> [] \<and> has_prefix p (c # cs)) space_runes = Some p"
  then have "p \<noteq> []" by (auto simp: find_Some_iff)
  then show "(([], drop (length p) (c # cs)), cur, c # cs) \<in> measure (length \<circ> snd)"
    by (cases p) auto
qed auto

definition str_fields :: "string \<Rightarrow> string list" where
  "str_fields s = words_from [] s"

text \<open>\<^verbatim>\<open>strconv.ParseUint(s, 10, bits)\<close>: decimal digits only, within the bit size.\<close>

definition is_digit :: "char \<Rightarrow> bool" where
  "is_digit c \<longleftrightarrow> 48 \<le> (of_char c :: nat) \<and> (of_char c :: nat) \<le> 57"

definition parse_uint :: "nat \<Rightarrow> string \<Rightarrow> nat option" where
  "parse_uint bits s = (if s = [] \<or> \<not> list_all is_digit s \<or> undec s \<ge> 2 ^ bits then None else Some (undec s))"

lemma is_digit_char: "d < 10 \<Longrightarrow> is_digit (digit_char d)"
  by (simp add: is_digit_def digit_char_def of_char_of)

lemma dec_nat_digits: "list_all is_digit (dec_nat n)"
  by (induction n rule: dec_nat.induct) (simp add: dec_nat.simps is_digit_char)

lemma dec_nat_not_Nil [simp]: "dec_nat n \<noteq> []"
  by (simp add: dec_nat.simps)

lemma parse_uint_dec [simp]: "n < 2 ^ bits \<Longrightarrow> parse_uint bits (dec_nat n) = Some n"
  by (simp add: parse_uint_def dec_nat_digits)

interpretation decimal_field: codec dec_nat "parse_uint 64" "\<lambda>n. n < 2 ^ 64"
  by unfold_locales simp

interpretation octets: codec bytes_of "\<lambda>b. Some (text_of b)" "\<lambda>_. True"
  by unfold_locales simp

end
