(* ===== verification/Ssh_Keys.thy ===== *)
theory Ssh_Keys
  imports Inform_Wire Go_Text
begin

text \<open>
  The authorized-key parser of \<^verbatim>\<open>internal/server/systemcfg/sshkey.go\<close>: one line becomes a type, a
  base64 value and a comment, and the decoded value must be a well-formed SSH wire blob that starts
  with its own type name. The base64 decoder is \<^verbatim>\<open>encoding/base64\<close>'s standard one (padded, CR and LF
  skipped, the unused bits of the last group ignored).
\<close>

section \<open>Base64\<close>

definition b64_val :: "char \<Rightarrow> nat option" where
  "b64_val c = (let n = (of_char c :: nat) in
     if 65 \<le> n \<and> n \<le> 90 then Some (n - 65)
     else if 97 \<le> n \<and> n \<le> 122 then Some (n - 71)
     else if 48 \<le> n \<and> n \<le> 57 then Some (n + 4)
     else if n = 43 then Some 62
     else if n = 47 then Some 63
     else None)"

definition b64_pad :: char where "b64_pad = CHR ''=''"

text \<open>The three bytes of four 6-bit values, highest first.\<close>

definition b64_group :: "nat \<Rightarrow> nat \<Rightarrow> nat \<Rightarrow> nat \<Rightarrow> bytes" where
  "b64_group a b c d = (let v = ((a * 64 + b) * 64 + c) * 64 + d
     in [word_of_nat (v div 2 ^ 16), word_of_nat (v div 2 ^ 8), word_of_nat v])"

fun b64_quads :: "string \<Rightarrow> bytes option" where
  "b64_quads [] = Some []"
| "b64_quads (a # b # c # d # rest) = (case (b64_val a, b64_val b) of
     (Some x, Some y) \<Rightarrow>
       if c = b64_pad then (if d = b64_pad \<and> rest = [] then Some (take 1 (b64_group x y 0 0)) else None)
       else (case b64_val c of
         None \<Rightarrow> None
       | Some z \<Rightarrow>
           if d = b64_pad then (if rest = [] then Some (take 2 (b64_group x y z 0)) else None)
           else (case b64_val d of
             None \<Rightarrow> None
           | Some u \<Rightarrow> map_option (\<lambda>bs. b64_group x y z u @ bs) (b64_quads rest)))
   | _ \<Rightarrow> None)"
| "b64_quads _ = None"

definition b64_decode :: "string \<Rightarrow> bytes option" where
  "b64_decode s = b64_quads (filter (\<lambda>c. c \<noteq> CHR 0x0A \<and> c \<noteq> CHR 0x0D) s)"

section \<open>The parser\<close>

record public_key =
  pk_type :: string
  pk_value :: string
  pk_comment :: string

datatype key_error =
    FieldCount nat
  | UnsupportedType string
  | BadBase64
  | BlobTooShort nat
  | BlobTypeLength nat
  | BlobTypeName
  | BlobTruncated nat
  | BlobOverrun nat nat
  | BlobNameOnly
  | KeyNumber nat key_error

text \<open>\<^verbatim>\<open>^(ssh|ecdsa)-[a-z0-9-]+$\<close>\<close>

definition key_type_char :: "char \<Rightarrow> bool" where
  "key_type_char c \<longleftrightarrow> (let n = (of_char c :: nat) in 97 \<le> n \<and> n \<le> 122 \<or> 48 \<le> n \<and> n \<le> 57 \<or> n = 45)"

definition key_type_ok :: "string \<Rightarrow> bool" where
  "key_type_ok t \<longleftrightarrow>
     has_prefix ''ssh-'' t \<and> drop 4 t \<noteq> [] \<and> list_all key_type_char (drop 4 t)
   \<or> has_prefix ''ecdsa-'' t \<and> drop 6 t \<noteq> [] \<and> list_all key_type_char (drop 6 t)"

text \<open>The loop over the remaining length-prefixed fields: the number of fields seen at the end.\<close>

function walk_fields :: "bytes \<Rightarrow> nat \<Rightarrow> nat \<Rightarrow> key_error + nat" where
  "walk_fields raw off n =
    (if off < length raw
     then if length raw - off < 4 then Inl (BlobTruncated off)
       else let l = unat (be32 (drop off raw)); off' = off + 4
         in if length raw - off' < l then Inl (BlobOverrun off l)
            else walk_fields raw (off' + l) (n + 1)
     else Inr n)"
  by pat_completeness auto

termination walk_fields
  by (relation "measure (\<lambda>(raw, off, n). length raw - off)") auto

declare walk_fields.simps [simp del]

definition walkWireBlob :: "bytes \<Rightarrow> string \<Rightarrow> key_error + unit" where
  "walkWireBlob raw typ =
    (if length raw < 4 + length typ then Inl (BlobTooShort (length raw))
     else if unat (be32 raw) \<noteq> length typ then Inl (BlobTypeLength (unat (be32 raw)))
     else if text_of (slice 4 (4 + length typ) raw) \<noteq> typ then Inl BlobTypeName
     else and_then (walk_fields raw (4 + length typ) 1)
       (\<lambda>n. if n < 2 then Inl BlobNameOnly else Inr ()))"

definition ParsePublicKey :: "string \<Rightarrow> key_error + public_key" where
  "ParsePublicKey line =
    (let fields = str_fields line
     in if length fields < 2 \<or> 3 < length fields then Inl (FieldCount (length fields))
        else if \<not> key_type_ok (fields ! 0) then Inl (UnsupportedType (fields ! 0))
        else (case b64_decode (fields ! 1) of
          None \<Rightarrow> Inl BadBase64
        | Some raw \<Rightarrow>
            let pk = \<lparr>pk_type = fields ! 0, pk_value = fields ! 1,
                      pk_comment = (if length fields = 3 then fields ! 2 else [])\<rparr>
            in and_then (walkWireBlob raw (pk_type pk)) (\<lambda>_. Inr pk)))"

fun parse_keys_from :: "nat \<Rightarrow> string list \<Rightarrow> key_error + public_key list" where
  "parse_keys_from i [] = Inr []"
| "parse_keys_from i (line # rest) = (case ParsePublicKey line of
     Inl e \<Rightarrow> Inl (KeyNumber (i + 1) e)
   | Inr k \<Rightarrow> and_then (parse_keys_from (i + 1) rest) (\<lambda>ks. Inr (k # ks)))"

definition parseDeviceSSHPublicKeys :: "string list \<Rightarrow> key_error + public_key list" where
  "parseDeviceSSHPublicKeys lines = parse_keys_from 0 lines"

section \<open>The wire format\<close>

text \<open>The reference: a blob is the concatenation of its length-prefixed fields.\<close>

definition wire_field :: "bytes \<Rightarrow> bytes" where
  "wire_field f = put32 (word_of_nat (length f)) @ f"

definition wire_blob :: "bytes list \<Rightarrow> bytes" where
  "wire_blob fs = concat (map wire_field fs)"

definition short_field :: "bytes \<Rightarrow> bool" where
  "short_field f \<longleftrightarrow> length f < 2 ^ 32"

lemma wire_blob_simps [simp]:
  "wire_blob [] = []" "wire_blob (f # fs) = wire_field f @ wire_blob fs"
  by (simp_all add: wire_blob_def)

lemma length_wire_field [simp]: "length (wire_field f) = 4 + length f"
  by (simp add: wire_field_def put32_def)

lemma be32_append: "length a = 4 \<Longrightarrow> be32 (a @ b) = be32 a"
  by (simp add: be32_def nth_append)

lemma be32_field: "short_field f \<Longrightarrow> unat (be32 (wire_field f @ r)) = length f"
  by (simp add: wire_field_def be32_append short_field_def unat_of_nat take_bit_nat_eq_self)

lemma field_of_prefix:
  assumes "4 \<le> length b" "unat (be32 b) \<le> length b - 4"
  obtains f r where "b = wire_field f @ r" "short_field f" "length f = unat (be32 b)" "r = drop (4 + unat (be32 b)) b"
proof
  let ?l = "unat (be32 b)"
  show "b = wire_field (take ?l (drop 4 b)) @ drop (4 + ?l) b"
  proof -
    have "put32 (be32 (take 4 b)) = take 4 b" using assms(1) by (simp add: put32_be32)
    moreover have "be32 (take 4 b) = be32 b"
      using assms(1) be32_append [of "take 4 b" "drop 4 b"] by simp
    ultimately have "b = put32 (be32 b) @ drop 4 b" by (metis append_take_drop_id)
    moreover have "drop 4 b = take ?l (drop 4 b) @ drop (4 + ?l) b"
      by (metis add.commute append_take_drop_id drop_drop)
    ultimately show ?thesis using assms by (simp add: wire_field_def)
  qed
  show "length (take ?l (drop 4 b)) = ?l" using assms by simp
  then show "short_field (take ?l (drop 4 b))"
    using unsigned_less [of "be32 b"] by (simp add: short_field_def)
  show "drop (4 + ?l) b = drop (4 + ?l) b" ..
qed

lemma wire_blob_Nil [simp]: "wire_blob fs = [] \<longleftrightarrow> fs = []"
proof (cases fs)
  case (Cons f gs)
  have "length (wire_blob (f # gs)) \<noteq> 0" by simp
  with Cons show ?thesis by (metis list.distinct(1) list.size(3))
qed simp

lemma walk_fields_step:
  assumes "off < length raw" "drop off raw = wire_field f @ r" "short_field f"
  shows "walk_fields raw off n = walk_fields raw (off + 4 + length f) (n + 1)"
    "drop (off + 4 + length f) raw = r" "off + 4 + length f \<le> length raw"
proof -
  have l: "length raw - off = 4 + length f + length r"
    using arg_cong [OF assms(2), of length] by simp
  have "unat (be32 (drop off raw)) = length f" using be32_field [OF assms(3)] assms(2) by simp
  then show "walk_fields raw off n = walk_fields raw (off + 4 + length f) (n + 1)"
    using assms(1) l by (subst walk_fields.simps) (auto simp: Let_def)
  have "drop (off + 4 + length f) raw = drop (4 + length f) (drop off raw)" by (simp add: add_ac)
  then show "drop (off + 4 + length f) raw = r" by (simp add: assms(2))
  show "off + 4 + length f \<le> length raw" using l assms(1) by simp
qed

lemma walk_fields_complete:
  "list_all short_field fs \<Longrightarrow> drop off raw = wire_blob fs \<Longrightarrow> walk_fields raw off n = Inr (n + length fs)"
proof (induction fs arbitrary: off n)
  case Nil
  then show ?case by (subst walk_fields.simps) simp
next
  case (Cons f fs)
  then have "off < length raw" using drop_eq_Nil by (metis list.distinct(1) not_le wire_blob_Nil)
  from walk_fields_step [OF this, of f "wire_blob fs"] Cons show ?case by simp
qed

lemma walk_fields_stuck:
  assumes "off < length raw" "walk_fields raw off n = Inr m"
  obtains f r where "drop off raw = wire_field f @ r" "short_field f"
proof -
  have "4 \<le> length (drop off raw)" "unat (be32 (drop off raw)) \<le> length (drop off raw) - 4"
    using assms(2) unfolding walk_fields.simps [of raw off n]
    by (simp_all add: assms(1) Let_def not_less split: if_splits)
  from field_of_prefix [OF this] that show ?thesis by metis
qed

lemma walk_fields_sound:
  "off \<le> length raw \<Longrightarrow> walk_fields raw off n = Inr m \<Longrightarrow>
   \<exists>fs. list_all short_field fs \<and> drop off raw = wire_blob fs \<and> m = n + length fs"
proof (induction "length raw - off" arbitrary: off n rule: less_induct)
  case less
  show ?case
  proof (cases "off < length raw")
    case False
    with less.prems show ?thesis
      by (subst (asm) walk_fields.simps) (auto intro!: exI [of _ "[]"])
  next
    case True
    from walk_fields_stuck [OF True less.prems(2)] obtain f r
      where f: "drop off raw = wire_field f @ r" "short_field f" .
    note step = walk_fields_step [OF True f]
    have "\<exists>fs. list_all short_field fs \<and> r = wire_blob fs \<and> m = n + 1 + length fs"
      using less.hyps [of "off + 4 + length f" "n + 1"] step less.prems True by auto
    then obtain fs where "list_all short_field fs" "r = wire_blob fs" "m = n + 1 + length fs" by blast
    with f show ?thesis by (intro exI [of _ "f # fs"]) simp
  qed
qed

lemma slice_name:
  assumes "raw = wire_field (bytes_of typ) @ r"
  shows "slice 4 (4 + length typ) raw = bytes_of typ" "drop (4 + length typ) raw = r"
  using assms by (simp_all add: slice_def wire_field_def)

text \<open>The blob check is exact: nothing is left over and no declared length reaches past the end.\<close>

lemma key_blob_exact:
  "walkWireBlob raw typ = Inr () \<longleftrightarrow>
     (\<exists>fs. fs \<noteq> [] \<and> list_all short_field (bytes_of typ # fs) \<and> raw = wire_blob (bytes_of typ # fs))"
    (is "?L \<longleftrightarrow> ?R")
proof
  assume ?L
  then have l: "4 + length typ \<le> length raw" "unat (be32 raw) = length typ"
      "text_of (slice 4 (4 + length typ) raw) = typ"
    and w: "\<exists>n. walk_fields raw (4 + length typ) 1 = Inr n \<and> 2 \<le> n"
    by (auto simp: walkWireBlob_def and_then_Inr not_less split: if_splits)
  from w obtain n where n: "walk_fields raw (4 + length typ) 1 = Inr n" "2 \<le> n" by blast
  from walk_fields_sound [OF l(1) n(1)] n(2) obtain fs
    where fs: "list_all short_field fs" "drop (4 + length typ) raw = wire_blob fs" "1 \<le> length fs" by auto
  have "4 \<le> length raw" "unat (be32 raw) \<le> length raw - 4" using l by simp_all
  from field_of_prefix [OF this] obtain f r where f: "raw = wire_field f @ r" "short_field f"
      "length f = length typ" "r = drop (4 + length typ) raw"
    using l(2) by metis
  have "slice 4 (4 + length typ) raw = f" using f(1,3) by (simp add: slice_def wire_field_def)
  with l(3) have "f = bytes_of typ" by auto
  with f fs show ?R by (intro exI [of _ fs]) auto
next
  assume ?R
  then obtain fs where fs: "fs \<noteq> []" "list_all short_field fs" "short_field (bytes_of typ)"
    "raw = wire_field (bytes_of typ) @ wire_blob fs" by auto
  have "unat (be32 raw) = length typ" using be32_field [OF fs(3)] fs(4) by simp
  moreover have "walk_fields raw (4 + length typ) 1 = Inr (1 + length fs)"
    using walk_fields_complete [OF fs(2)] slice_name(2) [OF fs(4)] by simp
  moreover have "\<not> length raw < 4 + length typ" using fs(4) by simp
  moreover have "2 \<le> 1 + length fs" using fs(1) by (cases fs) simp_all
  ultimately show ?L
    using slice_name(1) [OF fs(4)] fs(1) by (simp add: walkWireBlob_def)
qed

section \<open>Properties\<close>

lemma words_from_nonempty: "[] \<notin> set (words_from cur s)"
  by (induction cur s rule: words_from.induct) (auto split: option.splits if_splits)

lemma newline_rune: "c = CHR 0x0A \<or> c = CHR 0x0D \<Longrightarrow> find (\<lambda>p. p \<noteq> [] \<and> has_prefix p (c # cs)) space_runes \<noteq> None"
proof -
  assume c: "c = CHR 0x0A \<or> c = CHR 0x0D"
  have "[CHR 0x0A] \<in> set space_runes" "[CHR 0x0D] \<in> set space_runes" by code_simp+
  with c have "[c] \<in> set space_runes" by auto
  then show ?thesis by (auto simp: find_None_iff intro: bexI [of _ "[c]"])
qed

lemma words_from_no_newline:
  "w \<in> set (words_from cur s) \<Longrightarrow> n = CHR 0x0A \<or> n = CHR 0x0D \<Longrightarrow> n \<notin> set cur \<Longrightarrow> n \<notin> set w"
proof (induction cur s rule: words_from.induct)
  case (1 cur)
  then show ?case by (auto split: if_splits)
next
  case (2 cur c cs)
  then show ?case
  proof (cases "find (\<lambda>p. p \<noteq> [] \<and> has_prefix p (c # cs)) space_runes")
    case None
    then have "c \<noteq> n" using newline_rune 2(4) by metis
    with None 2 show ?thesis by simp
  next
    case (Some p)
    with 2 show ?thesis by (auto split: if_splits)
  qed
qed

lemma fields_clean:
  "w \<in> set (str_fields s) \<Longrightarrow> w \<noteq> [] \<and> CHR 0x0A \<notin> set w \<and> CHR 0x0D \<notin> set w"
  using words_from_nonempty [of "[]" s] words_from_no_newline [of w "[]" s]
  by (auto simp: str_fields_def)

definition key_words :: "public_key \<Rightarrow> string list" where
  "key_words k = pk_type k # pk_value k # (if pk_comment k = [] then [] else [pk_comment k])"

text \<open>
  The authorized-key parser accepts exactly the lines it should: a line is accepted as a key if
  and only if its words are the key's type, value and (when it has one) comment, the type is an
  \<^verbatim>\<open>ssh-\<close> or \<^verbatim>\<open>ecdsa-\<close> token, and the base64 value is, byte for byte, a sequence of
  length-prefixed fields that starts with that type and has at least one more.
\<close>

theorem accepted_keys_exact:
  "ParsePublicKey line = Inr k \<longleftrightarrow>
     str_fields line = key_words k \<and> key_type_ok (pk_type k)
     \<and> (\<exists>f fs. list_all short_field (bytes_of (pk_type k) # f # fs)
         \<and> b64_decode (pk_value k) = Some (wire_blob (bytes_of (pk_type k) # f # fs)))"
    (is "?L \<longleftrightarrow> ?R")
proof -
  have blob: "walkWireBlob raw t = Inr () \<longleftrightarrow>
      (\<exists>f fs. list_all short_field (bytes_of t # f # fs) \<and> raw = wire_blob (bytes_of t # f # fs))" for raw t
    unfolding key_blob_exact by (metis neq_Nil_conv)
  have R: "?R \<longleftrightarrow> str_fields line = key_words k \<and> key_type_ok (pk_type k)
      \<and> (\<exists>raw. b64_decode (pk_value k) = Some raw \<and> walkWireBlob raw (pk_type k) = Inr ())"
    unfolding blob by blast
  have ne: "[] \<notin> set (str_fields line)"
    using fields_clean [of "[]" line] by blast
  consider (two) a b where "str_fields line = [a, b]" | (three) a b c where "str_fields line = [a, b, c]"
    | (other) "length (str_fields line) < 2 \<or> 3 < length (str_fields line)"
    by (cases "str_fields line"; cases "tl (str_fields line)"; cases "tl (tl (str_fields line))";
        cases "tl (tl (tl (str_fields line)))") auto
  then have "?L \<longleftrightarrow> str_fields line = key_words k \<and> key_type_ok (pk_type k)
      \<and> (\<exists>raw. b64_decode (pk_value k) = Some raw \<and> walkWireBlob raw (pk_type k) = Inr ())"
  proof cases
    case two
    then show ?thesis
      by (cases k) (auto simp: ParsePublicKey_def key_words_def and_then_Inr Let_def eval_nat_numeral split: option.splits)
  next
    case three
    with ne show ?thesis
      by (cases k) (auto simp: ParsePublicKey_def key_words_def and_then_Inr Let_def eval_nat_numeral split: option.splits)
  next
    case other
    then show ?thesis by (auto simp: ParsePublicKey_def key_words_def)
  qed
  then show ?thesis unfolding R .
qed

lemma parsed_keys:
  "parse_keys_from i lines = Inr ks \<Longrightarrow> list_all2 (\<lambda>l k. ParsePublicKey l = Inr k) lines ks"
  by (induction i lines arbitrary: ks rule: parse_keys_from.induct)
    (auto simp: and_then_Inr split: sum.splits)

end
