(* ===== verification/Admin_Checks.thy ===== *)
theory Admin_Checks
  imports Wlan_Stored Ssh_Keys
begin

text \<open>
  What the admin API accepts: the validators of \<^verbatim>\<open>internal/adminapi/helpers.go\<close>. A validator returns
  its message, empty when the value is fine. The application layer calls the same functions, so
  they are the gate of every admin write.
\<close>

section \<open>Characters\<close>

definition control_char :: "char \<Rightarrow> bool" where
  "control_char c \<longleftrightarrow> (of_char c :: nat) < 0x20 \<or> (of_char c :: nat) = 0x7F"

definition hasControlChar :: "string \<Rightarrow> bool" where
  "hasControlChar s \<longleftrightarrow> list_ex control_char s"

definition ascii_alnum :: "char \<Rightarrow> bool" where
  "ascii_alnum c \<longleftrightarrow> (let n = (of_char c :: nat) in
     65 \<le> n \<and> n \<le> 90 \<or> 97 \<le> n \<and> n \<le> 122 \<or> 48 \<le> n \<and> n \<le> 57)"

text \<open>
  \<^verbatim>\<open>len([]rune(s))\<close>: the width of the UTF-8 sequence a string starts with; a byte that starts no
  valid sequence is one rune of its own.
\<close>

definition byte_between :: "nat \<Rightarrow> nat \<Rightarrow> string \<Rightarrow> bool" where
  "byte_between lo hi s = (case s of [] \<Rightarrow> False | c # _ \<Rightarrow> lo \<le> (of_char c :: nat) \<and> (of_char c :: nat) \<le> hi)"

definition rune_width :: "char \<Rightarrow> string \<Rightarrow> nat" where
  "rune_width c s = (let b = (of_char c :: nat); tail = byte_between 0x80 0xBF in
     if 0xC2 \<le> b \<and> b \<le> 0xDF then (if tail s then 2 else 1)
     else if 0xE0 \<le> b \<and> b \<le> 0xEF then
       (if byte_between (if b = 0xE0 then 0xA0 else 0x80) (if b = 0xED then 0x9F else 0xBF) s \<and> tail (drop 1 s)
        then 3 else 1)
     else if 0xF0 \<le> b \<and> b \<le> 0xF4 then
       (if byte_between (if b = 0xF0 then 0x90 else 0x80) (if b = 0xF4 then 0x8F else 0xBF) s
          \<and> tail (drop 1 s) \<and> tail (drop 2 s)
        then 4 else 1)
     else 1)"

function rune_count :: "string \<Rightarrow> nat" where
  "rune_count [] = 0"
| "rune_count (c # s) = Suc (rune_count (drop (rune_width c s - 1) s))"
  by pat_completeness auto

termination rune_count
  by (relation "measure length") auto

section \<open>Names and knobs\<close>

definition ValidateRegulatoryCountryCode :: "int \<Rightarrow> string" where
  "ValidateRegulatoryCountryCode code =
    (if code \<noteq> 0 \<and> (code < 1 \<or> 999 < code)
     then ''regulatory country code must be an ISO 3166-1 numeric code from 001 to 999 (or 0 = unset), got '' @ itoa code
     else [])"

text \<open>The first refused line, by its number from 1, with the parser's error.\<close>

fun first_bad_key :: "nat \<Rightarrow> string list \<Rightarrow> (nat \<times> key_error) option" where
  "first_bad_key i [] = None"
| "first_bad_key i (line # ls) = (case ParsePublicKey line of
     Inl e \<Rightarrow> Some (i + 1, e) | Inr _ \<Rightarrow> first_bad_key (i + 1) ls)"

definition ValidateSSHPublicKeyLines :: "string list \<Rightarrow> (nat \<times> key_error) option" where
  "ValidateSSHPublicKeyLines ls = first_bad_key 0 ls"

definition ValidateWlanName :: "string \<Rightarrow> string" where
  "ValidateWlanName name =
    (if name = [] \<or> 64 < length name then ''name must be 1..64 characters''
     else if hasControlChar name then ''name must not contain control characters''
     else [])"

definition ValidateDeviceName :: "string \<Rightarrow> string" where
  "ValidateDeviceName name =
    (if name = [] then []
     else if 64 < length name then ''name must be at most 64 characters''
     else if hasControlChar name then ''name must not contain control characters''
     else [])"

definition site_char :: "char \<Rightarrow> bool" where
  "site_char c \<longleftrightarrow> ascii_alnum c \<or> c = CHR ''.'' \<or> c = CHR ''_'' \<or> c = CHR ''-''"

fun site_chars_ok :: "nat \<Rightarrow> string \<Rightarrow> bool" where
  "site_chars_ok i [] = True"
| "site_chars_ok i (c # s) = (if site_char c \<and> (i \<noteq> 0 \<or> ascii_alnum c) then site_chars_ok (i + 1) s else False)"

definition ValidateSiteID :: "string \<Rightarrow> string" where
  "ValidateSiteID i =
    (if length i < 1 \<or> 64 < length i then ''site_id must be 1..64 characters''
     else if site_chars_ok 0 i then [] else ''invalid site_id'')"

definition ValidateLEDOverride :: "string \<Rightarrow> string" where
  "ValidateLEDOverride v =
    (if v \<in> {''default'', ''on'', ''off''} then [] else ''led_override must be one of default, on, off'')"

definition ValidateLEDOverrideColorBrightness :: "int \<Rightarrow> string" where
  "ValidateLEDOverrideColorBrightness v =
    (if v < 0 \<or> 100 < v then ''led_override_color_brightness must be 0..100'' else [])"

definition ValidateRadioName :: "string \<Rightarrow> string" where
  "ValidateRadioName name =
    (if name = [] then ''empty''
     else if 64 < length name then ''must be at most 64 characters''
     else if hasControlChar name then ''must not contain control characters''
     else [])"

definition maxCmdRunes :: nat where "maxCmdRunes = 64"

definition ValidateCmdString :: "string \<Rightarrow> string" where
  "ValidateCmdString cmd =
    (if cmd = [] then ''cmd is required''
     else if maxCmdRunes < rune_count cmd then ''cmd must be at most 64 characters''
     else if cmd \<noteq> trim_space cmd then ''cmd must not begin or end with whitespace''
     else if hasControlChar cmd then ''cmd must not contain control characters''
     else [])"

section \<open>WLANs\<close>

definition validSecurities :: "string list" where
  "validSecurities = [''open'', ''wpa-p'', ''wpa3-p'', ''wpa2-wpa3'', ''wpa-eap'']"

definition id_separators :: string where
  "id_separators = [CHR ''='', CHR '','', CHR '';'', CHR 0x22, CHR 0x27]"

fun id_chars_msg :: "string \<Rightarrow> string" where
  "id_chars_msg [] = []"
| "id_chars_msg (c # s) =
    (if (of_char c :: nat) \<le> 0x20 \<or> 0x7E < (of_char c :: nat)
     then ''id may only contain visible printable ASCII (no spaces or separators)''
     else if c \<in> set id_separators then ''id must not contain = , ; or quote characters''
     else id_chars_msg s)"

definition validateWlanID :: "string \<Rightarrow> string" where
  "validateWlanID i =
    (if i = [] then []
     else if 64 < length i then ''id must be at most 64 characters''
     else id_chars_msg i)"

definition hasRadiusFields :: "wlan \<Rightarrow> bool" where
  "hasRadiusFields w \<longleftrightarrow> 0 < length (opt_or [] (w_radius_servers w)) \<or> w_radius_secret w \<noteq> []
     \<or> w_radius_vlan_mode w \<noteq> []"

definition hasAcctFields :: "wlan \<Rightarrow> bool" where
  "hasAcctFields w \<longleftrightarrow> w_accounting w \<or> 0 < length (opt_or [] (w_acct_servers w)) \<or> w_interim_update w \<or> w_das w"

text \<open>The loop over a server list; \<open>field\<close> and \<open>dflt\<close> are the two literals in which the auth and
  the accounting copy of the loop differ.\<close>

fun server_msg :: "string \<Rightarrow> string \<Rightarrow> nat \<Rightarrow> radius_server list \<Rightarrow> string" where
  "server_msg field dflt i [] = []"
| "server_msg field dflt i (srv # srvs) =
    (let pos = field @ ''['' @ itoa (int i) @ '']''
     in if rs_ip srv = [] then pos @ ''.ip must not be empty''
        else if hasControlChar (rs_ip srv) then pos @ ''.ip must not contain control characters''
        else if rs_port srv < 0 \<or> 65535 < rs_port srv
        then pos @ ''.port must be 1..65535 (0 = the '' @ dflt @ '' default)''
        else server_msg field dflt (i + 1) srvs)"

definition short_passphrase :: "wlan \<Rightarrow> string" where
  "short_passphrase w = ''passphrase must be at least 8 characters when security is '' @ w_security w"

text \<open>The part of \<^verbatim>\<open>validateWlanEap\<close> after the auth servers: secret, VLAN mode and accounting.\<close>

definition eap_rest :: "wlan \<Rightarrow> string" where
  "eap_rest w =
    (let acct = opt_or [] (w_acct_servers w); msg = server_msg ''acct_servers'' ''1813'' 0 acct
     in if w_radius_secret w = [] then ''wpa-eap requires a RADIUS shared secret (radius_secret)''
        else if hasControlChar (w_radius_secret w) then ''radius_secret must not contain control characters''
        else if w_radius_vlan_mode w \<notin> {[], ''disabled'', ''optional'', ''required''}
        then ''radius_vlan_mode must be one of disabled, optional, required''
        else if 4 < length acct then ''acct_servers supports at most 4 entries''
        else if msg \<noteq> [] then msg
        else if w_interim_update w \<and> \<not> w_accounting w
        then ''interim_update_enabled requires accounting_enabled''
        else if w_das w \<and> \<not> w_accounting w then ''radius_das_enabled requires accounting_enabled''
        else if w_passphrase w \<noteq> [] \<and> length (w_passphrase w) < 8 then short_passphrase w
        else [])"

definition validateWlanEap :: "wlan \<Rightarrow> string" where
  "validateWlanEap w =
    (let auth = opt_or [] (w_radius_servers w); msg = server_msg ''radius_servers'' ''1812'' 0 auth
     in if length auth = 0 then ''wpa-eap requires at least one RADIUS server (radius_servers)''
        else if 4 < length auth then ''radius_servers supports at most 4 entries''
        else if msg \<noteq> [] then msg
        else eap_rest w)"

definition radius_needs_eap :: string where
  "radius_needs_eap = ''radius_servers/radius_secret/radius_vlan_mode require security wpa-eap''"

definition acct_needs_eap :: string where
  "acct_needs_eap = ''accounting_enabled/acct_servers/interim_update_enabled/radius_das_enabled require security wpa-eap''"

text \<open>The arms of the security switch, after the checks every WLAN shares.\<close>

definition security_msg :: "wlan \<Rightarrow> string" where
  "security_msg w =
    (if w_security w = ''open'' then
       (if hasRadiusFields w then radius_needs_eap
        else if hasAcctFields w then acct_needs_eap
        else if w_passphrase w \<noteq> [] then ''passphrase must be empty when security is open''
        else [])
     else if w_security w = ''wpa-eap'' then validateWlanEap w
     else if hasRadiusFields w then radius_needs_eap
     else if hasAcctFields w then acct_needs_eap
     else if length (w_passphrase w) < 8 then short_passphrase w
     else [])"

definition validateWlan :: "wlan \<Rightarrow> string" where
  "validateWlan w =
    (if w_band w \<notin> {[], ''2g'', ''5g'', ''both''} then ''band must be one of 2g, 5g, both''
     else if w_security w \<notin> set validSecurities
     then ''security must be one of open, wpa-p, wpa3-p, wpa2-wpa3, wpa-eap''
     else if hasControlChar (w_ssid w) then ''ssid must not contain control characters''
     else if hasControlChar (w_name w) then ''name must not contain control characters''
     else if hasControlChar (w_passphrase w) then ''passphrase must not contain control characters''
     else if 64 < length (w_name w) then ''name must be at most 64 characters''
     else if validateWlanID (w_id w) \<noteq> [] then validateWlanID (w_id w)
     else if length (w_ssid w) < 1 \<or> 32 < length (w_ssid w) then ''ssid length must be 1..32''
     else if w_vlan w < 1 \<or> 4094 < w_vlan w then ''vlan must be 1..4094''
     else security_msg w)"

definition ValidateWlan :: "wlan \<Rightarrow> string" where
  "ValidateWlan w = validateWlan w"

section \<open>The boundary\<close>

definition normalizeMAC :: "string \<Rightarrow> mac_error + string" where
  "normalizeMAC s = (case CanonicalMAC s of Inl e \<Rightarrow> Inl e | Inr canon \<Rightarrow> Inr (ColonMAC canon))"

text \<open>
  \<^verbatim>\<open>requireToken\<close>: with no token configured every request passes; otherwise the Authorization header
  must be the expected text, byte for byte (an absent header reads as the empty string).
\<close>

definition token_ok :: "string \<Rightarrow> string \<Rightarrow> bool" where
  "token_ok admin_token got \<longleftrightarrow> (if admin_token = [] then True
     else let want = ''Bearer '' @ admin_token
       in \<not> (length got \<noteq> length want \<or> got \<noteq> want))"

section \<open>What passes\<close>

text \<open>The reference: a WLAN the admin may store, said without the order of the checks.\<close>

definition clean :: "string \<Rightarrow> bool" where
  "clean s \<longleftrightarrow> list_all (\<lambda>c. 0x20 \<le> (of_char c :: nat) \<and> (of_char c :: nat) \<noteq> 0x7F) s"

definition server_fine :: "radius_server \<Rightarrow> bool" where
  "server_fine s \<longleftrightarrow> rs_ip s \<noteq> [] \<and> clean (rs_ip s) \<and> 0 \<le> rs_port s \<and> rs_port s \<le> 65535"

definition id_fine :: "string \<Rightarrow> bool" where
  "id_fine i \<longleftrightarrow> length i \<le> 64 \<and> list_all (\<lambda>c. 0x21 \<le> (of_char c :: nat) \<and> (of_char c :: nat) \<le> 0x7E
     \<and> c \<notin> set id_separators) i"

definition profile_fine :: "wlan \<Rightarrow> bool" where
  "profile_fine w \<longleftrightarrow> (let auth = opt_or [] (w_radius_servers w); acct = opt_or [] (w_acct_servers w) in
     1 \<le> length auth \<and> length auth \<le> 4 \<and> list_all server_fine auth
     \<and> w_radius_secret w \<noteq> [] \<and> clean (w_radius_secret w)
     \<and> w_radius_vlan_mode w \<in> {[], ''disabled'', ''optional'', ''required''}
     \<and> length acct \<le> 4 \<and> list_all server_fine acct
     \<and> ((w_interim_update w \<or> w_das w) \<longrightarrow> w_accounting w)
     \<and> (w_passphrase w = [] \<or> 8 \<le> length (w_passphrase w)))"

definition no_profile :: "wlan \<Rightarrow> bool" where
  "no_profile w \<longleftrightarrow> opt_or [] (w_radius_servers w) = [] \<and> w_radius_secret w = [] \<and> w_radius_vlan_mode w = []
     \<and> \<not> w_accounting w \<and> opt_or [] (w_acct_servers w) = [] \<and> \<not> w_interim_update w \<and> \<not> w_das w"

definition wlan_fine :: "wlan \<Rightarrow> bool" where
  "wlan_fine w \<longleftrightarrow> w_band w \<in> {[], ''2g'', ''5g'', ''both''}
     \<and> clean (w_ssid w) \<and> clean (w_name w) \<and> clean (w_passphrase w)
     \<and> length (w_name w) \<le> 64 \<and> id_fine (w_id w)
     \<and> 1 \<le> length (w_ssid w) \<and> length (w_ssid w) \<le> 32 \<and> 1 \<le> w_vlan w \<and> w_vlan w \<le> 4094
     \<and> (w_security w = ''open'' \<and> no_profile w \<and> w_passphrase w = []
        \<or> w_security w = ''wpa-eap'' \<and> profile_fine w
        \<or> w_security w \<in> {''wpa-p'', ''wpa3-p'', ''wpa2-wpa3''} \<and> no_profile w \<and> 8 \<le> length (w_passphrase w))"

lemma hasControlChar_clean: "hasControlChar s \<longleftrightarrow> \<not> clean s"
  by (auto simp: hasControlChar_def clean_def control_char_def list_ex_iff list_all_iff not_le)

lemma clean_no_newline: "clean s \<Longrightarrow> \<not> has_newline s"
  by (auto simp: clean_def has_newline_def list_all_iff)

lemma server_msg_fine: "server_msg field dflt i srvs = [] \<longleftrightarrow> list_all server_fine srvs"
  by (induction field dflt i srvs rule: server_msg.induct)
    (auto simp: Let_def server_fine_def hasControlChar_clean not_less)

lemma id_chars_fine: "id_chars_msg i = [] \<longleftrightarrow> list_all (\<lambda>c. 0x21 \<le> (of_char c :: nat)
    \<and> (of_char c :: nat) \<le> 0x7E \<and> c \<notin> set id_separators) i"
  by (induction i) (auto simp: not_le not_less Suc_le_eq)

lemma validateWlanID_fine: "validateWlanID i = [] \<longleftrightarrow> id_fine i"
  by (auto simp: validateWlanID_def id_fine_def id_chars_fine)

lemma no_fields: "no_profile w \<longleftrightarrow> \<not> hasRadiusFields w \<and> \<not> hasAcctFields w"
  by (auto simp: no_profile_def hasRadiusFields_def hasAcctFields_def)

lemma eap_fine: "validateWlanEap w = [] \<longleftrightarrow> profile_fine w"
  by (auto simp: validateWlanEap_def eap_rest_def profile_fine_def Let_def server_msg_fine hasControlChar_clean
      short_passphrase_def Suc_le_eq not_less)

lemma security_fine:
  "w_security w \<in> set validSecurities \<Longrightarrow> security_msg w = [] \<longleftrightarrow>
     w_security w = ''open'' \<and> no_profile w \<and> w_passphrase w = []
   \<or> w_security w = ''wpa-eap'' \<and> profile_fine w
   \<or> w_security w \<in> {''wpa-p'', ''wpa3-p'', ''wpa2-wpa3''} \<and> no_profile w \<and> 8 \<le> length (w_passphrase w)"
  by (auto simp: security_msg_def eap_fine no_fields validSecurities_def radius_needs_eap_def acct_needs_eap_def
      short_passphrase_def not_less)

lemma validateWlan_fine: "validateWlan w = [] \<longleftrightarrow> wlan_fine w"
proof (cases "w_security w \<in> set validSecurities")
  case True
  show ?thesis
    unfolding validateWlan_def wlan_fine_def security_fine [OF True, symmetric]
    using True by (auto simp: hasControlChar_clean validateWlanID_fine Suc_le_eq not_less)
next
  case False
  then have "\<not> wlan_fine w" by (auto simp: wlan_fine_def validSecurities_def)
  with False show ?thesis by (auto simp: validateWlan_def)
qed

text \<open>
  C37: the WLAN validator accepts exactly the WLANs of the declarative rule: band, VLAN, lengths and
  identifier in range, no control character in any text a configuration row is built from, and
  credentials and RADIUS fields that match the security mode, no field of another mode left in.
\<close>

theorem wlan_accepted_exact: "ValidateWlan w = [] \<longleftrightarrow> wlan_fine w"
  by (simp add: ValidateWlan_def validateWlan_fine)

lemma site_chars_later: "0 < i \<Longrightarrow> site_chars_ok i s \<longleftrightarrow> list_all site_char s"
  by (induction i s rule: site_chars_ok.induct) auto

lemma site_accepted: "ValidateSiteID i = [] \<longleftrightarrow> 1 \<le> length i \<and> length i \<le> 64 \<and> list_all site_char i \<and> ascii_alnum (hd i)"
  by (cases i) (auto simp: ValidateSiteID_def site_chars_later)

lemma first_bad_key_None: "first_bad_key i ls = None \<longleftrightarrow> (\<exists>ks. parse_keys_from j ls = Inr ks)"
  by (induction ls arbitrary: i j) (auto split: sum.splits simp: and_then_Inr)

lemma key_lines_accepted: "ValidateSSHPublicKeyLines ls = None \<longleftrightarrow> (\<exists>ks. parseDeviceSSHPublicKeys ls = Inr ks)"
  by (simp add: ValidateSSHPublicKeyLines_def parseDeviceSSHPublicKeys_def first_bad_key_None [of 0 ls 0])

lemma token_exact: "token_ok tok got \<longleftrightarrow> tok = [] \<or> got = ''Bearer '' @ tok"
  by (auto simp: token_ok_def Let_def)

lemma normalizeMAC_canonical: "normalizeMAC s = Inr m \<Longrightarrow> \<exists>c. CanonicalMAC s = Inr c \<and> CanonicalMAC m = Inr c \<and> m = ColonMAC c"
  by (auto simp: normalizeMAC_def mac_simps CanonicalMAC_D split: sum.splits)

end
