(* ===== verification/Admin_Rows.thy ===== *)
theory Admin_Rows
  imports Trust_Policy
begin

text \<open>
  The admin-owned rows of a record: the blocked-client set (\<^verbatim>\<open>internal/store/blockedsta.go\<close>) and the
  one-deep stored-task queue (\<^verbatim>\<open>cmdtask.go\<close>).
\<close>

section \<open>Blocked clients\<close>

fun collect_blocked :: "gval list \<Rightarrow> string list \<Rightarrow> string list" where
  "collect_blocked [] out = out"
| "collect_blocked (v # vs) out = (case v of
     GStr s \<Rightarrow> (case CanonicalMAC s of
         Inl _ \<Rightarrow> collect_blocked vs out
       | Inr c \<Rightarrow> if c \<in> set out then collect_blocked vs out else collect_blocked vs (out @ [c]))
   | _ \<Rightarrow> collect_blocked vs out)"

definition BlockedClients :: "device \<Rightarrow> string list" where
  "BlockedClients d = sort (collect_blocked (opt_or [] (get_arr (ext d) BlockedStaExtraKey)) [])"

definition writeBlockedClients :: "string list \<Rightarrow> device \<Rightarrow> device" where
  "writeBlockedClients cs d =
    (let d = d\<lparr>dev_extra := Some (ext d)\<rparr>
     in if length cs = 0 then ext_del BlockedStaExtraKey d
        else ext_set BlockedStaExtraKey (GArr (map GStr cs)) d)"

definition AddBlockedClient :: "string \<Rightarrow> device \<Rightarrow> mac_error + device \<times> bool" where
  "AddBlockedClient client d = (case CanonicalMAC client of
     Inl e \<Rightarrow> Inl e
   | Inr c \<Rightarrow> (let cs = BlockedClients d
       in if c \<in> set cs then Inr (d, False)
          else Inr (writeBlockedClients (sort (cs @ [c])) d, True)))"

definition RemoveBlockedClient :: "string \<Rightarrow> device \<Rightarrow> mac_error + device \<times> bool" where
  "RemoveBlockedClient client d = (case CanonicalMAC client of
     Inl e \<Rightarrow> Inl e
   | Inr c \<Rightarrow> (let cs = BlockedClients d; out = filter (\<lambda>e. e \<noteq> c) cs
       in if c \<notin> set cs then Inr (d, False)
          else Inr (writeBlockedClients out d, True)))"

section \<open>The stored task\<close>

definition ArmCmdTask :: "string \<Rightarrow> device \<Rightarrow> device" where
  "ArmCmdTask cmd d = ext_set CmdTaskKey (GMap [(''cmd'', GStr cmd), (''mac'', GStr (dev_mac d))]) d"

definition ArmedCmdTask :: "device \<Rightarrow> jmap option" where
  "ArmedCmdTask d =
    (case (case jget (ext d) CmdTaskKey of
             Some (GMap row) \<Rightarrow> Some row | Some (GObj row) \<Rightarrow> Some row | _ \<Rightarrow> None) of
       None \<Rightarrow> None
     | Some row \<Rightarrow> if opt_or [] (get_str row ''cmd'') = [] then None else Some (cloneRows row))"

definition CmdTaskCmd :: "device \<Rightarrow> string" where
  "CmdTaskCmd d = (case ArmedCmdTask d of None \<Rightarrow> [] | Some row \<Rightarrow> opt_or [] (get_str row ''cmd''))"

section \<open>The blocked set as a set\<close>

definition client_set :: "string list \<Rightarrow> bool" where
  "client_set cs \<longleftrightarrow> sorted cs \<and> distinct cs \<and> list_all canonical cs"

lemma collect_blocked_inv:
  "distinct out \<Longrightarrow> list_all canonical out \<Longrightarrow>
   distinct (collect_blocked vs out) \<and> list_all canonical (collect_blocked vs out)"
  by (induction vs out rule: collect_blocked.induct)
    (auto simp: CanonicalMAC_D split: gval.splits sum.splits)

lemma BlockedClients_client_set: "client_set (BlockedClients d)"
  using collect_blocked_inv [of "[]" "opt_or [] (get_arr (ext d) BlockedStaExtraKey)"]
  by (simp add: client_set_def BlockedClients_def list_all_iff)

lemma collect_strings:
  "distinct (out @ cs) \<Longrightarrow> list_all canonical cs \<Longrightarrow> collect_blocked (map GStr cs) out = out @ cs"
  by (induction cs arbitrary: out) (auto simp: mac_simps)

lemma BlockedClients_write:
  assumes "client_set cs"
  shows "BlockedClients (writeBlockedClients cs d) = cs"
proof (cases "cs = []")
  case True
  then show ?thesis
    by (simp add: BlockedClients_def writeBlockedClients_def Let_def get_arr_def row_simps)
next
  case False
  with assms collect_strings [of "[]" cs] show ?thesis
    by (simp add: BlockedClients_def writeBlockedClients_def Let_def get_arr_def row_simps
        client_set_def sorted_sort_id)
qed

lemma write_other_row: "k \<noteq> BlockedStaExtraKey \<Longrightarrow>
    jget (ext (writeBlockedClients cs d)) k = jget (ext d) k"
  by (simp add: writeBlockedClients_def Let_def row_simps)

lemma AddBlockedClient_set:
  assumes "AddBlockedClient m d = Inr (d', added)"
  shows "\<exists>c. CanonicalMAC m = Inr c \<and> set (BlockedClients d') = insert c (set (BlockedClients d))
    \<and> (added \<longleftrightarrow> c \<notin> set (BlockedClients d)) \<and> (\<not> added \<longrightarrow> d' = d)"
proof -
  from assms obtain c where c: "CanonicalMAC m = Inr c"
    by (auto simp: AddBlockedClient_def split: sum.splits)
  show ?thesis
  proof (cases "c \<in> set (BlockedClients d)")
    case True
    with assms c show ?thesis by (auto simp: AddBlockedClient_def Let_def)
  next
    case False
    let ?cs = "sort (BlockedClients d @ [c])"
    have d': "d' = writeBlockedClients ?cs d" "added"
      using assms c False by (simp_all add: AddBlockedClient_def Let_def)
    have "client_set ?cs"
      using BlockedClients_client_set [of d] False c
      by (simp add: client_set_def list_all_iff CanonicalMAC_D)
    from BlockedClients_write [OF this] d' False c show ?thesis by auto
  qed
qed

lemma RemoveBlockedClient_set:
  assumes "RemoveBlockedClient m d = Inr (d', removed)"
  shows "\<exists>c. CanonicalMAC m = Inr c \<and> set (BlockedClients d') = set (BlockedClients d) - {c}
    \<and> (removed \<longleftrightarrow> c \<in> set (BlockedClients d)) \<and> (\<not> removed \<longrightarrow> d' = d)"
proof -
  from assms obtain c where c: "CanonicalMAC m = Inr c"
    by (auto simp: RemoveBlockedClient_def split: sum.splits)
  show ?thesis
  proof (cases "c \<in> set (BlockedClients d)")
    case False
    with assms c show ?thesis by (auto simp: RemoveBlockedClient_def Let_def)
  next
    case True
    let ?cs = "filter (\<lambda>e. e \<noteq> c) (BlockedClients d)"
    have d': "d' = writeBlockedClients ?cs d" "removed"
      using assms c True by (simp_all add: RemoveBlockedClient_def Let_def)
    have "client_set ?cs"
      using BlockedClients_client_set [of d] by (simp add: client_set_def list_all_iff sorted_wrt_filter)
    from BlockedClients_write [OF this] d' True c show ?thesis by auto
  qed
qed

lemma client_set_eq: "client_set as \<Longrightarrow> client_set bs \<Longrightarrow> set as = set bs \<Longrightarrow> as = bs"
  by (simp add: client_set_def sorted_distinct_set_unique)

lemma ArmedCmdTask_Arm: "cmd \<noteq> [] \<Longrightarrow>
    ArmedCmdTask (ArmCmdTask cmd d) = Some [(''cmd'', GStr cmd), (''mac'', GStr (dev_mac d))]"
  by (simp add: ArmedCmdTask_def ArmCmdTask_def row_simps get_str_def)

lemma ArmedCmdTask_Arm_empty: "ArmedCmdTask (ArmCmdTask [] d) = None"
  by (simp add: ArmedCmdTask_def ArmCmdTask_def row_simps get_str_def)

section \<open>Properties\<close>

text \<open>
  The blocked clients of a record are a set of canonical MACs, kept sorted; adding and
  removing a client are insertion and deletion on that set, report whether the set changed, leave
  the record alone when it did not, and refuse exactly what is not a MAC.
\<close>

theorem blocked_clients_set:
  "client_set (BlockedClients d)
   \<and> (case AddBlockedClient m d of
        Inl e \<Rightarrow> CanonicalMAC m = Inl e
      | Inr (d', added) \<Rightarrow> \<exists>c. CanonicalMAC m = Inr c
          \<and> set (BlockedClients d') = insert c (set (BlockedClients d))
          \<and> (added \<longleftrightarrow> c \<notin> set (BlockedClients d)) \<and> (added \<or> d' = d))
   \<and> (case RemoveBlockedClient m d of
        Inl e \<Rightarrow> CanonicalMAC m = Inl e
      | Inr (d', removed) \<Rightarrow> \<exists>c. CanonicalMAC m = Inr c
          \<and> set (BlockedClients d') = set (BlockedClients d) - {c}
          \<and> (removed \<longleftrightarrow> c \<in> set (BlockedClients d)) \<and> (removed \<or> d' = d))"
proof (intro conjI)
  show "client_set (BlockedClients d)" by (rule BlockedClients_client_set)
next
  show "case AddBlockedClient m d of
        Inl e \<Rightarrow> CanonicalMAC m = Inl e
      | Inr (d', added) \<Rightarrow> \<exists>c. CanonicalMAC m = Inr c
          \<and> set (BlockedClients d') = insert c (set (BlockedClients d))
          \<and> (added \<longleftrightarrow> c \<notin> set (BlockedClients d)) \<and> (added \<or> d' = d)"
    using AddBlockedClient_set [of m d]
    by (cases "AddBlockedClient m d") (auto simp: AddBlockedClient_def Let_def split: sum.splits if_splits)
next
  show "case RemoveBlockedClient m d of
        Inl e \<Rightarrow> CanonicalMAC m = Inl e
      | Inr (d', removed) \<Rightarrow> \<exists>c. CanonicalMAC m = Inr c
          \<and> set (BlockedClients d') = set (BlockedClients d) - {c}
          \<and> (removed \<longleftrightarrow> c \<in> set (BlockedClients d)) \<and> (removed \<or> d' = d)"
    using RemoveBlockedClient_set [of m d]
    by (cases "RemoveBlockedClient m d") (auto simp: RemoveBlockedClient_def Let_def split: sum.splits if_splits)
qed

end
