(* ===== verification/Wlan_Plan.thy ===== *)
theory Wlan_Plan
  imports Wlan_Stored
begin

text \<open>
  The provisioning plan of \<^verbatim>\<open>internal/wireless/plan.go\<close>: WLAN identity, the stored radio table,
  the placement of WLANs on radios as vaps, the drift hash, and the reading of a reported
  vap table (\<^verbatim>\<open>vap_evidence.go\<close>). SHA-256 (in lower-case hexadecimal) and the JSON text are
  the fields of \<open>json_text\<close>.
\<close>

section \<open>Identity\<close>

definition SSIDOf :: "wlan \<Rightarrow> string" where
  "SSIDOf w = (if w_ssid w \<noteq> [] then w_ssid w else w_name w)"

definition NewWlanID :: "json_text \<Rightarrow> wlan \<Rightarrow> string" where
  "NewWlanID jt w = (if w_id w \<noteq> [] then w_id w else take 24 (sha256_hex jt (w_name w @ w_ssid w)))"

definition WlanID :: "json_text \<Rightarrow> wlan \<Rightarrow> string" where
  "WlanID jt w = (if w_id w \<noteq> [] then w_id w
     else let src = w_name w;
              src = (if src = [] then w_ssid w else src);
              src = (if src = [] then ''vlan'' @ itoa (w_vlan w) else src)
          in take 24 (sha256_hex jt src))"

section \<open>Stored radios and intents\<close>

record radio_row =
  rr_name :: string
  rr_band :: string
  rr_known :: bool
  rr_raw :: jmap

fun radio_rows :: "gval list \<Rightarrow> radio_row list" where
  "radio_rows [] = []"
| "radio_rows (item # items) = (case item of
     GObj m \<Rightarrow>
       (let name = JSONStr m ''name'' []; band = JSONStr m ''radio'' []
        in if name = [] then radio_rows items
           else \<lparr>rr_name = name, rr_band = band, rr_known = (band = ''na'' \<or> band = ''ng''), rr_raw = m\<rparr>
             # radio_rows items)
   | _ \<Rightarrow> radio_rows items)"

text \<open>Radios of equal name keep their reported order (as Go's sort does below thirteen rows).\<close>

definition StoredRadios :: "device \<Rightarrow> radio_row list" where
  "StoredRadios d = (case get_arr (ext d) ''radio_table'' of
     None \<Rightarrow> [] | Some raw \<Rightarrow> sort_key rr_name (radio_rows raw))"

record radio_intent =
  ri_channel :: string
  ri_txpower :: string

fun add_intent :: "string \<times> gval \<Rightarrow> (string \<times> radio_intent) list \<Rightarrow> (string \<times> radio_intent) list" where
  "add_intent (name, GObj m) out =
     (let it = \<lparr>ri_channel = JSONStr m ''channel'' [], ri_txpower = JSONStr m ''txpower'' []\<rparr>
      in if name = [] then out
         else if ri_channel it \<noteq> [] \<or> ri_txpower it \<noteq> [] then jset name it out else out)"
| "add_intent (name, _) out = out"

definition RadioIntents :: "device \<Rightarrow> (string \<times> radio_intent) list" where
  "RadioIntents d = (case get_obj (ext d) RadioIntentExtraKey of
     None \<Rightarrow> [] | Some raw \<Rightarrow> fold add_intent raw [])"

section \<open>Vap placement\<close>

definition WrapVID :: "int \<Rightarrow> int" where
  "WrapVID vid = (if vid < 2 \<or> 4094 < vid then 0 else vid)"

record vap_plan =
  vp_wlan :: wlan
  vp_id :: string
  vp_radio :: nat
  vp_phy :: string
  vp_ath :: nat
  vp_vid :: int

definition wlanBandDefault :: string where "wlanBandDefault = ''both''"

definition effective_band :: "wlan \<Rightarrow> string" where
  "effective_band w = (if w_band w = [] then wlanBandDefault else w_band w)"

definition wlan_fits :: "radio_row \<Rightarrow> wlan \<Rightarrow> bool" where
  "wlan_fits r w \<longleftrightarrow> w_enabled w \<and>
     \<not> (effective_band w = ''2g'' \<and> rr_band r \<noteq> ''ng'' \<or> effective_band w = ''5g'' \<and> rr_band r \<noteq> ''na'')"

definition radio_usable :: "radio_row \<Rightarrow> bool" where
  "radio_usable r \<longleftrightarrow> rr_known r \<and>
     \<not> (JSONStr (rr_raw r) ''usage'' [] = ''uplink'' \<and> JSONStr (rr_raw r) ''mode'' [] = ''managed'')"

fun plan_wlans :: "json_text \<Rightarrow> nat \<Rightarrow> radio_row \<Rightarrow> wlan list \<Rightarrow> vap_plan list \<times> nat \<Rightarrow> vap_plan list \<times> nat" where
  "plan_wlans jt i r [] acc = acc"
| "plan_wlans jt i r (w # ws) (vaps, ath) =
    (if \<not> wlan_fits r w then plan_wlans jt i r ws (vaps, ath)
     else plan_wlans jt i r ws
       (vaps @ [\<lparr>vp_wlan = w, vp_id = WlanID jt w, vp_radio = i + 1, vp_phy = rr_name r,
                 vp_ath = ath, vp_vid = WrapVID (w_vlan w)\<rparr>], ath + 1))"

fun plan_radios :: "json_text \<Rightarrow> wlan list \<Rightarrow> nat \<Rightarrow> radio_row list \<Rightarrow> vap_plan list \<times> nat \<Rightarrow> vap_plan list \<times> nat" where
  "plan_radios jt ws i [] acc = acc"
| "plan_radios jt ws i (r # rs) acc =
    plan_radios jt ws (i + 1) rs (if radio_usable r then plan_wlans jt i r ws acc else acc)"

definition PlanVaps :: "json_text \<Rightarrow> device \<Rightarrow> wlan list \<Rightarrow> vap_plan list \<times> radio_row list" where
  "PlanVaps jt d wls = (let radios = StoredRadios d
     in (fst (plan_radios jt wls 0 radios ([], 0)), radios))"

definition UnknownBandRadios :: "device \<Rightarrow> nat" where
  "UnknownBandRadios d = length (filter (\<lambda>r. \<not> rr_known r) (StoredRadios d))"

definition placement_key :: "string \<Rightarrow> string \<Rightarrow> string" where
  "placement_key ssid radio = ssid @ [CHR 0x00] @ radio"

definition vapPlacements :: "vap_plan list \<Rightarrow> (string \<times> int) list" where
  "vapPlacements vaps = fold (\<lambda>v out.
     let k = placement_key (SSIDOf (vp_wlan v)) (vp_phy v)
     in jset k (opt_or 0 (jget out k) + 1) out) vaps []"

section \<open>The drift hash\<close>

definition port_or :: "int \<Rightarrow> int \<Rightarrow> int" where
  "port_or dflt port = (if port = 0 then dflt else port)"

definition hash_servers :: "int \<Rightarrow> radius_server list option \<Rightarrow> gval" where
  "hash_servers dflt xs = GArr (map (\<lambda>s.
     GObj [(''ip'', GStr (rs_ip s)), (''port'', GInt (port_or dflt (rs_port s)))]) (opt_or [] xs))"

definition has_radius :: "wlan \<Rightarrow> bool" where
  "has_radius w \<longleftrightarrow> opt_or [] (w_radius_servers w) \<noteq> [] \<or> w_radius_secret w \<noteq> [] \<or> w_radius_vlan_mode w \<noteq> []"

definition effective_mode :: "wlan \<Rightarrow> string" where
  "effective_mode w = (if w_radius_vlan_mode w = [] then ''disabled'' else w_radius_vlan_mode w)"

text \<open>One entry of the hashed document; \<^verbatim>\<open>json.Marshal\<close> writes a map's keys in sorted order.\<close>

definition hash_fields :: "wlan \<Rightarrow> jmap" where
  "hash_fields w =
    (let e = [(''name'', GStr (w_name w)), (''ssid'', GStr (w_ssid w)),
              (''security'', GStr (w_security w)), (''passphrase'', GStr (w_passphrase w)),
              (''vlan'', GInt (w_vlan w)), (''enabled'', GBool (w_enabled w)),
              (''id'', GStr (w_id w)), (''band'', GStr (effective_band w))];
         e = (if has_radius w
              then e @ [(''radius_secret'', GStr (w_radius_secret w)),
                        (''radius_vlan_mode'', GStr (effective_mode w)),
                        (''radius_servers'', hash_servers 1812 (w_radius_servers w))]
              else e)
     in if w_accounting w
        then e @ [(''accounting_enabled'', GBool True),
                  (''acct_servers'', hash_servers 1813 (w_acct_servers w)),
                  (''interim_update_enabled'', GBool (w_interim_update w)),
                  (''radius_das_enabled'', GBool (w_das w))]
        else e)"

definition hash_entry :: "wlan \<Rightarrow> gval" where
  "hash_entry w = GObj (sort_key fst (hash_fields w))"

definition WlanListHash :: "json_text \<Rightarrow> wlan list \<Rightarrow> string" where
  "WlanListHash jt wls = sha256_hex jt (js_marshal jt (GArr (map hash_entry wls)))"

record provisioning_plan =
  pp_drift :: string
  pp_vaps :: "vap_plan list"
  pp_radios :: "radio_row list"
  pp_placements :: "(string \<times> int) list"

definition PlanProvisioning :: "json_text \<Rightarrow> device \<Rightarrow> wlan list \<Rightarrow> provisioning_plan" where
  "PlanProvisioning jt d wls = (let (vaps, radios) = PlanVaps jt d wls
     in \<lparr>pp_drift = WlanListHash jt wls, pp_vaps = vaps, pp_radios = radios,
         pp_placements = vapPlacements vaps\<rparr>)"

section \<open>The reported vap table\<close>

record vap_run =
  vr_name :: string
  vr_ssid :: string
  vr_radio :: string

record vap_evidence =
  ve_present :: bool
  ve_rows :: nat
  ve_running :: "vap_run list"

fun run_rows :: "gval list \<Rightarrow> vap_run list" where
  "run_rows [] = []"
| "run_rows (raw # rest) = (case raw of
     GObj m \<Rightarrow>
       if equal_fold (JSONStr m ''state'' (JSONStr m ''status'' [])) ''RUN''
       then \<lparr>vr_name = JSONStr m ''name'' [], vr_ssid = JSONStr m ''essid'' (JSONStr m ''ssid'' []),
             vr_radio = JSONStr m ''radio_name'' (JSONStr m ''parent'' [])\<rparr> # run_rows rest
       else run_rows rest
   | _ \<Rightarrow> run_rows rest)"

definition ReadVapEvidence :: "gval option \<Rightarrow> vap_evidence" where
  "ReadVapEvidence vapTable = (case vapTable of
     Some (GArr rawList) \<Rightarrow> \<lparr>ve_present = True, ve_rows = length rawList, ve_running = run_rows rawList\<rparr>
   | _ \<Rightarrow> \<lparr>ve_present = False, ve_rows = 0, ve_running = []\<rparr>)"

definition Known :: "vap_evidence \<Rightarrow> bool" where "Known e \<longleftrightarrow> 0 < ve_rows e"

definition SSIDRunning :: "vap_evidence \<Rightarrow> string \<Rightarrow> bool" where
  "SSIDRunning e ssid \<longleftrightarrow> ssid \<noteq> [] \<and> list_ex (\<lambda>r. vr_ssid r = ssid) (ve_running e)"

definition DevnameRunning :: "vap_evidence \<Rightarrow> string \<Rightarrow> bool" where
  "DevnameRunning e name \<longleftrightarrow> name \<noteq> [] \<and> list_ex (\<lambda>r. vr_name r = name) (ve_running e)"

definition devname :: "nat \<Rightarrow> string" where "devname n = ''ath'' @ dec_nat n"

text \<open>The \<^verbatim>\<open>need\<close> map, as the list of its keys.\<close>

definition needed_devnames :: "vap_plan list \<Rightarrow> string list" where
  "needed_devnames vaps = remdups (map (\<lambda>v. devname (vp_ath v)) (filter (\<lambda>v. w_enabled (vp_wlan v)) vaps))"

definition MissingVaps :: "vap_plan list \<Rightarrow> gval option \<Rightarrow> string list" where
  "MissingVaps vaps vapTable =
    (let ev = ReadVapEvidence vapTable
     in if \<not> Known ev then []
        else sort (fold (\<lambda>r need. removeAll (vr_name r) need) (ve_running ev) (needed_devnames vaps)))"

section \<open>Placement against a declarative plan\<close>

text \<open>
  The reference plan: every (usable radio, fitting WLAN) pair in radio order and then WLAN
  order, numbered from zero.
\<close>

definition mk_vap :: "json_text \<Rightarrow> nat \<Rightarrow> nat \<times> radio_row \<Rightarrow> wlan \<Rightarrow> vap_plan" where
  "mk_vap jt n ir w = \<lparr>vp_wlan = w, vp_id = WlanID jt w, vp_radio = fst ir + 1, vp_phy = rr_name (snd ir),
     vp_ath = n, vp_vid = WrapVID (w_vlan w)\<rparr>"

definition placements_on :: "wlan list \<Rightarrow> nat \<times> radio_row \<Rightarrow> ((nat \<times> radio_row) \<times> wlan) list" where
  "placements_on ws ir = (if radio_usable (snd ir) then map (Pair ir) (filter (wlan_fits (snd ir)) ws) else [])"

definition placement_pairs :: "wlan list \<Rightarrow> nat \<Rightarrow> radio_row list \<Rightarrow> ((nat \<times> radio_row) \<times> wlan) list" where
  "placement_pairs ws i rs = concat (map (placements_on ws) (enumerate i rs))"

definition number_vaps :: "json_text \<Rightarrow> nat \<Rightarrow> ((nat \<times> radio_row) \<times> wlan) list \<Rightarrow> vap_plan list" where
  "number_vaps jt n ps = map (\<lambda>(k, ir, w). mk_vap jt k ir w) (enumerate n ps)"

lemma number_vaps_append: "number_vaps jt n (ps @ qs) = number_vaps jt n ps @ number_vaps jt (n + length ps) qs"
  by (simp add: number_vaps_def enumerate_append_eq)

lemma number_vaps_Nil [simp]: "number_vaps jt n [] = []"
  by (simp add: number_vaps_def)

lemma length_number_vaps [simp]: "length (number_vaps jt n ps) = length ps"
  by (simp add: number_vaps_def)

lemma plan_wlans_eq: "plan_wlans jt i r ws (vaps, n) =
    (vaps @ number_vaps jt n (map (Pair (i, r)) (filter (wlan_fits r) ws)),
     n + length (filter (wlan_fits r) ws))"
  by (induction ws arbitrary: vaps n) (simp_all add: number_vaps_def mk_vap_def)

lemma plan_radios_eq: "plan_radios jt ws i rs (vaps, n) =
    (vaps @ number_vaps jt n (placement_pairs ws i rs), n + length (placement_pairs ws i rs))"
proof (induction rs arbitrary: i vaps n)
  case (Cons r rs)
  then show ?case
    by (simp add: placement_pairs_def placements_on_def plan_wlans_eq number_vaps_append add.assoc)
qed (simp add: placement_pairs_def number_vaps_def)

lemma PlanVaps_eq: "PlanVaps jt d ws = (number_vaps jt 0 (placement_pairs ws 0 (StoredRadios d)), StoredRadios d)"
  by (simp add: PlanVaps_def Let_def plan_radios_eq)

lemma number_vaps_ath: "map vp_ath (number_vaps jt n ps) = [n..<n + length ps]"
proof -
  have "vp_ath \<circ> (\<lambda>(k, ir, w). mk_vap jt k ir w) = fst"
    by (auto simp: mk_vap_def)
  then show ?thesis by (simp add: number_vaps_def)
qed

lemma set_number_vaps:
  assumes "v \<in> set (number_vaps jt n ps)"
  shows "\<exists>k ir w. (ir, w) \<in> set ps \<and> v = mk_vap jt k ir w"
  using assms by (auto simp: number_vaps_def dest!: set_zip_rightD [of _ _ "[n..<n + length ps]" ps]
      simp: enumerate_eq_zip)

lemma number_vaps_complete:
  assumes "(ir, w) \<in> set ps"
  shows "\<exists>k. mk_vap jt k ir w \<in> set (number_vaps jt n ps)"
proof -
  from assms obtain j where "j < length ps" "ps ! j = (ir, w)" by (metis in_set_conv_nth)
  then have "number_vaps jt n ps ! j = mk_vap jt (n + j) ir w" "j < length (number_vaps jt n ps)"
    by (simp_all add: number_vaps_def nth_enumerate_eq)
  then show ?thesis by (metis nth_mem)
qed

lemma set_placement_pairs: "(ir, w) \<in> set (placement_pairs ws i rs) \<longleftrightarrow>
    ir \<in> set (enumerate i rs) \<and> w \<in> set ws \<and> radio_usable (snd ir) \<and> wlan_fits (snd ir) w"
  by (auto simp: placement_pairs_def placements_on_def split: if_splits)

lemma disabled_unplaced: "placement_pairs (filter w_enabled ws) i rs = placement_pairs ws i rs"
proof -
  have "filter (wlan_fits r) (filter w_enabled ws) = filter (wlan_fits r) ws" for r
    by (induction ws) (auto simp: wlan_fits_def)
  then have "placements_on (filter w_enabled ws) = placements_on ws"
    by (intro ext) (simp only: placements_on_def)
  then show ?thesis by (simp add: placement_pairs_def)
qed

lemma WrapVID_range: "WrapVID v = 0 \<or> 2 \<le> WrapVID v \<and> WrapVID v \<le> 4094"
  by (simp add: WrapVID_def)

definition placement_of :: "vap_plan \<Rightarrow> string" where
  "placement_of v = placement_key (SSIDOf (vp_wlan v)) (vp_phy v)"

lemma placements_step: "jget (fold (\<lambda>v out. let k = placement_key (SSIDOf (vp_wlan v)) (vp_phy v)
     in jset k (opt_or 0 (jget out k) + 1) out) vaps out) k =
   (if k \<in> set (map placement_of vaps)
    then Some (opt_or 0 (jget out k) + int (count_list (map placement_of vaps) k)) else jget out k)"
  by (induction vaps arbitrary: out)
    (auto simp: Let_def row_simps placement_of_def count_list_0_iff)

lemma vapPlacements_count: "opt_or 0 (jget (vapPlacements vaps) k) = int (count_list (map placement_of vaps) k)"
  by (simp add: vapPlacements_def placements_step count_list_0_iff)

lemma JSONStr_radio: "r \<in> set (StoredRadios d) \<Longrightarrow> rr_name r \<noteq> []"
proof -
  have "r \<in> set (radio_rows raw) \<Longrightarrow> rr_name r \<noteq> []" for raw
    by (induction raw) (auto simp: Let_def split: gval.splits if_splits)
  then show "r \<in> set (StoredRadios d) \<Longrightarrow> rr_name r \<noteq> []"
    by (auto simp: StoredRadios_def split: option.splits)
qed

section \<open>Evidence\<close>

lemma fold_removeAll: "set (fold (\<lambda>r need. removeAll (f r) need) rs need) = set need - f ` set rs"
  by (induction rs arbitrary: need) auto

lemma distinct_fold_removeAll: "distinct need \<Longrightarrow> distinct (fold (\<lambda>r need. removeAll (f r) need) rs need)"
  by (induction rs arbitrary: need) (auto simp: distinct_removeAll)

lemma set_MissingVaps: "set (MissingVaps vaps t) = (if Known (ReadVapEvidence t)
    then {devname (vp_ath v) |v. v \<in> set vaps \<and> w_enabled (vp_wlan v)}
       - vr_name ` set (ve_running (ReadVapEvidence t)) else {})"
  by (auto simp: MissingVaps_def Let_def fold_removeAll needed_devnames_def)

lemma MissingVaps_order: "sorted (MissingVaps vaps t) \<and> distinct (MissingVaps vaps t)"
  by (simp add: MissingVaps_def Let_def needed_devnames_def distinct_fold_removeAll)

lemma devname_inject [simp]: "devname m = devname n \<longleftrightarrow> m = n"
  by (simp add: devname_def)

lemma devname_nonempty [simp]: "devname n \<noteq> []"
  by (simp add: devname_def)

section \<open>Renders same, hashes same\<close>

text \<open>The spelling the renderer sees of a WLAN: effective band, ports and vlan mode, no inert profile.\<close>

definition norm_ports :: "int \<Rightarrow> radius_server list option \<Rightarrow> radius_server list option" where
  "norm_ports dflt xs = Some (map (\<lambda>s. s\<lparr>rs_port := port_or dflt (rs_port s)\<rparr>) (opt_or [] xs))"

definition normal_wlan :: "wlan \<Rightarrow> wlan" where
  "normal_wlan w =
    (let w' = w\<lparr>w_band := effective_band w,
         w_radius_servers := norm_ports 1812 (w_radius_servers w),
         w_radius_vlan_mode := (if has_radius w then effective_mode w else [])\<rparr>
     in if w_accounting w
        then w'\<lparr>w_acct_servers := norm_ports 1813 (w_acct_servers w)\<rparr>
        else w'\<lparr>w_acct_servers := None, w_interim_update := False, w_das := False\<rparr>)"

lemma port_or_idem [simp]: "port_or dflt (port_or dflt p) = port_or dflt p"
  by (simp add: port_or_def)

lemma hash_norm_ports [simp]: "hash_servers dflt (norm_ports dflt xs) = hash_servers dflt xs"
  by (simp add: hash_servers_def norm_ports_def comp_def)

lemma opt_norm_ports [simp]: "opt_or [] (norm_ports dflt xs) = [] \<longleftrightarrow> opt_or [] xs = []"
  by (simp add: norm_ports_def)

lemma effective_band_nonempty [simp]: "effective_band w \<noteq> []"
  by (simp add: effective_band_def wlanBandDefault_def)

lemma hash_fields_normal: "hash_fields (normal_wlan w) = hash_fields w"
proof -
  have b: "effective_band (normal_wlan w) = effective_band w"
    by (simp add: effective_band_def [of "normal_wlan w"]) (simp add: normal_wlan_def Let_def)
  have r: "has_radius (normal_wlan w) = has_radius w"
    by (auto simp: has_radius_def normal_wlan_def Let_def effective_mode_def)
  have m: "has_radius w \<Longrightarrow> effective_mode (normal_wlan w) = effective_mode w"
    by (auto simp: effective_mode_def normal_wlan_def Let_def)
  show ?thesis
    unfolding hash_fields_def Let_def b r using m
    by (cases "has_radius w"; cases "w_accounting w") (simp_all add: normal_wlan_def Let_def)
qed

lemma hash_entry_normal: "hash_entry (normal_wlan w) = hash_entry w"
  by (simp add: hash_entry_def hash_fields_normal)

lemma normal_fits [simp]: "wlan_fits r (normal_wlan w) = wlan_fits r w"
proof -
  have "effective_band (normal_wlan w) = effective_band w"
    by (simp add: effective_band_def [of "normal_wlan w"]) (simp add: normal_wlan_def Let_def)
  moreover have "w_enabled (normal_wlan w) = w_enabled w" by (simp add: normal_wlan_def Let_def)
  ultimately show ?thesis by (simp add: wlan_fits_def)
qed

lemma normal_identity: "WlanID jt (normal_wlan w) = WlanID jt w" "SSIDOf (normal_wlan w) = SSIDOf w"
  "w_vlan (normal_wlan w) = w_vlan w"
  by (simp_all add: WlanID_def SSIDOf_def normal_wlan_def Let_def)

lemma placement_pairs_normal:
  "placement_pairs (map normal_wlan ws) i rs = map (\<lambda>(ir, w). (ir, normal_wlan w)) (placement_pairs ws i rs)"
proof -
  have "placements_on (map normal_wlan ws) ir = map (\<lambda>(ir, w). (ir, normal_wlan w)) (placements_on ws ir)" for ir
    by (simp add: placements_on_def filter_map comp_def)
  then have "placements_on (map normal_wlan ws)
      = (\<lambda>ir. map (\<lambda>(ir, w). (ir, normal_wlan w)) (placements_on ws ir))"
    by (rule ext)
  then show ?thesis by (simp add: placement_pairs_def map_concat comp_def)
qed

lemma number_vaps_normal:
  "number_vaps jt n (map (\<lambda>(ir, w). (ir, normal_wlan w)) ps)
     = map (\<lambda>v. v\<lparr>vp_wlan := normal_wlan (vp_wlan v)\<rparr>) (number_vaps jt n ps)"
  by (induction ps arbitrary: n) (auto simp: number_vaps_def mk_vap_def normal_identity)

section \<open>Properties\<close>

text \<open>
  C32: the placement loop computes the reference plan: every usable radio in stored order with
  every fitting WLAN in list order, the vaps numbered \<open>ath0\<close>, \<open>ath1\<close>, ... without a gap, and every
  VID is 0 or in 2..4094.
\<close>

theorem PlanVaps_reference:
  "PlanVaps jt d ws = (number_vaps jt 0 (placement_pairs ws 0 (StoredRadios d)), StoredRadios d)
   \<and> map vp_ath (fst (PlanVaps jt d ws)) = [0..<length (fst (PlanVaps jt d ws))]
   \<and> list_all (\<lambda>v. vp_vid v = 0 \<or> 2 \<le> vp_vid v \<and> vp_vid v \<le> 4094) (fst (PlanVaps jt d ws))"
proof -
  have "list_all (\<lambda>v. vp_vid v = 0 \<or> 2 \<le> vp_vid v \<and> vp_vid v \<le> 4094) (number_vaps jt 0 ps)" for ps
  proof -
    have "vp_vid v = 0 \<or> 2 \<le> vp_vid v \<and> vp_vid v \<le> 4094" if "v \<in> set (number_vaps jt 0 ps)" for v
    proof -
      from set_number_vaps [OF that] obtain k ir w where "v = mk_vap jt k ir w" by blast
      then show ?thesis using WrapVID_range [of "w_vlan w"] by (simp add: mk_vap_def)
    qed
    then show ?thesis by (simp add: list_all_iff)
  qed
  then show ?thesis by (simp add: PlanVaps_eq number_vaps_ath)
qed

text \<open>
  The plan's placement map counts, for every SSID and radio, the vaps the plan puts there.
\<close>

theorem placements_counted:
  "opt_or 0 (jget (pp_placements (PlanProvisioning jt d ws)) (placement_key ssid radio))
   = int (length (filter (\<lambda>v. placement_key (SSIDOf (vp_wlan v)) (vp_phy v) = placement_key ssid radio)
       (fst (PlanVaps jt d ws))))"
proof -
  have "count_list (map f xs) k = length (filter (\<lambda>x. f x = k) xs)" for f :: "vap_plan \<Rightarrow> string" and xs k
    by (induction xs) auto
  then show ?thesis
    by (simp add: PlanProvisioning_def Let_def vapPlacements_count placement_of_def case_prod_beta)
qed

text \<open>
  WLANs that render the same hash the same: spelling out the default band, ports and vlan mode,
  or dropping an inert accounting profile, changes neither the drift hash nor the placement.
\<close>

theorem renders_same_hashes_same:
  "WlanListHash jt (map normal_wlan ws) = WlanListHash jt ws
   \<and> fst (PlanVaps jt d (map normal_wlan ws))
       = map (\<lambda>v. v\<lparr>vp_wlan := normal_wlan (vp_wlan v)\<rparr>) (fst (PlanVaps jt d ws))"
  by (simp add: WlanListHash_def comp_def hash_entry_normal PlanVaps_eq placement_pairs_normal number_vaps_normal)

text \<open>
  The converse does not hold for the list as a whole: a disabled WLAN is in the hashed document
  although the plan never places it, so adding one changes the document and not the plan.
\<close>

theorem disabled_wlan_only_hashed:
  "PlanVaps jt d (w\<lparr>w_enabled := False\<rparr> # ws) = PlanVaps jt d ws
   \<and> map hash_entry (w\<lparr>w_enabled := False\<rparr> # ws) \<noteq> map hash_entry ws"
proof -
  have "length (map hash_entry (w\<lparr>w_enabled := False\<rparr> # ws)) \<noteq> length (map hash_entry ws)" by simp
  then have "map hash_entry (w\<lparr>w_enabled := False\<rparr> # ws) \<noteq> map hash_entry ws" by metis
  moreover have "placement_pairs (w\<lparr>w_enabled := False\<rparr> # ws) 0 rs = placement_pairs ws 0 rs" for rs
    using disabled_unplaced [of "w\<lparr>w_enabled := False\<rparr> # ws" 0 rs] disabled_unplaced [of ws 0 rs] by simp
  ultimately show ?thesis by (simp only: PlanVaps_eq simp_thms)
qed

text \<open>
  The missing vaps are the planned device names no running row carries, sorted and without
  repetition; a vap table without rows proves nothing missing.
\<close>

theorem MissingVaps_exact:
  "set (MissingVaps vaps t) = (if Known (ReadVapEvidence t)
     then {devname (vp_ath v) |v. v \<in> set vaps \<and> w_enabled (vp_wlan v)}
       - vr_name ` set (ve_running (ReadVapEvidence t)) else {})
   \<and> sorted (MissingVaps vaps t) \<and> distinct (MissingVaps vaps t)"
  using set_MissingVaps MissingVaps_order by simp

end
