(* ===== verification/Delivery.thy ===== *)
theory Delivery
  imports Wlan_Plan
begin

text \<open>
  The WLAN delivery bookkeeping, \<^verbatim>\<open>internal/wireless/delivery_state.go\<close>: the typed view loaded
  from a record, the settle rule that promotes a delivery on runtime evidence, the watchdog
  counters, the retry budget and the offer stamp. \<open>ds_extra\<close> is the map the state was loaded
  from, which the operations write through.
\<close>

section \<open>The typed view\<close>

record delivery =
  ds_extra :: jmap
  ds_sha :: string
  ds_pending_present :: bool
  ds_pending_is_string :: bool
  ds_pending_sha :: string
  ds_pending_wlans :: "wlan list"
  ds_old_wlans :: "wlan list"
  ds_applied :: "gval option"
  ds_placements :: "(string \<times> int) list"
  ds_attempt_sha :: string
  ds_attempts :: int
  ds_last_attempt :: int
  ds_misses :: int
  ds_vap_misses :: int
  ds_offered :: "string option"

definition read_wlans :: "json_text \<Rightarrow> jmap \<Rightarrow> string \<Rightarrow> wlan list" where
  "read_wlans jt extra key = (case get_str extra key of
     None \<Rightarrow> []
   | Some raw \<Rightarrow> (case DecodeStoredWlans jt raw of Some (Some ws) \<Rightarrow> ws | _ \<Rightarrow> []))"

text \<open>
  \<^verbatim>\<open>json.Unmarshal\<close> into \<^verbatim>\<open>map[string]int\<close> with its error ignored: a value of another type or
  out of range leaves the zero value under its key.
\<close>

definition placement_entry :: "string \<times> gval \<Rightarrow> (string \<times> int) list \<Rightarrow> (string \<times> int) list" where
  "placement_entry kv out = jset (fst kv)
     (case snd kv of GInt n \<Rightarrow> if int64_range n then n else 0 | _ \<Rightarrow> 0) out"

definition read_placements :: "json_text \<Rightarrow> jmap \<Rightarrow> (string \<times> int) list" where
  "read_placements jt extra = (case get_str extra WlanCfgPendingPlacementsKey of
     None \<Rightarrow> []
   | Some raw \<Rightarrow> (case js_unmarshal jt raw of Some (GObj m) \<Rightarrow> fold placement_entry m [] | _ \<Rightarrow> []))"

definition read_count :: "jmap \<Rightarrow> string \<Rightarrow> int" where
  "read_count extra key = (case jget extra key of
     Some (GInt n) \<Rightarrow> n | Some (GFloat f) \<Rightarrow> int64_of_f64 f | _ \<Rightarrow> 0)"

definition read_time :: "jmap \<Rightarrow> string \<Rightarrow> int" where
  "read_time extra key = (case jget extra key of
     Some (GInt64 n) \<Rightarrow> n | Some (GFloat f) \<Rightarrow> int64_of_f64 f | _ \<Rightarrow> 0)"

definition LoadDeliveryState :: "json_text \<Rightarrow> jmap \<Rightarrow> delivery" where
  "LoadDeliveryState jt extra =
    \<lparr>ds_extra = extra,
     ds_sha = opt_or [] (get_str extra WlanCfgShaKey),
     ds_pending_present = (jget extra WlanCfgPendingShaKey \<noteq> None),
     ds_pending_is_string = (get_str extra WlanCfgPendingShaKey \<noteq> None),
     ds_pending_sha = opt_or [] (get_str extra WlanCfgPendingShaKey),
     ds_pending_wlans = read_wlans jt extra WlanCfgPendingWlansKey,
     ds_old_wlans = read_wlans jt extra WlanCfgPendingOldWlansKey,
     ds_applied = jget extra WlanCfgAppliedWlansKey,
     ds_placements = read_placements jt extra,
     ds_attempt_sha = opt_or [] (get_str extra WlanCfgAttemptShaKey),
     ds_attempts = read_count extra WlanCfgAttemptsKey,
     ds_last_attempt = read_time extra WlanCfgLastAttemptKey,
     ds_misses = read_count extra WlanCfgNotRunningMissesKey,
     ds_vap_misses = read_count extra WlanCfgVapNotRunningMissesKey,
     ds_offered = get_str extra WlanCfgOfferedCfgversionKey\<rparr>"

section \<open>The reboot marker and the counters\<close>

definition SetMaterializationRebootArmed :: "string \<Rightarrow> jmap \<Rightarrow> jmap" where
  "SetMaterializationRebootArmed cfgversion extra =
     jset WlanCfgMaterializationRebootKey (GMap [(''cfgversion'', GStr cfgversion)]) extra"

definition map_row :: "gval option \<Rightarrow> jmap option" where
  "map_row v = (case v of Some (GMap m) \<Rightarrow> Some m | Some (GObj m) \<Rightarrow> Some m | _ \<Rightarrow> None)"

definition MaterializationRebootArmedFor :: "jmap \<Rightarrow> string option" where
  "MaterializationRebootArmedFor extra = (case map_row (jget extra WlanCfgMaterializationRebootKey) of
     None \<Rightarrow> None
   | Some row \<Rightarrow> (let cv = opt_or [] (get_str row ''cfgversion'') in if cv = [] then None else Some cv))"

definition ClearMaterializationReboot :: "jmap \<Rightarrow> jmap" where
  "ClearMaterializationReboot extra = jdel WlanCfgMaterializationRebootKey extra"

definition ClearWatchdogCounters :: "jmap \<Rightarrow> jmap" where
  "ClearWatchdogCounters extra =
     jdel WlanCfgVapNotRunningMissesKey (jdel WlanCfgNotRunningMissesKey extra)"

definition RecordNotRunningMiss :: "delivery \<Rightarrow> delivery \<times> int" where
  "RecordNotRunningMiss st = (let n = wrap64 (ds_misses st + 1)
     in (st\<lparr>ds_misses := n, ds_extra := jset WlanCfgNotRunningMissesKey (GInt n) (ds_extra st)\<rparr>, n))"

definition ClearNotRunningMisses :: "delivery \<Rightarrow> delivery" where
  "ClearNotRunningMisses st =
     st\<lparr>ds_misses := 0, ds_extra := jdel WlanCfgNotRunningMissesKey (ds_extra st)\<rparr>"

definition RecordVapNotRunningMiss :: "delivery \<Rightarrow> delivery \<times> int" where
  "RecordVapNotRunningMiss st = (let n = wrap64 (ds_vap_misses st + 1)
     in (st\<lparr>ds_vap_misses := n, ds_extra := jset WlanCfgVapNotRunningMissesKey (GInt n) (ds_extra st)\<rparr>, n))"

definition ClearVapNotRunningMisses :: "delivery \<Rightarrow> delivery" where
  "ClearVapNotRunningMisses st =
     st\<lparr>ds_vap_misses := 0, ds_extra := jdel WlanCfgVapNotRunningMissesKey (ds_extra st)\<rparr>"

section \<open>Settle\<close>

definition containsEnabled :: "wlan list \<Rightarrow> string \<Rightarrow> bool" where
  "containsEnabled wls ssid = list_ex (\<lambda>w. w_enabled w \<and> SSIDOf w = ssid) wls"

definition enabled_ssids :: "wlan list \<Rightarrow> string list" where
  "enabled_ssids ws = map SSIDOf (filter w_enabled ws)"

definition removed_ssids :: "wlan list \<Rightarrow> wlan list \<Rightarrow> string list" where
  "removed_ssids desired old = filter (\<lambda>s. \<not> containsEnabled desired s) (enabled_ssids old)"

definition bump :: "int \<Rightarrow> string \<Rightarrow> (string \<times> int) list \<Rightarrow> (string \<times> int) list" where
  "bump n k m = jset k (opt_or 0 (jget m k) + n) m"

definition needed_ssids :: "wlan list \<Rightarrow> (string \<times> int) list" where
  "needed_ssids desired = fold (bump 1) (enabled_ssids desired) []"

text \<open>The loop over the running rows; \<open>None\<close> for the return on a removed SSID, with the placements.\<close>

fun settle_rows :: "string list \<Rightarrow> vap_run list \<Rightarrow> (string \<times> int) list \<Rightarrow> (string \<times> int) list
    \<Rightarrow> (string \<times> int) list option \<times> (string \<times> int) list" where
  "settle_rows removed [] need placements = (Some need, placements)"
| "settle_rows removed (r # rs) need placements =
    (let ssid = vr_ssid r; key = placement_key ssid (vr_radio r)
     in if ssid = [] then settle_rows removed rs need placements
        else if ssid \<in> set removed then (None, placements)
        else if 0 < opt_or 0 (jget placements key)
          then settle_rows removed rs (bump (- 1) ssid need) (bump (- 1) key placements)
        else if 0 < opt_or 0 (jget need ssid) \<and> length placements = 0
          then settle_rows removed rs (bump (- 1) ssid need) placements
        else settle_rows removed rs need placements)"

definition promote :: "string \<Rightarrow> delivery \<Rightarrow> delivery" where
  "promote cfgversion st =
    (let e = ds_extra st;
         e = (case MaterializationRebootArmedFor e of
                Some cv \<Rightarrow> if cv \<noteq> cfgversion then jdel WlanCfgMaterializationRebootKey e else e
              | None \<Rightarrow> e);
         e = jset WlanCfgShaKey (GStr (ds_pending_sha st)) e;
         e = jset WlanCfgAppliedWlansKey (opt_or GNil (jget e WlanCfgPendingWlansKey)) e;
         e = jset WlanCfgDeliveryStatusKey (GStr ''confirmed'') e;
         e = jdel WlanCfgPendingShaKey e;
         e = jdel WlanCfgPendingWlansKey e;
         e = jdel WlanCfgPendingPlacementsKey e;
         e = jdel WlanCfgOfferedCfgversionKey e
     in st\<lparr>ds_extra := e, ds_sha := ds_pending_sha st, ds_pending_present := False,
           ds_pending_is_string := False, ds_pending_sha := [], ds_pending_wlans := [],
           ds_placements := [], ds_offered := None\<rparr>)"

definition Settle :: "string \<Rightarrow> delivery \<Rightarrow> delivery" where
  "Settle cfgversion st =
    (if \<not> ds_pending_is_string st then st
     else let ev = ReadVapEvidence (jget (ds_extra st) ''vap_table'')
       in if \<not> ve_present ev then st
          else let desired = ds_pending_wlans st;
                   (res, placements) = settle_rows (removed_ssids desired (ds_old_wlans st))
                      (ve_running ev) (needed_ssids desired) (ds_placements st);
                   st' = st\<lparr>ds_placements := placements\<rparr>
            in case res of
                 None \<Rightarrow> st'
               | Some need \<Rightarrow>
                   if list_ex (\<lambda>w. w_enabled w \<and> 0 < opt_or 0 (jget need (SSIDOf w))) desired then st'
                   else promote cfgversion st')"

section \<open>The settled-state watchdog's reading\<close>

datatype not_running = NotRunningUnknown | NotRunningRun | NotRunningMiss

definition NotRunningEvidence :: "json_text \<Rightarrow> delivery \<Rightarrow> not_running" where
  "NotRunningEvidence jt st =
    (let ev = ReadVapEvidence (jget (ds_extra st) ''vap_table'')
     in if \<not> Known ev then NotRunningUnknown
        else let raw = opt_or [] (get_str (ds_extra st) WlanCfgAppliedWlansKey)
          in if raw = [] then NotRunningUnknown
             else case DecodeStoredWlans jt raw of
               None \<Rightarrow> NotRunningUnknown
             | Some applied \<Rightarrow>
                 let need = enabled_ssids (opt_or [] applied)
                 in if need = [] then NotRunningUnknown
                    else if filter (\<lambda>s. s \<notin> vr_ssid ` set (ve_running ev)) need \<noteq> [] then NotRunningMiss
                    else NotRunningRun)"

definition AppliedNotRunning :: "json_text \<Rightarrow> delivery \<Rightarrow> bool" where
  "AppliedNotRunning jt st \<longleftrightarrow> NotRunningEvidence jt st = NotRunningMiss"

section \<open>Retry budget and offers\<close>

definition WlanMaxAttempts :: int where "WlanMaxAttempts = 6"
definition WlanRetryBase :: int where "WlanRetryBase = 2"
definition WlanRetryMax :: int where "WlanRetryMax = 60"

text \<open>\<^verbatim>\<open>1 << k\<close> on a 64-bit value.\<close>

definition shl1 :: "int \<Rightarrow> int" where
  "shl1 k = (if k < 64 then wrap64 (2 ^ nat k) else 0)"

definition retry_delay :: "int \<Rightarrow> int" where
  "retry_delay attempts =
     min WlanRetryMax (WlanRetryBase * shl1 (max 0 (wrap64 (attempts - 1))))"

definition RetryDue :: "int \<Rightarrow> delivery \<Rightarrow> delivery \<times> bool" where
  "RetryDue now st =
    (if WlanMaxAttempts \<le> ds_attempts st
     then (st\<lparr>ds_extra := jset WlanCfgDeliveryStatusKey (GStr ''exhausted'') (ds_extra st)\<rparr>, False)
     else (st, ds_last_attempt st = 0
             \<or> wrap64 (ds_last_attempt st + retry_delay (ds_attempts st)) \<le> now))"

definition WlanRetryDue :: "json_text \<Rightarrow> jmap \<Rightarrow> int \<Rightarrow> jmap \<times> bool" where
  "WlanRetryDue jt extra now = (let (st, due) = RetryDue now (LoadDeliveryState jt extra)
     in (ds_extra st, due))"

text \<open>\<^verbatim>\<open>json.Marshal\<close> of a \<^verbatim>\<open>map[string]int\<close> writes its keys in sorted order.\<close>

definition placements_doc :: "(string \<times> int) list \<Rightarrow> gval" where
  "placements_doc ps = GObj (map (\<lambda>(k, n). (k, GInt n)) (sort_key fst ps))"

definition Offer :: "json_text \<Rightarrow> string \<Rightarrow> int \<Rightarrow> wlan list option \<Rightarrow> (string \<times> int) list \<Rightarrow> string
    \<Rightarrow> delivery \<Rightarrow> delivery" where
  "Offer jt cur now wls placements offeredCfg st =
    (let e = jset WlanCfgPendingShaKey (GStr cur) (ds_extra st);
         e = (if ds_attempt_sha st \<noteq> cur
              then jset WlanCfgAttemptsKey (GInt 1) (jset WlanCfgAttemptShaKey (GStr cur) e)
              else jset WlanCfgAttemptsKey (GInt (wrap64 (ds_attempts st + 1))) e);
         e = jset WlanCfgLastAttemptKey (GInt64 now) e;
         e = jset WlanCfgDeliveryStatusKey (GStr ''pending'') e;
         e = jset WlanCfgOfferedCfgversionKey (GStr offeredCfg) e;
         e = (case ds_applied st of Some v \<Rightarrow> jset WlanCfgPendingOldWlansKey v e | None \<Rightarrow> e);
         e = jset WlanCfgPendingWlansKey (GStr (EncodeStoredWlans jt wls)) e;
         e = jset WlanCfgPendingPlacementsKey (GStr (js_marshal jt (placements_doc placements))) e
     in st\<lparr>ds_extra := e\<rparr>)"

definition DeliveryStatus :: "delivery \<Rightarrow> string" where
  "DeliveryStatus st = opt_or [] (get_str (ds_extra st) WlanCfgDeliveryStatusKey)"

definition RuntimeInSync :: "json_text \<Rightarrow> device \<Rightarrow> wlan list \<Rightarrow> bool option" where
  "RuntimeInSync jt d desired =
    (if dev_extra d = None then None
     else if ds_pending_present (LoadDeliveryState jt (ext d)) then Some False
     else let ev = ReadVapEvidence (jget (ext d) ''vap_table'')
       in if \<not> Known ev then None
          else let want = map w_ssid (filter w_enabled desired)
            in if want = [] then None
               else Some (list_all (SSIDRunning ev) want))"

section \<open>What a settled delivery proves\<close>

text \<open>
  A running row that counts as proof for an SSID: it carries the SSID, and when placements were
  recorded it sits on a radio the plan placed the SSID on.
\<close>

definition proves :: "(string \<times> int) list \<Rightarrow> string \<Rightarrow> vap_run \<Rightarrow> bool" where
  "proves placements ssid r \<longleftrightarrow> vr_ssid r = ssid \<and> ssid \<noteq> [] \<and>
     (placements = [] \<or> 0 < opt_or 0 (jget placements (placement_key ssid (vr_radio r))))"

lemma jget_bump: "opt_or 0 (jget (bump n k m) k') = opt_or 0 (jget m k') + (if k' = k then n else 0)"
  by (simp add: bump_def row_simps)

lemma bump_nonempty: "bump n k m \<noteq> []"
proof
  assume "bump n k m = []"
  then have "jget (bump n k m) k = None" by simp
  then show False by (simp add: bump_def row_simps)
qed

lemma proves_bump:
  assumes "0 < opt_or 0 (jget pl key)" "proves (bump (- 1) key pl) s r"
  shows "proves pl s r"
  using assms bump_nonempty [of "- 1" key pl]
  by (auto simp: proves_def jget_bump split: if_splits)

lemma count_proofs_mono:
  "(\<And>r. P r \<Longrightarrow> Q r) \<Longrightarrow> length (filter P xs) \<le> length (filter Q xs)"
  by (induction xs) auto

lemma settle_rows_proof:
  "settle_rows removed rs need pl = (Some need', pl') \<Longrightarrow>
   (\<forall>r \<in> set rs. vr_ssid r \<noteq> [] \<longrightarrow> vr_ssid r \<notin> set removed) \<and>
   opt_or 0 (jget need s) \<le> opt_or 0 (jget need' s) + int (length (filter (proves pl s) rs))"
proof (induction removed rs need pl arbitrary: need' pl' rule: settle_rows.induct)
  case (2 removed r rs need pl)
  let ?ssid = "vr_ssid r" and ?key = "placement_key (vr_ssid r) (vr_radio r)"
  have mono: "length (filter (proves (bump (- 1) ?key pl) s) rs) \<le> length (filter (proves pl s) rs)"
    if "0 < opt_or 0 (jget pl ?key)"
    using that by (intro count_proofs_mono) (rule proves_bump)
  consider "?ssid = []" | "?ssid \<noteq> []" "?ssid \<in> set removed"
    | (pl) "?ssid \<noteq> []" "?ssid \<notin> set removed" "0 < opt_or 0 (jget pl ?key)"
    | (nopl) "?ssid \<noteq> []" "?ssid \<notin> set removed" "\<not> 0 < opt_or 0 (jget pl ?key)"
        "0 < opt_or 0 (jget need ?ssid)" "pl = []"
    | (skip) "?ssid \<noteq> []" "?ssid \<notin> set removed" "\<not> 0 < opt_or 0 (jget pl ?key)"
        "\<not> (0 < opt_or 0 (jget need ?ssid) \<and> pl = [])"
    by blast
  then show ?case
  proof cases
    case 1
    with 2 show ?thesis by (auto simp: Let_def proves_def)
  next
    case 2
    with "2.prems" show ?thesis by (simp add: Let_def)
  next
    case pl
    then have "settle_rows removed rs (bump (- 1) ?ssid need) (bump (- 1) ?key pl) = (Some need', pl')"
      using "2.prems" by (simp add: Let_def)
    from "2.IH"(2) [OF refl refl _ _ _ this] pl
    have ih: "\<forall>r \<in> set rs. vr_ssid r \<noteq> [] \<longrightarrow> vr_ssid r \<notin> set removed"
      "opt_or 0 (jget (bump (- 1) ?ssid need) s)
        \<le> opt_or 0 (jget need' s) + int (length (filter (proves (bump (- 1) ?key pl) s) rs))"
      by blast+
    have "s = ?ssid \<Longrightarrow> proves pl s r" using pl by (simp add: proves_def)
    with ih mono [OF pl(3)] pl show ?thesis by (auto simp: jget_bump split: if_splits)
  next
    case nopl
    then have "settle_rows removed rs (bump (- 1) ?ssid need) pl = (Some need', pl')"
      using "2.prems" by (simp add: Let_def)
    from "2.IH"(3) [OF refl refl _ _ _ _ this] nopl
    have ih: "\<forall>r \<in> set rs. vr_ssid r \<noteq> [] \<longrightarrow> vr_ssid r \<notin> set removed"
      "opt_or 0 (jget (bump (- 1) ?ssid need) s)
        \<le> opt_or 0 (jget need' s) + int (length (filter (proves pl s) rs))"
      by auto
    have "s = ?ssid \<Longrightarrow> proves pl s r" using nopl by (simp add: proves_def)
    with ih nopl show ?thesis by (auto simp: jget_bump split: if_splits)
  next
    case skip
    then have "settle_rows removed rs need pl = (Some need', pl')"
      using "2.prems" by (auto simp: Let_def)
    from "2.IH"(4) [OF refl refl _ _ _ _ this] skip
    have ih: "\<forall>r \<in> set rs. vr_ssid r \<noteq> [] \<longrightarrow> vr_ssid r \<notin> set removed"
      "opt_or 0 (jget need s) \<le> opt_or 0 (jget need' s) + int (length (filter (proves pl s) rs))"
      by auto
    with skip show ?thesis by auto
  qed
qed auto

lemma needed_count: "opt_or 0 (jget (fold (bump 1) ss m) s) = opt_or 0 (jget m s) + int (count_list ss s)"
  by (induction ss arbitrary: m) (auto simp: jget_bump)

lemma needed_ssids_count: "opt_or 0 (jget (needed_ssids desired) s) = int (count_list (enabled_ssids desired) s)"
  by (simp add: needed_ssids_def needed_count)

lemma Settle_promoted:
  assumes "ds_pending_present st" "\<not> ds_pending_present (Settle cv st)"
  obtains need pl where
    "ds_pending_is_string st"
    "ve_present (ReadVapEvidence (jget (ds_extra st) ''vap_table''))"
    "settle_rows (removed_ssids (ds_pending_wlans st) (ds_old_wlans st))
       (ve_running (ReadVapEvidence (jget (ds_extra st) ''vap_table'')))
       (needed_ssids (ds_pending_wlans st)) (ds_placements st) = (Some need, pl)"
    "\<And>w. w \<in> set (ds_pending_wlans st) \<Longrightarrow> w_enabled w \<Longrightarrow> opt_or 0 (jget need (SSIDOf w)) \<le> 0"
    "Settle cv st = promote cv (st\<lparr>ds_placements := pl\<rparr>)"
proof -
  let ?ev = "ReadVapEvidence (jget (ds_extra st) ''vap_table'')"
  let ?w = "ds_pending_wlans st"
  obtain res pl where r: "settle_rows (removed_ssids ?w (ds_old_wlans st)) (ve_running ?ev)
      (needed_ssids ?w) (ds_placements st) = (res, pl)" by (metis prod.exhaust)
  have s: "ds_pending_is_string st"
    by (rule ccontr) (use assms in \<open>simp add: Settle_def\<close>)
  have p: "ve_present ?ev"
    by (rule ccontr) (use assms s in \<open>simp add: Settle_def\<close>)
  have eq: "Settle cv st = (case res of None \<Rightarrow> st\<lparr>ds_placements := pl\<rparr>
     | Some need \<Rightarrow> if list_ex (\<lambda>w. w_enabled w \<and> 0 < opt_or 0 (jget need (SSIDOf w))) ?w
         then st\<lparr>ds_placements := pl\<rparr> else promote cv (st\<lparr>ds_placements := pl\<rparr>))"
    using s p r by (simp add: Settle_def Let_def)
  show thesis
  proof (cases res)
    case None
    with assms eq show ?thesis by simp
  next
    case (Some need)
    show ?thesis
    proof (cases "list_ex (\<lambda>w. w_enabled w \<and> 0 < opt_or 0 (jget need (SSIDOf w))) ?w")
      case True
      with assms eq Some show ?thesis by simp
    next
      case False
      then have "\<And>w. w \<in> set ?w \<Longrightarrow> w_enabled w \<Longrightarrow> opt_or 0 (jget need (SSIDOf w)) \<le> 0"
        by (auto simp: list_ex_iff not_less)
      with that s p r eq Some False show ?thesis by simp
    qed
  qed
qed

lemma Settle_evidence:
  assumes "ds_pending_present st" "\<not> ds_pending_present (Settle cv st)"
  defines "ev \<equiv> ReadVapEvidence (jget (ds_extra st) ''vap_table'')"
  shows "ve_present ev"
    and "r \<in> set (ve_running ev) \<Longrightarrow> vr_ssid r \<noteq> [] \<Longrightarrow>
           vr_ssid r \<notin> set (removed_ssids (ds_pending_wlans st) (ds_old_wlans st))"
    and "w \<in> set (ds_pending_wlans st) \<Longrightarrow> w_enabled w \<Longrightarrow>
           count_list (enabled_ssids (ds_pending_wlans st)) (SSIDOf w)
             \<le> length (filter (proves (ds_placements st) (SSIDOf w)) (ve_running ev))"
proof -
  from Settle_promoted [OF assms(1,2)] obtain need pl where P:
    "ve_present (ReadVapEvidence (jget (ds_extra st) ''vap_table''))"
    "settle_rows (removed_ssids (ds_pending_wlans st) (ds_old_wlans st))
       (ve_running (ReadVapEvidence (jget (ds_extra st) ''vap_table'')))
       (needed_ssids (ds_pending_wlans st)) (ds_placements st) = (Some need, pl)"
    "\<And>w. w \<in> set (ds_pending_wlans st) \<Longrightarrow> w_enabled w \<Longrightarrow> opt_or 0 (jget need (SSIDOf w)) \<le> 0"
    by metis
  note S = settle_rows_proof [OF P(2)]
  show "ve_present ev" using P(1) by (simp add: ev_def)
  show "r \<in> set (ve_running ev) \<Longrightarrow> vr_ssid r \<noteq> [] \<Longrightarrow>
      vr_ssid r \<notin> set (removed_ssids (ds_pending_wlans st) (ds_old_wlans st))"
    using S by (simp add: ev_def)
  show "w \<in> set (ds_pending_wlans st) \<Longrightarrow> w_enabled w \<Longrightarrow>
      count_list (enabled_ssids (ds_pending_wlans st)) (SSIDOf w)
        \<le> length (filter (proves (ds_placements st) (SSIDOf w)) (ve_running ev))"
    using S [of "SSIDOf w"] P(3) [of w] by (simp add: ev_def needed_ssids_count)
qed

section \<open>The typed view after settling\<close>

lemma promote_reads:
  "get_str (ds_extra (promote cv st)) WlanCfgShaKey = Some (ds_pending_sha st)"
  "jget (ds_extra (promote cv st)) WlanCfgPendingShaKey = None"
  "get_str (ds_extra (promote cv st)) WlanCfgDeliveryStatusKey = Some ''confirmed''"
  "jget (ds_extra (promote cv st)) WlanCfgPendingWlansKey = None"
  "jget (ds_extra (promote cv st)) WlanCfgPendingPlacementsKey = None"
  "jget (ds_extra (promote cv st)) WlanCfgOfferedCfgversionKey = None"
  "jget (ds_extra (promote cv st)) WlanCfgAppliedWlansKey
     = Some (opt_or GNil (jget (ds_extra st) WlanCfgPendingWlansKey))"
  by (simp_all add: promote_def Let_def get_str_def row_simps key_defs split: option.split)

lemma promote_fields:
  "ds_sha (promote cv st) = ds_pending_sha st" "\<not> ds_pending_present (promote cv st)"
  "\<not> ds_pending_is_string (promote cv st)" "ds_pending_sha (promote cv st) = []"
  "ds_pending_wlans (promote cv st) = []" "ds_offered (promote cv st) = None"
  by (simp_all add: promote_def Let_def)

definition view_coherent :: "json_text \<Rightarrow> delivery \<Rightarrow> bool" where
  "view_coherent jt st \<longleftrightarrow> (let l = LoadDeliveryState jt (ds_extra st) in
     ds_sha l = ds_sha st \<and> ds_pending_present l = ds_pending_present st
     \<and> ds_pending_is_string l = ds_pending_is_string st \<and> ds_pending_sha l = ds_pending_sha st
     \<and> ds_pending_wlans l = ds_pending_wlans st \<and> ds_offered l = ds_offered st)"

lemma Load_coherent: "view_coherent jt (LoadDeliveryState jt e)"
  by (simp add: view_coherent_def Let_def LoadDeliveryState_def)

lemma promote_coherent: "view_coherent jt (promote cv st)"
  unfolding view_coherent_def Let_def LoadDeliveryState_def delivery.simps promote_fields promote_reads
  by (simp add: get_str_def promote_reads promote_fields read_wlans_def)

lemma coherent_placements [simp]: "view_coherent jt (st\<lparr>ds_placements := pl\<rparr>) = view_coherent jt st"
  by (simp add: view_coherent_def)

lemma Settle_coherent:
  assumes "view_coherent jt st"
  shows "view_coherent jt (Settle cv st)"
proof -
  have "Settle cv st = st \<or> (\<exists>pl. Settle cv st = st\<lparr>ds_placements := pl\<rparr>
      \<or> Settle cv st = promote cv (st\<lparr>ds_placements := pl\<rparr>))"
    by (auto simp: Settle_def Let_def split: prod.split option.split)
  with assms promote_coherent show ?thesis by auto
qed

section \<open>The watchdog's reading\<close>

lemma NotRunning_Miss_iff: "NotRunningEvidence jt st = NotRunningMiss \<longleftrightarrow>
    (let ev = ReadVapEvidence (jget (ds_extra st) ''vap_table'');
         raw = opt_or [] (get_str (ds_extra st) WlanCfgAppliedWlansKey)
     in Known ev \<and> raw \<noteq> [] \<and> (\<exists>applied w. DecodeStoredWlans jt raw = Some applied
          \<and> w \<in> set (opt_or [] applied) \<and> w_enabled w \<and> SSIDOf w \<notin> vr_ssid ` set (ve_running ev)))"
  by (auto simp: NotRunningEvidence_def Let_def enabled_ssids_def filter_empty_conv split: option.splits)

lemma NotRunning_Run_iff: "NotRunningEvidence jt st = NotRunningRun \<longleftrightarrow>
    (let ev = ReadVapEvidence (jget (ds_extra st) ''vap_table'');
         raw = opt_or [] (get_str (ds_extra st) WlanCfgAppliedWlansKey)
     in Known ev \<and> raw \<noteq> [] \<and> (\<exists>applied. DecodeStoredWlans jt raw = Some applied
          \<and> (\<exists>w \<in> set (opt_or [] applied). w_enabled w)
          \<and> (\<forall>w \<in> set (opt_or [] applied). w_enabled w \<longrightarrow> SSIDOf w \<in> vr_ssid ` set (ve_running ev))))"
  by (auto simp: NotRunningEvidence_def Let_def enabled_ssids_def filter_empty_conv split: option.splits)

section \<open>The retry budget\<close>

type_synonym offer = "int \<times> wlan list option \<times> (string \<times> int) list \<times> string"

definition offer_row :: "json_text \<Rightarrow> string \<Rightarrow> offer \<Rightarrow> jmap \<Rightarrow> jmap" where
  "offer_row jt cur o' e = (case o' of (now, wls, placements, cfg) \<Rightarrow>
     ds_extra (Offer jt cur now wls placements cfg (LoadDeliveryState jt e)))"

lemma Offer_reads:
  fixes jt st wls placements cfg now cur
  defines "e \<equiv> ds_extra (Offer jt cur now wls placements cfg st)"
  shows "get_str e WlanCfgPendingShaKey = Some cur"
    and "get_str e WlanCfgOfferedCfgversionKey = Some cfg"
    and "jget e WlanCfgLastAttemptKey = Some (GInt64 now)"
    and "get_str e WlanCfgDeliveryStatusKey = Some ''pending''"
    and "get_str e WlanCfgPendingWlansKey = Some (EncodeStoredWlans jt wls)"
    and "jget e WlanCfgAttemptsKey = Some (GInt
           (if ds_attempt_sha st \<noteq> cur then 1 else wrap64 (ds_attempts st + 1)))"
    and "ds_attempt_sha st \<noteq> cur \<Longrightarrow> get_str e WlanCfgAttemptShaKey = Some cur"
    and "ds_attempt_sha st = cur \<Longrightarrow> jget e WlanCfgAttemptShaKey = jget (ds_extra st) WlanCfgAttemptShaKey"
    and "jget e WlanCfgShaKey = jget (ds_extra st) WlanCfgShaKey"
    and "jget e WlanCfgAppliedWlansKey = jget (ds_extra st) WlanCfgAppliedWlansKey"
  unfolding e_def by (simp_all add: Offer_def Let_def get_str_def row_simps key_defs split: option.split)

lemma offers_counted:
  assumes "opt_or [] (get_str e WlanCfgAttemptShaKey) \<noteq> cur" "os \<noteq> []" "length os < 2 ^ 62"
  shows "opt_or [] (get_str (fold (offer_row jt cur) os e) WlanCfgAttemptShaKey) = cur
    \<and> read_count (fold (offer_row jt cur) os e) WlanCfgAttemptsKey = int (length os)"
  using assms(2,3)
proof (induction os rule: rev_nonempty_induct)
  case (single x)
  obtain now wls pl cfg where x: "x = (now, wls, pl, cfg)" by (cases x)
  from assms(1) Offer_reads(6,7) [where st = "LoadDeliveryState jt e" and cur = cur and jt = jt and now = now and wls = wls and placements = pl and cfg = cfg]
  show ?case by (simp add: x offer_row_def read_count_def LoadDeliveryState_def)
next
  case (snoc x xs)
  obtain now wls pl cfg where x: "x = (now, wls, pl, cfg)" by (cases x)
  define e' where "e' = fold (offer_row jt cur) xs e"
  define st where "st = LoadDeliveryState jt e'"
  have ih: "opt_or [] (get_str e' WlanCfgAttemptShaKey) = cur"
    "read_count e' WlanCfgAttemptsKey = int (length xs)"
    using snoc by (simp_all add: e'_def)
  have st: "ds_attempt_sha st = cur" "ds_attempts st = int (length xs)" "ds_extra st = e'"
    using ih by (simp_all add: st_def LoadDeliveryState_def)
  have w: "wrap64 (int (length xs) + 1) = int (length xs) + 1"
    using snoc.prems by (simp add: wrap64_id)
  have f: "fold (offer_row jt cur) (xs @ [x]) e = ds_extra (Offer jt cur now wls pl cfg st)"
    by (simp add: x offer_row_def st_def e'_def)
  show ?case
    unfolding f read_count_def get_str_def Offer_reads(6) Offer_reads(8) [OF st(1)]
    using ih(1) st w by (simp add: get_str_def)
qed

section \<open>Properties\<close>

text \<open>
  C33: a pending delivery is confirmed only on evidence: the device reported a vap table, no running
  vap carries an SSID the delivery removed, and every enabled SSID of the delivery runs at least as
  often as it is listed, on the radios the plan placed it on when placements were recorded. The
  record then holds the confirmed hash and the delivered list and nothing pending.
\<close>

theorem Settle_needs_evidence:
  assumes "ds_pending_present st" "\<not> ds_pending_present (Settle cv st)"
  shows "ve_present (ReadVapEvidence (jget (ds_extra st) ''vap_table''))
    \<and> (\<forall>r \<in> set (ve_running (ReadVapEvidence (jget (ds_extra st) ''vap_table''))). vr_ssid r \<noteq> [] \<longrightarrow>
         vr_ssid r \<notin> set (removed_ssids (ds_pending_wlans st) (ds_old_wlans st)))
    \<and> (\<forall>w \<in> set (ds_pending_wlans st). w_enabled w \<longrightarrow>
         count_list (enabled_ssids (ds_pending_wlans st)) (SSIDOf w)
           \<le> length (filter (proves (ds_placements st) (SSIDOf w))
                (ve_running (ReadVapEvidence (jget (ds_extra st) ''vap_table'')))))
    \<and> get_str (ds_extra (Settle cv st)) WlanCfgShaKey = Some (ds_pending_sha st)
    \<and> jget (ds_extra (Settle cv st)) WlanCfgPendingShaKey = None
    \<and> get_str (ds_extra (Settle cv st)) WlanCfgDeliveryStatusKey = Some ''confirmed''
    \<and> jget (ds_extra (Settle cv st)) WlanCfgAppliedWlansKey
        = Some (opt_or GNil (jget (ds_extra st) WlanCfgPendingWlansKey))"
proof -
  obtain pl where "Settle cv st = promote cv (st\<lparr>ds_placements := pl\<rparr>)"
    using Settle_promoted [OF assms] by metis
  then show ?thesis
    using Settle_evidence [OF assms] by (auto simp: promote_reads)
qed

definition home_wlan :: wlan where
  "home_wlan = zero_wlan\<lparr>w_name := ''home'', w_enabled := True\<rparr>"

definition home_vaps :: gval where
  "home_vaps = GArr [GObj [(''name'', GStr ''ath0''), (''essid'', GStr ''home''), (''state'', GStr ''RUN''),
     (''radio_name'', GStr ''wifi0'')]]"

definition home_delivery :: delivery where
  "home_delivery = \<lparr>ds_extra = [(''vap_table'', home_vaps), (WlanCfgPendingShaKey, GStr ''new'')],
     ds_sha = ''old'', ds_pending_present = True, ds_pending_is_string = True, ds_pending_sha = ''new'',
     ds_pending_wlans = [home_wlan], ds_old_wlans = [], ds_applied = None,
     ds_placements = [(placement_key ''home'' ''wifi0'', 1)], ds_attempt_sha = ''new'', ds_attempts = 1,
     ds_last_attempt = 5, ds_misses = 0, ds_vap_misses = 0, ds_offered = None\<rparr>"

lemma Settle_needs_evidence_witness:
  "\<not> ds_pending_present (Settle ''c'' home_delivery)
   \<and> get_str (ds_extra (Settle ''c'' home_delivery)) WlanCfgShaKey = Some ''new''"
proof -
  have "ds_pending_present home_delivery" by (simp add: home_delivery_def)
  moreover have p: "\<not> ds_pending_present (Settle ''c'' home_delivery)" by code_simp
  ultimately show ?thesis
    using Settle_needs_evidence [of home_delivery "''c''"] by (simp add: home_delivery_def)
qed

text \<open>
  Settling keeps the typed view and the record's rows in step: loading the rows again gives the
  same hashes, pending list and offered version as the view held in memory.
\<close>

theorem settled_view_coherent: "view_coherent jt (Settle cv (LoadDeliveryState jt e))"
  by (intro Settle_coherent Load_coherent)

text \<open>
  The retry budget is bounded: after \<open>WlanMaxAttempts\<close> offers of one configuration (whatever
  their times) no further retry is due and the record says the delivery is exhausted.
\<close>

theorem retries_bounded:
  assumes "opt_or [] (get_str e WlanCfgAttemptShaKey) \<noteq> cur"
    and "WlanMaxAttempts \<le> int (length os)" "length os < 2 ^ 62"
  shows "snd (WlanRetryDue jt (fold (offer_row jt cur) os e) now) = False
    \<and> get_str (fst (WlanRetryDue jt (fold (offer_row jt cur) os e) now)) WlanCfgDeliveryStatusKey = Some ''exhausted''"
proof -
  have "os \<noteq> []" using assms(2) by (auto simp: WlanMaxAttempts_def)
  then have "read_count (fold (offer_row jt cur) os e) WlanCfgAttemptsKey = int (length os)"
    using offers_counted [OF assms(1) _ assms(3)] by blast
  then show ?thesis
    using assms(2) by (simp add: WlanRetryDue_def LoadDeliveryState_def RetryDue_def get_str_def row_simps)
qed

lemma retries_bounded_witness:
  "snd (WlanRetryDue (one_document GNil) (fold (offer_row (one_document GNil) ''new'')
     (replicate 6 (100, None, [], ''c'')) []) 100000) = False"
  using retries_bounded [of "[]" "''new''" "replicate 6 (100, None, [], ''c'')" "one_document GNil" 100000]
  by (simp add: get_str_def WlanMaxAttempts_def)

text \<open>
  Within the attempt budget the retry delay is 2, 2, 4, 8, 16 and 32 seconds; the ceiling
  \<open>WlanRetryMax\<close> of 60 seconds is never reached.
\<close>

theorem retry_ceiling_unreachable:
  "map retry_delay [0..WlanMaxAttempts - 1] = [2, 2, 4, 8, 16, 32] \<and> 32 < WlanRetryMax"
proof -
  have "[0..WlanMaxAttempts - 1] = [0, 1, 2, 3, 4, 5]" by (simp add: WlanMaxAttempts_def upto.simps)
  then show ?thesis by (simp add: retry_delay_def WlanRetryMax_def WlanRetryBase_def shl1_def wrap64_def)
qed

text \<open>
  The settled-state watchdog counts a miss exactly when the device reports vap rows, an applied
  list was recorded and decodes, and some enabled WLAN of it runs on no vap.
\<close>

theorem watchdog_miss_exact:
  "NotRunningEvidence jt st = NotRunningMiss \<longleftrightarrow>
    (let ev = ReadVapEvidence (jget (ds_extra st) ''vap_table'');
         raw = opt_or [] (get_str (ds_extra st) WlanCfgAppliedWlansKey)
     in Known ev \<and> raw \<noteq> [] \<and> (\<exists>applied w. DecodeStoredWlans jt raw = Some applied
          \<and> w \<in> set (opt_or [] applied) \<and> w_enabled w \<and> SSIDOf w \<notin> vr_ssid ` set (ve_running ev)))"
  by (rule NotRunning_Miss_iff)

text \<open>
  For a WLAN that has only a name, the two readings of the same vap table disagree: the SSID
  the WLAN broadcasts under is running, so a delivery of it settles, and yet the runtime is
  reported out of sync.
\<close>

theorem name_only_wlan_out_of_sync:
  "w_ssid home_wlan = [] \<and> SSIDRunning (ReadVapEvidence (Some home_vaps)) (SSIDOf home_wlan)
   \<and> \<not> ds_pending_present (Settle ''c'' home_delivery)
   \<and> RuntimeInSync jt ((new_device ''m'')\<lparr>dev_extra := Some [(''vap_table'', home_vaps)]\<rparr>) [home_wlan] = Some False"
proof (intro conjI)
  show "w_ssid home_wlan = []" by (simp add: home_wlan_def zero_wlan_def)
  show "SSIDRunning (ReadVapEvidence (Some home_vaps)) (SSIDOf home_wlan)" by code_simp
  show "\<not> ds_pending_present (Settle ''c'' home_delivery)" by code_simp
  have k: "Known (ReadVapEvidence (Some home_vaps))" by code_simp
  have "WlanCfgPendingShaKey \<noteq> ''vap_table''" by code_simp
  then show "RuntimeInSync jt ((new_device ''m'')\<lparr>dev_extra := Some [(''vap_table'', home_vaps)]\<rparr>) [home_wlan] = Some False"
    using k by (simp add: RuntimeInSync_def LoadDeliveryState_def Let_def home_wlan_def zero_wlan_def SSIDRunning_def)
qed

end
