(* ===== verification/Device_Store.thy ===== *)
theory Device_Store
  imports Device_Record
begin

text \<open>
  The device store of \<^verbatim>\<open>internal/store/store.go\<close>: the in-memory core \<open>db\<close> (every operation
  runs under the core's mutex and is one step here) and the JSON-file-backed store on top
  of it. The per-MAC locks are the subject of theory \<open>Store_Locks\<close>.
\<close>

section \<open>The in-memory core\<close>

record pending_entry =
  pe_note :: string
  pe_seen :: int

record db =
  db_devices :: "(string \<times> device) list"
  db_pending :: "(string \<times> pending_entry) list"

definition newDB :: db where
  "newDB = \<lparr>db_devices = [], db_pending = []\<rparr>"

text \<open>\<open>ErrFn\<close> is the error of the caller's mutation, passed through as it is.\<close>

datatype store_error = ErrNotFound | ErrEmptyMAC | ErrPendingFull | ErrSave | ErrFn string

definition db_Get :: "string \<Rightarrow> db \<Rightarrow> store_error + device" where
  "db_Get mac m = (case jget (db_devices m) (canonicalMAC mac) of
     None \<Rightarrow> Inl ErrNotFound | Some d \<Rightarrow> Inr (CloneDevice d))"

definition db_Put :: "device \<Rightarrow> db \<Rightarrow> store_error + db" where
  "db_Put d m = (let d = d\<lparr>dev_mac := canonicalMAC (dev_mac d)\<rparr> in
     if dev_mac d = [] then Inl ErrEmptyMAC
     else Inr (m\<lparr>db_devices := jset (dev_mac d) (CloneDevice d) (db_devices m)\<rparr>))"

text \<open>
  One read-modify-write cycle; \<open>fn\<close> is the caller's mutation, whose error aborts the cycle.
\<close>

definition db_update ::
    "string \<Rightarrow> (device \<Rightarrow> string + device) \<Rightarrow> bool \<Rightarrow> db \<Rightarrow> store_error + db" where
  "db_update mac fn upsert m = (let mac = canonicalMAC mac in
     if mac = [] then Inl ErrEmptyMAC
     else
       let start = (case db_Get mac m of
           Inl ErrNotFound \<Rightarrow> if \<not> upsert then Inl ErrNotFound else Inr (new_device mac)
         | Inl e \<Rightarrow> Inl e
         | Inr d \<Rightarrow> Inr d)
       in case start of Inl e \<Rightarrow> Inl e
          | Inr d \<Rightarrow> (case fn d of Inl e \<Rightarrow> Inl (ErrFn e) | Inr d' \<Rightarrow> db_Put d' m))"

definition db_Update :: "string \<Rightarrow> (device \<Rightarrow> string + device) \<Rightarrow> db \<Rightarrow> store_error + db" where
  "db_Update mac fn m = db_update mac fn True m"

definition db_UpdateExisting :: "string \<Rightarrow> (device \<Rightarrow> string + device) \<Rightarrow> db \<Rightarrow> store_error + db" where
  "db_UpdateExisting mac fn m = db_update mac fn False m"

definition db_Delete :: "string \<Rightarrow> db \<Rightarrow> store_error + db" where
  "db_Delete mac m = (let mac = canonicalMAC mac in
     case jget (db_devices m) mac of None \<Rightarrow> Inl ErrNotFound
     | Some _ \<Rightarrow> Inr (m\<lparr>db_devices := jdel mac (db_devices m)\<rparr>))"

definition db_List :: "db \<Rightarrow> device list" where
  "db_List m = sort_key dev_mac (map (\<lambda>(_, d). CloneDevice d) (db_devices m))"

definition maxPending :: nat where "maxPending = 100"
definition pendingTTL :: int where "pendingTTL = 24 * 60 * 60"

definition evictExpiredLocked :: "int \<Rightarrow> db \<Rightarrow> db" where
  "evictExpiredLocked now m =
     m\<lparr>db_pending := filter (\<lambda>(_, e). \<not> pe_seen e < now - pendingTTL) (db_pending m)\<rparr>"

definition db_Pending :: "int \<Rightarrow> db \<Rightarrow> (string \<times> string) list \<times> db" where
  "db_Pending now m = (let m = evictExpiredLocked now m in
     (map (\<lambda>(k, e). (k, pe_note e)) (db_pending m), m))"

definition db_markPending :: "int \<Rightarrow> string \<Rightarrow> string \<Rightarrow> db \<Rightarrow> store_error + (bool \<times> db)" where
  "db_markPending now mac note m = (let mac = canonicalMAC mac in
     if mac = [] then Inl ErrEmptyMAC
     else let m = evictExpiredLocked now m in
       case jget (db_pending m) mac of
         Some existing \<Rightarrow>
           if pe_note existing = note then Inr (False, m)
           else Inr (True, m\<lparr>db_pending :=
                  jset mac \<lparr>pe_note = note, pe_seen = pe_seen existing\<rparr> (db_pending m)\<rparr>)
       | None \<Rightarrow>
           if length (db_pending m) \<ge> maxPending then Inl ErrPendingFull
           else Inr (True, m\<lparr>db_pending := jset mac \<lparr>pe_note = note, pe_seen = now\<rparr> (db_pending m)\<rparr>))"

definition db_MarkPending :: "int \<Rightarrow> string \<Rightarrow> string \<Rightarrow> db \<Rightarrow> store_error + db" where
  "db_MarkPending now mac note m = (case db_markPending now mac note m of
     Inl e \<Rightarrow> Inl e | Inr (_, m') \<Rightarrow> Inr m')"

section \<open>Invariant\<close>

text \<open>
  Every device sits under its own canonical non-empty MAC, no MAC has two records, and the
  pending map never outgrows its cap.
\<close>

definition db_inv :: "db \<Rightarrow> bool" where
  "db_inv m \<longleftrightarrow> distinct (map fst (db_devices m))
     \<and> (\<forall>(k, d) \<in> set (db_devices m). k \<noteq> [] \<and> canonicalMAC k = k \<and> dev_mac d = k)
     \<and> distinct (map fst (db_pending m)) \<and> length (db_pending m) \<le> maxPending"

lemma mac_separator_lower: "mac_separator (lower_char c) = mac_separator c"
proof (cases "65 \<le> (of_char c :: nat) \<and> (of_char c :: nat) \<le> 90")
  case True
  then have "(of_char (lower_char c) :: nat) = of_char c + 32"
    by (simp add: lower_char_def of_char_of)
  with True show ?thesis by (auto simp: mac_separator_def)
next
  case False
  then have "lower_char c = c" unfolding lower_char_def by presburger
  then show ?thesis by simp
qed

lemma canonicalMAC_idem [simp]: "canonicalMAC (canonicalMAC m) = canonicalMAC m"
  by (simp add: canonicalMAC_def to_lower_def filter_map comp_def mac_separator_lower)

lemma set_jset: "set (jset k v m) \<subseteq> insert (k, v) (set m)"
  by (induction m) (auto split: if_splits)

lemma set_jdel: "set (jdel k m) \<subseteq> set m"
  by (induction m) (auto split: if_splits)

lemma jset_inv:
  "\<lbrakk>\<forall>(k, v) \<in> set m. P k v; P k v\<rbrakk> \<Longrightarrow> \<forall>(k, v) \<in> set (jset k v m). P k v"
  using set_jset [of k v m] by blast

lemma jdel_inv: "\<forall>(k, v) \<in> set m. P k v \<Longrightarrow> \<forall>(k, v) \<in> set (jdel k' m). P k v"
  using set_jdel [of k' m] by blast

lemma length_jset: "length (jset k v m) = (if k \<in> fst ` set m then length m else Suc (length m))"
  by (induction m) (auto split: if_splits)

lemma db_Put_inv: "db_inv m \<Longrightarrow> db_Put d m = Inr m' \<Longrightarrow> db_inv m'"
  by (auto simp: db_Put_def db_inv_def Let_def distinct_jset split: if_splits
        dest!: subsetD [OF set_jset])

lemma db_update_inv: "db_inv m \<Longrightarrow> db_update mac fn u m = Inr m' \<Longrightarrow> db_inv m'"
  by (auto simp: db_update_def Let_def split: if_splits sum.splits dest: db_Put_inv)

lemma db_Delete_inv: "db_inv m \<Longrightarrow> db_Delete mac m = Inr m' \<Longrightarrow> db_inv m'"
  by (auto simp: db_Delete_def db_inv_def Let_def distinct_jdel split: option.splits
        dest!: subsetD [OF set_jdel])

lemma evict_inv: "db_inv m \<Longrightarrow> db_inv (evictExpiredLocked now m)"
  by (auto simp: db_inv_def evictExpiredLocked_def distinct_map_filter
        intro: order_trans [OF length_filter_le])

lemma db_MarkPending_inv:
  assumes inv: "db_inv m" and eq: "db_MarkPending now mac note m = Inr m'"
  shows "db_inv m'"
proof -
  let ?e = "evictExpiredLocked now m"
  have e: "db_inv ?e" using inv by (rule evict_inv)
  obtain b where r: "db_markPending now mac note m = Inr (b, m')"
    using eq by (auto simp: db_MarkPending_def split: sum.splits)
  consider "m' = ?e"
    | p where "canonicalMAC mac \<in> fst ` set (db_pending ?e)"
        "m' = ?e\<lparr>db_pending := jset (canonicalMAC mac) p (db_pending ?e)\<rparr>"
    | p where "length (db_pending ?e) < maxPending"
        "m' = ?e\<lparr>db_pending := jset (canonicalMAC mac) p (db_pending ?e)\<rparr>"
    using r by (fastforce simp: db_markPending_def Let_def in_keys_iff not_le
        split: if_splits option.splits)
  then show ?thesis
    using e by cases (auto simp: db_inv_def distinct_jset length_jset)
qed

text \<open>The core as a machine: any history of operations, failed ones included.\<close>

datatype db_op =
    OpPut device
  | OpUpdate string "device \<Rightarrow> string + device" bool
  | OpDelete string
  | OpPending int
  | OpMarkPending int string string

definition ok_or :: "'s \<Rightarrow> 'e + 's \<Rightarrow> 's" where
  "ok_or s r = (case r of Inl _ \<Rightarrow> s | Inr s' \<Rightarrow> s')"

fun db_step :: "db \<Rightarrow> db_op \<Rightarrow> db" where
  "db_step m (OpPut d) = ok_or m (db_Put d m)"
| "db_step m (OpUpdate mac fn u) = ok_or m (db_update mac fn u m)"
| "db_step m (OpDelete mac) = ok_or m (db_Delete mac m)"
| "db_step m (OpPending now) = snd (db_Pending now m)"
| "db_step m (OpMarkPending now mac note) =
     (if canonicalMAC mac = [] then m
      else ok_or (evictExpiredLocked now m) (db_MarkPending now mac note m))"

lemma db_step_inv: "db_inv m \<Longrightarrow> db_inv (db_step m op)"
proof (cases op)
  case (OpPending now)
  then show "db_inv m \<Longrightarrow> ?thesis" by (simp add: db_Pending_def Let_def evict_inv)
qed (auto simp: ok_or_def evict_inv intro: db_Put_inv db_update_inv db_Delete_inv db_MarkPending_inv
       split: sum.splits)

interpretation db_machine: machine db_step db_inv
  by unfold_locales (rule db_step_inv)

lemma db_inv_new: "db_inv newDB"
  by (simp add: db_inv_def newDB_def)

section \<open>What the operations promise\<close>

text \<open>The abstract state: a partial map from canonical MACs to records.\<close>

definition devices_of :: "db \<Rightarrow> string \<Rightarrow> device option" where
  "devices_of m c = jget (db_devices m) c"

lemma db_Get_devices: "db_Get mac m = (case devices_of m (canonicalMAC mac) of
    None \<Rightarrow> Inl ErrNotFound | Some d \<Rightarrow> Inr d)"
  by (simp add: db_Get_def devices_of_def split: option.splits)

lemma db_Put_devices:
  "db_Put d m = Inr m' \<Longrightarrow>
   devices_of m' = (devices_of m)(canonicalMAC (dev_mac d) \<mapsto> d\<lparr>dev_mac := canonicalMAC (dev_mac d)\<rparr>)"
  by (auto simp: db_Put_def Let_def devices_of_def row_simps fun_eq_iff split: if_splits)

lemma db_Delete_devices:
  "db_Delete mac m = Inr m' \<Longrightarrow> devices_of m' = (devices_of m)(canonicalMAC mac := None)"
  by (auto simp: db_Delete_def Let_def devices_of_def row_simps fun_eq_iff split: option.splits)

lemma db_update_cases:
  "db_update mac fn u m = Inr m' \<longleftrightarrow>
   (canonicalMAC mac \<noteq> [] \<and>
    (\<exists>d d'. (case devices_of m (canonicalMAC mac) of None \<Rightarrow> u \<and> d = new_device (canonicalMAC mac)
       | Some d0 \<Rightarrow> d = d0) \<and> fn d = Inr d' \<and> db_Put d' m = Inr m'))"
  by (auto simp: db_update_def Let_def db_Get_devices split: option.splits sum.splits)

lemma db_List_sorted: "sorted (map dev_mac (db_List m))"
  by (simp add: db_List_def)

lemma db_List_set: "set (db_List m) = snd ` set (db_devices m)"
  by (force simp: db_List_def)

section \<open>The JSON file\<close>

text \<open>
  What a value reads back as after \<^verbatim>\<open>json.Marshal\<close> and \<^verbatim>\<open>json.Unmarshal\<close>: numbers become
  float64, \<^verbatim>\<open>JSONMap\<close> and \<^verbatim>\<open>[]string\<close> lose their Go types.
\<close>

fun json_reload :: "gval \<Rightarrow> gval" where
  "json_reload (GInt n) = GFloat (f64_of_int n)"
| "json_reload (GInt64 n) = GFloat (f64_of_int n)"
| "json_reload (GNumber i f) = (case f of Some x \<Rightarrow> GFloat x | None \<Rightarrow> GNil)"
| "json_reload (GStrs ss) = GArr (map GStr ss)"
| "json_reload (GArr a) = GArr (map json_reload a)"
| "json_reload (GObj m) = GObj (map (\<lambda>(k, v). (k, json_reload v)) m)"
| "json_reload (GMap m) = GObj (map (\<lambda>(k, v). (k, json_reload v)) m)"
| "json_reload v = v"

definition reload_rows :: "jmap \<Rightarrow> jmap" where
  "reload_rows m = map (\<lambda>(k, v). (k, json_reload v)) m"

text \<open>An empty map is omitted from the file and reads back as nil (\<^verbatim>\<open>omitempty\<close>).\<close>

definition reload_map :: "jmap option \<Rightarrow> jmap option" where
  "reload_map o' = (case o' of None \<Rightarrow> None | Some m \<Rightarrow> if m = [] then None else Some (reload_rows m))"

definition reload_device :: "device \<Rightarrow> device" where
  "reload_device d = d\<lparr>dev_last_ups := reload_map (dev_last_ups d), dev_extra := reload_map (dev_extra d)\<rparr>"

record persisted =
  pf_version :: int
  pf_saved_at :: int
  pf_devices :: "(string \<times> device) list"
  pf_pending :: "(string \<times> string) list"

record json_store =
  js_db :: db
  js_file :: "persisted option"

definition snapshot :: "int \<Rightarrow> db \<Rightarrow> persisted" where
  "snapshot now m = \<lparr>pf_version = 1, pf_saved_at = now, pf_devices = db_devices m,
     pf_pending = map (\<lambda>(k, e). (k, pe_note e)) (db_pending m)\<rparr>"

text \<open>
  \<open>save\<close>: the temp file replaces the old one by rename, so a failed step (\<open>io = False\<close>)
  leaves the file as it was.
\<close>

definition js_save :: "int \<Rightarrow> bool \<Rightarrow> json_store \<Rightarrow> json_store \<times> store_error option" where
  "js_save now io s = (if io then (s\<lparr>js_file := Some (snapshot now (js_db s))\<rparr>, None) else (s, Some ErrSave))"

definition NewJSONStore :: "int \<Rightarrow> persisted option \<Rightarrow> json_store" where
  "NewJSONStore now file = (case file of None \<Rightarrow> \<lparr>js_db = newDB, js_file = None\<rparr>
   | Some pf \<Rightarrow>
      \<lparr>js_db = \<lparr>db_devices = foldl (\<lambda>acc (k, d).
           jset (canonicalMAC k) (reload_device d\<lparr>dev_mac := canonicalMAC (dev_mac d)\<rparr>) acc) [] (pf_devices pf),
         db_pending = foldl (\<lambda>acc (k, n).
           jset (canonicalMAC k) \<lparr>pe_note = n, pe_seen = now\<rparr> acc) [] (pf_pending pf)\<rparr>,
       js_file = file\<rparr>)"

text \<open>Every mutating method: run the core, then persist.\<close>

definition js_after :: "int \<Rightarrow> bool \<Rightarrow> store_error + db \<Rightarrow> json_store \<Rightarrow> json_store \<times> store_error option" where
  "js_after now io r s = (case r of Inl e \<Rightarrow> (s, Some e)
     | Inr m \<Rightarrow> js_save now io (s\<lparr>js_db := m\<rparr>))"

definition js_Put :: "int \<Rightarrow> bool \<Rightarrow> device \<Rightarrow> json_store \<Rightarrow> json_store \<times> store_error option" where
  "js_Put now io d s = js_after now io (db_Put d (js_db s)) s"

definition js_Delete :: "int \<Rightarrow> bool \<Rightarrow> string \<Rightarrow> json_store \<Rightarrow> json_store \<times> store_error option" where
  "js_Delete now io mac s = js_after now io (db_Delete mac (js_db s)) s"

definition js_Update :: "int \<Rightarrow> bool \<Rightarrow> string \<Rightarrow> (device \<Rightarrow> string + device) \<Rightarrow> json_store \<Rightarrow> json_store \<times> store_error option" where
  "js_Update now io mac fn s = js_after now io (db_Update mac fn (js_db s)) s"

definition js_UpdateExisting :: "int \<Rightarrow> bool \<Rightarrow> string \<Rightarrow> (device \<Rightarrow> string + device) \<Rightarrow> json_store \<Rightarrow> json_store \<times> store_error option" where
  "js_UpdateExisting now io mac fn s = js_after now io (db_UpdateExisting mac fn (js_db s)) s"

text \<open>\<open>MarkPending\<close> persists only a change; the in-memory eviction stays either way.\<close>

definition js_MarkPending :: "int \<Rightarrow> bool \<Rightarrow> string \<Rightarrow> string \<Rightarrow> json_store \<Rightarrow> json_store \<times> store_error option" where
  "js_MarkPending now io mac note s = (case db_markPending now mac note (js_db s) of
     Inl ErrEmptyMAC \<Rightarrow> (s, Some ErrEmptyMAC)
   | Inl e \<Rightarrow> (s\<lparr>js_db := evictExpiredLocked now (js_db s)\<rparr>, Some e)
   | Inr (changed, m) \<Rightarrow> if \<not> changed then (s\<lparr>js_db := m\<rparr>, None)
       else js_save now io (s\<lparr>js_db := m\<rparr>))"

lemma foldl_jset_distinct:
  "distinct (map f (map fst xs)) \<Longrightarrow> set (map f (map fst xs)) \<inter> fst ` set acc = {} \<Longrightarrow>
   foldl (\<lambda>acc (k, v). jset (f k) (g v) acc) acc xs = acc @ map (\<lambda>(k, v). (f k, g v)) xs"
proof (induction xs arbitrary: acc)
  case (Cons x xs)
  obtain k v where x: "x = (k, v)" by force
  have "jset (f k) (g v) acc = acc @ [(f k, g v)]" if "f k \<notin> fst ` set acc"
    using that by (induction acc) auto
  with Cons.prems x have "jset (f k) (g v) acc = acc @ [(f k, g v)]" by auto
  with Cons x show ?case by auto
qed simp

text \<open>A reloaded store holds the records that were saved, in their JSON reading.\<close>

lemma NewJSONStore_snapshot:
  assumes inv: "db_inv m"
  shows "devices_of (js_db (NewJSONStore now (Some (snapshot t m)))) c
    = map_option reload_device (devices_of m c)"
proof -
  have k: "map (canonicalMAC \<circ> fst) (db_devices m) = map fst (db_devices m)"
    using inv by (auto simp: db_inv_def)
  let ?g = "\<lambda>d. reload_device d\<lparr>dev_mac := canonicalMAC (dev_mac d)\<rparr>"
  have f: "foldl (\<lambda>acc (k, d). jset (canonicalMAC k) (?g d) acc) [] (db_devices m)
      = map (\<lambda>(k, d). (canonicalMAC k, ?g d)) (db_devices m)"
    using foldl_jset_distinct [of canonicalMAC "db_devices m" "[]" ?g] inv k
    by (simp add: db_inv_def)
  also have "\<dots> = map (\<lambda>(k, d). (k, reload_device d)) (db_devices m)"
    using inv by (auto simp: db_inv_def reload_device_def)
  finally have "db_devices (js_db (NewJSONStore now (Some (snapshot t m))))
      = map (\<lambda>(k, d). (k, reload_device d)) (db_devices m)"
    by (simp add: NewJSONStore_def snapshot_def)
  then show ?thesis
    by (simp add: devices_of_def jget_def map_of_map)
qed

section \<open>Properties\<close>

text \<open>The abstract store: the effect of an operation on the map from canonical MACs to records.\<close>

definition put_record :: "device \<Rightarrow> (string \<Rightarrow> device option) \<Rightarrow> string \<Rightarrow> device option" where
  "put_record d A = (let c = canonicalMAC (dev_mac d) in
     if c = [] then A else A(c \<mapsto> d\<lparr>dev_mac := c\<rparr>))"

fun map_step :: "(string \<Rightarrow> device option) \<Rightarrow> db_op \<Rightarrow> string \<Rightarrow> device option" where
  "map_step A (OpPut d) = put_record d A"
| "map_step A (OpUpdate mac fn upsert) = (let c = canonicalMAC mac in
     if c = [] then A
     else case (case A c of Some d \<Rightarrow> Some d | None \<Rightarrow> if upsert then Some (new_device c) else None) of
       None \<Rightarrow> A
     | Some d \<Rightarrow> (case fn d of Inl _ \<Rightarrow> A | Inr d' \<Rightarrow> put_record d' A))"
| "map_step A (OpDelete mac) = A(canonicalMAC mac := None)"
| "map_step A (OpPending now) = A"
| "map_step A (OpMarkPending now mac note) = A"

lemma put_refines: "devices_of (ok_or m (db_Put d m)) = put_record d (devices_of m)"
  by (auto simp: db_Put_def put_record_def Let_def ok_or_def devices_of_def row_simps fun_eq_iff)

lemma mark_devices: "db_MarkPending now mac note m = Inr m' \<Longrightarrow> db_devices m' = db_devices m"
  by (auto simp: db_MarkPending_def db_markPending_def Let_def evictExpiredLocked_def
      split: sum.splits if_splits option.splits)

lemma update_refines:
  "devices_of (ok_or m (db_update mac fn u m)) = map_step (devices_of m) (OpUpdate mac fn u)"
proof (cases "canonicalMAC mac = []")
  case True
  then show ?thesis by (simp add: db_update_def ok_or_def)
next
  case False
  show ?thesis
  proof (cases "devices_of m (canonicalMAC mac)")
    case None
    with False show ?thesis
      by (cases "fn (new_device (canonicalMAC mac))")
        (simp_all add: db_update_def Let_def db_Get_devices ok_or_def [of m "Inl _"] put_refines)
  next
    case (Some d)
    with False show ?thesis
      by (cases "fn d") (simp_all add: db_update_def Let_def db_Get_devices ok_or_def [of m "Inl _"] put_refines)
  qed
qed

lemma step_refines: "devices_of (db_step m op) = map_step (devices_of m) op"
proof (cases op)
  case (OpDelete mac)
  then show ?thesis
    by (auto simp: db_Delete_def Let_def ok_or_def devices_of_def row_simps fun_eq_iff split: option.splits)
next
  case (OpMarkPending now mac nt)
  then show ?thesis
    by (cases "db_MarkPending now mac nt m")
      (simp_all add: ok_or_def fun_eq_iff devices_of_def mark_devices evictExpiredLocked_def)
next
  case (OpPending now)
  then show ?thesis by (simp add: db_Pending_def Let_def evictExpiredLocked_def devices_of_def fun_eq_iff)
qed (simp_all add: put_refines update_refines)

text \<open>
  Whatever the history of operations, failed ones included, every record sits under its own
  canonical non-empty MAC, no MAC has two records, and the pending list stays within its cap.
\<close>

theorem store_invariant: "db_inv (foldl db_step newDB ops)"
  by (rule db_machine.run_inv) (rule db_inv_new)

text \<open>
  C19: the store implements a partial map from canonical MACs to records: every history has the
  effect of the same history on the map, and \<open>Get\<close> reads the map.
\<close>

theorem store_refines_map:
  "devices_of (foldl db_step m ops) = foldl map_step (devices_of m) ops
   \<and> db_Get mac m = (case devices_of m (canonicalMAC mac) of None \<Rightarrow> Inl ErrNotFound | Some d \<Rightarrow> Inr d)"
proof -
  have "devices_of (foldl db_step m ops) = foldl map_step (devices_of m) ops" for m
    by (induction ops arbitrary: m) (simp_all add: step_refines)
  then show ?thesis by (simp add: db_Get_devices)
qed

text \<open>
  \<open>List\<close> returns every record once, in MAC order.
\<close>

theorem store_list:
  "sorted (map dev_mac (db_List (foldl db_step newDB ops)))
   \<and> distinct (map dev_mac (db_List (foldl db_step newDB ops)))
   \<and> (d \<in> set (db_List (foldl db_step newDB ops)) \<longleftrightarrow> devices_of (foldl db_step newDB ops) (dev_mac d) = Some d)"
proof -
  let ?m = "foldl db_step newDB ops"
  have inv: "db_inv ?m" by (rule db_machine.run_inv) (rule db_inv_new)
  have keys: "map (dev_mac \<circ> snd) (db_devices ?m) = map fst (db_devices ?m)"
    using inv by (auto simp: db_inv_def)
  have "map dev_mac (map (\<lambda>(_, d). CloneDevice d) (db_devices ?m)) = map fst (db_devices ?m)"
    using keys by (simp add: case_prod_beta comp_def)
  then have "distinct (map dev_mac (map (\<lambda>(_, d). CloneDevice d) (db_devices ?m)))"
    using inv by (simp only: db_inv_def)
  then have "distinct (map dev_mac (db_List ?m))" by (simp only: db_List_def distinct_map_sort)
  moreover have "d \<in> set (db_List ?m) \<longleftrightarrow> devices_of ?m (dev_mac d) = Some d"
    using inv by (force simp: db_List_set devices_of_def jget_set db_inv_def)
  ultimately show ?thesis using db_List_sorted by blast
qed

text \<open>The file-backed store as the clients call it.\<close>

fun js_step :: "int \<Rightarrow> bool \<Rightarrow> db_op \<Rightarrow> json_store \<Rightarrow> json_store \<times> store_error option" where
  "js_step now io (OpPut d) s = js_Put now io d s"
| "js_step now io (OpUpdate mac fn upsert) s =
     (if upsert then js_Update now io mac fn s else js_UpdateExisting now io mac fn s)"
| "js_step now io (OpDelete mac) s = js_Delete now io mac s"
| "js_step now io (OpPending t) s = (s\<lparr>js_db := snd (db_Pending t (js_db s))\<rparr>, None)"
| "js_step now io (OpMarkPending t mac note) s = js_MarkPending t io mac note s"

fun writes_records :: "db_op \<Rightarrow> bool" where
  "writes_records (OpPut d) = True"
| "writes_records (OpUpdate mac fn u) = True"
| "writes_records (OpDelete mac) = True"
| "writes_records _ = False"

lemma js_after_written:
  "js_after now io r s = (s', None) \<Longrightarrow> r = Inr (js_db s') \<and> js_file s' = Some (snapshot now (js_db s'))"
  by (auto simp: js_after_def js_save_def split: sum.splits if_splits)

text \<open>
  C20: an acknowledged write is durable: when a record operation returns without error, a store
  opened on the file holds exactly the records of the running store, in their JSON reading.
\<close>

theorem acknowledged_write_durable:
  assumes "db_inv (js_db s)" "writes_records op" "js_step now io op s = (s', None)"
  shows "devices_of (js_db (NewJSONStore t (js_file s'))) c = map_option reload_device (devices_of (js_db s') c)"
proof -
  obtain r where r: "js_after now io r s = (s', None)" "\<And>m. r = Inr m \<Longrightarrow> db_inv m"
    using assms
    by (cases op) (auto simp: js_Put_def js_Update_def js_UpdateExisting_def js_Delete_def db_Update_def
        db_UpdateExisting_def intro: db_Put_inv db_update_inv db_Delete_inv split: if_splits)
  with js_after_written [OF r(1)] show ?thesis by (simp add: NewJSONStore_snapshot)
qed

definition empty_store :: json_store where
  "empty_store = \<lparr>js_db = newDB, js_file = None\<rparr>"

lemma acknowledged_write_durable_witness:
  "\<exists>s'. js_step 7 True (OpPut (new_device ''aa:bb:cc:00:11:22'')) empty_store = (s', None)
    \<and> devices_of (js_db (NewJSONStore 9 (js_file s'))) ''aabbcc001122''
        = map_option reload_device (devices_of (js_db s') ''aabbcc001122'')"
proof -
  let ?op = "OpPut (new_device ''aa:bb:cc:00:11:22'')"
  have "canonicalMAC ''aa:bb:cc:00:11:22'' \<noteq> []" by code_simp
  then have "snd (js_step 7 True ?op empty_store) = None"
    by (simp add: js_Put_def js_after_def js_save_def db_Put_def new_device_def)
  then obtain s' where s': "js_step 7 True ?op empty_store = (s', None)" by (metis prod.collapse)
  have "db_inv (js_db empty_store)" by (simp add: empty_store_def db_inv_new)
  from acknowledged_write_durable [OF this _ s'] s' show ?thesis by fastforce
qed

end
