(* ===== verification/App_View.thy ===== *)
theory App_View
  imports Admin_Checks Admin_Rows Delivery Device_Store
begin

text \<open>
  The read side of the application layer (\<^verbatim>\<open>internal/app/app.go\<close>): the device view with its armed
  command and its runtime gaps, the per-radio view, the blocked-set view, and the rules a radio
  intent must obey. Views are the types of \<^verbatim>\<open>internal/adminapi/adminapi.go\<close>.
\<close>

section \<open>Errors\<close>

text \<open>
  What a backend call can fail with: the sentinels \<^verbatim>\<open>ErrNotFound\<close> and \<^verbatim>\<open>ErrConflict\<close> with what their
  text is made of (a MAC with the parser's error, a refused key, an unsupported band), a failed
  set-inform push, an error of the store, and a plain error.
\<close>

datatype app_error =
    AppNotFound string
  | AppNotFoundMac string mac_error
  | AppConflict string
  | AppConflictMac string mac_error
  | AppConflictKey nat key_error
  | AppConflictBand string string
  | AppPushFailed string
  | AppStore store_error
  | AppPlain string

definition unknownDevice :: "string \<Rightarrow> app_error" where
  "unknownDevice mac = AppNotFound mac"

section \<open>The device view\<close>

record device_view =
  dv_mac :: string
  dv_name :: string
  dv_model :: string
  dv_firmware :: string
  dv_ip :: string
  dv_state :: int
  dv_last_seen :: int
  dv_cfg_version :: string
  dv_applied_cfg :: string
  dv_in_sync :: "bool option"
  dv_delivery_status :: string
  dv_delivery_count :: int
  dv_last_attempt :: int
  dv_vaps_not_running :: "string list"
  dv_site_id :: string
  dv_led_override :: string
  dv_led_brightness :: "int option"
  dv_led_color :: string
  dv_ssh_password :: string
  dv_country_code :: int
  dv_ssh_keys :: "string list"
  dv_pending_command :: string
  dv_actions :: "string list"

text \<open>\<^verbatim>\<open>flagArmed\<close>: every type of the code's switch; a missing row and null are not armed.\<close>

definition flagArmed :: "jmap \<Rightarrow> string \<Rightarrow> bool" where
  "flagArmed m key = (case jget m key of
     Some (GBool v) \<Rightarrow> v
   | Some (GStr v) \<Rightarrow> v \<noteq> [] \<and> v \<noteq> ''false'' \<and> v \<noteq> ''0''
   | Some (GFloat v) \<Rightarrow> v \<noteq> 0
   | Some GNil \<Rightarrow> False
   | None \<Rightarrow> False
   | Some _ \<Rightarrow> True)"

definition armedCommand :: "device \<Rightarrow> string" where
  "armedCommand d =
    (if flagArmed (ext d) FlagSetdefaultArmed then ''factory-reset''
     else if flagArmed (ext d) FlagRebootOnConnect then ''reboot''
     else if ArmedCmdTask d \<noteq> None then ''cmd''
     else [])"

definition vapsNotRunningDevice :: "json_text \<Rightarrow> device \<Rightarrow> string list" where
  "vapsNotRunningDevice jt d =
    (let (vaps, _) = PlanVaps jt d (opt_or [] (DeviceWLANs jt d))
     in MissingVaps vaps (jget (ext d) ''vap_table''))"

definition view :: "json_text \<Rightarrow> device \<Rightarrow> device_view" where
  "view jt d =
    (let inSync = RuntimeInSync jt d (opt_or [] (DeviceWLANs jt d)); delivery = LoadDeliveryState jt (ext d)
     in \<lparr>dv_mac = ColonMAC (dev_mac d), dv_name = dev_name d, dv_model = dev_model d,
         dv_firmware = dev_firmware d, dv_ip = dev_ip d, dv_state = dev_state d,
         dv_last_seen = dev_last_seen d, dv_cfg_version = dev_cfg_version d,
         dv_applied_cfg = dev_applied_cfg d, dv_in_sync = inSync,
         dv_delivery_status = DeliveryStatus delivery, dv_delivery_count = ds_attempts delivery,
         dv_last_attempt = ds_last_attempt delivery, dv_vaps_not_running = vapsNotRunningDevice jt d,
         dv_site_id = dev_site_id d, dv_led_override = dev_led_override d,
         dv_led_brightness = dev_led_brightness d, dv_led_color = dev_led_color d,
         dv_ssh_password = dev_ssh_password d, dv_country_code = dev_country_code d,
         dv_ssh_keys = dev_ssh_keys d, dv_pending_command = armedCommand d,
         dv_actions = [''delete'']\<rparr>)"

section \<open>Blocked clients\<close>

definition blockedPair :: "string \<Rightarrow> string \<Rightarrow> app_error + string \<times> string" where
  "blockedPair mac client = (case CanonicalMAC mac of
     Inl e \<Rightarrow> Inl (AppNotFoundMac mac e)
   | Inr canon \<Rightarrow> (case CanonicalMAC client of
       Inl e \<Rightarrow> Inl (AppConflictMac client e)
     | Inr c \<Rightarrow> Inr (canon, c)))"

definition blockedClientsView :: "string \<Rightarrow> string list \<Rightarrow> string \<times> string list" where
  "blockedClientsView canon cs = (ColonMAC canon, map ColonMAC cs)"

section \<open>Radios\<close>

datatype tx_power = TxAuto | TxDBm int

record intent_upsert =
  iu_channel :: "int option"
  iu_txpower :: "tx_power option"

definition no_intent :: intent_upsert where
  "no_intent = \<lparr>iu_channel = None, iu_txpower = None\<rparr>"

record radio_view =
  rv_name :: string
  rv_band :: string
  rv_echo_channel :: string
  rv_echo_txpower :: string
  rv_echo_mode :: string
  rv_channel :: "string option"
  rv_txpower :: "string option"

definition nonempty_str :: "string \<Rightarrow> string option" where
  "nonempty_str s = (if s \<noteq> [] then Some s else None)"

definition radioView :: "radio_row \<Rightarrow> radio_intent \<Rightarrow> radio_view" where
  "radioView r it =
    \<lparr>rv_name = rr_name r, rv_band = rr_band r,
     rv_echo_channel = JSONStr (rr_raw r) ''channel'' ''0'',
     rv_echo_txpower = JSONStr (rr_raw r) ''tx_power'' ''auto'',
     rv_echo_mode = JSONStr (rr_raw r) ''tx_power_mode'' ''auto'',
     rv_channel = nonempty_str (ri_channel it), rv_txpower = nonempty_str (ri_txpower it)\<rparr>"

definition radioRowOf :: "device \<Rightarrow> string \<Rightarrow> app_error + radio_row" where
  "radioRowOf d radio = (case find (\<lambda>r. rr_name r = radio) (StoredRadios d) of
     Some r \<Rightarrow> Inr r | None \<Rightarrow> Inl (AppNotFound (''radio '' @ radio)))"

definition bad_band :: "radio_row \<Rightarrow> app_error" where
  "bad_band r = AppConflictBand (rr_name r) (rr_band r)"

definition validateChannelIntent :: "radio_row \<Rightarrow> int \<Rightarrow> app_error + unit" where
  "validateChannelIntent r ch =
    (if rr_band r = ''ng'' then
       (if ch < 0 \<or> 14 < ch
        then Inl (AppConflict (''channel '' @ itoa ch @ '' out of range for band ng (0=auto, 1..14)'')) else Inr ())
     else if rr_band r = ''na'' then
       (if ch \<noteq> 0 \<and> (ch < 36 \<or> 165 < ch)
        then Inl (AppConflict (''channel '' @ itoa ch @ '' out of range for band na (0=auto, 36..165)'')) else Inr ())
     else Inl (bad_band r))"

definition known_band :: "radio_row \<Rightarrow> bool" where
  "known_band r \<longleftrightarrow> \<not> (rr_band r \<noteq> ''ng'' \<and> rr_band r \<noteq> ''na'')"

definition validateTxpowerIntent :: "radio_row \<Rightarrow> tx_power \<Rightarrow> app_error + unit" where
  "validateTxpowerIntent r tx = (case tx of
     TxAuto \<Rightarrow> if \<not> known_band r then Inl (bad_band r) else Inr ()
   | TxDBm dBm \<Rightarrow>
      (let lo = JSONInt (rr_raw r) ''min_txpower''; hi = JSONInt (rr_raw r) ''max_txpower''
       in if lo = 0 \<and> hi = 0
          then Inl (AppConflict (''radio '' @ rr_name r @ '' reports no txpower bounds (min_txpower/max_txpower); only ''
                 @ [CHR 0x22] @ ''auto'' @ [CHR 0x22] @ '' is supported''))
          else if \<not> known_band r then Inl (bad_band r)
          else if dBm < lo \<or> hi < dBm
          then Inl (AppConflict (''txpower '' @ itoa dBm @ '' dBm outside the device-reported range ['' @ itoa lo
                 @ '', '' @ itoa hi @ '']''))
          else Inr ()))"

text \<open>The entry one PUT writes; \<^verbatim>\<open>float64(n)\<close> of an \<^verbatim>\<open>int\<close>.\<close>

definition intent_entry :: "intent_upsert \<Rightarrow> jmap" where
  "intent_entry up =
    (case iu_channel up of None \<Rightarrow> [] | Some c \<Rightarrow> [(''channel'', GFloat (f64_of_int c))])
    @ (case iu_txpower up of None \<Rightarrow> []
       | Some TxAuto \<Rightarrow> [(''txpower'', GStr ''auto'')]
       | Some (TxDBm p) \<Rightarrow> [(''txpower'', GFloat (f64_of_int p))])"

definition setRadioIntentExtra :: "string \<Rightarrow> intent_upsert \<Rightarrow> device \<Rightarrow> device" where
  "setRadioIntentExtra radio up d =
    (let d = d\<lparr>dev_extra := Some (ext d)\<rparr>;
         cur = opt_or [] (get_obj (ext d) RadioIntentExtraKey);
         entry = intent_entry up;
         next_rows = (if length entry = 0 then jdel radio cur else jset radio (GObj entry) cur)
     in if length next_rows = 0 then ext_del RadioIntentExtraKey d
        else ext_set RadioIntentExtraKey (GObj next_rows) d)"

text \<open>\<open>before[k] != v\<close> reads the zero intent where the key is missing.\<close>

definition zero_intent :: radio_intent where
  "zero_intent = \<lparr>ri_channel = [], ri_txpower = []\<rparr>"

definition intentChanged :: "(string \<times> radio_intent) list \<Rightarrow> (string \<times> radio_intent) list \<Rightarrow> bool" where
  "intentChanged before after =
    (if length before \<noteq> length after then True
     else list_ex (\<lambda>(k, v). opt_or zero_intent (jget before k) \<noteq> v) after)"

section \<open>Facts on views\<close>

lemma view_site [simp]: "dv_site_id (view jt d) = dev_site_id d"
  by (simp add: view_def Let_def)

lemma view_scalars:
  "dv_name (view jt d) = dev_name d" "dv_state (view jt d) = dev_state d" "dv_mac (view jt d) = ColonMAC (dev_mac d)"
  "dv_cfg_version (view jt d) = dev_cfg_version d" "dv_pending_command (view jt d) = armedCommand d"
  by (simp_all add: view_def Let_def)

lemma StoredRadios_row: "jget (ext d') ''radio_table'' = jget (ext d) ''radio_table'' \<Longrightarrow> StoredRadios d' = StoredRadios d"
  by (simp add: StoredRadios_def get_arr_def)

lemma radio_key_other: "RadioIntentExtraKey \<noteq> ''radio_table''"
  by code_simp

lemma set_intent_other: "k \<noteq> RadioIntentExtraKey \<Longrightarrow> jget (ext (setRadioIntentExtra radio up d)) k = jget (ext d) k"
  by (simp add: setRadioIntentExtra_def Let_def row_simps)

lemma set_intent_radios: "StoredRadios (setRadioIntentExtra radio up d) = StoredRadios d"
  using radio_key_other by (intro StoredRadios_row set_intent_other) simp

text \<open>
  The intent map the renderer reads, entry by entry: an entry counts when it is an object under a
  non-empty name with a channel or a power in it.
\<close>

definition parsed_intent :: "gval option \<Rightarrow> radio_intent option" where
  "parsed_intent v = (case v of
     Some (GObj m) \<Rightarrow> (let it = \<lparr>ri_channel = JSONStr m ''channel'' [], ri_txpower = JSONStr m ''txpower'' []\<rparr>
       in if it = zero_intent then None else Some it)
   | _ \<Rightarrow> None)"

lemma nonzero_intent: "it \<noteq> zero_intent \<longleftrightarrow> ri_channel it \<noteq> [] \<or> ri_txpower it \<noteq> []"
  by (cases it) (simp add: zero_intent_def)

lemma parsed_nonzero: "parsed_intent v = Some it \<Longrightarrow> it \<noteq> zero_intent"
  by (auto simp: parsed_intent_def Let_def split: option.splits gval.splits if_splits)

lemma add_intent_eq: "add_intent (name, v) out =
    (if name = [] then out else case parsed_intent (Some v) of None \<Rightarrow> out | Some it \<Rightarrow> jset name it out)"
  by (cases v) (auto simp: parsed_intent_def Let_def zero_intent_def)

lemma fold_intents:
  "distinct (map fst raw) \<Longrightarrow> jget (fold add_intent raw out) k
    = (case (if k = [] then None else parsed_intent (jget raw k)) of None \<Rightarrow> jget out k | Some it \<Rightarrow> Some it)"
proof (induction raw arbitrary: out)
  case (Cons kv raw)
  obtain k' v where kv: "kv = (k', v)" by force
  have "jget raw k' = None" using Cons.prems kv by (simp add: jget_None_iff)
  then show ?case
    using Cons by (auto simp: kv add_intent_eq row_simps parsed_intent_def split: option.splits)
qed (simp add: parsed_intent_def)

lemma distinct_fold_intents: "distinct (map fst out) \<Longrightarrow> distinct (map fst (fold add_intent raw out))"
proof (induction raw arbitrary: out)
  case (Cons kv raw)
  then show ?case by (cases kv) (auto simp: add_intent_eq split: option.splits)
qed simp

end
