(* ===== verification/Inform_Codec.thy ===== *)
theory Inform_Codec
  imports Inform_Wire
begin

text \<open>
  The crypto lanes and the two verbs of \<^verbatim>\<open>internal/inform\<close>: key and MAC spellings
  (\<^verbatim>\<open>inform.go\<close>), AES-CBC with PKCS7 and the lenient legacy fallback (\<^verbatim>\<open>crypto_cbc.go\<close>),
  AES-GCM (\<^verbatim>\<open>crypto_gcm.go\<close>), \<open>Decode\<close> and \<open>Respond\<close> (\<^verbatim>\<open>codec.go\<close>).
\<close>

section \<open>Library parameters\<close>

text \<open>
  \<open>zlib_stream z\<close> is \<open>None\<close> when \<^verbatim>\<open>zlib.NewReader\<close> rejects the header; otherwise the bytes the
  reader yields and whether it ends in a clean EOF. \<open>json_parse\<close> is \<^verbatim>\<open>json.Unmarshal\<close> into
  \<^verbatim>\<open>any\<close>. \<open>gcm_seal key nonce plaintext aad\<close> and \<open>gcm_open key nonce ciphertext aad\<close> are the
  AEAD's \<^verbatim>\<open>Seal\<close> and \<^verbatim>\<open>Open\<close>.
\<close>

record crypto =
  aes_encrypt :: "bytes \<Rightarrow> bytes \<Rightarrow> bytes"
  aes_decrypt :: "bytes \<Rightarrow> bytes \<Rightarrow> bytes"
  gcm_seal :: "bytes \<Rightarrow> bytes \<Rightarrow> bytes \<Rightarrow> bytes \<Rightarrow> bytes"
  gcm_open :: "bytes \<Rightarrow> bytes \<Rightarrow> bytes \<Rightarrow> bytes \<Rightarrow> bytes option"
  zlib_stream :: "bytes \<Rightarrow> (bytes \<times> bool) option"
  json_parse :: "bytes \<Rightarrow> gval option"

definition key_size_ok :: "bytes \<Rightarrow> bool" where
  "key_size_ok k \<longleftrightarrow> length k \<in> {16, 24, 32}"

text \<open>What the code relies on of the ciphers: decryption undoes encryption.\<close>

definition crypto_laws :: "crypto \<Rightarrow> bool" where
  "crypto_laws C \<longleftrightarrow>
    (\<forall>k b. key_size_ok k \<longrightarrow> length b = 16 \<longrightarrow>
       length (aes_encrypt C k b) = 16 \<and> aes_decrypt C k (aes_encrypt C k b) = b) \<and>
    (\<forall>k n p a. key_size_ok k \<longrightarrow> length n = 16 \<longrightarrow>
       length (gcm_seal C k n p a) = length p + 16 \<and>
       gcm_open C k n (gcm_seal C k n p a) a = Some p)"

section \<open>Hexadecimal spellings\<close>

definition hexVal :: "char \<Rightarrow> u8 option" where
  "hexVal c = (let n = (of_char c :: nat) in
     if 48 \<le> n \<and> n \<le> 57 then Some (word_of_nat (n - 48))
     else if 97 \<le> n \<and> n \<le> 102 then Some (word_of_nat (n - 87))
     else if 65 \<le> n \<and> n \<le> 70 then Some (word_of_nat (n - 55))
     else None)"

fun hex_pairs :: "string \<Rightarrow> bytes option" where
  "hex_pairs [] = Some []"
| "hex_pairs [c] = None"
| "hex_pairs (c # d # r) = (case (hexVal c, hexVal d) of
     (Some hi, Some lo) \<Rightarrow> map_option (\<lambda>bs. (push_bit 4 hi OR lo) # bs) (hex_pairs r)
   | _ \<Rightarrow> None)"

definition hex_digit :: "u8 \<Rightarrow> char" where
  "hex_digit x = ''0123456789abcdef'' ! unat x"

definition hex_byte :: "u8 \<Rightarrow> string" where
  "hex_byte c = [hex_digit (drop_bit 4 c), hex_digit (c AND 15)]"

definition MACString :: "bytes \<Rightarrow> string" where
  "MACString b = join_with '':'' (map hex_byte b)"

definition ParseMACString :: "string \<Rightarrow> wire_error + bytes" where
  "ParseMACString s = (let clean = filter (\<lambda>c. c \<noteq> CHR '':'') s in
     if length clean \<noteq> 12 then Inl (BadMACString s)
     else case hex_pairs clean of None \<Rightarrow> Inl (BadMACString s) | Some b \<Rightarrow> Inr b)"

definition lower_hex_char :: "char \<Rightarrow> bool" where
  "lower_hex_char c \<longleftrightarrow> (let n = (of_char c :: nat) in
     \<not> (n < 48 \<or> n > 57 \<and> n < 97 \<or> n > 102))"

definition DecodeKeyHex :: "string \<Rightarrow> wire_error + bytes" where
  "DecodeKeyHex hexKey =
    (if length hexKey \<noteq> 32 then Inl (KeyHexLength (length hexKey))
     else if \<not> list_all lower_hex_char hexKey then Inl KeyHexChars
     else case hex_pairs hexKey of None \<Rightarrow> Inl KeyHexChars | Some b \<Rightarrow> Inr b)"

definition checkKey :: "bytes \<Rightarrow> wire_error option" where
  "checkKey k = (if length k = 16 \<or> length k = 24 \<or> length k = 32 then None
     else Some (BadKeySize (length k)))"

lemma checkKey_None [simp]: "checkKey k = None \<longleftrightarrow> key_size_ok k"
  by (simp add: checkKey_def key_size_ok_def)

lemma hexVal_digit: "unat x < 16 \<Longrightarrow> hexVal (hex_digit x) = Some x"
proof -
  assume "unat x < 16"
  then have "unat x = 0 \<or> unat x = 1 \<or> unat x = 2 \<or> unat x = 3 \<or> unat x = 4 \<or> unat x = 5
      \<or> unat x = 6 \<or> unat x = 7 \<or> unat x = 8 \<or> unat x = 9 \<or> unat x = 10 \<or> unat x = 11
      \<or> unat x = 12 \<or> unat x = 13 \<or> unat x = 14 \<or> unat x = 15" by presburger
  moreover have "x = word_of_nat (unat x)" by simp
  ultimately show ?thesis
    by (elim disjE) (simp_all add: hexVal_def hex_digit_def)
qed

lemma nibbles:
  fixes c :: u8
  shows "unat (drop_bit 4 c) < 16" and "unat (c AND 15) < 16"
    and "push_bit 4 (drop_bit 4 c) OR (c AND 15) = c"
proof -
  have "unat c < 256" using unsigned_less [of c] by simp
  moreover have "unat (drop_bit 4 c) = unat c div 16"
    unfolding unat_drop_bit_eq by (simp add: drop_bit_eq_div)
  ultimately show "unat (drop_bit 4 c) < 16" by simp
  have "c AND 15 = take_bit 4 c"
    by (simp add: take_bit_eq_mask mask_eq_exp_minus_1)
  moreover have "unat (take_bit 4 c) = take_bit 4 (unat c)"
    by (simp add: unsigned_take_bit_eq)
  ultimately show "unat (c AND 15) < 16"
    by (simp add: take_bit_eq_mod)
  have m: "c AND 15 = take_bit 4 c"
    by (simp add: take_bit_eq_mask mask_eq_exp_minus_1)
  show "push_bit 4 (drop_bit 4 c) OR (c AND 15) = c"
    unfolding m by (rule bit_word_eqI) (auto simp: bit_simps not_less)
qed

lemma hex_pairs_byte [simp]: "hex_pairs (hex_byte c @ r) = map_option ((#) c) (hex_pairs r)"
  using nibbles [of c]
  by (simp add: hex_byte_def hexVal_digit option.map_comp comp_def)

lemma hex_pairs_concat: "hex_pairs (concat (map hex_byte bs)) = Some bs"
  by (induction bs) simp_all

lemma hex_digit_not_colon: "unat x < 16 \<Longrightarrow> hex_digit x \<noteq> CHR '':''"
  using hexVal_digit [of x] by (auto simp: hexVal_def)

lemma filter_hex_byte: "filter (\<lambda>c. c \<noteq> CHR '':'') (hex_byte b) = hex_byte b"
  using nibbles [of b] by (simp add: hex_byte_def hex_digit_not_colon)

lemma filter_MACString: "filter (\<lambda>c. c \<noteq> CHR '':'') (MACString bs) = concat (map hex_byte bs)"
  unfolding MACString_def
proof (induction bs rule: induct_list012)
  case (3 x y zs)
  then show ?case by (simp add: filter_hex_byte)
qed (simp_all add: filter_hex_byte)

lemma length_concat_hex: "length (concat (map hex_byte bs)) = 2 * length bs"
  by (induction bs) (simp_all add: hex_byte_def)

lemma ParseMACString_MACString: "length b = 6 \<Longrightarrow> ParseMACString (MACString b) = Inr b"
  by (simp add: ParseMACString_def filter_MACString hex_pairs_concat length_concat_hex)

lemma hex_pairs_length: "hex_pairs s = Some b \<Longrightarrow> length s = 2 * length b"
  by (induction s arbitrary: b rule: hex_pairs.induct) (auto split: option.splits)

lemma DecodeKeyHex_size: "DecodeKeyHex k = Inr b \<Longrightarrow> length b = 16"
  by (auto simp: DecodeKeyHex_def dest: hex_pairs_length split: if_splits option.splits)

section \<open>CBC with PKCS7\<close>

fun cbc_encrypt_blocks :: "(bytes \<Rightarrow> bytes) \<Rightarrow> bytes \<Rightarrow> bytes \<Rightarrow> bytes" where
  "cbc_encrypt_blocks E iv p = (if length p < 16 then []
     else let c = E (map2 (XOR) (take 16 p) iv) in c @ cbc_encrypt_blocks E c (drop 16 p))"

fun cbc_decrypt_blocks :: "(bytes \<Rightarrow> bytes) \<Rightarrow> bytes \<Rightarrow> bytes \<Rightarrow> bytes" where
  "cbc_decrypt_blocks D iv c = (if length c < 16 then []
     else map2 (XOR) (D (take 16 c)) iv @ cbc_decrypt_blocks D (take 16 c) (drop 16 c))"

declare cbc_encrypt_blocks.simps [simp del] cbc_decrypt_blocks.simps [simp del]

definition encryptCBC :: "crypto \<Rightarrow> bytes \<Rightarrow> bytes \<Rightarrow> bytes \<Rightarrow> wire_error + bytes" where
  "encryptCBC C key plaintext iv =
    (if length plaintext mod blockSize \<noteq> 0 \<or> length iv \<noteq> blockSize then Inl CBCPanic
     else Inr (cbc_encrypt_blocks (aes_encrypt C key) iv plaintext))"

definition pkcs7Pad :: "bytes \<Rightarrow> bytes" where
  "pkcs7Pad data = (let n = blockSize - length data mod blockSize in data @ replicate n (word_of_nat n))"

definition pkcs7Unpad :: "bytes \<Rightarrow> bytes option" where
  "pkcs7Unpad b =
    (if length b = 0 \<or> length b mod blockSize \<noteq> 0 then None
     else let n = unat (last b) in
       if n < 1 \<or> n > blockSize \<or> n > length b then None
       else if \<not> list_all (\<lambda>c. c = word_of_nat n) (drop (length b - n) b) then None
       else Some (take (length b - n) b))"

definition trimLegacyPad :: "bytes \<Rightarrow> bytes" where
  "trimLegacyPad b = rev (dropWhile (\<lambda>c. c = 0) (rev b))"

definition decryptCBC :: "crypto \<Rightarrow> bytes \<Rightarrow> bytes \<Rightarrow> bytes \<Rightarrow> wire_error + bytes" where
  "decryptCBC C key ciphertext iv =
    (if length iv \<noteq> blockSize then Inl (CBCBadIV (length iv))
     else if length ciphertext = 0 \<or> length ciphertext mod blockSize \<noteq> 0
       then Inl (CBCBadLength (length ciphertext))
     else case checkKey key of Some e \<Rightarrow> Inl e
     | None \<Rightarrow> let raw = cbc_decrypt_blocks (aes_decrypt C key) iv ciphertext in
         case pkcs7Unpad raw of Some plain \<Rightarrow> Inr plain | None \<Rightarrow> Inr (trimLegacyPad raw))"

lemma pad_fills: "(l + (16 - l mod 16)) mod (16::nat) = 0"
proof -
  have "l mod 16 < 16" by simp
  then have "l + (16 - l mod 16) = (l - l mod 16) + 16" by simp
  also have "\<dots> = 16 * (l div 16 + 1)" by (simp add: minus_mod_eq_mult_div)
  finally show ?thesis by simp
qed

lemma pad_of_stripped:
  assumes "1 \<le> n" "n \<le> 16" "n \<le> l" "l mod 16 = 0"
  shows "16 - (l - n) mod 16 = (n::nat)"
proof -
  obtain k where l: "l = 16 * k" using assms(4) by auto
  with assms obtain j where "k = Suc j" by (cases k) auto
  then have "l - n = (16 - n) + 16 * j" using assms(2) l by simp
  then have "(l - n) mod 16 = (16 - n) mod 16" by simp
  with assms(1,2) show ?thesis by simp
qed

lemma pkcs7_pad_length: "length (pkcs7Pad d) mod 16 = 0" "length (pkcs7Pad d) \<le> length d + 16"
  "0 < length (pkcs7Pad d)"
  using pad_fills [of "length d"] by (simp_all add: pkcs7Pad_def Let_def blockSize_def)

lemma pkcs7Unpad_Pad: "pkcs7Unpad (pkcs7Pad d) = Some d"
proof -
  define n where "n = blockSize - length d mod blockSize"
  have n: "1 \<le> n" "n \<le> 16"
    by (simp_all add: n_def blockSize_def Suc_leI)
  have p: "pkcs7Pad d = d @ replicate n (word_of_nat n)"
    by (simp add: pkcs7Pad_def n_def Let_def)
  have u: "unat (word_of_nat n :: u8) = n"
    using n by (intro unat_word_of_nat) simp
  have "last (pkcs7Pad d) = (word_of_nat n :: u8)"
    using n by (simp add: p last_append)
  then show ?thesis
    using n pkcs7_pad_length(1,3) [of d]
    unfolding pkcs7Unpad_def blockSize_def
    by (simp add: u Let_def) (simp add: p list_all_iff)
qed

lemma pkcs7Unpad_sound:
  assumes "pkcs7Unpad b = Some d"
  shows "pkcs7Pad d = b"
proof -
  let ?n = "unat (last b)"
  have c1: "\<not> (length b = 0 \<or> length b mod blockSize \<noteq> 0)"
    using assms unfolding pkcs7Unpad_def by (metis option.distinct(1))
  have c2: "\<not> (?n < 1 \<or> ?n > blockSize \<or> ?n > length b)"
    using assms c1 unfolding pkcs7Unpad_def Let_def by (metis option.distinct(1))
  have c3: "list_all (\<lambda>c. c = word_of_nat ?n) (drop (length b - ?n) b)"
    using assms c1 c2 unfolding pkcs7Unpad_def Let_def by (metis option.distinct(1))
  have d: "d = take (length b - ?n) b"
    using assms c1 c2 c3 unfolding pkcs7Unpad_def Let_def by (metis option.inject)
  from c1 c2 c3 have b: "length b mod 16 = 0" "1 \<le> ?n" "?n \<le> 16" "?n \<le> length b"
    and a: "\<forall>c \<in> set (drop (length b - ?n) b). c = word_of_nat ?n"
    by (simp_all add: blockSize_def list_all_iff)
  have "drop (length b - ?n) b = replicate ?n (word_of_nat ?n)"
    using a b(4) by (intro replicate_eqI) auto
  moreover have "blockSize - length d mod blockSize = ?n"
  proof -
    have "length d = length b - ?n" by (simp add: d)
    then show ?thesis using b unfolding blockSize_def by (simp only: pad_of_stripped)
  qed
  ultimately show ?thesis
    by (simp add: pkcs7Pad_def d Let_def) (metis append_take_drop_id)
qed

lemma xor_cancel:
  fixes a b :: bytes
  shows "length a = length b \<Longrightarrow> map2 (XOR) (map2 (XOR) a b) b = a"
  by (induction a b rule: list_induct2) (simp_all add: xor.assoc)

lemma cbc_roundtrip:
  assumes "\<forall>b. length b = 16 \<longrightarrow> length (E b) = 16 \<and> D (E b) = b"
    and "length p mod 16 = 0" and "length iv = 16"
  shows "cbc_decrypt_blocks D iv (cbc_encrypt_blocks E iv p) = p
     \<and> length (cbc_encrypt_blocks E iv p) = length p"
  using assms
proof (induction E iv p rule: cbc_encrypt_blocks.induct)
  case (1 E iv p)
  show ?case
  proof (cases "length p < 16")
    case True
    then have "p = []" using "1.prems" by simp
    then show ?thesis by (simp add: cbc_encrypt_blocks.simps cbc_decrypt_blocks.simps)
  next
    case False
    define x where "x = E (map2 (XOR) (take 16 p) iv)"
    have e: "length x = 16 \<and> D x = map2 (XOR) (take 16 p) iv"
      using False "1.prems"(1,3) spec [OF "1.prems"(1), of "map2 (XOR) (take 16 p) iv"] by (simp add: x_def)
    have ih: "cbc_decrypt_blocks D x (cbc_encrypt_blocks E x (drop 16 p)) = drop 16 p
      \<and> length (cbc_encrypt_blocks E x (drop 16 p)) = length (drop 16 p)"
      using False "1.prems" e by (intro "1.IH" [OF False x_def]) (simp_all add: mod_if [of "length p"])
    have s: "cbc_encrypt_blocks E iv p = x @ cbc_encrypt_blocks E x (drop 16 p)"
      using False by (simp add: cbc_encrypt_blocks.simps [of E iv p] x_def Let_def)
    show ?thesis
      using e ih False "1.prems"(3)
      by (simp add: s cbc_decrypt_blocks.simps [of D iv] xor_cancel)
  qed
qed

section \<open>GCM\<close>

definition decryptGCM :: "crypto \<Rightarrow> bytes \<Rightarrow> bytes \<Rightarrow> bytes \<Rightarrow> bytes \<Rightarrow> wire_error + bytes" where
  "decryptGCM C key payload nonce aad =
    (if length payload < gcmTagSize then Inl GCMShort
     else if length nonce \<noteq> 16 then Inl (GCMNonce (length nonce))
     else case checkKey key of Some e \<Rightarrow> Inl e
     | None \<Rightarrow> (case gcm_open C key nonce payload aad of
         None \<Rightarrow> Inl GCMAuth | Some plain \<Rightarrow> Inr plain))"

definition encryptGCM :: "crypto \<Rightarrow> bytes \<Rightarrow> bytes \<Rightarrow> bytes \<Rightarrow> bytes \<Rightarrow> bytes" where
  "encryptGCM C key plaintext nonce aad = gcm_seal C key nonce plaintext aad"

section \<open>Payloads\<close>

text \<open>
  \<open>inflateZlib\<close> reads at most \<open>MaxBodySize + 1\<close> bytes; the reader's error surfaces only when
  it is reached within that limit.
\<close>

definition inflateZlib :: "crypto \<Rightarrow> bytes \<Rightarrow> wire_error + bytes" where
  "inflateZlib C body = (case zlib_stream C body of
     None \<Rightarrow> Inl ZlibError
   | Some (out, clean) \<Rightarrow>
       if length out \<le> MaxBodySize \<and> \<not> clean then Inl ZlibError
       else if length (take (MaxBodySize + 1) out) > MaxBodySize then Inl ZlibTooLong
       else Inr out)"

definition isAllZero :: "bytes \<Rightarrow> bool" where
  "isAllZero b \<longleftrightarrow> list_all (\<lambda>c. c = 0) b"

definition DecryptPayload :: "crypto \<Rightarrow> packet \<Rightarrow> bytes \<Rightarrow> wire_error + bytes" where
  "DecryptPayload C p key =
    (case checkKey key of Some e \<Rightarrow> Inl e
     | None \<Rightarrow>
       if p_flags p AND FlagSnappy \<noteq> 0 then Inl SnappyUnsupported
       else
         let body = (if p_flags p AND FlagGCM \<noteq> 0
             then (case headerBytes p (word_of_nat (length (p_payload p))) of
                 Inl e \<Rightarrow> Inl e
               | Inr aad \<Rightarrow> decryptGCM C key (p_payload p) (p_iv p) aad)
             else if p_flags p AND FlagEncCBC \<noteq> 0
             then decryptCBC C key (p_payload p) (p_iv p)
             else Inr (p_payload p))
         in case body of Inl e \<Rightarrow> Inl e
            | Inr b \<Rightarrow> if p_flags p AND FlagZlib \<noteq> 0 then inflateZlib C b else Inr b)"

text \<open>\<open>fresh\<close> is what \<^verbatim>\<open>rand.Read\<close> delivers when the caller left the IV zero.\<close>

definition EncryptPayload ::
    "crypto \<Rightarrow> bytes option \<Rightarrow> packet \<Rightarrow> bytes \<Rightarrow> bytes \<Rightarrow> wire_error + packet" where
  "EncryptPayload C fresh p key plaintext =
    (case checkKey key of Some e \<Rightarrow> Inl e
     | None \<Rightarrow>
       let iv = (if isAllZero (p_iv p)
           then (case fresh of None \<Rightarrow> Inl RandError
             | Some r \<Rightarrow> Inr (if isAllZero r then 1 # tl r else r))
           else Inr (p_iv p))
       in case iv of Inl e \<Rightarrow> Inl e
        | Inr v \<Rightarrow>
          let p = p\<lparr>p_iv := v\<rparr> in
          if p_flags p AND FlagGCM \<noteq> 0
          then (case headerBytes p (word_of_nat (length plaintext + 16)) of
              Inl e \<Rightarrow> Inl e
            | Inr aad \<Rightarrow> Inr (p\<lparr>p_payload := encryptGCM C key plaintext (p_iv p) aad\<rparr>))
          else
            let p = p\<lparr>p_flags := p_flags p OR FlagEncCBC\<rparr> in
            (case encryptCBC C key (pkcs7Pad plaintext) (p_iv p) of
               Inl e \<Rightarrow> Inl e
             | Inr c \<Rightarrow> Inr (p\<lparr>p_payload := c\<rparr>)))"

section \<open>The verbs \<open>Decode\<close> and \<open>Respond\<close>\<close>

record decoded =
  d_body :: jmap
  d_used_key :: string
  d_key_bytes :: "bytes option"

definition plain_packet :: "packet \<Rightarrow> bool" where
  "plain_packet pkt \<longleftrightarrow> p_flags pkt AND (FlagEncCBC OR FlagGCM) = 0"

fun decode_keys ::
    "crypto \<Rightarrow> packet \<Rightarrow> string list \<Rightarrow> bool \<Rightarrow> wire_error option \<Rightarrow> wire_error + decoded" where
  "decode_keys C pkt [] notJSON lastErr =
     Inl (if notJSON then NotJSONObject else NoValidJSON lastErr)"
| "decode_keys C pkt (k # ks) notJSON lastErr =
     (case DecodeKeyHex k of
        Inl _ \<Rightarrow> decode_keys C pkt ks notJSON lastErr
      | Inr kb \<Rightarrow> (case DecryptPayload C pkt kb of
          Inl e \<Rightarrow> decode_keys C pkt ks notJSON (Some e)
        | Inr p \<Rightarrow> (case json_parse C p of
            Some (GObj jm) \<Rightarrow>
              if plain_packet pkt then Inr \<lparr>d_body = jm, d_used_key = [], d_key_bytes = None\<rparr>
              else Inr \<lparr>d_body = jm, d_used_key = k, d_key_bytes = Some kb\<rparr>
          | _ \<Rightarrow> decode_keys C pkt ks True lastErr)))"

definition Decode :: "crypto \<Rightarrow> packet \<Rightarrow> string list \<Rightarrow> wire_error + decoded" where
  "Decode C pkt keys = decode_keys C pkt keys False None"

definition Respond ::
    "crypto \<Rightarrow> bytes option \<Rightarrow> bytes option \<Rightarrow> packet \<Rightarrow> bytes \<Rightarrow> bytes \<Rightarrow> wire_error + bytes" where
  "Respond C rnd fresh pkt key plaintext =
    (let fl = (if p_flags pkt AND FlagGCM \<noteq> 0 then FlagGCM OR FlagEncCBC else FlagEncCBC) in
     case rnd of None \<Rightarrow> Inl RandError
     | Some iv \<Rightarrow>
       (case EncryptPayload C fresh (pkt\<lparr>p_flags := fl, p_iv := iv\<rparr>) key plaintext of
          Inl e \<Rightarrow> Inl e
        | Inr rpkt \<Rightarrow> Serialize rpkt))"

lemma flag_facts [simp]:
  "FlagEncCBC AND FlagSnappy = 0" "FlagEncCBC AND FlagGCM = 0" "FlagEncCBC AND FlagZlib = 0"
  "FlagEncCBC \<noteq> 0" "FlagGCM \<noteq> 0" "FlagGCM OR FlagEncCBC \<noteq> 0" "FlagEncCBC AND FlagEncCBC \<noteq> 0" "FlagEncCBC OR FlagEncCBC = FlagEncCBC"
  "(FlagGCM OR FlagEncCBC) AND FlagSnappy = 0" "(FlagGCM OR FlagEncCBC) AND FlagGCM \<noteq> 0"
  "(FlagGCM OR FlagEncCBC) AND FlagZlib = 0"
  by (simp_all add: wire_flags)

text \<open>The IV that ends up in the sealed packet is 16 bytes, whatever the randomness.\<close>

lemma EncryptPayload_sealed:
  assumes laws: "crypto_laws C" and k: "key_size_ok key" and wf: "wf_packet p"
    and fresh: "\<forall>r. fresh = Some r \<longrightarrow> length r = 16" and some: "isAllZero (p_iv p) \<longrightarrow> fresh \<noteq> None"
    and fl: "p_flags p \<in> {FlagEncCBC, FlagGCM OR FlagEncCBC}"
  shows "\<exists>q. EncryptPayload C fresh p key plaintext = Inr q \<and> wf_packet q
    \<and> p_version q = p_version p \<and> p_mac q = p_mac p \<and> p_flags q = p_flags p
    \<and> p_data_version q = p_data_version p
    \<and> length (p_payload q) \<le> length plaintext + 16
    \<and> DecryptPayload C q key = Inr plaintext"
proof -
  have "\<exists>iv. (if isAllZero (p_iv p) then (case fresh of None \<Rightarrow> Inl RandError
             | Some r \<Rightarrow> Inr (if isAllZero r then 1 # tl r else r)) else Inr (p_iv p)) = Inr iv
      \<and> length iv = 16"
    using some fresh wf by (cases fresh) (auto simp: wf_packet_def)
  then obtain iv where iv: "(if isAllZero (p_iv p) then (case fresh of None \<Rightarrow> Inl RandError
             | Some r \<Rightarrow> Inr (if isAllZero r then 1 # tl r else r)) else Inr (p_iv p)) = Inr iv"
      and liv: "length iv = 16" by blast
  have lm: "length (p_mac p) = 6" using wf by (simp add: wf_packet_def)
  have ck: "checkKey key = None" using k by simp
  show ?thesis
  proof (cases "p_flags p = FlagEncCBC")
    case True
    let ?c = "cbc_encrypt_blocks (aes_encrypt C key) iv (pkcs7Pad plaintext)"
    have r: "cbc_decrypt_blocks (aes_decrypt C key) iv ?c = pkcs7Pad plaintext
        \<and> length ?c = length (pkcs7Pad plaintext)"
      using laws k liv by (intro cbc_roundtrip) (auto simp: crypto_laws_def pkcs7_pad_length)
    then have l: "length ?c mod 16 = 0" "0 < length ?c" "length ?c \<le> length plaintext + 16"
      using pkcs7_pad_length [of plaintext] by simp_all
    define q where "q = p\<lparr>p_iv := iv, p_flags := FlagEncCBC, p_payload := ?c\<rparr>"
    have e: "encryptCBC C key (pkcs7Pad plaintext) iv = Inr ?c"
      using liv pkcs7_pad_length(1) by (simp add: encryptCBC_def blockSize_def)
    have d: "decryptCBC C key ?c iv = Inr plaintext"
      using liv l r by (simp add: decryptCBC_def blockSize_def pkcs7Unpad_Pad ck)
    have "EncryptPayload C fresh p key plaintext = Inr q"
      using e by (simp add: EncryptPayload_def ck iv True q_def Let_def)
    moreover have "DecryptPayload C q key = Inr plaintext"
      using d by (simp add: DecryptPayload_def ck q_def)
    moreover have "wf_packet q \<and> p_version q = p_version p \<and> p_mac q = p_mac p
        \<and> p_flags q = p_flags p \<and> p_data_version q = p_data_version p
        \<and> length (p_payload q) \<le> length plaintext + 16"
      using lm liv l True by (simp add: q_def wf_packet_def)
    ultimately show ?thesis by blast
  next
    case False
    then have f: "p_flags p = FlagGCM OR FlagEncCBC" using fl by simp
    define aad where "aad = putHeader (p\<lparr>p_iv := iv\<rparr>) (word_of_nat (length plaintext + 16))"
    define ct where "ct = gcm_seal C key iv plaintext aad"
    define q where "q = p\<lparr>p_iv := iv, p_payload := ct\<rparr>"
    have s: "length ct = length plaintext + 16" "gcm_open C key iv ct aad = Some plaintext"
      using laws k liv by (simp_all add: crypto_laws_def ct_def)
    have "EncryptPayload C fresh p key plaintext = Inr q"
      using lm by (simp add: EncryptPayload_def ck iv f headerBytes_def encryptGCM_def q_def
          ct_def aad_def Let_def)
    moreover have "headerBytes q (word_of_nat (length (p_payload q))) = Inr aad"
      using lm s(1) by (simp add: headerBytes_def q_def aad_def putHeader_def)
    then have "DecryptPayload C q key = Inr plaintext"
      using s liv by (simp add: DecryptPayload_def decryptGCM_def ck gcmTagSize_def)
        (simp add: q_def f)
    moreover have "wf_packet q \<and> p_version q = p_version p \<and> p_mac q = p_mac p
        \<and> p_flags q = p_flags p \<and> p_data_version q = p_data_version p
        \<and> length (p_payload q) \<le> length plaintext + 16"
      using lm liv s(1) by (simp add: q_def wf_packet_def)
    ultimately show ?thesis by blast
  qed
qed

lemma Respond_roundtrip:
  assumes laws: "crypto_laws C" and k: "key_size_ok key" and wf: "wf_packet pkt"
    and dv: "p_data_version pkt = DataVersion"
    and rnd: "length iv = 16" "length iv' = 16"
    and len: "HeaderLen + length plaintext + 16 \<le> MaxBodySize"
  shows "\<exists>b q. Respond C (Some iv) (Some iv') pkt key plaintext = Inr b \<and> ParsePacket b = Inr q
    \<and> p_mac q = p_mac pkt \<and> p_version q = p_version pkt
    \<and> p_flags q = (if p_flags pkt AND FlagGCM \<noteq> 0 then FlagGCM OR FlagEncCBC else FlagEncCBC)
    \<and> DecryptPayload C q key = Inr plaintext"
proof -
  let ?fl = "if p_flags pkt AND FlagGCM \<noteq> 0 then FlagGCM OR FlagEncCBC else FlagEncCBC"
  let ?p = "pkt\<lparr>p_flags := ?fl, p_iv := iv\<rparr>"
  have w: "wf_packet ?p" using wf rnd by (simp add: wf_packet_def)
  have fl: "p_flags ?p \<in> {FlagEncCBC, FlagGCM OR FlagEncCBC}" by simp
  obtain q where q: "EncryptPayload C (Some iv') ?p key plaintext = Inr q" "wf_packet q"
      "p_version q = p_version pkt" "p_mac q = p_mac pkt" "p_flags q = ?fl"
      "p_data_version q = DataVersion" "length (p_payload q) \<le> length plaintext + 16"
      "DecryptPayload C q key = Inr plaintext"
    using EncryptPayload_sealed [OF laws k w _ _ fl, of "Some iv'" plaintext] rnd dv by auto
  have l6: "length (p_mac q) = 6" using q(2) by (simp add: wf_packet_def)
  obtain b where b: "Serialize q = Inr b"
    using l6 by (simp add: Serialize_def)
  have "HeaderLen + length (p_payload q) \<le> MaxBodySize"
    using len q(7) by linarith
  then have "ParsePacket b = Inr q"
    by (rule ParsePacket_Serialize [OF q(2,6) _ b])
  moreover have "Respond C (Some iv) (Some iv') pkt key plaintext = Inr b"
    using q(1) b by (simp add: Respond_def Let_def)
  ultimately show ?thesis using q by blast
qed

text \<open>Which candidate key wins.\<close>

definition candidate_body :: "crypto \<Rightarrow> packet \<Rightarrow> string \<Rightarrow> jmap option" where
  "candidate_body C pkt k = (case DecodeKeyHex k of Inl _ \<Rightarrow> None
     | Inr kb \<Rightarrow> (case DecryptPayload C pkt kb of Inl _ \<Rightarrow> None
       | Inr p \<Rightarrow> (case json_parse C p of Some (GObj jm) \<Rightarrow> Some jm | _ \<Rightarrow> None)))"

definition winning :: "crypto \<Rightarrow> packet \<Rightarrow> string \<Rightarrow> decoded" where
  "winning C pkt k = (let jm = (case candidate_body C pkt k of Some m \<Rightarrow> m | None \<Rightarrow> []) in
     if plain_packet pkt then \<lparr>d_body = jm, d_used_key = [], d_key_bytes = None\<rparr>
     else \<lparr>d_body = jm, d_used_key = k,
       d_key_bytes = (case DecodeKeyHex k of Inr kb \<Rightarrow> Some kb | Inl _ \<Rightarrow> None)\<rparr>)"

lemma decode_keys_find:
  "case find (\<lambda>k. candidate_body C pkt k \<noteq> None) keys of
     Some k \<Rightarrow> decode_keys C pkt keys nj le = Inr (winning C pkt k)
   | None \<Rightarrow> \<exists>e. decode_keys C pkt keys nj le = Inl e"
proof (induction keys arbitrary: nj le)
  case Nil
  then show ?case by simp
next
  case (Cons k ks)
  show ?case
  proof (cases "candidate_body C pkt k")
    case None
    then obtain nj' le' where "decode_keys C pkt (k # ks) nj le = decode_keys C pkt ks nj' le'"
      by (auto simp: candidate_body_def split: sum.splits option.splits gval.splits)
    with None Cons.IH [of nj' le'] show ?thesis
      by (auto simp del: decode_keys.simps split: option.splits)
  next
    case (Some jm)
    then have "decode_keys C pkt (k # ks) nj le = Inr (winning C pkt k)"
      by (auto simp: candidate_body_def winning_def split: sum.splits option.splits gval.splits)
    with Some show ?thesis by (simp del: decode_keys.simps)
  qed
qed

lemma decode_keys_class:
  "decode_keys C pkt keys nj le = Inl e \<Longrightarrow> e = NotJSONObject \<or> (\<exists>x. e = NoValidJSON x)"
proof (induction keys arbitrary: nj le)
  case Nil
  then show ?case by (auto split: if_splits)
next
  case (Cons k ks)
  show ?case
  proof (cases "candidate_body C pkt k")
    case None
    then obtain nj' le' where "decode_keys C pkt (k # ks) nj le = decode_keys C pkt ks nj' le'"
      by (auto simp: candidate_body_def split: sum.splits option.splits gval.splits)
    with Cons show ?thesis by (metis (no_types))
  next
    case (Some jm)
    then have "\<exists>r. decode_keys C pkt (k # ks) nj le = Inr r"
      by (auto simp: candidate_body_def split: sum.splits option.splits gval.splits)
    with Cons.prems show ?thesis by (metis sum.distinct(1))
  qed
qed

text \<open>The error class: a candidate that decrypted to something else than an object wins.\<close>

definition decrypts :: "crypto \<Rightarrow> packet \<Rightarrow> string \<Rightarrow> bool" where
  "decrypts C pkt k = (case DecodeKeyHex k of Inl _ \<Rightarrow> False
     | Inr kb \<Rightarrow> (case DecryptPayload C pkt kb of Inl _ \<Rightarrow> False | Inr _ \<Rightarrow> True))"

lemma decode_keys_error:
  assumes "\<forall>k \<in> set keys. candidate_body C pkt k = None"
  shows "decode_keys C pkt keys nj le = Inl NotJSONObject \<longleftrightarrow> nj \<or> (\<exists>k \<in> set keys. decrypts C pkt k)"
  using assms
proof (induction keys arbitrary: nj le)
  case Nil
  then show ?case by simp
next
  case (Cons k ks)
  then show ?case
    by (auto simp: candidate_body_def decrypts_def split: sum.splits option.splits gval.splits)
qed

section \<open>The codec as an interface\<close>

text \<open>
  Framing, padding and MAC spelling are three instances of one contract: the encoder's
  output reads back. Injectivity (no two packets share a wire form) comes from the locale.
\<close>

interpretation frame: codec frame_bytes "\<lambda>b. case ParsePacket b of Inr p \<Rightarrow> Some p | Inl _ \<Rightarrow> None" frame_ok
proof
  fix p assume ok: "frame_ok p"
  then have "Serialize p = Inr (frame_bytes p)"
    by (simp add: frame_bytes_def Serialize_def frame_ok_def wf_packet_def)
  with ok have "ParsePacket (frame_bytes p) = Inr p"
    by (intro ParsePacket_Serialize) (simp_all add: frame_ok_def)
  then show "(case ParsePacket (frame_bytes p) of Inr p \<Rightarrow> Some p | Inl _ \<Rightarrow> None) = Some p"
    by simp
qed

interpretation padding: codec pkcs7Pad pkcs7Unpad "\<lambda>_. True"
  by unfold_locales (rule pkcs7Unpad_Pad)

interpretation mac_text: codec MACString
  "\<lambda>s. case ParseMACString s of Inr b \<Rightarrow> Some b | Inl _ \<Rightarrow> None" "\<lambda>b. length b = 6"
  by unfold_locales (simp add: ParseMACString_MACString)

section \<open>Properties\<close>

text \<open>
  Unpadding succeeds exactly on padded blocks and returns the padded data.
\<close>

theorem pkcs7_unpad_iff: "pkcs7Unpad b = Some d \<longleftrightarrow> pkcs7Pad d = b"
  by (auto simp: pkcs7Unpad_Pad dest: pkcs7Unpad_sound)

text \<open>
  The first candidate key that decrypts the payload to a JSON object wins, whatever comes
  after it; when there is none the error says whether some key decrypted to something else.
\<close>

theorem Decode_first_candidate:
  "case find (\<lambda>k. candidate_body C pkt k \<noteq> None) keys of
     Some k \<Rightarrow> Decode C pkt keys = Inr (winning C pkt k)
   | None \<Rightarrow> (if list_ex (decrypts C pkt) keys then Decode C pkt keys = Inl NotJSONObject
       else \<exists>e. Decode C pkt keys = Inl (NoValidJSON e))"
proof (cases "find (\<lambda>k. candidate_body C pkt k \<noteq> None) keys")
  case (Some k)
  then show ?thesis using decode_keys_find [of C pkt keys False None] by (simp add: Decode_def)
next
  case None
  then have n: "\<forall>k \<in> set keys. candidate_body C pkt k = None" by (auto simp: find_None_iff)
  from decode_keys_find [of C pkt keys False None] None
  obtain e where "Decode C pkt keys = Inl e" by (auto simp: Decode_def)
  moreover have "Decode C pkt keys = Inl NotJSONObject \<longleftrightarrow> list_ex (decrypts C pkt) keys"
    using decode_keys_error [OF n, of False None] by (simp add: Decode_def list_ex_iff)
  moreover have "e = NotJSONObject \<or> (\<exists>x. e = NoValidJSON x)"
    using decode_keys_class [of C pkt keys False None e] calculation(1) by (simp add: Decode_def)
  ultimately show ?thesis using None by auto
qed

text \<open>
  What \<open>Respond\<close> seals, the device opens: the reply parses, keeps the request's MAC and
  version, uses the request's cipher (GCM or CBC), and decrypts under the same key to the
  plaintext.
\<close>

theorem Respond_readable:
  assumes "crypto_laws C" "key_size_ok key" "wf_packet pkt" "p_data_version pkt = DataVersion"
    and "length iv = 16" "length iv' = 16" "HeaderLen + length plaintext + 16 \<le> MaxBodySize"
  shows "\<exists>b q. Respond C (Some iv) (Some iv') pkt key plaintext = Inr b \<and> ParsePacket b = Inr q
    \<and> p_mac q = p_mac pkt \<and> p_version q = p_version pkt
    \<and> p_flags q = (if p_flags pkt AND FlagGCM \<noteq> 0 then FlagGCM OR FlagEncCBC else FlagEncCBC)
    \<and> DecryptPayload C q key = Inr plaintext"
  using assms by (rule Respond_roundtrip)

text \<open>A concrete cipher suite that meets the laws: a byte mask, and a tag that commits to the header length.\<close>

definition mask :: "u8 \<Rightarrow> u8" where "mask x = x XOR 90"

lemma mask_twice [simp]: "mask (mask x) = x"
  by (simp add: mask_def xor.assoc)

definition mask_crypto :: crypto where
  "mask_crypto = \<lparr>aes_encrypt = (\<lambda>k b. map mask b), aes_decrypt = (\<lambda>k b. map mask b),
     gcm_seal = (\<lambda>k n p a. map mask p @ replicate 16 (word_of_nat (length a))),
     gcm_open = (\<lambda>k n c a. if length c < 16 \<or> drop (length c - 16) c \<noteq> replicate 16 (word_of_nat (length a))
       then None else Some (map mask (take (length c - 16) c))),
     zlib_stream = (\<lambda>_. None), json_parse = (\<lambda>b. if b = [] then None else Some (GObj []))\<rparr>"



lemma mask_crypto_laws: "crypto_laws mask_crypto"
  by (auto simp: crypto_laws_def mask_crypto_def comp_def)

definition mask_packet :: packet where
  "mask_packet = (NewPacket (replicate 6 2) (replicate 16 7))\<lparr>p_flags := FlagGCM OR FlagEncCBC\<rparr>"

lemma Respond_readable_witness:
  "\<exists>b q. Respond mask_crypto (Some (replicate 16 1)) (Some (replicate 16 3)) mask_packet (replicate 16 9) [123, 125] = Inr b
    \<and> ParsePacket b = Inr q \<and> DecryptPayload mask_crypto q (replicate 16 9) = Inr [123, 125]"
  using Respond_readable [of mask_crypto "replicate 16 9" mask_packet "replicate 16 1" "replicate 16 3" "[123, 125]"]
    mask_crypto_laws
  by (force simp: key_size_ok_def mask_packet_def wf_packet_def NewPacket_def wire_consts)

text \<open>
  A six-byte MAC survives its text form; every other length is refused with the text.
\<close>

theorem ParseMACString_text:
  "ParseMACString (MACString b) = (if length b = 6 then Inr b else Inl (BadMACString (MACString b)))"
  by (simp add: ParseMACString_MACString)
    (simp add: ParseMACString_def filter_MACString length_concat_hex)

end
