(* ===== verification/App_Ops.thy ===== *)
theory App_Ops
  imports App_View Inform_Codec
begin

text \<open>
  The write side of the application layer (\<^verbatim>\<open>internal/app/app.go\<close>): the one save skeleton every admin
  verb runs through, and the verbs on devices, blocked clients, radio intents and remote commands.
  A verb takes the store and returns it with its result. What comes from outside is in \<open>admin_env\<close>:
  the clock, whether the file write succeeds, the eight random bytes of a cfgversion, JSON text.
\<close>

section \<open>The save skeleton\<close>

record admin_env =
  ae_now :: int
  ae_io :: bool
  ae_random :: "bytes option"
  ae_json :: json_text

definition mintCfgVersion :: "admin_env \<Rightarrow> app_error + string" where
  "mintCfgVersion env = (case ae_random env of
     None \<Rightarrow> Inl (AppPlain ''cfgversion mint'') | Some b \<Rightarrow> Inr (concat (map hex_byte b)))"

datatype saveMode = SaveExisting | SavePending

text \<open>
  The closure the skeleton hands to the store: the verb's change, the mint of an effective one, the
  projection. \<open>'c\<close> is what the change leaves in a variable of the verb for the projection.
\<close>

type_synonym 'c change = "device \<Rightarrow> app_error + bool \<times> device \<times> 'c"

definition intent_cycle :: "admin_env \<Rightarrow> 'c change \<Rightarrow> ('c \<Rightarrow> device \<Rightarrow> 'o) \<Rightarrow> device \<Rightarrow> app_error + device \<times> 'o" where
  "intent_cycle env change project d =
    and_then (change d) (\<lambda>(effective, d, c).
      and_then (if effective then and_then (mintCfgVersion env) (\<lambda>nv. Inr (d\<lparr>dev_cfg_version := nv\<rparr>)) else Inr d)
        (\<lambda>d. Inr (d, project c d)))"

text \<open>The store sees the record or that the closure failed; the closure's variables are read again
  from the record the cycle started with.\<close>

definition intent_fn :: "(device \<Rightarrow> app_error + device \<times> 'o) \<Rightarrow> device \<Rightarrow> string + device" where
  "intent_fn f d = (case f d of Inl _ \<Rightarrow> Inl ''aborted'' | Inr (d', _) \<Rightarrow> Inr d')"

definition seeded :: "string \<Rightarrow> json_store \<Rightarrow> device" where
  "seeded canon s = (case db_Get canon (js_db s) of Inl _ \<Rightarrow> new_device canon | Inr d \<Rightarrow> d)"

definition saveIntent :: "admin_env \<Rightarrow> string \<Rightarrow> saveMode \<Rightarrow> 'c change \<Rightarrow> ('c \<Rightarrow> device \<Rightarrow> 'o) \<Rightarrow> json_store
    \<Rightarrow> json_store \<times> (app_error + 'o)" where
  "saveIntent env mac mode change project s = (case CanonicalMAC mac of
     Inl _ \<Rightarrow> (s, Inl (unknownDevice mac))
   | Inr canon \<Rightarrow>
      (let f = intent_cycle env change project;
           ran = f (seeded canon s);
           rmw = (if mode = SavePending then js_Update else js_UpdateExisting);
           (s', err) = rmw (ae_now env) (ae_io env) canon (intent_fn f) s
       in (s', case err of
            None \<Rightarrow> (case ran of Inl e \<Rightarrow> Inl e | Inr (_, out) \<Rightarrow> Inr out)
          | Some ErrNotFound \<Rightarrow> Inl (unknownDevice canon)
          | Some (ErrFn _) \<Rightarrow> (case ran of Inl e \<Rightarrow> Inl e | Inr (_, out) \<Rightarrow> Inr out)
          | Some e \<Rightarrow> Inl (AppStore e))))"

section \<open>What every verb promises\<close>

text \<open>
  The fields no admin change touches: identity, keys, and the two version stamps (the skeleton alone
  mints one of them).
\<close>

definition fixed_fields :: "device \<Rightarrow> string \<times> string \<times> string list \<times> bool \<times> string \<times> string" where
  "fixed_fields d = (dev_mac d, dev_x_authkey d, dev_authkeys d, dev_key_confirmed d, dev_cfg_version d, dev_applied_cfg d)"

lemma fixed_fields_simps [simp]:
  "fixed_fields (d\<lparr>dev_name := n\<rparr>) = fixed_fields d" "fixed_fields (d\<lparr>dev_site_id := n\<rparr>) = fixed_fields d"
  "fixed_fields (d\<lparr>dev_led_override := n\<rparr>) = fixed_fields d" "fixed_fields (d\<lparr>dev_led_brightness := b\<rparr>) = fixed_fields d"
  "fixed_fields (d\<lparr>dev_led_color := n\<rparr>) = fixed_fields d" "fixed_fields (d\<lparr>dev_ssh_password := n\<rparr>) = fixed_fields d"
  "fixed_fields (d\<lparr>dev_country_code := i\<rparr>) = fixed_fields d" "fixed_fields (d\<lparr>dev_ssh_keys := ks\<rparr>) = fixed_fields d"
  "fixed_fields (d\<lparr>dev_state := i\<rparr>) = fixed_fields d" "fixed_fields (d\<lparr>dev_first_seen := i\<rparr>) = fixed_fields d"
  "fixed_fields (d\<lparr>dev_extra := x\<rparr>) = fixed_fields d"
  "fixed_fields (ext_set k v d) = fixed_fields d" "fixed_fields (ext_del k d) = fixed_fields d"
  by (simp_all add: fixed_fields_def ext_set_def ext_del_def)

lemma ext_scalar_updates [simp]:
  "ext (d\<lparr>dev_name := n\<rparr>) = ext d" "ext (d\<lparr>dev_site_id := n\<rparr>) = ext d"
  "ext (d\<lparr>dev_led_override := n\<rparr>) = ext d" "ext (d\<lparr>dev_led_brightness := b\<rparr>) = ext d"
  "ext (d\<lparr>dev_led_color := n\<rparr>) = ext d" "ext (d\<lparr>dev_ssh_password := n\<rparr>) = ext d"
  "ext (d\<lparr>dev_country_code := i\<rparr>) = ext d" "ext (d\<lparr>dev_ssh_keys := ks\<rparr>) = ext d"
  "ext (d\<lparr>dev_first_seen := i\<rparr>) = ext d"
  by (simp_all add: ext_def)

text \<open>
  The contract of a verb's change step: it keeps those fields and writes no row of the record's
  \<^verbatim>\<open>Extra\<close> map but the admin-owned ones.
\<close>

locale admin_verb =
  fixes change :: "'c change"
  assumes keeps_fields: "change d = Inr (eff, d', c) \<Longrightarrow> fixed_fields d' = fixed_fields d"
    and writes_owned: "change d = Inr (eff, d', c) \<Longrightarrow> k \<notin> set adminOwnedKeys \<Longrightarrow> jget (ext d') k = jget (ext d) k"
begin

lemma cycle_Inr:
  assumes "intent_cycle env change project d = Inr (d', out)"
  obtains eff d1 c where "change d = Inr (eff, d1, c)" "out = project c d'"
    "if eff then \<exists>nv. mintCfgVersion env = Inr nv \<and> d' = d1\<lparr>dev_cfg_version := nv\<rparr> else d' = d1"
proof (cases "change d")
  case (Inl e)
  with assms show ?thesis by (simp add: intent_cycle_def)
next
  case (Inr r)
  obtain eff d1 c where r: "r = (eff, d1, c)" by (cases r)
  have "and_then (if eff then and_then (mintCfgVersion env) (\<lambda>nv. Inr (d1\<lparr>dev_cfg_version := nv\<rparr>)) else Inr d1)
      (\<lambda>d. Inr (d, project c d)) = Inr (d', out)"
    using assms unfolding intent_cycle_def Inr r by simp
  then have "out = project c d' \<and> (if eff then \<exists>nv. mintCfgVersion env = Inr nv \<and> d' = d1\<lparr>dev_cfg_version := nv\<rparr> else d' = d1)"
    by (cases "mintCfgVersion env"; cases eff) auto
  then show ?thesis using that Inr r by blast
qed

lemma cycle_fields:
  assumes "intent_cycle env change project d = Inr (d', out)"
  shows "dev_mac d' = dev_mac d" "dev_x_authkey d' = dev_x_authkey d" "dev_authkeys d' = dev_authkeys d"
    "dev_key_confirmed d' = dev_key_confirmed d" "dev_applied_cfg d' = dev_applied_cfg d"
    "k \<notin> set adminOwnedKeys \<Longrightarrow> jget (ext d') k = jget (ext d) k"
proof -
  obtain eff d1 c where c: "change d = Inr (eff, d1, c)"
    "if eff then \<exists>nv. mintCfgVersion env = Inr nv \<and> d' = d1\<lparr>dev_cfg_version := nv\<rparr> else d' = d1"
    using assms by (rule cycle_Inr)
  have f: "fixed_fields d1 = fixed_fields d" using c(1) by (rule keeps_fields)
  have e: "ext d' = ext d1" using c(2) by (auto simp: ext_def split: if_splits)
  show "dev_mac d' = dev_mac d" "dev_x_authkey d' = dev_x_authkey d" "dev_authkeys d' = dev_authkeys d"
    "dev_key_confirmed d' = dev_key_confirmed d" "dev_applied_cfg d' = dev_applied_cfg d"
    using f c(2) by (auto simp: fixed_fields_def split: if_splits)
  show "k \<notin> set adminOwnedKeys \<Longrightarrow> jget (ext d') k = jget (ext d) k"
    unfolding e using c(1) by (rule writes_owned)
qed

lemma save_cases:
  assumes "db_inv (js_db s)" "saveIntent env mac mode change project s = (s', r)"
  obtains (refused) e where "s' = s" "r = Inl e"
  | (stored) c d' out where "CanonicalMAC mac = Inr c"
      "mode = SaveExisting \<Longrightarrow> devices_of (js_db s) c = Some (seeded c s)"
      "intent_cycle env change project (seeded c s) = Inr (d', out)"
      "devices_of (js_db s') = (devices_of (js_db s))(c \<mapsto> d')" "db_inv (js_db s')"
      "if ae_io env then r = Inr out \<and> js_file s' = Some (snapshot (ae_now env) (js_db s'))
       else r = Inl (AppStore ErrSave) \<and> js_file s' = js_file s"
proof (cases "CanonicalMAC mac")
  case (Inl e)
  with assms(2) refused show ?thesis by (auto simp: saveIntent_def)
next
  case (Inr c)
  let ?f = "intent_cycle env change project" and ?d = "seeded c s" and ?u = "mode = SavePending"
  have c: "canonical c" "canonicalMAC c = c" "c \<noteq> []"
    using CanonicalMAC_D [OF Inr] by (auto simp: mac_simps canonical_def)
  obtain err where u: "js_after (ae_now env) (ae_io env) (db_update c (intent_fn ?f) ?u (js_db s)) s = (s', err)"
    and r: "r = (case err of None \<Rightarrow> (case ?f ?d of Inl e \<Rightarrow> Inl e | Inr (_, out) \<Rightarrow> Inr out)
      | Some ErrNotFound \<Rightarrow> Inl (unknownDevice c)
      | Some (ErrFn _) \<Rightarrow> (case ?f ?d of Inl e \<Rightarrow> Inl e | Inr (_, out) \<Rightarrow> Inr out)
      | Some e \<Rightarrow> Inl (AppStore e))"
    using assms(2) Inr by (cases mode)
      (auto simp: saveIntent_def Let_def js_Update_def js_UpdateExisting_def db_Update_def db_UpdateExisting_def
        split: prod.splits)
  have mac: "dev_mac ?d = c"
    using assms(1) c by (auto simp: seeded_def db_Get_devices db_inv_def devices_of_def jget_def new_device_def
        dest!: map_of_SomeD split: option.splits)
  show ?thesis
  proof (cases "db_update c (intent_fn ?f) ?u (js_db s)")
    case (Inl e)
    then have "s' = s" "err = Some e" using u by (simp_all add: js_after_def)
    moreover have "\<exists>x. r = Inl x"
    proof (cases "e = ErrFn (case e of ErrFn m \<Rightarrow> m | _ \<Rightarrow> [])")
      case True
      then have "\<exists>m. intent_fn ?f ?d = Inl m"
        using Inl c by (auto simp: db_update_def Let_def seeded_def db_Get_devices db_Put_def
            split: option.splits sum.splits if_splits)
      then have "\<exists>x. ?f ?d = Inl x" by (auto simp: intent_fn_def split: sum.splits)
      then show ?thesis using r True \<open>err = Some e\<close> by (cases e) auto
    next
      case False
      then show ?thesis using r \<open>err = Some e\<close> by (cases e) auto
    qed
    ultimately show ?thesis using refused by blast
  next
    case upd: (Inr m)
    then obtain d0 d1 where d: "(case devices_of (js_db s) c of None \<Rightarrow> ?u \<and> d0 = new_device c | Some x \<Rightarrow> d0 = x)"
      "intent_fn ?f d0 = Inr d1" "db_Put d1 (js_db s) = Inr m"
      unfolding db_update_cases c(2) by blast
    have d0: "d0 = ?d" "mode = SaveExisting \<Longrightarrow> devices_of (js_db s) c = Some ?d"
      using d(1) c(2) by (auto simp: seeded_def db_Get_devices split: option.splits)
    obtain out where o: "?f ?d = Inr (d1, out)"
      using d(2) d0(1) by (auto simp: intent_fn_def split: sum.splits)
    have m1: "dev_mac d1 = c" using cycle_fields(1) [OF o] mac by simp
    then have m: "devices_of m = (devices_of (js_db s))(c \<mapsto> d1)"
      using db_Put_devices [OF d(3)] c(2) by (metis device.surjective device.update_convs(1))
    have i: "db_inv m" using db_update_inv [OF assms(1) upd] .
    show ?thesis
      using stored [OF Inr d0(2) o] u r m i upd o
      by (cases "ae_io env") (auto simp: js_after_def js_save_def)
  qed
qed

lemma save_existing:
  assumes "db_inv (js_db s)" "CanonicalMAC mac = Inr c" "devices_of (js_db s) c = Some d"
  shows "intent_cycle env change project d = Inl e \<Longrightarrow>
      saveIntent env mac SaveExisting change project s = (s, Inl e)"
    and "intent_cycle env change project d = Inr (d', out) \<Longrightarrow> ae_io env \<Longrightarrow>
      \<exists>s'. saveIntent env mac SaveExisting change project s = (s', Inr out) \<and> db_inv (js_db s')
        \<and> devices_of (js_db s') = (devices_of (js_db s))(c \<mapsto> d')"
proof -
  let ?f = "intent_cycle env change project"
  have c: "canonicalMAC c = c" "c \<noteq> []"
    using CanonicalMAC_D [OF assms(2)] by (auto simp: mac_simps canonical_def)
  have sd: "seeded c s = d" using assms(3) c by (simp add: seeded_def db_Get_devices)
  have u: "db_update c (intent_fn ?f) False (js_db s) = (case intent_fn ?f d of
      Inl e \<Rightarrow> Inl (ErrFn e) | Inr d' \<Rightarrow> db_Put d' (js_db s))"
    using assms(3) c by (simp add: db_update_def db_Get_devices Let_def)
  {
    assume "?f d = Inl e"
    then show "saveIntent env mac SaveExisting change project s = (s, Inl e)"
      using assms(2) u by (simp add: saveIntent_def sd Let_def js_UpdateExisting_def db_UpdateExisting_def intent_fn_def js_after_def)
  next
    assume f: "?f d = Inr (d', out)" "ae_io env"
    have "dev_mac d = c"
      using assms(1,3) by (auto simp: db_inv_def devices_of_def jget_def dest!: map_of_SomeD)
    then have m: "dev_mac d' = c" using cycle_fields(1) [OF f(1)] by simp
    then have "\<exists>mm. db_Put d' (js_db s) = Inr mm" using c by (simp add: db_Put_def Let_def)
    then obtain mm where "db_Put d' (js_db s) = Inr mm" by blast
    then have "fst (saveIntent env mac SaveExisting change project s) = s\<lparr>js_db := mm, js_file := Some (snapshot (ae_now env) mm)\<rparr>"
      and r: "snd (saveIntent env mac SaveExisting change project s) = Inr out"
      using assms(2) u f by (simp_all add: saveIntent_def sd Let_def js_UpdateExisting_def db_UpdateExisting_def
          intent_fn_def js_after_def js_save_def)
    let ?s = "fst (saveIntent env mac SaveExisting change project s)"
    have run: "saveIntent env mac SaveExisting change project s = (?s, Inr out)" using r by (simp add: prod_eq_iff)
    from assms(1) run have "db_inv (js_db ?s) \<and> devices_of (js_db ?s) = (devices_of (js_db s))(c \<mapsto> d')"
      by (cases rule: save_cases) (use assms(2) f sd in simp_all)
    with run show "\<exists>s'. saveIntent env mac SaveExisting change project s = (s', Inr out) \<and> db_inv (js_db s')
        \<and> devices_of (js_db s') = (devices_of (js_db s))(c \<mapsto> d')" by blast
  }
qed

end

text \<open>Writing one admin-owned row is such a step.\<close>

lemma owned_row: "k' \<in> set adminOwnedKeys \<Longrightarrow> k \<notin> set adminOwnedKeys \<Longrightarrow>
    jget (ext (ext_set k' v d)) k = jget (ext d) k \<and> jget (ext (ext_del k' d)) k = jget (ext d) k"
  by (auto simp: row_simps)

lemma owned_keys: "list_all (\<lambda>k. k \<in> set adminOwnedKeys)
    [RadioIntentExtraKey, BlockedStaExtraKey, FlagRebootOnConnect, FlagSetdefaultArmed, CmdTaskKey, DeviceWLANsExtraKey]"
  by code_simp

section \<open>PATCH\<close>

record device_patch =
  pa_name :: "string option"
  pa_site_id :: "string option"
  pa_led_override :: "string option"
  pa_led_brightness :: "int option"
  pa_led_color :: "string option"
  pa_ssh_password :: "string option"
  pa_country_code :: "int option"
  pa_ssh_keys :: "string list option"

text \<open>A stage runs only when its field is supplied; \<open>fenced\<close> is the validator's message.\<close>

type_synonym stage = "bool \<times> device \<Rightarrow> app_error + bool \<times> device"

definition supplied :: "'a option \<Rightarrow> ('a \<Rightarrow> stage) \<Rightarrow> stage" where
  "supplied v st x = (case v of None \<Rightarrow> Inr x | Some a \<Rightarrow> st a x)"

definition fenced :: "string \<Rightarrow> app_error + unit" where
  "fenced msg = (if msg \<noteq> [] then Inl (AppConflict msg) else Inr ())"

definition patch_name :: "string \<Rightarrow> stage" where
  "patch_name v = (\<lambda>(eff, d). and_then (fenced (ValidateDeviceName v)) (\<lambda>_. Inr (eff, d\<lparr>dev_name := v\<rparr>)))"

definition patch_site :: "string \<Rightarrow> stage" where
  "patch_site v = (\<lambda>(eff, d). and_then (if v \<noteq> [] then fenced (ValidateSiteID v) else Inr ())
     (\<lambda>_. Inr (eff, d\<lparr>dev_site_id := v\<rparr>)))"

definition patch_led :: "string \<Rightarrow> stage" where
  "patch_led v = (\<lambda>(eff, d). and_then (fenced (ValidateLEDOverride v))
     (\<lambda>_. let nxt = (if v \<noteq> ''default'' then v else [])
       in Inr (eff \<or> nxt \<noteq> dev_led_override d, d\<lparr>dev_led_override := nxt\<rparr>)))"

text \<open>\<^verbatim>\<open>intPtrEq\<close> is equality of options.\<close>

definition intPtrEq :: "int option \<Rightarrow> int option \<Rightarrow> bool" where
  "intPtrEq a b = (case (a, b) of (Some x, Some y) \<Rightarrow> x = y | (None, None) \<Rightarrow> True | _ \<Rightarrow> False)"

definition patch_brightness :: "int \<Rightarrow> stage" where
  "patch_brightness v = (\<lambda>(eff, d). and_then (fenced (ValidateLEDOverrideColorBrightness v))
     (\<lambda>_. let nxt = (if v \<noteq> 100 then Some v else None)
       in Inr (eff \<or> \<not> intPtrEq nxt (dev_led_brightness d), d\<lparr>dev_led_brightness := nxt\<rparr>)))"

definition patch_color :: "string \<Rightarrow> stage" where
  "patch_color v = (\<lambda>(eff, d). Inr (eff \<or> v \<noteq> dev_led_color d, d\<lparr>dev_led_color := v\<rparr>))"

definition patch_password :: "string \<Rightarrow> stage" where
  "patch_password v = (\<lambda>(eff, d). Inr (eff \<or> v \<noteq> dev_ssh_password d, d\<lparr>dev_ssh_password := v\<rparr>))"

definition patch_country :: "int \<Rightarrow> stage" where
  "patch_country v = (\<lambda>(eff, d). and_then (fenced (ValidateRegulatoryCountryCode v))
     (\<lambda>_. Inr (eff \<or> v \<noteq> dev_country_code d, d\<lparr>dev_country_code := v\<rparr>)))"

definition patch_keys :: "string list \<Rightarrow> stage" where
  "patch_keys v = (\<lambda>(eff, d). case ValidateSSHPublicKeyLines v of
     Some (i, e) \<Rightarrow> Inl (AppConflictKey i e)
   | None \<Rightarrow> Inr (eff \<or> v \<noteq> dev_ssh_keys d, d\<lparr>dev_ssh_keys := v\<rparr>))"

definition patch_change :: "device_patch \<Rightarrow> unit change" where
  "patch_change p d =
    and_then (supplied (pa_name p) patch_name (False, d)) (\<lambda>x.
    and_then (supplied (pa_site_id p) patch_site x) (\<lambda>x.
    and_then (supplied (pa_led_override p) patch_led x) (\<lambda>x.
    and_then (supplied (pa_led_brightness p) patch_brightness x) (\<lambda>x.
    and_then (supplied (pa_led_color p) patch_color x) (\<lambda>x.
    and_then (supplied (pa_ssh_password p) patch_password x) (\<lambda>x.
    and_then (supplied (pa_country_code p) patch_country x) (\<lambda>x.
    and_then (supplied (pa_ssh_keys p) patch_keys x) (\<lambda>(effective, d).
    Inr (effective, d, ())))))))))"

definition scalars_of :: "device \<Rightarrow> device" where
  "scalars_of d = d\<lparr>dev_last_ups := None, dev_extra := None, dev_authkeys := []\<rparr>"

text \<open>The view of the record a save returned.\<close>

definition viewed :: "admin_env \<Rightarrow> json_store \<times> (app_error + device) \<Rightarrow> json_store \<times> (app_error + device_view)" where
  "viewed env r = (fst r, case snd r of Inl e \<Rightarrow> Inl e | Inr rec \<Rightarrow> Inr (view (ae_json env) rec))"

definition PatchDevice :: "admin_env \<Rightarrow> string \<Rightarrow> device_patch \<Rightarrow> json_store \<Rightarrow> json_store \<times> (app_error + device_view)" where
  "PatchDevice env mac p s = viewed env (saveIntent env mac SaveExisting (patch_change p) (\<lambda>_. scalars_of) s)"

section \<open>Devices\<close>

definition ListDevices :: "admin_env \<Rightarrow> json_store \<Rightarrow> device_view list" where
  "ListDevices env s = map (view (ae_json env)) (db_List (js_db s))"

text \<open>The shared read: a spelling that is no MAC and an absent record are not found.\<close>

definition getRecord :: "string \<Rightarrow> json_store \<Rightarrow> app_error + device" where
  "getRecord mac s = (case CanonicalMAC mac of
     Inl e \<Rightarrow> Inl (AppNotFoundMac mac e)
   | Inr canon \<Rightarrow> (case db_Get canon (js_db s) of
       Inl ErrNotFound \<Rightarrow> Inl (unknownDevice canon)
     | Inl e \<Rightarrow> Inl (AppStore e)
     | Inr d \<Rightarrow> Inr d))"

definition GetDevice :: "admin_env \<Rightarrow> string \<Rightarrow> json_store \<Rightarrow> app_error + device_view" where
  "GetDevice env mac s = and_then (getRecord mac s) (\<lambda>d. Inr (view (ae_json env) d))"

record device_upsert =
  up_mac :: string
  up_name :: string
  up_site_id :: string

definition create_change :: "int \<Rightarrow> device_upsert \<Rightarrow> unit change" where
  "create_change now up d =
    (let d = (if dev_state d = 0 then d\<lparr>dev_state := StatePending, dev_first_seen := now\<rparr> else d)
     in and_then (if up_name up \<noteq> [] then fenced (ValidateDeviceName (up_name up)) else Inr ()) (\<lambda>_.
        let d = (if up_name up \<noteq> [] then d\<lparr>dev_name := up_name up\<rparr> else d)
        in and_then (if up_site_id up \<noteq> [] then fenced (ValidateSiteID (up_site_id up)) else Inr ()) (\<lambda>_.
           let d = (if up_site_id up \<noteq> [] then d\<lparr>dev_site_id := up_site_id up\<rparr> else d)
           in Inr (False, d, ()))))"

definition create_echo :: "device \<Rightarrow> device" where
  "create_echo d = (new_device (dev_mac d))\<lparr>dev_name := dev_name d, dev_model := dev_model d,
     dev_firmware := dev_firmware d, dev_ip := dev_ip d, dev_state := dev_state d,
     dev_last_seen := dev_last_seen d, dev_cfg_version := dev_cfg_version d, dev_applied_cfg := dev_applied_cfg d\<rparr>"

definition CreateDevice :: "admin_env \<Rightarrow> device_upsert \<Rightarrow> json_store \<Rightarrow> json_store \<times> (app_error + device_view)" where
  "CreateDevice env up s = viewed env
     (saveIntent env (up_mac up) SavePending (create_change (ae_now env) up) (\<lambda>_. create_echo) s)"

text \<open>The metric series of the deleted device go in \<open>Metrics\<close>.\<close>

definition DeleteDevice :: "admin_env \<Rightarrow> string \<Rightarrow> json_store \<Rightarrow> json_store \<times> (app_error + unit)" where
  "DeleteDevice env mac s = (case CanonicalMAC mac of
     Inl e \<Rightarrow> (s, Inl (AppNotFoundMac mac e))
   | Inr canon \<Rightarrow> (case js_Delete (ae_now env) (ae_io env) canon s of
       (s', None) \<Rightarrow> (s', Inr ())
     | (s', Some ErrNotFound) \<Rightarrow> (s', Inl (unknownDevice canon))
     | (s', Some e) \<Rightarrow> (s', Inl (AppStore e))))"

section \<open>Blocked clients\<close>

definition ListBlockedClients :: "string \<Rightarrow> json_store \<Rightarrow> app_error + string \<times> string list" where
  "ListBlockedClients mac s = and_then (getRecord mac s) (\<lambda>d.
     Inr (blockedClientsView (opt_or [] (case CanonicalMAC mac of Inl _ \<Rightarrow> None | Inr c \<Rightarrow> Some c)) (BlockedClients d)))"

definition block_change :: "string \<Rightarrow> unit change" where
  "block_change c d = (case AddBlockedClient c d of
     Inl e \<Rightarrow> Inl (AppPlain ''invalid client mac'') | Inr (d', _) \<Rightarrow> Inr (False, d', ()))"

definition unblock_change :: "string \<Rightarrow> unit change" where
  "unblock_change c d = (case RemoveBlockedClient c d of
     Inl e \<Rightarrow> Inl (AppPlain ''invalid client mac'')
   | Inr (d', removed) \<Rightarrow> if \<not> removed then Inl (AppNotFound (''client not blocked: '' @ ColonMAC c))
       else Inr (False, d', ()))"

definition blocked_save :: "(string \<Rightarrow> unit change) \<Rightarrow> admin_env \<Rightarrow> string \<Rightarrow> string \<Rightarrow> json_store
    \<Rightarrow> json_store \<times> (app_error + string \<times> string list)" where
  "blocked_save chg env mac client s = (case blockedPair mac client of
     Inl e \<Rightarrow> (s, Inl e)
   | Inr (canon, c) \<Rightarrow> saveIntent env canon SaveExisting (chg c)
       (\<lambda>_ d. blockedClientsView canon (BlockedClients d)) s)"

definition BlockClient :: "admin_env \<Rightarrow> string \<Rightarrow> string \<Rightarrow> json_store \<Rightarrow> json_store \<times> (app_error + string \<times> string list)" where
  "BlockClient = blocked_save block_change"

definition UnblockClient :: "admin_env \<Rightarrow> string \<Rightarrow> string \<Rightarrow> json_store \<Rightarrow> json_store \<times> (app_error + string \<times> string list)" where
  "UnblockClient = blocked_save unblock_change"

section \<open>Radio intents\<close>

definition ListDeviceRadios :: "string \<Rightarrow> json_store \<Rightarrow> app_error + radio_view list" where
  "ListDeviceRadios mac s = and_then (getRecord mac s) (\<lambda>d.
     let intent = RadioIntents d
     in Inr (map (\<lambda>r. radioView r (opt_or zero_intent (jget intent (rr_name r)))) (StoredRadios d)))"

definition intent_change :: "string \<Rightarrow> intent_upsert \<Rightarrow> radio_row change" where
  "intent_change radio up d =
    and_then (radioRowOf d radio) (\<lambda>r.
    and_then (case iu_channel up of None \<Rightarrow> Inr () | Some ch \<Rightarrow> validateChannelIntent r ch) (\<lambda>_.
    and_then (case iu_txpower up of None \<Rightarrow> Inr () | Some tx \<Rightarrow> validateTxpowerIntent r tx) (\<lambda>_.
    let before = RadioIntents d; d' = setRadioIntentExtra radio up d
    in Inr (intentChanged before (RadioIntents d'), d', r))))"

definition putRadioIntent :: "admin_env \<Rightarrow> string \<Rightarrow> string \<Rightarrow> intent_upsert \<Rightarrow> json_store
    \<Rightarrow> json_store \<times> (app_error + radio_view)" where
  "putRadioIntent env mac radio up s = saveIntent env mac SaveExisting (intent_change radio up)
     (\<lambda>row d. radioView row (opt_or zero_intent (jget (RadioIntents d) (rr_name row)))) s"

definition PutDeviceRadioIntent :: "admin_env \<Rightarrow> string \<Rightarrow> string \<Rightarrow> intent_upsert \<Rightarrow> json_store
    \<Rightarrow> json_store \<times> (app_error + radio_view)" where
  "PutDeviceRadioIntent = putRadioIntent"

definition DeleteDeviceRadioIntent :: "admin_env \<Rightarrow> string \<Rightarrow> string \<Rightarrow> json_store
    \<Rightarrow> json_store \<times> (app_error + radio_view)" where
  "DeleteDeviceRadioIntent env mac radio s = putRadioIntent env mac radio no_intent s"

section \<open>Remote commands\<close>

definition arm_change :: "string \<Rightarrow> unit change" where
  "arm_change flag d = Inr (False, ext_set flag (GBool True) d, ())"

definition armLifecycle :: "string \<Rightarrow> admin_env \<Rightarrow> string \<Rightarrow> json_store \<Rightarrow> json_store \<times> (app_error + device_view)" where
  "armLifecycle flag env mac s = viewed env (saveIntent env mac SaveExisting (arm_change flag) (\<lambda>_ d. d) s)"

definition RebootDevice :: "admin_env \<Rightarrow> string \<Rightarrow> json_store \<Rightarrow> json_store \<times> (app_error + device_view)" where
  "RebootDevice = armLifecycle FlagRebootOnConnect"

definition FactoryResetDevice :: "admin_env \<Rightarrow> string \<Rightarrow> json_store \<Rightarrow> json_store \<times> (app_error + device_view)" where
  "FactoryResetDevice = armLifecycle FlagSetdefaultArmed"

definition cmd_change :: "string \<Rightarrow> unit change" where
  "cmd_change cmd d = and_then (fenced (ValidateCmdString cmd)) (\<lambda>_. Inr (False, ArmCmdTask cmd d, ()))"

definition EnqueueDeviceCmd :: "admin_env \<Rightarrow> string \<Rightarrow> string \<Rightarrow> json_store \<Rightarrow> json_store \<times> (app_error + device_view)" where
  "EnqueueDeviceCmd env mac cmd s = viewed env (saveIntent env mac SaveExisting (cmd_change cmd) (\<lambda>_ d. d) s)"

section \<open>The verbs keep the contract\<close>

lemma fenced_Inr [simp]: "fenced msg = Inr u \<longleftrightarrow> msg = []"
  by (simp add: fenced_def)

lemma intPtrEq_eq [simp]: "intPtrEq a b \<longleftrightarrow> a = b"
  by (cases a; cases b) (simp_all add: intPtrEq_def)

lemma supplied_None [simp]: "supplied None st x = Inr x"
  by (simp add: supplied_def)

lemma supplied_Some [simp]: "supplied (Some a) st x = st a x"
  by (simp add: supplied_def)

text \<open>
  What a supplied field becomes, and what one stage does to the record and the flag.
\<close>

definition normal_led :: "string \<Rightarrow> string" where "normal_led v = (if v = ''default'' then [] else v)"
definition normal_brightness :: "int \<Rightarrow> int option" where "normal_brightness v = (if v = 100 then None else Some v)"

definition taken :: "('a \<Rightarrow> 'b) \<Rightarrow> 'a option \<Rightarrow> 'b \<Rightarrow> 'b" where
  "taken f v old = (case v of None \<Rightarrow> old | Some a \<Rightarrow> f a)"

lemma stage_results:
  "supplied v1 patch_name (eff, d) = Inr x \<Longrightarrow> x = (eff, d\<lparr>dev_name := taken id v1 (dev_name d)\<rparr>)"
  "supplied v1 patch_site (eff, d) = Inr x \<Longrightarrow> x = (eff, d\<lparr>dev_site_id := taken id v1 (dev_site_id d)\<rparr>)"
  "supplied v1 patch_led (eff, d) = Inr x \<Longrightarrow>
     x = (eff \<or> taken normal_led v1 (dev_led_override d) \<noteq> dev_led_override d,
          d\<lparr>dev_led_override := taken normal_led v1 (dev_led_override d)\<rparr>)"
  "supplied v2 patch_brightness (eff, d) = Inr x \<Longrightarrow>
     x = (eff \<or> taken normal_brightness v2 (dev_led_brightness d) \<noteq> dev_led_brightness d,
          d\<lparr>dev_led_brightness := taken normal_brightness v2 (dev_led_brightness d)\<rparr>)"
  "supplied v1 patch_color (eff, d) = Inr x \<Longrightarrow>
     x = (eff \<or> taken id v1 (dev_led_color d) \<noteq> dev_led_color d, d\<lparr>dev_led_color := taken id v1 (dev_led_color d)\<rparr>)"
  "supplied v1 patch_password (eff, d) = Inr x \<Longrightarrow>
     x = (eff \<or> taken id v1 (dev_ssh_password d) \<noteq> dev_ssh_password d,
          d\<lparr>dev_ssh_password := taken id v1 (dev_ssh_password d)\<rparr>)"
  "supplied v2 patch_country (eff, d) = Inr x \<Longrightarrow>
     x = (eff \<or> taken id v2 (dev_country_code d) \<noteq> dev_country_code d,
          d\<lparr>dev_country_code := taken id v2 (dev_country_code d)\<rparr>)"
  "supplied v3 patch_keys (eff, d) = Inr x \<Longrightarrow>
     x = (eff \<or> taken id v3 (dev_ssh_keys d) \<noteq> dev_ssh_keys d, d\<lparr>dev_ssh_keys := taken id v3 (dev_ssh_keys d)\<rparr>)"
  by (cases v1; cases v2; cases v3;
      auto simp: taken_def patch_name_def patch_site_def patch_led_def patch_brightness_def patch_color_def
        patch_password_def patch_country_def patch_keys_def normal_led_def normal_brightness_def Let_def
        and_then_Inr split: option.splits prod.splits)+

text \<open>The fields a provisioning carries.\<close>

definition provisioned_fields :: "device \<Rightarrow> string \<times> int option \<times> string \<times> string \<times> int \<times> string list" where
  "provisioned_fields d = (dev_led_override d, dev_led_brightness d, dev_led_color d, dev_ssh_password d,
     dev_country_code d, dev_ssh_keys d)"

definition patched :: "device_patch \<Rightarrow> device \<Rightarrow> device" where
  "patched p d = d\<lparr>dev_name := taken id (pa_name p) (dev_name d),
     dev_site_id := taken id (pa_site_id p) (dev_site_id d),
     dev_led_override := taken normal_led (pa_led_override p) (dev_led_override d),
     dev_led_brightness := taken normal_brightness (pa_led_brightness p) (dev_led_brightness d),
     dev_led_color := taken id (pa_led_color p) (dev_led_color d),
     dev_ssh_password := taken id (pa_ssh_password p) (dev_ssh_password d),
     dev_country_code := taken id (pa_country_code p) (dev_country_code d),
     dev_ssh_keys := taken id (pa_ssh_keys p) (dev_ssh_keys d)\<rparr>"

lemma patch_result:
  assumes "patch_change p d = Inr (eff, d', u)"
  shows "d' = patched p d" "eff \<longleftrightarrow> provisioned_fields d' \<noteq> provisioned_fields d"
proof -
  obtain x1 x2 x3 x4 x5 x6 x7 where x: "supplied (pa_name p) patch_name (False, d) = Inr x1"
    "supplied (pa_site_id p) patch_site x1 = Inr x2" "supplied (pa_led_override p) patch_led x2 = Inr x3"
    "supplied (pa_led_brightness p) patch_brightness x3 = Inr x4" "supplied (pa_led_color p) patch_color x4 = Inr x5"
    "supplied (pa_ssh_password p) patch_password x5 = Inr x6" "supplied (pa_country_code p) patch_country x6 = Inr x7"
    "supplied (pa_ssh_keys p) patch_keys x7 = Inr (eff, d')"
    using assms by (auto simp: patch_change_def and_then_Inr)
  note y1 = stage_results(1) [OF x(1)]
  note y2 = stage_results(2) [OF x(2) [unfolded y1]]
  note y3 = stage_results(3) [OF x(3) [unfolded y2]]
  note y4 = stage_results(4) [OF x(4) [unfolded y3]]
  note y5 = stage_results(5) [OF x(5) [unfolded y4]]
  note y6 = stage_results(6) [OF x(6) [unfolded y5]]
  note y7 = stage_results(7) [OF x(7) [unfolded y6]]
  note y8 = stage_results(8) [OF x(8) [unfolded y7]]
  show "d' = patched p d" using y8 by (simp add: patched_def)
  show "eff \<longleftrightarrow> provisioned_fields d' \<noteq> provisioned_fields d" using y8 by (auto simp: provisioned_fields_def)
qed

lemma patched_keeps: "fixed_fields (patched p d) = fixed_fields d" "ext (patched p d) = ext d"
  by (simp_all add: patched_def fixed_fields_def ext_def)

interpretation patch_verb: admin_verb "patch_change p" for p
  by unfold_locales (use patch_result(1) patched_keeps in metis)+

lemma create_result:
  "create_change now up d = Inr (eff, d', u) \<Longrightarrow> \<not> eff \<and> fixed_fields d' = fixed_fields d \<and> ext d' = ext d"
  by (auto simp: create_change_def Let_def and_then_Inr fixed_fields_def ext_def split: if_splits)

interpretation create_verb: admin_verb "create_change now up" for now up
  by unfold_locales (auto dest: create_result)

lemma write_blocked_keeps: "fixed_fields (writeBlockedClients cs d) = fixed_fields d"
  by (simp add: writeBlockedClients_def Let_def)

lemma block_result:
  assumes "block_change c d = Inr (eff, d', u)"
  shows "\<not> eff \<and> fixed_fields d' = fixed_fields d \<and> (\<forall>k. k \<noteq> BlockedStaExtraKey \<longrightarrow> jget (ext d') k = jget (ext d) k)"
  using assms by (auto simp: block_change_def AddBlockedClient_def Let_def write_blocked_keeps write_other_row
      split: sum.splits if_splits)

lemma unblock_result:
  assumes "unblock_change c d = Inr (eff, d', u)"
  shows "\<not> eff \<and> fixed_fields d' = fixed_fields d \<and> (\<forall>k. k \<noteq> BlockedStaExtraKey \<longrightarrow> jget (ext d') k = jget (ext d) k)"
  using assms by (auto simp: unblock_change_def RemoveBlockedClient_def Let_def write_blocked_keeps write_other_row
      split: sum.splits if_splits)

interpretation block_verb: admin_verb "block_change c" for c
  by unfold_locales (use block_result owned_keys in \<open>auto, metis\<close>)

interpretation unblock_verb: admin_verb "unblock_change c" for c
  by unfold_locales (use unblock_result owned_keys in \<open>auto, metis\<close>)

lemma intent_result:
  assumes "intent_change radio up d = Inr (eff, d', r)"
  shows "d' = setRadioIntentExtra radio up d" "radioRowOf d radio = Inr r"
    "eff = intentChanged (RadioIntents d) (RadioIntents d')"
    "\<And>ch. iu_channel up = Some ch \<Longrightarrow> validateChannelIntent r ch = Inr ()"
    "\<And>tx. iu_txpower up = Some tx \<Longrightarrow> validateTxpowerIntent r tx = Inr ()"
  using assms by (auto simp: intent_change_def and_then_Inr Let_def)

lemma set_intent_keeps: "fixed_fields (setRadioIntentExtra radio up d) = fixed_fields d"
  by (simp add: setRadioIntentExtra_def Let_def)

interpretation intent_verb: admin_verb "intent_change radio up" for radio up
proof
  fix d eff d' c k
  assume a: "intent_change radio up d = Inr (eff, d', c)"
  show "fixed_fields d' = fixed_fields d" using intent_result(1) [OF a] by (simp add: set_intent_keeps)
  assume "k \<notin> set adminOwnedKeys"
  then have "k \<noteq> RadioIntentExtraKey" using owned_keys by auto
  then show "jget (ext d') k = jget (ext d) k" using intent_result(1) [OF a] by (simp add: set_intent_other)
qed

interpretation reboot_verb: admin_verb "arm_change FlagRebootOnConnect"
  by unfold_locales (use owned_row owned_keys in \<open>auto simp: arm_change_def row_simps\<close>)

interpretation reset_verb: admin_verb "arm_change FlagSetdefaultArmed"
  by unfold_locales (use owned_row owned_keys in \<open>auto simp: arm_change_def row_simps\<close>)

interpretation cmd_verb: admin_verb "cmd_change cmd" for cmd
  by unfold_locales (use owned_row owned_keys in \<open>auto simp: cmd_change_def ArmCmdTask_def and_then_Inr row_simps\<close>)

end
