(* ===== verification/App_Wlans.thy ===== *)
theory App_Wlans
  imports App_Ops
begin

text \<open>
  The per-device WLAN document of \<^verbatim>\<open>internal/app/device_wlans.go\<close>: the verbs that read, replace and edit
  it, each through the save skeleton, and what they do to the document.
\<close>

section \<open>The document\<close>

definition adminWlansFromDevice :: "json_text \<Rightarrow> device \<Rightarrow> wlan list" where
  "adminWlansFromDevice jt d = opt_or [] (DeviceWLANs jt d)"

text \<open>
  The loop over the envelope with its three maps; \<open>ids\<close> is a map to booleans because the code stores
  \<^verbatim>\<open>w.ID != ""\<close> in it.
\<close>

fun validate_wlans_from :: "nat \<Rightarrow> string list \<Rightarrow> string list \<Rightarrow> (string \<times> bool) list \<Rightarrow> wlan list \<Rightarrow> app_error + unit" where
  "validate_wlans_from i names ssids ids [] = Inr ()"
| "validate_wlans_from i names ssids ids (w # ws) =
    (let pos = ''wlan['' @ itoa (int i) @ '']: ''
     in if ValidateWlanName (w_name w) \<noteq> [] then Inl (AppConflict (pos @ ValidateWlanName (w_name w)))
        else if ValidateWlan w \<noteq> [] then Inl (AppConflict (pos @ ValidateWlan w))
        else if w_name w \<in> set names \<or> w_ssid w \<in> set ssids \<or> w_id w \<noteq> [] \<and> opt_or False (jget ids (w_id w))
        then Inl (AppConflict ''duplicate wlan'')
        else validate_wlans_from (i + 1) (w_name w # names) (w_ssid w # ssids) (jset (w_id w) (w_id w \<noteq> []) ids) ws)"

definition validateDeviceWlans :: "wlan list \<Rightarrow> app_error + unit" where
  "validateDeviceWlans ws = validate_wlans_from 0 [] [] [] ws"

definition give_id :: "json_text \<Rightarrow> wlan \<Rightarrow> wlan" where
  "give_id jt w = (if w_id w = [] then w\<lparr>w_id := NewWlanID jt w\<rparr> else w)"

definition normalizeDeviceWlanEnvelope :: "json_text \<Rightarrow> wlan list option \<Rightarrow> wlan list" where
  "normalizeDeviceWlanEnvelope jt ws = map (give_id jt) (opt_or [] ws)"

definition persistDeviceWLANs :: "json_text \<Rightarrow> wlan list option \<Rightarrow> device \<Rightarrow> app_error + device" where
  "persistDeviceWLANs jt ws d = (let ws = normalizeDeviceWlanEnvelope jt ws
     in and_then (validateDeviceWlans ws) (\<lambda>_. Inr (SetDeviceWLANs jt (Some ws) d)))"

section \<open>The verbs\<close>

definition GetDeviceWireless :: "admin_env \<Rightarrow> string \<Rightarrow> json_store \<Rightarrow> app_error + wlan list" where
  "GetDeviceWireless env mac s = (case CanonicalMAC mac of
     Inl _ \<Rightarrow> Inl (unknownDevice mac)
   | Inr canon \<Rightarrow> (case db_Get canon (js_db s) of
       Inl ErrNotFound \<Rightarrow> Inl (unknownDevice canon)
     | Inl e \<Rightarrow> Inl (AppStore e)
     | Inr d \<Rightarrow> Inr (adminWlansFromDevice (ae_json env) d)))"

definition persist_change :: "json_text \<Rightarrow> wlan list option \<Rightarrow> 'c \<Rightarrow> 'c change" where
  "persist_change jt ws c d = and_then (persistDeviceWLANs jt ws d) (\<lambda>d. Inr (False, d, c))"

text \<open>
  The envelope is passed by value, but its slice shares the caller's array: on success the caller's
  WLANs have their identifiers filled in, which is what the result gives back (nil stays nil).
\<close>

definition PutDeviceWireless :: "admin_env \<Rightarrow> string \<Rightarrow> wlan list option \<Rightarrow> json_store
    \<Rightarrow> json_store \<times> (app_error + wlan list option)" where
  "PutDeviceWireless env mac ws s = saveIntent env mac SaveExisting (persist_change (ae_json env) ws ())
     (\<lambda>_ _. map_option (map (give_id (ae_json env))) ws) s"

definition create_wlan_change :: "json_text \<Rightarrow> wlan \<Rightarrow> unit change" where
  "create_wlan_change jt w d = persist_change jt (Some (adminWlansFromDevice jt d @ [w])) () d"

definition find_wlan :: "string \<Rightarrow> wlan list \<Rightarrow> wlan option" where
  "find_wlan name ws = find (\<lambda>w. w_name w = name) ws"

definition CreateDeviceWlan :: "admin_env \<Rightarrow> string \<Rightarrow> wlan \<Rightarrow> json_store \<Rightarrow> json_store \<times> (app_error + wlan)" where
  "CreateDeviceWlan env mac w s =
    (if ValidateWlanName (w_name w) \<noteq> [] then (s, Inl (AppConflict (ValidateWlanName (w_name w))))
     else let w = w\<lparr>w_id := NewWlanID (ae_json env) w\<rparr>
       in saveIntent env mac SaveExisting (create_wlan_change (ae_json env) w)
            (\<lambda>_ d. opt_or w (find_wlan (w_name w) (adminWlansFromDevice (ae_json env) d))) s)"

definition GetDeviceWlan :: "admin_env \<Rightarrow> string \<Rightarrow> string \<Rightarrow> json_store \<Rightarrow> app_error + wlan" where
  "GetDeviceWlan env mac name s = and_then (GetDeviceWireless env mac s) (\<lambda>ws.
     case find_wlan name ws of Some w \<Rightarrow> Inr w | None \<Rightarrow> Inl (AppNotFound (''wlan '' @ name)))"

text \<open>The loop of an update: the first WLAN of that name is replaced and hands its identifier on.\<close>

fun replace_wlan :: "string \<Rightarrow> wlan \<Rightarrow> wlan list \<Rightarrow> (wlan \<times> wlan list) option" where
  "replace_wlan name w [] = None"
| "replace_wlan name w (x # xs) =
    (if w_name x = name then (let w = w\<lparr>w_id := w_id x\<rparr> in Some (w, w # xs))
     else map_option (\<lambda>(w, ys). (w, x # ys)) (replace_wlan name w xs))"

definition update_wlan_change :: "json_text \<Rightarrow> string \<Rightarrow> wlan \<Rightarrow> wlan change" where
  "update_wlan_change jt name w d = (case replace_wlan name w (adminWlansFromDevice jt d) of
     None \<Rightarrow> Inl (AppNotFound (''wlan '' @ name))
   | Some (w, ws) \<Rightarrow> persist_change jt (Some ws) w d)"

definition UpdateDeviceWlan :: "admin_env \<Rightarrow> string \<Rightarrow> string \<Rightarrow> wlan \<Rightarrow> json_store \<Rightarrow> json_store \<times> (app_error + wlan)" where
  "UpdateDeviceWlan env mac name w s =
    (if ValidateWlanName name \<noteq> [] then (s, Inl (AppConflict (ValidateWlanName name)))
     else if w_name w \<noteq> [] \<and> w_name w \<noteq> name then (s, Inl (AppConflict ''name must match path''))
     else saveIntent env mac SaveExisting (update_wlan_change (ae_json env) name (w\<lparr>w_name := name\<rparr>)) (\<lambda>w _. w) s)"

definition delete_wlan_change :: "json_text \<Rightarrow> string \<Rightarrow> unit change" where
  "delete_wlan_change jt name d = (let ws = adminWlansFromDevice jt d
     in if \<not> list_ex (\<lambda>w. w_name w = name) ws then Inl (AppNotFound (''wlan '' @ name))
        else persist_change jt (Some (filter (\<lambda>w. w_name w \<noteq> name) ws)) () d)"

definition DeleteDeviceWlan :: "admin_env \<Rightarrow> string \<Rightarrow> string \<Rightarrow> json_store \<Rightarrow> json_store \<times> (app_error + unit)" where
  "DeleteDeviceWlan env mac name s = saveIntent env mac SaveExisting (delete_wlan_change (ae_json env) name) (\<lambda>_ _. ()) s"

section \<open>The contract of the verbs\<close>

lemma SetDeviceWLANs_keeps:
  "fixed_fields (SetDeviceWLANs jt ws d) = fixed_fields d"
  "k \<noteq> DeviceWLANsExtraKey \<Longrightarrow> jget (ext (SetDeviceWLANs jt ws d)) k = jget (ext d) k"
  by (simp_all add: SetDeviceWLANs_def Let_def row_simps)

lemma persist_change_Inr:
  assumes "persist_change jt ws c d = Inr (eff, d', c')"
  shows "\<not> eff" "c' = c" "validateDeviceWlans (normalizeDeviceWlanEnvelope jt ws) = Inr ()"
    "d' = SetDeviceWLANs jt (Some (normalizeDeviceWlanEnvelope jt ws)) d"
  using assms by (auto simp: persist_change_def persistDeviceWLANs_def Let_def and_then_Inr)

lemma wlan_changes:
  "create_wlan_change jt w d = Inr (eff, d', u) \<Longrightarrow> \<exists>ws. persist_change jt ws u d = Inr (eff, d', u)"
  "update_wlan_change jt name w d = Inr (eff, d', w') \<Longrightarrow> \<exists>ws. persist_change jt ws w' d = Inr (eff, d', w')"
  "delete_wlan_change jt name d = Inr (eff, d', u) \<Longrightarrow> \<exists>ws. persist_change jt ws u d = Inr (eff, d', u)"
  by (auto simp: create_wlan_change_def update_wlan_change_def delete_wlan_change_def Let_def
      dest: persist_change_Inr(2) split: option.splits if_splits)

lemma persist_contract:
  assumes "\<exists>ws. persist_change jt ws c d = Inr (eff, d', c')"
  shows "fixed_fields d' = fixed_fields d" "k \<notin> set adminOwnedKeys \<Longrightarrow> jget (ext d') k = jget (ext d) k"
proof -
  obtain ws where p: "d' = SetDeviceWLANs jt (Some (normalizeDeviceWlanEnvelope jt ws)) d"
    using assms by (metis persist_change_Inr(4))
  then show "fixed_fields d' = fixed_fields d" by (simp add: SetDeviceWLANs_keeps)
  assume "k \<notin> set adminOwnedKeys"
  then have "k \<noteq> DeviceWLANsExtraKey" using owned_keys by auto
  then show "jget (ext d') k = jget (ext d) k" using p by (simp add: SetDeviceWLANs_keeps)
qed

interpretation put_wlans_verb: admin_verb "persist_change jt ws c" for jt ws c
  by unfold_locales (rule persist_contract, rule exI, assumption+)+

interpretation create_wlan_verb: admin_verb "create_wlan_change jt w" for jt w
  by unfold_locales (rule persist_contract, erule wlan_changes, assumption?)+

interpretation update_wlan_verb: admin_verb "update_wlan_change jt name w" for jt name w
  by unfold_locales (rule persist_contract, erule wlan_changes, assumption?)+

interpretation delete_wlan_verb: admin_verb "delete_wlan_change jt name" for jt name
  by unfold_locales (rule persist_contract, erule wlan_changes, assumption?)+

section \<open>Which documents are accepted\<close>

definition document_fine :: "wlan list \<Rightarrow> bool" where
  "document_fine ws \<longleftrightarrow> list_all (\<lambda>w. w_name w \<noteq> [] \<and> wlan_fine w) ws
     \<and> distinct (map w_name ws) \<and> distinct (map w_ssid ws) \<and> distinct (filter (\<lambda>i. i \<noteq> []) (map w_id ws))"

lemma name_accepted: "ValidateWlanName n = [] \<longleftrightarrow> n \<noteq> [] \<and> length n \<le> 64 \<and> clean n"
  by (auto simp: ValidateWlanName_def hasControlChar_clean not_less)

lemma wlan_accepted: "ValidateWlanName (w_name w) = [] \<and> ValidateWlan w = [] \<longleftrightarrow> w_name w \<noteq> [] \<and> wlan_fine w"
  by (auto simp: name_accepted ValidateWlan_def validateWlan_fine wlan_fine_def)

lemma validate_from:
  "validate_wlans_from i names ssids ids ws = Inr () \<longleftrightarrow>
     list_all (\<lambda>w. w_name w \<noteq> [] \<and> wlan_fine w) ws
     \<and> distinct (map w_name ws) \<and> set (map w_name ws) \<inter> set names = {}
     \<and> distinct (map w_ssid ws) \<and> set (map w_ssid ws) \<inter> set ssids = {}
     \<and> distinct (filter (\<lambda>i. i \<noteq> []) (map w_id ws))
     \<and> (\<forall>w \<in> set ws. w_id w \<noteq> [] \<longrightarrow> \<not> opt_or False (jget ids (w_id w)))"
proof (induction i names ssids ids ws rule: validate_wlans_from.induct)
  case (2 i names ssids ids w ws)
  show ?case
  proof (cases "ValidateWlanName (w_name w) = [] \<and> ValidateWlan w = []")
    case False
    then show ?thesis using wlan_accepted [of w] by (auto simp: Let_def)
  next
    case fine: True
    show ?thesis
    proof (cases "w_name w \<in> set names \<or> w_ssid w \<in> set ssids \<or> w_id w \<noteq> [] \<and> opt_or False (jget ids (w_id w))")
      case True
      with fine show ?thesis by (auto simp: Let_def)
    next
      case False
      have ih: "validate_wlans_from i names ssids ids (w # ws) = Inr () \<longleftrightarrow>
          validate_wlans_from (i + 1) (w_name w # names) (w_ssid w # ssids) (jset (w_id w) (w_id w \<noteq> []) ids) ws = Inr ()"
        using fine False by (auto simp: Let_def)
      have r: "opt_or False (jget (jset (w_id w) (w_id w \<noteq> []) ids) k) \<longleftrightarrow>
          (if k = w_id w then k \<noteq> [] else opt_or False (jget ids k))" for k
        by (simp add: row_simps)
      have c: "\<not> ValidateWlanName (w_name w) \<noteq> []" "\<not> ValidateWlan w \<noteq> []" using fine by simp_all
      show ?thesis
        unfolding ih 2 [OF refl c False] r
        using fine wlan_accepted [of w] False by (auto simp: image_iff)
    qed
  qed
qed simp

lemma validate_exact: "validateDeviceWlans ws = Inr () \<longleftrightarrow> document_fine ws"
  by (simp add: validateDeviceWlans_def validate_from document_fine_def)

section \<open>The document as a list\<close>

text \<open>
  The specification: what each verb makes of the document, before identifiers are given; \<open>None\<close> is a
  verb that is refused whatever the outcome would be.
\<close>

datatype wlan_op = WlanPut "wlan list option" | WlanCreate wlan | WlanUpdate string wlan | WlanDelete string

fun wlan_spec :: "json_text \<Rightarrow> wlan_op \<Rightarrow> wlan list \<Rightarrow> wlan list option" where
  "wlan_spec jt (WlanPut ws) doc = Some (opt_or [] ws)"
| "wlan_spec jt (WlanCreate w) doc = (if w_name w \<noteq> [] \<and> length (w_name w) \<le> 64 \<and> clean (w_name w)
     then Some (doc @ [w\<lparr>w_id := NewWlanID jt w\<rparr>]) else None)"
| "wlan_spec jt (WlanUpdate name w) doc =
    (if name \<in> w_name ` set doc \<and> (w_name w = [] \<or> w_name w = name)
     then Some (map (\<lambda>x. if w_name x = name then w\<lparr>w_name := name, w_id := w_id x\<rparr> else x) doc) else None)"
| "wlan_spec jt (WlanDelete name) doc =
    (if name \<in> w_name ` set doc then Some (filter (\<lambda>x. w_name x \<noteq> name) doc) else None)"

definition failed :: "json_store \<times> (app_error + 'o) \<Rightarrow> json_store \<times> app_error option" where
  "failed r = (fst r, case snd r of Inl e \<Rightarrow> Some e | Inr _ \<Rightarrow> None)"

fun wlan_exec :: "admin_env \<Rightarrow> string \<Rightarrow> wlan_op \<Rightarrow> json_store \<Rightarrow> json_store \<times> app_error option" where
  "wlan_exec env mac (WlanPut ws) s = failed (PutDeviceWireless env mac ws s)"
| "wlan_exec env mac (WlanCreate w) s = failed (CreateDeviceWlan env mac w s)"
| "wlan_exec env mac (WlanUpdate name w) s = failed (UpdateDeviceWlan env mac name w s)"
| "wlan_exec env mac (WlanDelete name) s = failed (DeleteDeviceWlan env mac name s)"

lemma failed_simps [simp]: "failed (s, Inl e) = (s, Some e)" "failed (s, Inr x) = (s, None)"
  by (simp_all add: failed_def)

lemma replace_wlan_eq:
  assumes "distinct (map w_name ws)"
  shows "map_option snd (replace_wlan name w ws) = (if name \<in> w_name ` set ws
     then Some (map (\<lambda>x. if w_name x = name then w\<lparr>w_id := w_id x\<rparr> else x) ws) else None)"
  using assms
proof (induction ws)
  case (Cons x xs)
  show ?case
  proof (cases "w_name x = name")
    case True
    then have "name \<notin> w_name ` set xs" using Cons.prems by auto
    then have "map (\<lambda>x. if w_name x = name then w\<lparr>w_id := w_id x\<rparr> else x) xs = xs"
      by (intro map_idI) auto
    with True show ?thesis by (simp add: Let_def)
  next
    case False
    have "map_option snd (map_option (\<lambda>(w, ys). (w, x # ys)) o') = map_option (Cons x) (map_option snd o')" for o' :: "(wlan \<times> wlan list) option"
      by (cases o') auto
    with False Cons show ?thesis by auto
  qed
qed simp

lemma servers_fine_ok: "list_all server_fine ss \<Longrightarrow> list_all server_ok ss"
  by (erule list.pred_mono_strong) (simp add: server_fine_def server_ok_def int64_range_def)

lemma wlan_fine_ok:
  assumes "wlan_fine w"
  shows "wlan_ok w"
proof -
  have "list_all server_fine (opt_or [] (w_radius_servers w)) \<and> list_all server_fine (opt_or [] (w_acct_servers w))"
    using assms by (auto simp: wlan_fine_def profile_fine_def no_profile_def Let_def)
  moreover have "int64_range (w_vlan w)" using assms by (simp add: wlan_fine_def int64_range_def)
  ultimately show ?thesis using servers_fine_ok by (simp add: wlan_ok_def)
qed

lemma document_fine_ok: "document_fine ws \<Longrightarrow> list_all wlan_ok ws"
  by (auto simp: document_fine_def wlan_fine_ok elim: list.pred_mono_strong)

lemma persist_reads:
  assumes "normalizeDeviceWlanEnvelope jt ws = doc"
    and "document_fine doc \<Longrightarrow> json_carries jt (stored_document (Some doc)) \<and> js_marshal jt (stored_document (Some doc)) \<noteq> []"
  shows "if document_fine doc then persist_change jt ws c d = Inr (False, SetDeviceWLANs jt (Some doc) d, c)
      \<and> adminWlansFromDevice jt (SetDeviceWLANs jt (Some doc) d) = doc
    else \<exists>e. persist_change jt ws c d = Inl e"
proof (cases "document_fine doc")
  case True
  have "list_all wlan_ok (opt_or [] (Some doc))" using document_fine_ok [OF True] by simp
  then have "DeviceWLANs jt (SetDeviceWLANs jt (Some doc) d) = (if nil_or_empty (Some doc) then None else Some doc)"
    using SetDeviceWLANs_reads assms(2) [OF True] by blast
  then have "adminWlansFromDevice jt (SetDeviceWLANs jt (Some doc) d) = doc"
    by (simp add: adminWlansFromDevice_def nil_or_empty_def)
  moreover have "validateDeviceWlans doc = Inr ()" using True by (simp add: validate_exact)
  ultimately show ?thesis using True assms(1)
    by (simp add: persist_change_def persistDeviceWLANs_def Let_def)
next
  case False
  then have "\<exists>e. validateDeviceWlans doc = Inl e"
    using validate_exact [of doc] by (cases "validateDeviceWlans doc") auto
  with False assms(1) show ?thesis
    by (auto simp: persist_change_def persistDeviceWLANs_def Let_def)
qed

lemma GetDeviceWireless_stored:
  "CanonicalMAC mac = Inr c \<Longrightarrow> devices_of (js_db s) c = Some d \<Longrightarrow>
   GetDeviceWireless env mac s = Inr (adminWlansFromDevice (ae_json env) d)"
  using CanonicalMAC_D [of mac c] by (simp add: GetDeviceWireless_def db_Get_devices mac_simps)

text \<open>
  What the skeleton leaves when the change is made: the record in memory, the file when the write
  succeeds, and the write's error when it does not.
\<close>

definition wrote :: "admin_env \<Rightarrow> json_store \<Rightarrow> json_store \<Rightarrow> app_error option \<Rightarrow> bool" where
  "wrote env s s' err \<longleftrightarrow> err = (if ae_io env then None else Some (AppStore ErrSave))
     \<and> js_file s' = (if ae_io env then Some (snapshot (ae_now env) (js_db s')) else js_file s)"

context admin_verb
begin

lemma save_existing_writes:
  assumes "db_inv (js_db s)" "CanonicalMAC mac = Inr c" "devices_of (js_db s) c = Some d"
    and f: "intent_cycle env change project d = Inr (d', out)"
  shows "\<exists>s' r. saveIntent env mac SaveExisting change project s = (s', r) \<and> wrote env s s' (case r of Inl e \<Rightarrow> Some e | Inr _ \<Rightarrow> None)
    \<and> devices_of (js_db s') = (devices_of (js_db s))(c \<mapsto> d')"
proof -
  let ?f = "intent_cycle env change project"
  have c: "canonicalMAC c = c" "c \<noteq> []"
    using CanonicalMAC_D [OF assms(2)] by (auto simp: mac_simps canonical_def)
  have sd: "seeded c s = d" using assms(3) c by (simp add: seeded_def db_Get_devices)
  have "dev_mac d = c"
    using assms(1,3) by (auto simp: db_inv_def devices_of_def jget_def dest!: map_of_SomeD)
  then have m: "dev_mac d' = c" using cycle_fields(1) [OF f] by simp
  then obtain mm where mm: "db_Put d' (js_db s) = Inr mm" using c by (auto simp: db_Put_def Let_def)
  have "db_UpdateExisting c (intent_fn ?f) (js_db s) = Inr mm"
    using assms(3) c f mm by (simp add: db_UpdateExisting_def db_update_def db_Get_devices intent_fn_def Let_def)
  then have run: "saveIntent env mac SaveExisting change project s =
      (if ae_io env then (s\<lparr>js_db := mm, js_file := Some (snapshot (ae_now env) mm)\<rparr>, Inr out)
       else (s\<lparr>js_db := mm\<rparr>, Inl (AppStore ErrSave)))"
    using assms(2) f by (simp add: saveIntent_def sd Let_def js_UpdateExisting_def js_after_def js_save_def)
  have "devices_of mm = (devices_of (js_db s))(c \<mapsto> d')"
    using db_Put_devices [OF mm] c m by (metis device.surjective device.update_convs(1))
  with run show ?thesis by (auto simp: wrote_def)
qed

end

lemma persist_save:
  assumes s: "db_inv (js_db s)" "CanonicalMAC mac = Inr c" "devices_of (js_db s) c = Some d"
    and verb: "admin_verb chg" "chg d = persist_change (ae_json env) ws x d"
    and doc: "normalizeDeviceWlanEnvelope (ae_json env) ws = doc"
    and carries: "document_fine doc \<Longrightarrow>
      json_carries (ae_json env) (stored_document (Some doc)) \<and> js_marshal (ae_json env) (stored_document (Some doc)) \<noteq> []"
  shows "if document_fine doc
     then \<exists>s' err. failed (saveIntent env mac SaveExisting chg project s) = (s', err) \<and> wrote env s s' err
        \<and> GetDeviceWireless env mac s' = Inr doc
        \<and> (\<forall>m. m \<noteq> c \<longrightarrow> devices_of (js_db s') m = devices_of (js_db s) m)
     else \<exists>e. failed (saveIntent env mac SaveExisting chg project s) = (s, Some e)"
proof (cases "document_fine doc")
  case True
  let ?d = "SetDeviceWLANs (ae_json env) (Some doc) d"
  have p: "chg d = Inr (False, ?d, x)" "adminWlansFromDevice (ae_json env) ?d = doc"
    using persist_reads [OF doc carries, of x d] True verb(2) by simp_all
  have "intent_cycle env chg project d = Inr (?d, project x ?d)" using p(1) by (simp add: intent_cycle_def)
  from admin_verb.save_existing_writes [OF verb(1) s this]
  obtain s' r where r: "saveIntent env mac SaveExisting chg project s = (s', r)"
    "wrote env s s' (case r of Inl e \<Rightarrow> Some e | Inr _ \<Rightarrow> None)"
    "devices_of (js_db s') = (devices_of (js_db s))(c \<mapsto> ?d)" by blast
  then have "GetDeviceWireless env mac s' = Inr doc"
    using GetDeviceWireless_stored [OF s(2), of s' ?d env] p(2) by simp
  with r True show ?thesis by (simp add: failed_def)
next
  case False
  obtain e where "chg d = Inl e"
    using persist_reads [OF doc carries, of x d] False verb(2) by auto
  then have "intent_cycle env chg project d = Inl e" by (simp add: intent_cycle_def)
  from admin_verb.save_existing(1) [OF verb(1) s this] False show ?thesis by simp
qed

lemma refused_save:
  assumes "db_inv (js_db s)" "CanonicalMAC mac = Inr c" "devices_of (js_db s) c = Some d"
    and "admin_verb chg" "chg d = Inl e"
  shows "failed (saveIntent env mac SaveExisting chg project s) = (s, Some e)"
  using admin_verb.save_existing(1) [OF assms(4,1-3), of env project e] assms(5) by (simp add: intent_cycle_def)

text \<open>A run that implements the specified document, or fails without effect when there is none.\<close>

definition implements :: "admin_env \<Rightarrow> string \<Rightarrow> string \<Rightarrow> json_store \<Rightarrow> wlan list option \<Rightarrow> json_store \<times> app_error option \<Rightarrow> bool" where
  "implements env mac c s doc r \<longleftrightarrow>
    (if \<exists>ws. doc = Some ws \<and> document_fine ws
     then \<exists>s' err. r = (s', err) \<and> wrote env s s' err \<and> GetDeviceWireless env mac s' = Inr (the doc)
       \<and> (\<forall>m. m \<noteq> c \<longrightarrow> devices_of (js_db s') m = devices_of (js_db s) m)
     else \<exists>e. r = (s, Some e))"

lemma put_wireless_refines:
  assumes s: "db_inv (js_db s)" "CanonicalMAC mac = Inr c" "devices_of (js_db s) c = Some d"
    and fine: "document_fine (adminWlansFromDevice (ae_json env) d)"
    and doc: "doc = map_option (map (give_id (ae_json env))) (wlan_spec (ae_json env) (WlanPut ws) (adminWlansFromDevice (ae_json env) d))"
    and carries: "\<And>ws. doc = Some ws \<Longrightarrow> document_fine ws \<Longrightarrow>
      json_carries (ae_json env) (stored_document (Some ws)) \<and> js_marshal (ae_json env) (stored_document (Some ws)) \<noteq> []"
  shows "implements env mac c s doc (wlan_exec env mac (WlanPut ws) s)"
proof -
  have d: "doc = Some (normalizeDeviceWlanEnvelope (ae_json env) ws)"
    using doc by (simp add: normalizeDeviceWlanEnvelope_def)
  show ?thesis
    using persist_save [OF s put_wlans_verb.admin_verb_axioms
        refl [of "persist_change (ae_json env) ws () d"] refl carries [OF d], where project = "\<lambda>_ _. map_option (map (give_id (ae_json env))) ws"] d
    by (simp add: implements_def PutDeviceWireless_def)
qed

lemma create_refines:
  assumes s: "db_inv (js_db s)" "CanonicalMAC mac = Inr c" "devices_of (js_db s) c = Some d"
    and fine: "document_fine (adminWlansFromDevice (ae_json env) d)"
    and doc: "doc = map_option (map (give_id (ae_json env))) (wlan_spec (ae_json env) (WlanCreate w) (adminWlansFromDevice (ae_json env) d))"
    and carries: "\<And>ws. doc = Some ws \<Longrightarrow> document_fine ws \<Longrightarrow>
      json_carries (ae_json env) (stored_document (Some ws)) \<and> js_marshal (ae_json env) (stored_document (Some ws)) \<noteq> []"
  shows "implements env mac c s doc (wlan_exec env mac (WlanCreate w) s)"
proof -
  show ?thesis
  proof (cases "ValidateWlanName (w_name w) = []")
    case True
    let ?w = "w\<lparr>w_id := NewWlanID (ae_json env) w\<rparr>" and ?ws = "Some (adminWlansFromDevice (ae_json env) d @ [w\<lparr>w_id := NewWlanID (ae_json env) w\<rparr>])"
    have d: "doc = Some (normalizeDeviceWlanEnvelope (ae_json env) ?ws)"
      using doc True by (simp add: normalizeDeviceWlanEnvelope_def name_accepted)
    show ?thesis
      using persist_save [OF s create_wlan_verb.admin_verb_axioms create_wlan_change_def refl carries [OF d],
          where project = "\<lambda>_ d. opt_or ?w (find_wlan (w_name w) (adminWlansFromDevice (ae_json env) d))"] d True
      by (simp add: implements_def CreateDeviceWlan_def Let_def)
  next
    case False
    then have "doc = None" using doc by (auto simp: name_accepted)
    with False show ?thesis by (simp add: implements_def CreateDeviceWlan_def)
  qed
qed

lemma update_wlan_refines:
  assumes s: "db_inv (js_db s)" "CanonicalMAC mac = Inr c" "devices_of (js_db s) c = Some d"
    and fine: "document_fine (adminWlansFromDevice (ae_json env) d)"
    and doc: "doc = map_option (map (give_id (ae_json env))) (wlan_spec (ae_json env) (WlanUpdate name w) (adminWlansFromDevice (ae_json env) d))"
    and carries: "\<And>ws. doc = Some ws \<Longrightarrow> document_fine ws \<Longrightarrow>
      json_carries (ae_json env) (stored_document (Some ws)) \<and> js_marshal (ae_json env) (stored_document (Some ws)) \<noteq> []"
  shows "implements env mac c s doc (wlan_exec env mac (WlanUpdate name w) s)"
proof -
  let ?old = "adminWlansFromDevice (ae_json env) d" and ?w = "w\<lparr>w_name := name\<rparr>"
  have names: "distinct (map w_name ?old)" "\<And>x. x \<in> set ?old \<Longrightarrow> ValidateWlanName (w_name x) = []"
    using fine wlan_accepted by (auto simp: document_fine_def list_all_iff)
  show ?thesis
  proof (cases "name \<in> w_name ` set ?old \<and> (w_name w = [] \<or> w_name w = name)")
    case True
    then obtain w' ws where r: "replace_wlan name ?w ?old = Some (w', ws)"
      "ws = map (\<lambda>x. if w_name x = name then ?w\<lparr>w_id := w_id x\<rparr> else x) ?old"
      using replace_wlan_eq [OF names(1), of name ?w] by (auto simp: map_option_case split: option.splits)
    have d: "doc = Some (normalizeDeviceWlanEnvelope (ae_json env) (Some ws))"
      using doc True r(2) by (simp add: normalizeDeviceWlanEnvelope_def)
    have v: "ValidateWlanName name = []" using True names(2) by auto
    have "update_wlan_change (ae_json env) name ?w d = persist_change (ae_json env) (Some ws) w' d"
      using r(1) by (simp add: update_wlan_change_def)
    from persist_save [OF s update_wlan_verb.admin_verb_axioms this refl carries [OF d], where project = "\<lambda>w _. w"] d True v
    show ?thesis
      by (auto simp: implements_def UpdateDeviceWlan_def split: if_splits)
  next
    case False
    then have n: "doc = None" using doc by auto
    have "replace_wlan name ?w ?old = None" if "name \<notin> w_name ` set ?old"
      using replace_wlan_eq [OF names(1), of name ?w] that by simp
    then have "failed (saveIntent env mac SaveExisting (update_wlan_change (ae_json env) name ?w) (\<lambda>w _. w) s)
        = (s, Some (AppNotFound (''wlan '' @ name)))" if "name \<notin> w_name ` set ?old"
      using that by (intro refused_save [OF s update_wlan_verb.admin_verb_axioms]) (simp add: update_wlan_change_def)
    with n False show ?thesis by (auto simp: implements_def UpdateDeviceWlan_def)
  qed
qed

lemma delete_refines:
  assumes s: "db_inv (js_db s)" "CanonicalMAC mac = Inr c" "devices_of (js_db s) c = Some d"
    and fine: "document_fine (adminWlansFromDevice (ae_json env) d)"
    and doc: "doc = map_option (map (give_id (ae_json env))) (wlan_spec (ae_json env) (WlanDelete name) (adminWlansFromDevice (ae_json env) d))"
    and carries: "\<And>ws. doc = Some ws \<Longrightarrow> document_fine ws \<Longrightarrow>
      json_carries (ae_json env) (stored_document (Some ws)) \<and> js_marshal (ae_json env) (stored_document (Some ws)) \<noteq> []"
  shows "implements env mac c s doc (wlan_exec env mac (WlanDelete name) s)"
proof -
  let ?old = "adminWlansFromDevice (ae_json env) d"
  show ?thesis
  proof (cases "name \<in> w_name ` set ?old")
    case True
    let ?ws = "Some (filter (\<lambda>w. w_name w \<noteq> name) ?old)"
    have d: "doc = Some (normalizeDeviceWlanEnvelope (ae_json env) ?ws)"
      using doc True by (simp add: normalizeDeviceWlanEnvelope_def)
    have "delete_wlan_change (ae_json env) name d = persist_change (ae_json env) ?ws () d"
      using True by (auto simp: delete_wlan_change_def Let_def list_ex_iff)
    from persist_save [OF s delete_wlan_verb.admin_verb_axioms this refl carries [OF d], where project = "\<lambda>_ _. ()"] d
    show ?thesis
      by (simp add: implements_def DeleteDeviceWlan_def)
  next
    case False
    then have "doc = None" using doc by auto
    have "delete_wlan_change (ae_json env) name d = Inl (AppNotFound (''wlan '' @ name))"
      using False by (auto simp: delete_wlan_change_def Let_def list_ex_iff)
    from refused_save [OF s delete_wlan_verb.admin_verb_axioms this, of env "\<lambda>_ _. ()"] \<open>doc = None\<close> show ?thesis
      by (simp add: implements_def DeleteDeviceWlan_def)
  qed
qed

text \<open>
  C36: the WLAN verbs implement operations on a list. On a record whose document is valid, and as long as
  the JSON library carries the new document, each verb whose specified result is a valid document leaves
  in memory exactly that document, with identifiers given, which the next read returns; it answers without
  an error and writes the file when the write succeeds, and when the write fails it answers with the save error
  while the document in memory is already the new one and the file still the old. A verb without a valid
  result fails and changes nothing. No other record is touched.
\<close>

theorem wlan_verbs_refine:
  assumes s: "db_inv (js_db s)" "CanonicalMAC mac = Inr c" "devices_of (js_db s) c = Some d"
    and fine: "document_fine (adminWlansFromDevice (ae_json env) d)"
    and doc: "doc = map_option (map (give_id (ae_json env))) (wlan_spec (ae_json env) op (adminWlansFromDevice (ae_json env) d))"
    and carries: "\<And>ws. doc = Some ws \<Longrightarrow> document_fine ws \<Longrightarrow>
      json_carries (ae_json env) (stored_document (Some ws)) \<and> js_marshal (ae_json env) (stored_document (Some ws)) \<noteq> []"
  shows "if \<exists>ws. doc = Some ws \<and> document_fine ws
     then \<exists>s' err. wlan_exec env mac op s = (s', err)
       \<and> (if ae_io env then err = None \<and> js_file s' = Some (snapshot (ae_now env) (js_db s'))
           else err = Some (AppStore ErrSave) \<and> js_file s' = js_file s)
       \<and> GetDeviceWireless env mac s' = Inr (the doc)
       \<and> (\<forall>m. m \<noteq> c \<longrightarrow> devices_of (js_db s') m = devices_of (js_db s) m)
     else \<exists>e. wlan_exec env mac op s = (s, Some e)"
proof -
  have "implements env mac c s doc (wlan_exec env mac op s)"
  proof (cases op)
    case (WlanPut ws)
    show ?thesis unfolding WlanPut by (rule put_wireless_refines [OF s fine doc [unfolded WlanPut] carries])
  next
    case (WlanCreate w)
    show ?thesis unfolding WlanCreate by (rule create_refines [OF s fine doc [unfolded WlanCreate] carries])
  next
    case (WlanUpdate name w)
    show ?thesis unfolding WlanUpdate by (rule update_wlan_refines [OF s fine doc [unfolded WlanUpdate] carries])
  next
    case (WlanDelete name)
    show ?thesis unfolding WlanDelete by (rule delete_refines [OF s fine doc [unfolded WlanDelete] carries])
  qed
  then show ?thesis by (auto simp: implements_def wrote_def split: if_splits)
qed

definition cafe_wlan :: wlan where
  "cafe_wlan = zero_wlan\<lparr>w_name := ''cafe'', w_ssid := ''Cafe'', w_security := ''open'', w_vlan := 1, w_id := ''w1''\<rparr>"

definition demo_env :: "gval \<Rightarrow> admin_env" where
  "demo_env doc = \<lparr>ae_now = 1000, ae_io = True, ae_random = Some (replicate 8 7), ae_json = one_document doc\<rparr>"

definition demo_store :: "device \<Rightarrow> json_store" where
  "demo_store d = \<lparr>js_db = \<lparr>db_devices = [(dev_mac d, d)], db_pending = []\<rparr>, js_file = None\<rparr>"

definition demo_device :: device where "demo_device = new_device ''aabbcc001122''"

lemma demo_device_mac: "CanonicalMAC ''aa-bb-cc-00-11-22'' = Inr ''aabbcc001122''" "canonicalMAC ''aabbcc001122'' = ''aabbcc001122''"
  by code_simp+

lemma demo_store_facts: "dev_mac d = ''aabbcc001122'' \<Longrightarrow> db_inv (js_db (demo_store d))
    \<and> devices_of (js_db (demo_store d)) ''aabbcc001122'' = Some d"
  using demo_device_mac(2) by (simp add: demo_store_def db_inv_def devices_of_def)

lemma wlan_verbs_refine_witness:
  "\<exists>s'. wlan_exec (demo_env (stored_document (Some [cafe_wlan]))) ''aa-bb-cc-00-11-22'' (WlanCreate cafe_wlan) (demo_store demo_device) = (s', None)
    \<and> GetDeviceWireless (demo_env (stored_document (Some [cafe_wlan]))) ''aa-bb-cc-00-11-22'' s' = Inr [cafe_wlan]"
proof -
  let ?e = "demo_env (stored_document (Some [cafe_wlan]))"
  have e: "adminWlansFromDevice (ae_json ?e) demo_device = []" "ae_io ?e"
    by (simp_all add: adminWlansFromDevice_def DeviceWLANs_def demo_device_def new_device_def demo_env_def)
  have "wlan_fine cafe_wlan" by code_simp
  then have f: "document_fine [cafe_wlan]"
    by (simp add: document_fine_def cafe_wlan_def zero_wlan_def)
  have d: "Some [cafe_wlan] = map_option (map (give_id (ae_json ?e))) (wlan_spec (ae_json ?e) (WlanCreate cafe_wlan) [])"
    by (simp add: give_id_def cafe_wlan_def zero_wlan_def NewWlanID_def clean_def)
  have "dev_mac demo_device = ''aabbcc001122''" by (simp add: demo_device_def new_device_def)
  note s = demo_store_facts [OF this]
  have c: "json_carries (ae_json ?e) (stored_document (Some [cafe_wlan])) \<and> js_marshal (ae_json ?e) (stored_document (Some [cafe_wlan])) \<noteq> []"
    by (simp add: demo_env_def json_carries_def one_document_def)
  have n: "document_fine []" by (simp add: document_fine_def)
  show ?thesis
    using wlan_verbs_refine [OF s [THEN conjunct1] demo_device_mac(1) s [THEN conjunct2], of ?e "Some [cafe_wlan]" "WlanCreate cafe_wlan"]
      f c d n by (auto simp: e)
qed

text \<open>
  Identifiers are derived from name and SSID written one after the other, so two different WLANs can be
  given the same one and their document is refused as a duplicate, whatever the hash.
\<close>

definition split_wlan :: "string \<Rightarrow> string \<Rightarrow> wlan" where
  "split_wlan name ssid = zero_wlan\<lparr>w_name := name, w_ssid := ssid, w_security := ''open'', w_vlan := 1\<rparr>"

lemma derived_ids_collide:
  assumes "take 24 (sha256_hex jt ''abc'') \<noteq> []"
  shows "\<exists>e. persistDeviceWLANs jt (Some [split_wlan ''a'' ''bc'', split_wlan ''ab'' ''c'']) d = Inl e"
    "wlan_fine (split_wlan ''a'' ''bc'')" "wlan_fine (split_wlan ''ab'' ''c'')"
proof -
  let ?ws = "normalizeDeviceWlanEnvelope jt (Some [split_wlan ''a'' ''bc'', split_wlan ''ab'' ''c''])"
  have "map w_id ?ws = [take 24 (sha256_hex jt ''abc''), take 24 (sha256_hex jt ''abc'')]"
    by (simp add: normalizeDeviceWlanEnvelope_def give_id_def split_wlan_def zero_wlan_def NewWlanID_def)
  then have "\<not> document_fine ?ws" using assms by (auto simp: document_fine_def)
  then show "\<exists>e. persistDeviceWLANs jt (Some [split_wlan ''a'' ''bc'', split_wlan ''ab'' ''c'']) d = Inl e"
    using validate_exact [of ?ws] by (cases "validateDeviceWlans ?ws") (auto simp: persistDeviceWLANs_def Let_def)
  show "wlan_fine (split_wlan ''a'' ''bc'')" "wlan_fine (split_wlan ''ab'' ''c'')" by code_simp+
qed

end
