(* ===== verification/Discovery.thy ===== *)
theory Discovery
  imports Device_Store Inform_Codec Go_Text
begin

unbundle bit_operations_syntax

text \<open>
  The UDP discovery listener, \<^verbatim>\<open>internal/server/discovery.go\<close>: the version dispatch, the
  type-length-value walk, the version-2 gates with the per-MAC anti-replay memory, the pending
  candidate with its note, and the command-9 reply with its gates and encoder. The network
  interfaces of the host (\<^verbatim>\<open>net.Interfaces\<close>), the clock and the socket write are inputs and
  outputs of the model; log lines are not modelled.
\<close>

section \<open>Addresses\<close>

text \<open>
  A \<^verbatim>\<open>net.IP\<close> is its 4 or 16 bytes. \<open>ip_text\<close> is \<^verbatim>\<open>net.IP.String\<close>: dotted for IPv4, else the
  canonical IPv6 form, where the first longest run of at least two zero groups is written \<open>::\<close>.
\<close>

record udp_addr =
  ua_ip :: bytes
  ua_port :: nat

definition To4 :: "bytes \<Rightarrow> bytes option" where
  "To4 ip = (if length ip = 4 then Some ip
     else if length ip = 16 \<and> take 12 ip = replicate 10 0 @ [255, 255] then Some (drop 12 ip)
     else None)"

definition dotted :: "bytes \<Rightarrow> string" where
  "dotted ip = join_with ''.'' (map (\<lambda>b. dec_nat (unat b)) ip)"

fun hex_nat :: "nat \<Rightarrow> string" where
  "hex_nat n = (if n < 16 then [hex_digit (word_of_nat n)] else hex_nat (n div 16) @ [hex_digit (word_of_nat (n mod 16))])"

declare hex_nat.simps [simp del]

fun groups16 :: "bytes \<Rightarrow> nat list" where
  "groups16 (a # b # r) = (unat a * 256 + unat b) # groups16 r"
| "groups16 _ = []"

definition zero_run_at :: "nat list \<Rightarrow> nat \<Rightarrow> nat" where
  "zero_run_at gs i = length (takeWhile (\<lambda>g. g = 0) (drop i gs))"

definition longest_zero_run :: "nat list \<Rightarrow> nat \<times> nat" where
  "longest_zero_run gs = foldl (\<lambda>(bi, bl) i. if zero_run_at gs i > bl then (i, zero_run_at gs i) else (bi, bl))
     (0, 0) [0..<length gs]"

definition ipv6_text :: "bytes \<Rightarrow> string" where
  "ipv6_text ip = (let gs = groups16 ip; (i, l) = longest_zero_run gs; show_groups = (\<lambda>g. join_with '':'' (map hex_nat g))
     in if l < 2 then show_groups gs
        else show_groups (take i gs) @ ''::'' @ show_groups (drop (i + l) gs))"

definition ip_text :: "bytes \<Rightarrow> string" where
  "ip_text ip = (if ip = [] then ''<nil>'' else case To4 ip of Some v4 \<Rightarrow> dotted v4
     | None \<Rightarrow> if length ip = 16 then ipv6_text ip else ''?'' @ concat (map hex_byte ip))"

definition discoverySiteLocalIPv4 :: "udp_addr option \<Rightarrow> bool" where
  "discoverySiteLocalIPv4 src = (case src of None \<Rightarrow> False
     | Some a \<Rightarrow> (case To4 (ua_ip a) of None \<Rightarrow> False
       | Some ip \<Rightarrow> ip ! 0 = 10 \<or> (ip ! 0 = 172 \<and> 16 \<le> ip ! 1 \<and> ip ! 1 \<le> 31) \<or> (ip ! 0 = 192 \<and> ip ! 1 = 168)))"

section \<open>The datagram\<close>

definition discoveryDedupWindow :: int where "discoveryDedupWindow = 5 * 10 ^ 9"
definition discoveryMinModernLen :: nat where "discoveryMinModernLen = 4"
definition discoveryMinV0Len :: nat where "discoveryMinV0Len = 15"
definition discoveryPruneThreshold :: nat where "discoveryPruneThreshold = 4096"

definition tlvMAC :: u8 where "tlvMAC = 1"
definition tlvAliasIP :: u8 where "tlvAliasIP = 2"
definition tlvVersion :: u8 where "tlvVersion = 3"
definition tlvESSID :: u8 where "tlvESSID = 13"
definition tlvWMode :: u8 where "tlvWMode = 14"
definition tlvFingerprint :: u8 where "tlvFingerprint = 16"
definition tlvSeq :: u8 where "tlvSeq = 18"
definition tlvSenderMAC :: u8 where "tlvSenderMAC = 19"
definition tlvModel :: u8 where "tlvModel = 21"
definition tlvShortVersion :: u8 where "tlvShortVersion = 22"
definition tlvFactory :: u8 where "tlvFactory = 23"
definition tlvSSHDPort :: u8 where "tlvSSHDPort = 28"
definition tlvPlatform :: u8 where "tlvPlatform = 12"
definition tlvHostname :: u8 where "tlvHostname = 11"
definition tlvUptime :: u8 where "tlvUptime = 10"

lemmas tlv_ids = tlvMAC_def tlvAliasIP_def tlvVersion_def tlvESSID_def tlvWMode_def tlvFingerprint_def
  tlvSeq_def tlvSenderMAC_def tlvModel_def tlvShortVersion_def tlvFactory_def tlvSSHDPort_def
  tlvPlatform_def tlvHostname_def tlvUptime_def

record discovery_alias =
  al_mac :: bytes
  al_ip :: bytes

record discovery_info =
  di_ver :: u8
  di_cmd :: u8
  di_mac :: "bytes option"
  di_sender :: "bytes option"
  di_seq :: int
  di_aliases :: "discovery_alias list"
  di_version :: string
  di_hostname :: string
  di_platform :: string
  di_essid :: string
  di_wmode :: int
  di_fingerprint :: string
  di_model :: string
  di_short :: string
  di_factory :: bool
  di_has_factory :: bool
  di_sshd :: int
  di_uptime :: int
  di_ip :: string

definition blank_info :: discovery_info where
  "blank_info = \<lparr>di_ver = 0, di_cmd = 0, di_mac = None, di_sender = None, di_seq = 0, di_aliases = [],
     di_version = [], di_hostname = [], di_platform = [], di_essid = [], di_wmode = 0, di_fingerprint = [],
     di_model = [], di_short = [], di_factory = False, di_has_factory = False, di_sshd = 0, di_uptime = 0, di_ip = []\<rparr>"

definition discoveryLatin1String :: "bytes \<Rightarrow> string" where
  "discoveryLatin1String v = text_of v"

definition tlv_text :: "bytes \<Rightarrow> string" where
  "tlv_text v = trim_space (discoveryLatin1String v)"

definition tlv_int :: "bytes \<Rightarrow> int" where
  "tlv_int v = uint (be32 v)"

text \<open>One entry of the stream, as the \<^verbatim>\<open>switch typ\<close> reads it.\<close>

definition tlv_field :: "u8 \<Rightarrow> bytes \<Rightarrow> discovery_info \<Rightarrow> discovery_info" where
  "tlv_field typ v info = (
     if typ = tlvMAC then (if length v = 6 then info\<lparr>di_mac := Some v\<rparr> else info)
     else if typ = tlvAliasIP then (if length v = 10
       then info\<lparr>di_aliases := di_aliases info @ [\<lparr>al_mac = take 6 v, al_ip = drop 6 v\<rparr>]\<rparr> else info)
     else if typ = tlvVersion then info\<lparr>di_version := tlv_text v\<rparr>
     else if typ = tlvUptime then (if length v \<ge> 4 then info\<lparr>di_uptime := tlv_int v\<rparr> else info)
     else if typ = tlvHostname then info\<lparr>di_hostname := tlv_text v\<rparr>
     else if typ = tlvPlatform then info\<lparr>di_platform := tlv_text v\<rparr>
     else if typ = tlvESSID then info\<lparr>di_essid := tlv_text v\<rparr>
     else if typ = tlvWMode then (if length v \<ge> 4 then info\<lparr>di_wmode := tlv_int v\<rparr> else info)
     else if typ = tlvFingerprint then info\<lparr>di_fingerprint := tlv_text v\<rparr>
     else if typ = tlvSeq then (if length v \<ge> 4 then info\<lparr>di_seq := tlv_int v\<rparr> else info)
     else if typ = tlvSenderMAC then (if length v = 6 then info\<lparr>di_sender := Some v\<rparr> else info)
     else if typ = tlvModel then info\<lparr>di_model := tlv_text v\<rparr>
     else if typ = tlvShortVersion then info\<lparr>di_short := tlv_text v\<rparr>
     else if typ = tlvFactory then (if length v \<ge> 1
       then info\<lparr>di_factory := (v ! 0 \<noteq> 0), di_has_factory := True\<rparr> else info)
     else if typ = tlvSSHDPort then (if length v \<ge> 4 then info\<lparr>di_sshd := tlv_int v\<rparr> else info)
     else info)"

text \<open>The walk: a truncated entry discards the whole packet (\<open>False\<close>).\<close>

function walk :: "bytes \<Rightarrow> discovery_info \<Rightarrow> discovery_info \<times> bool" where
  "walk [] info = (info, True)"
| "walk (typ # rest) info = (if length rest < 2 then (info, False)
     else let l = unat (be16 rest) in
       if length rest - 2 < l then (info, False)
       else walk (drop (2 + l) rest) (tlv_field typ (take l (drop 2 rest)) info))"
  by pat_completeness auto
termination by (relation "measure (length \<circ> fst)") auto

definition discoveryCandidateIP :: "udp_addr option \<Rightarrow> discovery_info \<Rightarrow> string" where
  "discoveryCandidateIP src info = (case di_aliases info of
     a # _ \<Rightarrow> ip_text (al_ip a)
   | [] \<Rightarrow> (case src of Some s \<Rightarrow> ip_text (ua_ip s) | None \<Rightarrow> []))"

definition parseDiscoveryV0 :: "bytes \<Rightarrow> discovery_info \<times> bool" where
  "parseDiscoveryV0 b = (if length b < discoveryMinV0Len then (blank_info, False)
     else (blank_info\<lparr>di_mac := Some (slice 1 7 b), di_ip := ip_text (slice 7 11 b),
       di_version := (if length b > discoveryMinV0Len
         then trim_space (discoveryLatin1String (drop discoveryMinV0Len b)) else [])\<rparr>, True))"

definition discoveryModelBlocked :: "string \<Rightarrow> bool" where
  "discoveryModelBlocked model \<longleftrightarrow> model \<in> {''M2M'', ''M2S'', ''P8U'', ''P6E'', ''P3U'', ''P3E'', ''P1U'', ''P1E'', ''IWO2U'', ''IWD1U''}"

section \<open>Identity and anti-replay state\<close>

definition discoveryMACString :: "bytes \<Rightarrow> string" where
  "discoveryMACString mac = (if length mac \<noteq> 6 then [] else to_lower (join_with '':'' (map hex_byte mac)))"

definition discoveryCanonicalMAC :: "bytes \<Rightarrow> string" where
  "discoveryCanonicalMAC mac = to_lower (concat (map hex_byte mac))"

record sighting =
  si_seq :: int
  si_seen :: int

record reply_metadata =
  rm_identity :: string
  rm_firmware :: string
  rm_board :: string
  rm_version :: string
  rm_aliases :: "discovery_alias list"
  rm_setup :: bool

record sightings =
  sg_by_mac :: "(string \<times> sighting) list"
  sg_reply_seq :: u32
  sg_reply_meta :: "reply_metadata option"
  sg_reply_destination :: "udp_addr option"
  sg_test_identity :: string
  sg_source_allowed :: "(udp_addr option \<Rightarrow> bool) option"

text \<open>
  A host interface as \<^verbatim>\<open>net.Interfaces\<close> lists it, with the addresses the type switch recognises.
  Only IPv4 addresses that are global unicast become aliases.
\<close>

record iface =
  if_loopback :: bool
  if_p2p :: bool
  if_hw :: bytes
  if_addrs :: "bytes list"

definition global_unicast4 :: "bytes \<Rightarrow> bool" where
  "global_unicast4 ip \<longleftrightarrow> ip \<noteq> [255, 255, 255, 255] \<and> ip \<noteq> [0, 0, 0, 0] \<and> ip ! 0 \<noteq> 127
     \<and> ip ! 0 AND 0xF0 \<noteq> 0xE0 \<and> \<not> (ip ! 0 = 169 \<and> ip ! 1 = 254)"

definition iface_aliases :: "iface \<Rightarrow> discovery_alias list" where
  "iface_aliases f = (if if_loopback f \<or> if_p2p f \<or> length (if_hw f) \<noteq> 6 then []
     else List.map_filter (\<lambda>a. case To4 a of
         Some ip \<Rightarrow> if global_unicast4 ip then Some \<lparr>al_mac = if_hw f, al_ip = ip\<rparr> else None
       | None \<Rightarrow> None) (if_addrs f))"

definition discoveryHostMetadata :: "iface list \<Rightarrow> reply_metadata" where
  "discoveryHostMetadata host = (let as = concat (map iface_aliases host) in
     \<lparr>rm_identity = (case as of a # _ \<Rightarrow> discoveryMACString (al_mac a) | [] \<Rightarrow> []),
      rm_firmware = ''unknown'', rm_board = ''unknown'', rm_version = ''unknown'',
      rm_aliases = as, rm_setup = False\<rparr>)"

definition discoveryIdentity :: "iface list \<Rightarrow> sightings \<Rightarrow> string" where
  "discoveryIdentity host st = (if sg_test_identity st \<noteq> [] then sg_test_identity st
     else case sg_reply_meta st of
       Some m \<Rightarrow> if rm_identity m \<noteq> [] then rm_identity m else rm_identity (discoveryHostMetadata host)
     | None \<Rightarrow> rm_identity (discoveryHostMetadata host))"

definition discoverySelfGuard :: "iface list \<Rightarrow> sightings \<Rightarrow> discovery_info \<Rightarrow> bool" where
  "discoverySelfGuard host st info = (let echo = discoveryMACString (opt_or [] (di_sender info))
     in echo \<noteq> [] \<and> echo = discoveryIdentity host st)"

definition fresh_sighting :: "int \<Rightarrow> int \<Rightarrow> sighting option \<Rightarrow> bool" where
  "fresh_sighting now seq prev = (case prev of None \<Rightarrow> True
     | Some p \<Rightarrow> \<not> (now - si_seen p < discoveryDedupWindow \<and> seq \<le> si_seq p))"

definition prune_sightings :: "int \<Rightarrow> (string \<times> sighting) list \<Rightarrow> (string \<times> sighting) list" where
  "prune_sightings now m = (if length m > discoveryPruneThreshold
     then filter (\<lambda>(_, v). now - si_seen v < discoveryDedupWindow) m else m)"

definition seeDiscovery :: "int \<Rightarrow> discovery_info \<Rightarrow> sightings \<Rightarrow> sightings \<times> bool" where
  "seeDiscovery now info st = (let key = discoveryMACString (opt_or [] (di_mac info)) in
     if \<not> fresh_sighting now (di_seq info) (jget (sg_by_mac st) key) then (st, False)
     else (st\<lparr>sg_by_mac := prune_sightings now
             (jset key \<lparr>si_seq = di_seq info, si_seen = now\<rparr> (sg_by_mac st))\<rparr>, True))"

section \<open>Parsing with the version-2 gates\<close>

definition parseDiscoveryModern ::
    "iface list \<Rightarrow> int \<Rightarrow> udp_addr option \<Rightarrow> bytes \<Rightarrow> sightings \<Rightarrow> sightings \<times> discovery_info \<times> bool" where
  "parseDiscoveryModern host now src b st = (
     if length b < discoveryMinModernLen then (st, blank_info, False)
     else let info = blank_info\<lparr>di_ver := b ! 0, di_cmd := b ! 1, di_seq := - 1\<rparr>;
              end = discoveryMinModernLen + unat (be16 (slice 2 4 b)) in
       if end > length b then (st, info, False)
       else let (info, ok) = walk (slice discoveryMinModernLen end b) info in
         if \<not> ok then (st, info, False)
         else let info = info\<lparr>di_ip := discoveryCandidateIP src info\<rparr> in
           if di_ver info = 2 \<and> di_cmd info = 8 then (st, info, True)
           else if di_ver info \<noteq> 2 then (st, info, True)
           else if di_mac info = None \<or> di_seq info < 1 \<or> di_sender info = None then (st, info, False)
           else if discoverySelfGuard host st info then (st, info, False)
           else if discoveryModelBlocked (di_model info) then (st, info, False)
           else let (st', seen) = seeDiscovery now info st in (st', info, seen))"

definition parseDiscovery ::
    "iface list \<Rightarrow> int \<Rightarrow> udp_addr option \<Rightarrow> bytes \<Rightarrow> sightings \<Rightarrow> sightings \<times> discovery_info \<times> bool" where
  "parseDiscovery host now src b st = (case b of
     [] \<Rightarrow> (st, blank_info, False)
   | v # _ \<Rightarrow>
       if v = 0 then (st, parseDiscoveryV0 b)
       else if v = 1 \<or> v = 2 then parseDiscoveryModern host now src b st
       else (st, blank_info\<lparr>di_ver := v\<rparr>, False))"

section \<open>The pending candidate\<close>

definition note_string :: "string \<Rightarrow> string \<Rightarrow> string list" where
  "note_string k v = (let v = remove_char CHR '','' v in if v \<noteq> [] then [k @ ''='' @ v] else [])"

definition note_int :: "string \<Rightarrow> int \<Rightarrow> string list" where
  "note_int k v = (if v > 0 then [k @ ''='' @ itoa v] else [])"

definition note_parts :: "discovery_info \<Rightarrow> string list" where
  "note_parts info = note_int ''uptime'' (di_uptime info) @ note_string ''version'' (di_version info)
     @ note_string ''model'' (di_model info) @ note_string ''hostname'' (di_hostname info)
     @ note_int ''sshd_port'' (di_sshd info) @ note_string ''ip'' (di_ip info)
     @ note_string ''shortversion'' (di_short info) @ note_string ''platform'' (di_platform info)
     @ note_string ''essid'' (di_essid info) @ note_int ''wmode'' (di_wmode info)
     @ (if di_has_factory info then [''factory='' @ (if di_factory info then ''true'' else ''false'')] else [])"

definition discoveryNote :: "discovery_info \<Rightarrow> string" where
  "discoveryNote info = ''discovery:'' @ join_with '','' (note_parts info)"

definition recordDiscoveryCandidate :: "int \<Rightarrow> bool \<Rightarrow> discovery_info \<Rightarrow> json_store \<Rightarrow> json_store" where
  "recordDiscoveryCandidate now io info s = (case di_mac info of
     None \<Rightarrow> s
   | Some mac \<Rightarrow> if length mac \<noteq> 6 then s
       else fst (js_MarkPending now io (discoveryCanonicalMAC mac) (discoveryNote info) s))"

section \<open>The reply\<close>

definition tlv_bytes :: "u8 \<times> bytes \<Rightarrow> bytes" where
  "tlv_bytes e = fst e # word_of_nat (length (snd e) div 256) # word_of_nat (length (snd e)) # snd e"

definition reply_entries :: "u32 \<Rightarrow> bytes \<Rightarrow> reply_metadata \<Rightarrow> (u8 \<times> bytes) list" where
  "reply_entries seq mac m = [(tlvSeq, put32 seq), (tlvSenderMAC, mac), (tlvMAC, mac)]
     @ map (\<lambda>a. (tlvAliasIP, al_mac a @ al_ip a)) (rm_aliases m)
     @ [(tlvVersion, bytes_of (rm_firmware m)), (tlvModel, bytes_of (rm_board m)),
        (tlvShortVersion, bytes_of (rm_version m)), (tlvFactory, [if rm_setup m then 1 else 0])]"

definition reply_meta_of :: "iface list \<Rightarrow> sightings \<Rightarrow> reply_metadata" where
  "reply_meta_of host st = (let m = (case sg_reply_meta st of Some m \<Rightarrow> m | None \<Rightarrow> discoveryHostMetadata host)
     in if sg_test_identity st \<noteq> [] then m\<lparr>rm_identity := sg_test_identity st\<rparr> else m)"

text \<open>A \<open>nil\<close> packet is the empty one.\<close>

definition discoveryEncodeReply :: "iface list \<Rightarrow> sightings \<Rightarrow> sightings \<times> bytes" where
  "discoveryEncodeReply host st = (let m = reply_meta_of host st; seq = sg_reply_seq st + 1;
       st = st\<lparr>sg_reply_seq := seq\<rparr> in
     case hex_pairs (filter (\<lambda>c. c \<noteq> CHR '':'') (rm_identity m)) of
       Some mac \<Rightarrow> if length mac \<noteq> 6 then (st, [])
         else let p = concat (map tlv_bytes (reply_entries seq mac m))
           in (st, 2 # 9 # word_of_nat (length p div 256) # word_of_nat (length p) # p)
     | None \<Rightarrow> (st, []))"

definition discoveryReplyEnabled :: "bool \<Rightarrow> json_store \<Rightarrow> bool" where
  "discoveryReplyEnabled discoverable s \<longleftrightarrow> discoverable \<or>
     \<not> list_ex (\<lambda>d. dev_state d \<ge> StateAdopting) (db_List (js_db s))"

section \<open>One datagram\<close>

text \<open>
  What one datagram does: the new state of the listener and of the store, and the datagram written
  (destination and bytes), if any. \<open>conn\<close> says whether a socket is given.
\<close>

record disco =
  dc_sightings :: sightings
  dc_store :: json_store

record disco_env =
  de_host :: "iface list"
  de_discoverable :: bool
  de_conn :: bool
  de_io :: bool

definition reply_allowed :: "disco_env \<Rightarrow> udp_addr option \<Rightarrow> discovery_info \<Rightarrow> disco \<Rightarrow> bool" where
  "reply_allowed E src info s \<longleftrightarrow> de_conn E
     \<and> (case sg_source_allowed (dc_sightings s) of None \<Rightarrow> discoverySiteLocalIPv4 src | Some f \<Rightarrow> f src)
     \<and> \<not> discoverySelfGuard (de_host E) (dc_sightings s) info
     \<and> discoveryReplyEnabled (de_discoverable E) (dc_store s)"

definition handleDiscoveryPacketConn ::
    "disco_env \<Rightarrow> int \<Rightarrow> udp_addr option \<Rightarrow> bytes \<Rightarrow> disco \<Rightarrow> disco \<times> (udp_addr option \<times> bytes) option" where
  "handleDiscoveryPacketConn E now src b s = (
     let (st, info, ok) = parseDiscovery (de_host E) now src b (dc_sightings s); s = s\<lparr>dc_sightings := st\<rparr> in
     if \<not> ok then (s, None)
     else if di_ver info = 2 \<and> di_cmd info = 8 then
       (if reply_allowed E src info s
        then let (st, packet) = discoveryEncodeReply (de_host E) st in
          (s\<lparr>dc_sightings := st\<rparr>,
           Some ((case sg_reply_destination st of Some d \<Rightarrow> Some d | None \<Rightarrow> src), packet))
        else (s, None))
     else if di_cmd info = 6 \<or> di_cmd info = 0x80 then
       (s\<lparr>dc_store := recordDiscoveryCandidate (now div 10 ^ 9) (de_io E) info (dc_store s)\<rparr>, None)
     else (s, None))"

definition discoveryReadLimit :: nat where "discoveryReadLimit = 1024"

text \<open>\<open>ServeDiscovery\<close> reads each datagram into a 1024-byte window.\<close>

definition serve_datagram :: "disco_env \<Rightarrow> disco \<Rightarrow> int \<times> udp_addr option \<times> bytes \<Rightarrow> disco" where
  "serve_datagram E s dg = (case dg of (now, src, b) \<Rightarrow>
     fst (handleDiscoveryPacketConn E now src (take discoveryReadLimit b) s))"

section \<open>The entry stream\<close>

definition read_entries :: "(u8 \<times> bytes) list \<Rightarrow> discovery_info \<Rightarrow> discovery_info" where
  "read_entries es info = fold (\<lambda>(t, v). tlv_field t v) es info"

definition entry_ok :: "u8 \<times> bytes \<Rightarrow> bool" where
  "entry_ok e \<longleftrightarrow> length (snd e) < 65536"

lemma be16_length: "n < 65536 \<Longrightarrow> unat (be16 (word_of_nat (n div 256) # word_of_nat n # r)) = n"
proof -
  assume n: "n < 65536"
  have "[word_of_nat (n div 256), word_of_nat n] = put16 (word_of_nat n)"
  proof -
    have "word_of_nat (n div 256) = (ucast (drop_bit 8 (word_of_nat n :: u16)) :: u8)"
      by (rule unsigned_word_eqI [where 'a = nat]) (use n in \<open>simp add: unsigned_of_nat unsigned_ucast_eq take_bit_eq_mod drop_bit_eq_div unat_div_distrib\<close>)
    moreover have "word_of_nat n = (ucast (word_of_nat n :: u16) :: u8)"
      by (rule unsigned_word_eqI [where 'a = nat])
        (simp add: unsigned_of_nat unsigned_ucast_eq take_bit_eq_mod mod_mod_cancel)
    ultimately show ?thesis by (simp add: put16_def)
  qed
  then have "be16 [word_of_nat (n div 256), word_of_nat n] = word_of_nat n" by simp
  then show ?thesis using n by (simp add: be16_def unat_word_of_nat)
qed

lemma walk_entry:
  "entry_ok e \<Longrightarrow> walk (tlv_bytes e @ r) info = walk r (tlv_field (fst e) (snd e) info)"
  by (simp add: tlv_bytes_def entry_ok_def be16_length)

lemma walk_entries: "list_all entry_ok es \<Longrightarrow> walk (concat (map tlv_bytes es)) info = (read_entries es info, True)"
  by (induction es arbitrary: info) (auto simp: walk_entry read_entries_def split: prod.splits)

lemma walk_Cons:
  assumes "snd (walk (t # r) info)"
  obtains v r' where "length v < 65536" "t # r = tlv_bytes (t, v) @ r'" "length r' < length (t # r)"
    "walk (t # r) info = walk r' (tlv_field t v info)"
proof -
  define l where "l = unat (be16 r)"
  have b: "\<not> length r < 2" "l \<le> length r - 2"
    using assms by (auto simp: l_def Let_def split: if_splits)
  then obtain x y r2 where r: "r = x # y # r2" by (cases r; cases "tl r") auto
  have l: "l < 65536" using unsigned_less [of "be16 r"] by (simp add: l_def)
  have "put16 (be16 [x, y]) = [x, y]" by (rule put16_be16) simp
  then have xy: "put16 (word_of_nat l) = [x, y]" by (simp add: l_def r be16_def)
  have w: "word_of_nat (l div 256) = x" "word_of_nat l = y"
  proof -
    have "be16 (word_of_nat (l div 256) # word_of_nat l # []) = word_of_nat l"
      by (rule unsigned_word_eqI [where 'a = nat]) (use be16_length [OF l, of "[]"] l in \<open>simp add: unat_word_of_nat\<close>)
    then have "put16 (word_of_nat l) = [word_of_nat (l div 256), word_of_nat l]"
      using put16_be16 [of "[word_of_nat (l div 256), word_of_nat l]"] by simp
    with xy show "word_of_nat (l div 256) = x" "word_of_nat l = y" by simp_all
  qed
  show thesis
  proof (rule that [of "take l r2" "drop l r2"])
    show "length (take l r2) < 65536" using l by simp
    show "t # r = tlv_bytes (t, take l r2) @ drop l r2"
      using b w by (simp add: tlv_bytes_def r min_absorb2)
    show "length (drop l r2) < length (t # r)" by (simp add: r)
    show "walk (t # r) info = walk (drop l r2) (tlv_field t (take l r2) info)"
      using b by (simp add: r l_def Let_def)
  qed
qed

lemma walk_sound:
  "walk d info = (info', True) \<Longrightarrow> \<exists>es. list_all entry_ok es \<and> d = concat (map tlv_bytes es) \<and> info' = read_entries es info"
proof (induction "length d" arbitrary: d info rule: less_induct)
  case less
  show ?case
  proof (cases d)
    case Nil
    with less show ?thesis by (intro exI [of _ "[]"]) (simp add: read_entries_def)
  next
    case (Cons t r)
    obtain v r' where v: "length v < 65536" "t # r = tlv_bytes (t, v) @ r'" "length r' < length (t # r)"
      "walk (t # r) info = walk r' (tlv_field t v info)"
      using walk_Cons [of t r info] less.prems Cons by auto
    then obtain es where "list_all entry_ok es" "r' = concat (map tlv_bytes es)"
      "info' = read_entries es (tlv_field t v info)"
      using less.hyps [of r' "tlv_field t v info"] less.prems Cons by auto
    with v Cons show ?thesis
      by (intro exI [of _ "(t, v) # es"]) (simp add: entry_ok_def read_entries_def)
  qed
qed

text \<open>
  The entry walk accepts exactly the concatenations of type-length-value entries and reads them
  in order, each by its own type; a truncated or overlong entry anywhere discards the packet.
\<close>

theorem walk_exact:
  "walk d info = (info', True) \<longleftrightarrow>
     (\<exists>es. list_all entry_ok es \<and> d = concat (map tlv_bytes es) \<and> info' = read_entries es info)"
  using walk_sound walk_entries by metis


section \<open>The reply reads back\<close>

lemma tlv_field_simps [simp]:
  "length v = 6 \<Longrightarrow> tlv_field tlvMAC v info = info\<lparr>di_mac := Some v\<rparr>"
  "length v = 6 \<Longrightarrow> tlv_field tlvSenderMAC v info = info\<lparr>di_sender := Some v\<rparr>"
  "length v = 10 \<Longrightarrow> tlv_field tlvAliasIP v info = info\<lparr>di_aliases := di_aliases info @ [\<lparr>al_mac = take 6 v, al_ip = drop 6 v\<rparr>]\<rparr>"
  "tlv_field tlvSeq (put32 n) info = info\<lparr>di_seq := uint n\<rparr>"
  "tlv_field tlvVersion v info = info\<lparr>di_version := tlv_text v\<rparr>"
  "tlv_field tlvModel v info = info\<lparr>di_model := tlv_text v\<rparr>"
  "tlv_field tlvShortVersion v info = info\<lparr>di_short := tlv_text v\<rparr>"
  "tlv_field tlvFactory [b] info = info\<lparr>di_factory := (b \<noteq> 0), di_has_factory := True\<rparr>"
  by (simp_all add: tlv_field_def tlv_ids tlv_int_def)

definition alias_ok :: "discovery_alias \<Rightarrow> bool" where
  "alias_ok a \<longleftrightarrow> length (al_mac a) = 6 \<and> length (al_ip a) = 4"

lemma read_aliases:
  "list_all alias_ok as \<Longrightarrow>
     read_entries (map (\<lambda>a. (tlvAliasIP, al_mac a @ al_ip a)) as) info = info\<lparr>di_aliases := di_aliases info @ as\<rparr>"
  by (induction as arbitrary: info) (auto simp: read_entries_def alias_ok_def)

lemma read_entries_append: "read_entries (xs @ ys) info = read_entries ys (read_entries xs info)"
  by (simp add: read_entries_def)

lemma tlv_text_bytes_of [simp]: "tlv_text (bytes_of s) = trim_space s"
  by (simp add: tlv_text_def discoveryLatin1String_def)

lemma read_reply:
  assumes "length mac = 6" "list_all alias_ok (rm_aliases m)"
  shows "read_entries (reply_entries seq mac m) info = info\<lparr>di_seq := uint seq, di_sender := Some mac,
     di_mac := Some mac, di_aliases := di_aliases info @ rm_aliases m, di_version := trim_space (rm_firmware m),
     di_model := trim_space (rm_board m), di_short := trim_space (rm_version m),
     di_factory := rm_setup m, di_has_factory := True\<rparr>"
proof -
  have "read_entries [(tlvSeq, put32 seq), (tlvSenderMAC, mac), (tlvMAC, mac)] i
      = i\<lparr>di_seq := uint seq, di_sender := Some mac, di_mac := Some mac\<rparr>" for i
    using assms(1) by (simp add: read_entries_def)
  moreover have "read_entries [(tlvVersion, bytes_of (rm_firmware m)), (tlvModel, bytes_of (rm_board m)),
        (tlvShortVersion, bytes_of (rm_version m)), (tlvFactory, [if rm_setup m then 1 else 0])] i
      = i\<lparr>di_version := trim_space (rm_firmware m), di_model := trim_space (rm_board m),
          di_short := trim_space (rm_version m), di_factory := rm_setup m, di_has_factory := True\<rparr>" for i
    by (simp add: read_entries_def)
  ultimately show ?thesis
    unfolding reply_entries_def read_entries_append by (simp add: read_aliases [OF assms(2)])
qed

lemma entry_size: "e \<in> set es \<Longrightarrow> length (snd e) < length (concat (map tlv_bytes es))"
proof -
  assume "e \<in> set es"
  then obtain xs ys where "es = xs @ e # ys" by (auto dest: split_list)
  then show ?thesis by (simp add: tlv_bytes_def)
qed

lemma reply_shape:
  assumes "discoveryEncodeReply host st = (st', packet)" "packet \<noteq> []"
  obtains mac p where "hex_pairs (filter (\<lambda>c. c \<noteq> CHR '':'') (rm_identity (reply_meta_of host st))) = Some mac"
    "length mac = 6" "p = concat (map tlv_bytes (reply_entries (sg_reply_seq st + 1) mac (reply_meta_of host st)))"
    "packet = 2 # 9 # word_of_nat (length p div 256) # word_of_nat (length p) # p"
  using assms by (auto simp: discoveryEncodeReply_def Let_def split: option.splits if_splits)

text \<open>What the parser makes of a reply: the entries of \<open>m\<close>, and the address its candidate would get.\<close>

definition reply_info :: "udp_addr option \<Rightarrow> u32 \<Rightarrow> bytes \<Rightarrow> reply_metadata \<Rightarrow> discovery_info" where
  "reply_info src seq mac m = blank_info\<lparr>di_ver := 2, di_cmd := 9, di_seq := uint seq, di_sender := Some mac,
     di_mac := Some mac, di_aliases := rm_aliases m, di_version := trim_space (rm_firmware m),
     di_model := trim_space (rm_board m), di_short := trim_space (rm_version m), di_factory := rm_setup m,
     di_has_factory := True, di_ip := (case rm_aliases m of a # _ \<Rightarrow> ip_text (al_ip a)
       | [] \<Rightarrow> (case src of Some s \<Rightarrow> ip_text (ua_ip s) | None \<Rightarrow> []))\<rparr>"


definition demo_alias :: discovery_alias where
  "demo_alias = \<lparr>al_mac = [0, 17, 34, 51, 68, 85], al_ip = [192, 168, 1, 2]\<rparr>"

definition demo_host :: "iface list" where
  "demo_host = [\<lparr>if_loopback = True, if_p2p = False, if_hw = [], if_addrs = [[127, 0, 0, 1]]\<rparr>,
     \<lparr>if_loopback = False, if_p2p = False, if_hw = al_mac demo_alias, if_addrs = [al_ip demo_alias]\<rparr>]"

definition fresh_sightings :: sightings where
  "fresh_sightings = \<lparr>sg_by_mac = [], sg_reply_seq = 0, sg_reply_meta = None, sg_reply_destination = None,
     sg_test_identity = [], sg_source_allowed = None\<rparr>"


section \<open>Anti-replay\<close>

text \<open>The packets a run of sightings lets through, with their times.\<close>

fun accepted :: "sightings \<Rightarrow> (int \<times> discovery_info) list \<Rightarrow> (int \<times> discovery_info) list" where
  "accepted st [] = []"
| "accepted st ((now, info) # r) = (let (st', ok) = seeDiscovery now info st in
     (if ok then [(now, info)] else []) @ accepted st' r)"

text \<open>The reference: one remembered sighting per MAC, kept for ever.\<close>

definition mac_key :: "discovery_info \<Rightarrow> string" where
  "mac_key info = discoveryMACString (opt_or [] (di_mac info))"

fun accepted_unbounded ::
    "(string \<Rightarrow> sighting option) \<Rightarrow> (int \<times> discovery_info) list \<Rightarrow> (int \<times> discovery_info) list" where
  "accepted_unbounded u [] = []"
| "accepted_unbounded u ((now, info) # r) = (if fresh_sighting now (di_seq info) (u (mac_key info))
     then (now, info) # accepted_unbounded (u(mac_key info \<mapsto> \<lparr>si_seq = di_seq info, si_seen = now\<rparr>)) r
     else accepted_unbounded u r)"

definition covers :: "int \<Rightarrow> (string \<times> sighting) list \<Rightarrow> (string \<Rightarrow> sighting option) \<Rightarrow> bool" where
  "covers now m u \<longleftrightarrow> distinct (map fst m) \<and> (\<forall>k. jget m k = u k
     \<or> (jget m k = None \<and> (\<exists>v. u k = Some v \<and> discoveryDedupWindow \<le> now - si_seen v)))"

lemma covers_later: "covers t m u \<Longrightarrow> t \<le> now \<Longrightarrow> covers now m u"
  unfolding covers_def by (meson diff_mono dual_order.trans order_refl)

lemma covers_fresh: "covers now m u \<Longrightarrow> fresh_sighting now q (jget m k) = fresh_sighting now q (u k)"
  unfolding covers_def fresh_sighting_def by (auto split: option.splits dest!: spec [of _ k])

lemma jget_filter: "distinct (map fst m) \<Longrightarrow>
  jget (filter (\<lambda>(k, v). P v) m) k = (case jget m k of Some v \<Rightarrow> if P v then Some v else None | None \<Rightarrow> None)"
proof (induction m)
  case (Cons e m)
  obtain a b where e: "e = (a, b)" by fastforce
  show ?case
  proof (cases "k = a")
    case True
    then have "jget (filter (\<lambda>(k, v). P v) m) k = None"
      using Cons.prems by (auto simp: e jget_None_iff)
    with True show ?thesis by (simp add: e)
  next
    case False
    with Cons show ?thesis by (simp add: e)
  qed
qed simp

lemma covers_prune: "covers now m u \<Longrightarrow> covers now (prune_sightings now m) u"
  unfolding covers_def prune_sightings_def
  by (auto simp: jget_filter distinct_map_filter split: option.splits) (metis not_less option.distinct(1) option.inject)+

lemma covers_set: "covers now m u \<Longrightarrow> covers now (jset k v m) (u(k \<mapsto> v))"
  unfolding covers_def by (auto simp: row_simps)

lemma seeDiscovery_cases:
  "seeDiscovery now info st = (if fresh_sighting now (di_seq info) (jget (sg_by_mac st) (mac_key info))
     then (st\<lparr>sg_by_mac := prune_sightings now
             (jset (mac_key info) \<lparr>si_seq = di_seq info, si_seen = now\<rparr> (sg_by_mac st))\<rparr>, True)
     else (st, False))"
  by (simp add: seeDiscovery_def mac_key_def Let_def)

lemma accepted_covers:
  "covers t (sg_by_mac st) u \<Longrightarrow> sorted (map fst evs) \<Longrightarrow> \<forall>e \<in> set evs. t \<le> fst e \<Longrightarrow>
     accepted st evs = accepted_unbounded u evs"
proof (induction evs arbitrary: t st u)
  case (Cons e r)
  obtain now info where e: "e = (now, info)" by fastforce
  have c: "covers now (sg_by_mac st) u" using Cons.prems(1,3) by (auto simp: e intro: covers_later)
  have r: "sorted (map fst r)" "\<forall>e \<in> set r. now \<le> fst e" using Cons.prems(2) by (auto simp: e)
  note f = covers_fresh [OF c, of "di_seq info" "mac_key info"]
  have "accepted (st\<lparr>sg_by_mac := prune_sightings now (jset (mac_key info) \<lparr>si_seq = di_seq info, si_seen = now\<rparr> (sg_by_mac st))\<rparr>) r
      = accepted_unbounded (u(mac_key info \<mapsto> \<lparr>si_seq = di_seq info, si_seen = now\<rparr>)) r"
    by (rule Cons.IH [OF _ r]) (simp add: covers_prune covers_set c del: fun_upd_apply)
  with Cons.IH [OF c r] f show ?case
    by (simp add: e seeDiscovery_cases del: fun_upd_apply)
qed simp

lemma unbounded_subset: "set (accepted_unbounded u evs) \<subseteq> set evs"
  by (induction u evs rule: accepted_unbounded.induct) (auto simp del: fun_upd_apply split: if_splits)

lemma unbounded_later:
  "(t, i) \<in> set (accepted_unbounded u evs) \<Longrightarrow> sorted (map fst evs) \<Longrightarrow> u (mac_key i) = Some p \<Longrightarrow>
     \<forall>e \<in> set evs. si_seen p \<le> fst e \<Longrightarrow> t - si_seen p < discoveryDedupWindow \<Longrightarrow> si_seq p < di_seq i"
proof (induction evs arbitrary: u p)
  case (Cons e r)
  obtain now info where e: "e = (now, info)" by fastforce
  have r: "sorted (map fst r)" "\<forall>e \<in> set r. now \<le> fst e" using Cons.prems(2) by (auto simp: e)
  have p: "si_seen p \<le> now" "\<forall>e \<in> set r. si_seen p \<le> fst e" using Cons.prems(4) by (auto simp: e)
  show ?case
  proof (cases "fresh_sighting now (di_seq info) (u (mac_key info))")
    case False
    then have "(t, i) \<in> set (accepted_unbounded u r)" using Cons.prems(1) by (simp add: e)
    from Cons.IH [OF this r(1) Cons.prems(3) p(2) Cons.prems(5)] show ?thesis .
  next
    case True
    define u' where "u' = u(mac_key info \<mapsto> \<lparr>si_seq = di_seq info, si_seen = now\<rparr>)"
    have jump: "si_seq p < di_seq info" if "mac_key i = mac_key info" "now \<le> t"
      using True Cons.prems(3,5) that by (simp add: fresh_sighting_def)
    consider "(t, i) = (now, info)" | "(t, i) \<in> set (accepted_unbounded u' r)"
      using Cons.prems(1) True by (auto simp: e u'_def)
    then show ?thesis
    proof cases
      case 1
      then show ?thesis using jump by simp
    next
      case 2
      then have "(t, i) \<in> set r" using unbounded_subset by blast
      then have t: "now \<le> t" using r(2) by auto
      show ?thesis
      proof (cases "mac_key i = mac_key info")
        case False
        then have "u' (mac_key i) = Some p" using Cons.prems(3) by (simp add: u'_def)
        from Cons.IH [OF 2 r(1) this p(2) Cons.prems(5)] show ?thesis .
      next
        case same: True
        then have "u' (mac_key i) = Some \<lparr>si_seq = di_seq info, si_seen = now\<rparr>" by (simp add: u'_def)
        from Cons.IH [OF 2 r(1) this] r(2) p(1) Cons.prems(5) have "di_seq info < di_seq i" by simp
        with jump [OF same t] show ?thesis by simp
      qed
    qed
  qed
qed simp

definition replay_ordered :: "int \<times> discovery_info \<Rightarrow> int \<times> discovery_info \<Rightarrow> bool" where
  "replay_ordered a b \<longleftrightarrow> (mac_key (snd a) = mac_key (snd b) \<and> fst b - fst a < discoveryDedupWindow
     \<longrightarrow> di_seq (snd a) < di_seq (snd b))"

lemma unbounded_ordered: "sorted (map fst evs) \<Longrightarrow> sorted_wrt replay_ordered (accepted_unbounded u evs)"
proof (induction evs arbitrary: u)
  case (Cons e r)
  obtain now info where e: "e = (now, info)" by fastforce
  have r: "sorted (map fst r)" "\<forall>e \<in> set r. now \<le> fst e" using Cons.prems by (auto simp: e)
  define u' where "u' = u(mac_key info \<mapsto> \<lparr>si_seq = di_seq info, si_seen = now\<rparr>)"
  have "replay_ordered (now, info) x" if "x \<in> set (accepted_unbounded u' r)" for x
    using unbounded_later [of "fst x" "snd x" u' r "\<lparr>si_seq = di_seq info, si_seen = now\<rparr>"] that r
    by (auto simp: replay_ordered_def u'_def)
  then show ?case using Cons.IH [OF r(1)] by (simp add: e u'_def)
qed simp

lemma accepted_fresh:
  assumes "sg_by_mac st = []" "sorted (map fst evs)"
  shows "accepted st evs = accepted_unbounded Map.empty evs"
proof (cases evs)
  case (Cons e r)
  show ?thesis
    by (rule accepted_covers [of "fst e"]) (use assms Cons in \<open>auto simp: covers_def\<close>)
qed simp

text \<open>
  Pruning the anti-replay memory is invisible: at non-decreasing times the packets let through
  are those of the memory that never forgets, however large it has grown.
\<close>

theorem pruning_invisible:
  assumes "sg_by_mac st = []" "sorted (map fst evs)"
  shows "accepted st evs = accepted_unbounded Map.empty evs"
  using assms by (rule accepted_fresh)

definition demo_sighting :: "int \<Rightarrow> int \<Rightarrow> int \<times> discovery_info" where
  "demo_sighting now q = (now, blank_info\<lparr>di_mac := Some [0, 17, 34, 51, 68, 85], di_seq := q\<rparr>)"

lemma pruning_invisible_witness:
  "accepted fresh_sightings [demo_sighting 1 1, demo_sighting 2 1, demo_sighting 3 2]
     = accepted_unbounded Map.empty [demo_sighting 1 1, demo_sighting 2 1, demo_sighting 3 2]"
  by (rule pruning_invisible) (simp_all add: fresh_sightings_def demo_sighting_def)

text \<open>What a run of the listener lets through, with the times, whatever the handler then does with it.\<close>

fun heard :: "disco_env \<Rightarrow> disco \<Rightarrow> (int \<times> udp_addr option \<times> bytes) list \<Rightarrow> (int \<times> discovery_info) list" where
  "heard E s [] = []"
| "heard E s ((now, src, b) # r) =
    (let (_, info, ok) = parseDiscovery (de_host E) now src (take discoveryReadLimit b) (dc_sightings s)
     in (if ok then [(now, info)] else []) @ heard E (serve_datagram E s (now, src, b)) r)"

definition announce2 :: "discovery_info \<Rightarrow> bool" where
  "announce2 info \<longleftrightarrow> di_ver info = 2 \<and> di_cmd info \<noteq> 8"

text \<open>A version-2 packet other than a probe is let through by the gate alone; nothing else touches the memory.\<close>

lemma parse_gate:
  assumes "parseDiscovery host now src b st = (st', info, ok)"
  shows "(st' = st \<and> (ok \<longrightarrow> \<not> announce2 info)) \<or> (announce2 info \<and> seeDiscovery now info st = (st', ok))"
proof (cases b)
  case (Cons v r)
  show ?thesis
  proof (cases "v = 1 \<or> v = 2")
    case True
    then have "v \<noteq> 0" by auto
    with True Cons assms have "parseDiscoveryModern host now src b st = (st', info, ok)"
      by (simp add: parseDiscovery_def)
    then show ?thesis
      by (auto simp: parseDiscoveryModern_def Let_def announce2_def split: prod.splits if_splits)
  next
    case False
    with Cons assms show ?thesis
      by (auto simp: parseDiscovery_def parseDiscoveryV0_def blank_info_def announce2_def split: if_splits)
  qed
qed (use assms in \<open>simp add: parseDiscovery_def\<close>)

lemma accepted_cong: "sg_by_mac st = sg_by_mac st' \<Longrightarrow> accepted st evs = accepted st' evs"
proof (induction evs arbitrary: st st')
  case (Cons e r)
  obtain now info where e: "e = (now, info)" by fastforce
  let ?new = "\<lambda>st. st\<lparr>sg_by_mac := prune_sightings now
    (jset (mac_key info) \<lparr>si_seq = di_seq info, si_seen = now\<rparr> (sg_by_mac st))\<rparr>"
  have "sg_by_mac (?new st) = sg_by_mac (?new st')" using Cons.prems by simp
  note tails = Cons.IH [OF this] Cons.IH [OF Cons.prems]
  show ?case by (simp only: e accepted.simps seeDiscovery_cases Cons.prems) (simp add: tails [unfolded Cons.prems])
qed simp

lemma serve_memory:
  "sg_by_mac (dc_sightings (serve_datagram E s (now, src, b)))
    = sg_by_mac (fst (parseDiscovery (de_host E) now src (take discoveryReadLimit b) (dc_sightings s)))"
  by (auto simp: serve_datagram_def handleDiscoveryPacketConn_def discoveryEncodeReply_def Let_def
      split: prod.splits if_splits option.splits)

lemma heard_accepted:
  "sorted (map fst dgs) \<Longrightarrow> \<exists>evs. sorted (map fst evs) \<and> fst ` set evs \<subseteq> fst ` set dgs
     \<and> filter (\<lambda>(t, i). announce2 i) (heard E s dgs) = accepted (dc_sightings s) evs"
proof (induction dgs arbitrary: s)
  case Nil
  then show ?case by (intro exI [of _ "[]"]) simp
next
  case (Cons dg r)
  obtain now src b where dg: "dg = (now, src, b)" by (metis prod_cases3)
  let ?s = "serve_datagram E s (now, src, b)"
  obtain st' info ok where p: "parseDiscovery (de_host E) now src (take discoveryReadLimit b) (dc_sightings s) = (st', info, ok)"
    by (metis prod_cases3)
  have "sorted (map fst r)" using Cons.prems by (simp add: dg)
  from Cons.IH [OF this, of ?s] obtain evs where evs: "sorted (map fst evs)" "fst ` set evs \<subseteq> fst ` set r"
    "filter (\<lambda>(t, i). announce2 i) (heard E ?s r) = accepted (dc_sightings ?s) evs" by blast
  have "sg_by_mac (dc_sightings ?s) = sg_by_mac st'" using p by (simp add: serve_memory)
  then have a: "accepted (dc_sightings ?s) evs = accepted st' evs" by (rule accepted_cong)
  from parse_gate [OF p] show ?case
  proof (elim disjE conjE)
    assume "st' = dc_sightings s" "ok \<longrightarrow> \<not> announce2 info"
    then show ?thesis using evs a p by (intro exI [of _ evs]) (auto simp: dg)
  next
    assume g: "announce2 info" "seeDiscovery now info (dc_sightings s) = (st', ok)"
    have "\<forall>t \<in> fst ` set r. now \<le> t" using Cons.prems by (auto simp: dg)
    then have "\<forall>t \<in> fst ` set evs. now \<le> t" using evs(2) by blast
    then show ?thesis using evs a p g by (intro exI [of _ "(now, info) # evs"]) (auto simp: dg)
  qed
qed

text \<open>
  C29: no replay inside the window: whatever datagrams reach the listener, of two version-2 packets of one
  device that are let through less than five seconds apart, the later one has the higher sequence number.
  (Version-0 and version-1 packets and the version-2 command-8 probes carry no sequence number the gate
  checks, and are not covered.)
\<close>

theorem no_replay_in_window:
  assumes "sg_by_mac (dc_sightings s) = []" "sorted (map fst dgs)"
  shows "sorted_wrt (\<lambda>(t, i) (t', j). di_mac i = di_mac j \<and> t' - t < discoveryDedupWindow \<longrightarrow> di_seq i < di_seq j)
    (filter (\<lambda>(t, i). di_ver i = 2 \<and> di_cmd i \<noteq> 8) (heard E s dgs))"
proof -
  obtain evs where evs: "sorted (map fst evs)"
    "filter (\<lambda>(t, i). announce2 i) (heard E s dgs) = accepted (dc_sightings s) evs"
    using heard_accepted [OF assms(2)] by blast
  have "accepted (dc_sightings s) evs = accepted_unbounded Map.empty evs" using assms(1) evs(1) by (rule accepted_fresh)
  then have "sorted_wrt replay_ordered (filter (\<lambda>(t, i). announce2 i) (heard E s dgs))"
    using unbounded_ordered evs by simp
  then show ?thesis unfolding announce2_def
    by (rule sorted_wrt_mono_rel [rotated]) (auto simp: replay_ordered_def mac_key_def)
qed

section \<open>The note\<close>

lemma digits_no_comma: "CHR '','' \<notin> set (dec_nat n)"
  using dec_nat_digits [of n] by (auto simp: list_all_iff is_digit_def)

lemma note_part_facts:
  "w \<in> set (note_string k v) \<Longrightarrow> CHR '','' \<notin> set k \<Longrightarrow> CHR '','' \<notin> set w"
  "w \<in> set (note_int k n) \<Longrightarrow> CHR '','' \<notin> set k \<Longrightarrow> CHR '','' \<notin> set w"
  by (auto simp: note_string_def note_int_def remove_char_def itoa_def digits_no_comma Let_def split: if_splits)

lemma note_parts_clean: "w \<in> set (note_parts info) \<Longrightarrow> CHR '','' \<notin> set w"
  unfolding note_parts_def by (auto dest: note_part_facts split: if_splits)

text \<open>
  A device cannot forge a note: splitting the note at its commas gives back exactly the parts
  the controller wrote, whatever commas the announced strings held.
\<close>

theorem note_not_forgeable:
  "split_on CHR '','' (drop (length ''discovery:'') (discoveryNote info))
     = (if note_parts info = [] then [[]] else note_parts info)"
  using split_join [of "note_parts info" "CHR '',''"] note_parts_clean
  by (auto simp: discoveryNote_def)

section \<open>Datagrams and the store\<close>

lemma record_candidate:
  "db_devices (js_db (recordDiscoveryCandidate now io info s)) = db_devices (js_db s)"
  "db_inv (js_db s) \<Longrightarrow> db_inv (js_db (recordDiscoveryCandidate now io info s))"
proof -
  have d: "db_devices (js_db (fst (js_MarkPending now io mac nt s))) = db_devices (js_db s)" for mac nt
    by (auto simp: js_MarkPending_def js_save_def db_markPending_def evictExpiredLocked_def Let_def
        split: sum.splits store_error.splits option.splits prod.splits if_splits)
  then show "db_devices (js_db (recordDiscoveryCandidate now io info s)) = db_devices (js_db s)"
    by (simp add: recordDiscoveryCandidate_def split: option.splits)
  show "db_inv (js_db s) \<Longrightarrow> db_inv (js_db (recordDiscoveryCandidate now io info s))"
  proof -
    assume i: "db_inv (js_db s)"
    have "db_inv (js_db (fst (js_MarkPending now io mac nt s)))" for mac nt
    proof (cases "db_markPending now mac nt (js_db s)")
      case (Inl e)
      then show ?thesis using i by (cases e) (simp_all add: js_MarkPending_def evict_inv)
    next
      case (Inr r)
      then have "db_inv (snd r)"
        using db_MarkPending_inv [OF i, of now mac nt "snd r"] by (cases r) (simp add: db_MarkPending_def)
      with Inr show ?thesis by (cases r) (simp add: js_MarkPending_def js_save_def)
    qed
    then show ?thesis using i by (simp add: recordDiscoveryCandidate_def split: option.splits)
  qed
qed

text \<open>
  A datagram can neither adopt nor change a device: whatever it holds, every device record stays
  as it is; the store is touched only by an accepted announce (command 6 or 0x80), and a
  datagram is written only to answer a version-2 command-8 beacon that every reply gate allows.
\<close>

theorem datagram_effects:
  "let (s', out) = handleDiscoveryPacketConn E now src b s;
       (st, info, ok) = parseDiscovery (de_host E) now src b (dc_sightings s) in
     db_devices (js_db (dc_store s')) = db_devices (js_db (dc_store s))
     \<and> (dc_store s' = dc_store s \<or> ok \<and> (di_cmd info = 6 \<or> di_cmd info = 0x80))
     \<and> (out = None \<or> ok \<and> di_ver info = 2 \<and> di_cmd info = 8 \<and> dc_store s' = dc_store s
         \<and> reply_allowed E src info (s\<lparr>dc_sightings := st\<rparr>))"
proof -
  obtain st info ok where p: "parseDiscovery (de_host E) now src b (dc_sightings s) = (st, info, ok)"
    by (metis prod_cases3)
  show ?thesis
    by (auto simp: handleDiscoveryPacketConn_def p record_candidate Let_def split: prod.splits if_splits)
qed

interpretation disco_machine: machine "serve_datagram E" "\<lambda>s::disco. db_inv (js_db (dc_store s))" for E
proof unfold_locales
  fix s :: disco and e :: "int \<times> udp_addr option \<times> bytes" assume i: "db_inv (js_db (dc_store s))"
  obtain now src b where e: "e = (now, src, b)" by (metis prod_cases3)
  show "db_inv (js_db (dc_store (serve_datagram E s e)))"
    using i by (auto simp: serve_datagram_def e handleDiscoveryPacketConn_def record_candidate Let_def
        split: prod.splits if_splits)
qed

text \<open>
  The pending list is bounded against a hostile network: after any sequence of datagrams it
  holds at most 100 candidates, each under its canonical MAC, and the store invariant holds.
\<close>

theorem datagram_flood_bounded:
  assumes "db_inv (js_db (dc_store s))"
  shows "db_inv (js_db (dc_store (foldl (serve_datagram E) s dgs)))
    \<and> length (db_pending (js_db (dc_store (foldl (serve_datagram E) s dgs)))) \<le> 100"
  using disco_machine.run_inv [OF assms, of E dgs] by (simp add: db_inv_def maxPending_def)

definition demo_disco :: disco where
  "demo_disco = \<lparr>dc_sightings = fresh_sightings, dc_store = empty_store\<rparr>"

definition demo_disco_env :: disco_env where
  "demo_disco_env = \<lparr>de_host = demo_host, de_discoverable = False, de_conn = True, de_io = True\<rparr>"

definition demo_announce :: bytes where
  "demo_announce = [1, 6] @ put16 9 @ tlv_bytes (tlvMAC, [0, 21, 109, 1, 0, 1])"

definition demo_hello :: "u32 \<Rightarrow> bytes" where
  "demo_hello q = (let p = concat (map tlv_bytes [(tlvSeq, put32 q), (tlvSenderMAC, [0, 21, 109, 1, 0, 1]), (tlvMAC, [0, 21, 109, 1, 0, 1])])
     in [2, 6] @ put16 (word_of_nat (length p)) @ p)"

lemma no_replay_in_window_witness:
  "map (di_seq \<circ> snd) (heard demo_disco_env demo_disco [(1, None, demo_hello 1), (2, None, demo_hello 1), (3, None, demo_hello 2)]) = [1, 2]
   \<and> sorted_wrt (\<lambda>(t, i) (t', j). di_mac i = di_mac j \<and> t' - t < discoveryDedupWindow \<longrightarrow> di_seq i < di_seq j)
      (filter (\<lambda>(t, i). di_ver i = 2 \<and> di_cmd i \<noteq> 8)
        (heard demo_disco_env demo_disco [(1, None, demo_hello 1), (2, None, demo_hello 1), (3, None, demo_hello 2)]))"
proof
  show "map (di_seq \<circ> snd) (heard demo_disco_env demo_disco [(1, None, demo_hello 1), (2, None, demo_hello 1), (3, None, demo_hello 2)]) = [1, 2]"
    by code_simp
  show "sorted_wrt (\<lambda>(t, i) (t', j). di_mac i = di_mac j \<and> t' - t < discoveryDedupWindow \<longrightarrow> di_seq i < di_seq j)
      (filter (\<lambda>(t, i). di_ver i = 2 \<and> di_cmd i \<noteq> 8)
        (heard demo_disco_env demo_disco [(1, None, demo_hello 1), (2, None, demo_hello 1), (3, None, demo_hello 2)]))"
    by (rule no_replay_in_window) (simp_all add: demo_disco_def fresh_sightings_def)
qed

lemma datagram_flood_bounded_witness:
  "map fst (db_pending (js_db (dc_store (foldl (serve_datagram demo_disco_env) demo_disco [(0, None, demo_announce)]))))
      = [''00156d010001'']
   \<and> length (db_pending (js_db (dc_store (foldl (serve_datagram demo_disco_env) demo_disco [(0, None, demo_announce)])))) \<le> 100"
proof
  show "map fst (db_pending (js_db (dc_store (foldl (serve_datagram demo_disco_env) demo_disco [(0, None, demo_announce)]))))
      = [''00156d010001'']" by code_simp
  have "db_inv (js_db (dc_store demo_disco))"
    by (simp add: demo_disco_def empty_store_def db_inv_new)
  from datagram_flood_bounded [OF this]
  show "length (db_pending (js_db (dc_store (foldl (serve_datagram demo_disco_env) demo_disco [(0, None, demo_announce)])))) \<le> 100"
    by blast
qed

text \<open>
  Legacy announces are lost: a version-0 card carries no command, so its command reads as 0 and
  the dispatch drops it as unsupported; no version-0 device ever reaches the pending list.
\<close>

theorem v0_announce_lost: "handleDiscoveryPacketConn E now src (0 # rest) s = (s, None)"
  by (simp add: handleDiscoveryPacketConn_def parseDiscovery_def parseDiscoveryV0_def blank_info_def)

text \<open>A host without an identity answers a beacon with an empty datagram and spends a sequence number.\<close>

lemma identityless_reply_empty:
  "reply_meta_of host st = m \<Longrightarrow> rm_identity m = [] \<Longrightarrow>
     discoveryEncodeReply host st = (st\<lparr>sg_reply_seq := sg_reply_seq st + 1\<rparr>, [])"
  by (simp add: discoveryEncodeReply_def)

end
