(* ===== verification/Mgmt_Cfg.thy ===== *)
theory Mgmt_Cfg
  imports Admin_Rows Delivery
begin

text \<open>
  What the adoption engine sends inside a setparam: the mgmt_cfg blob (\<^verbatim>\<open>adoption/mgmtcfg.go\<close>) and
  the blocked_sta content with its delivery baseline (\<^verbatim>\<open>adoption/blockedsta.go\<close>). \<^verbatim>\<open>url.Parse\<close> is a
  field of the engine record; \<^verbatim>\<open>net.SplitHostPort\<close> and \<^verbatim>\<open>strings.TrimSpace\<close> (on ASCII) are modelled.
\<close>

section \<open>The engine's facts\<close>

record url =
  u_scheme :: string
  u_hostname :: string
  u_port :: string

text \<open>
  The dependencies of one decision: the URL parser, the controller's address facts, the
  wireless source (\<open>None\<close> for a nil source), the system_cfg producer (\<open>None\<close> for its error),
  the JSON and hash functions, the random lower-case hexadecimal keys (what the \<open>i\<close>-th call for
  \<open>n\<close> characters returns, \<open>None\<close> for its error) and the one random number a decision may draw.
\<close>

record engine =
  en_url_parse :: "string \<Rightarrow> url option"
  en_controller_url :: string
  en_listen_addr :: string
  en_wireless :: "(device \<Rightarrow> wlan list option) option"
  en_system_cfg :: "device \<Rightarrow> wlan list option \<Rightarrow> provisioning_plan \<Rightarrow> (string \<times> (string \<times> string) list) option"
  en_json :: json_text
  en_key_chars :: "nat \<Rightarrow> nat \<Rightarrow> string option"
  en_random :: rat

definition wirelessForDevice :: "engine \<Rightarrow> device \<Rightarrow> wlan list option" where
  "wirelessForDevice e d = (case en_wireless e of None \<Rightarrow> None | Some f \<Rightarrow> f d)"

section \<open>Host and port\<close>

definition defaultInformPort :: string where "defaultInformPort = ''8080''"
definition defaultMgmtPort :: string where "defaultMgmtPort = ''8443''"
definition defaultStunPort :: string where "defaultStunPort = ''3478''"

definition ascii_space :: "char \<Rightarrow> bool" where
  "ascii_space c \<longleftrightarrow> (of_char c :: nat) \<in> {9, 10, 11, 12, 13, 32}"

definition TrimSpace :: "string \<Rightarrow> string" where
  "TrimSpace s = rev (dropWhile ascii_space (rev (dropWhile ascii_space s)))"

fun index_of :: "char \<Rightarrow> string \<Rightarrow> nat option" where
  "index_of c [] = None"
| "index_of c (x # xs) = (if x = c then Some 0 else map_option Suc (index_of c xs))"

definition last_index :: "char \<Rightarrow> string \<Rightarrow> nat option" where
  "last_index c s = map_option (\<lambda>i. length s - 1 - i) (index_of c (rev s))"

definition SplitHostPort :: "string \<Rightarrow> (string \<times> string) option" where
  "SplitHostPort hp = (case last_index (CHR '':'') hp of
     None \<Rightarrow> None
   | Some i \<Rightarrow>
       let bracketed = (case hp of c # _ \<Rightarrow> c = CHR ''['' | [] \<Rightarrow> False);
           split = (if bracketed
             then (case index_of (CHR '']'') hp of
                     None \<Rightarrow> None
                   | Some e \<Rightarrow> if e + 1 = i then Some (take (e - 1) (drop 1 hp), 1, e + 1) else None)
             else if CHR '':'' \<in> set (take i hp) then None else Some (take i hp, 0, 0))
       in case split of
            None \<Rightarrow> None
          | Some (host, j, k) \<Rightarrow>
              if CHR ''['' \<in> set (drop j hp) \<or> CHR '']'' \<in> set (drop k hp) then None
              else Some (host, drop (i + 1) hp))"

definition addrHost :: "engine \<Rightarrow> string \<Rightarrow> string" where
  "addrHost e raw = (case en_url_parse e raw of None \<Rightarrow> [] | Some u \<Rightarrow> u_hostname u)"

definition advertHost :: "engine \<Rightarrow> device \<Rightarrow> string" where
  "advertHost e d = (let h = addrHost e (en_controller_url e) in if h \<noteq> [] then h
     else let h = addrHost e (dev_inform_url d) in if h \<noteq> [] then h else dev_ip d)"

definition informURLPortFor :: "engine \<Rightarrow> string" where
  "informURLPortFor e =
    (let listen = (case SplitHostPort (TrimSpace (en_listen_addr e)) of
           Some (_, port) \<Rightarrow> if port \<noteq> [] then port else defaultInformPort
         | None \<Rightarrow> defaultInformPort)
     in case en_url_parse e (en_controller_url e) of
          Some u \<Rightarrow> if u_port u \<noteq> [] then u_port u else listen
        | None \<Rightarrow> listen)"

definition InformURL :: "engine \<Rightarrow> string" where
  "InformURL e = (let host = addrHost e (en_controller_url e)
     in if host = [] then []
        else ''http://'' @ host @ '':'' @ informURLPortFor e @ ''/inform'')"

definition mgmtPort :: "engine \<Rightarrow> string" where
  "mgmtPort e = (case en_url_parse e (en_controller_url e) of
     None \<Rightarrow> defaultMgmtPort
   | Some u \<Rightarrow> if u_scheme u \<noteq> ''https'' then defaultMgmtPort
       else if u_port u = [] then ''443'' else u_port u)"

section \<open>mgmt_cfg\<close>

definition ledEnabledValue :: "device \<Rightarrow> string" where
  "ledEnabledValue d =
    (let siteLEDEnabledDefault = True;
         override = (if dev_led_override d = [] then ''default'' else dev_led_override d);
         ledOn = (\<not> dev_disabled d \<and> (override = ''on'' \<or> override = ''default'' \<and> siteLEDEnabledDefault))
     in if ledOn then ''true'' else ''false'')"

definition mgmt_rows :: "engine \<Rightarrow> device \<Rightarrow> string \<Rightarrow> (string \<times> string) list" where
  "mgmt_rows e d usedKey =
    (let host = advertHost e d; site = SiteRef d; p = mgmtPort e
     in [(''capability'', ''notif,notif-assoc-stat''),
         (''selfrun_guest_mode'', ''pass''),
         (''cfgversion'', dev_cfg_version d),
         (''led_enabled'', ledEnabledValue d),
         (''stun_url'', ''stun://'' @ host @ '':'' @ defaultStunPort @ ''/''),
         (''mgmt_url'', if p = ''443'' then ''https://'' @ host @ ''/manage/site/'' @ site
            else ''https://'' @ host @ '':'' @ p @ ''/manage/site/'' @ site)]
        @ (if dev_x_authkey d \<noteq> [] \<and> \<not> equal_fold usedKey (dev_x_authkey d)
           then [(''authkey'', dev_x_authkey d)] else [])
        @ (if en_controller_url e \<noteq> [] \<and> host \<noteq> []
           then [(''inform_url'', ''http://'' @ host @ '':'' @ informURLPortFor e @ ''/inform'')] else [])
        @ [(''use_aes_gcm'', ''true''), (''report_crash'', ''true'')])"

definition BuildMgmtCfg :: "engine \<Rightarrow> device \<Rightarrow> string \<Rightarrow> string" where
  "BuildMgmtCfg e d usedKey = fst (fold (\<lambda>(k, v). LineWriter k v) (mgmt_rows e d usedKey) ([], []))"

section \<open>blocked_sta\<close>

definition blockedStaWire :: "device \<Rightarrow> string" where
  "blockedStaWire d = (let clients = BlockedClients d
     in if clients = [] then [] else join_with [CHR 0x0A] (map ColonMAC clients))"

definition blockedStaHash :: "engine \<Rightarrow> string \<Rightarrow> string" where
  "blockedStaHash e wire = sha256_hex (en_json e) wire"

definition blockedStaDrift :: "engine \<Rightarrow> device \<Rightarrow> string \<times> bool" where
  "blockedStaDrift e d = (let wire = blockedStaWire d
     in case get_str (ext d) BlockedStaShaExtraKey of
          None \<Rightarrow> (wire, wire \<noteq> [])
        | Some baseline \<Rightarrow> (wire, blockedStaHash e wire \<noteq> baseline))"

definition stampBlockedSta :: "engine \<Rightarrow> string \<Rightarrow> device \<Rightarrow> device" where
  "stampBlockedSta e wire d = ext_set BlockedStaShaExtraKey (GStr (blockedStaHash e wire)) d"

section \<open>A blob reads back as its rows\<close>

fun split_lines :: "string \<Rightarrow> string list" where
  "split_lines [] = []"
| "split_lines (c # s) = (if c = CHR 0x0A then [] # split_lines s
     else (case split_lines s of [] \<Rightarrow> [[c]] | l # ls \<Rightarrow> (c # l) # ls))"

definition parse_row :: "string \<Rightarrow> string \<times> string" where
  "parse_row l = (takeWhile (\<lambda>c. c \<noteq> CHR ''='') l, drop 1 (dropWhile (\<lambda>c. c \<noteq> CHR ''='') l))"

definition parse_rows :: "string \<Rightarrow> (string \<times> string) list" where
  "parse_rows s = map parse_row (split_lines s)"

definition row_text :: "string \<times> string \<Rightarrow> string" where
  "row_text kv = fst kv @ ''='' @ snd kv @ [CHR 0x0A]"

definition row_key :: "string \<Rightarrow> bool" where
  "row_key k \<longleftrightarrow> CHR ''='' \<notin> set k \<and> CHR 0x0A \<notin> set k"

lemma split_line: "CHR 0x0A \<notin> set l \<Longrightarrow> split_lines (l @ CHR 0x0A # s) = l # split_lines s"
  by (induction l) auto

lemma parse_row_text: "row_key k \<Longrightarrow> parse_row (k @ CHR ''='' # v) = (k, v)"
  by (induction k) (auto simp: parse_row_def row_key_def)

lemma parse_rows_text:
  assumes "list_all (\<lambda>kv. row_key (fst kv) \<and> \<not> has_newline (snd kv)) rows"
  shows "parse_rows (concat (map row_text rows)) = rows"
  using assms
proof (induction rows)
  case (Cons kv rows)
  obtain k v where kv: "kv = (k, v)" by (cases kv)
  then have nl: "CHR 0x0A \<notin> set (k @ CHR ''='' # v)"
    using Cons.prems by (auto simp: row_key_def has_newline_def)
  have "row_text kv @ s = (k @ CHR ''='' # v) @ CHR 0x0A # s" for s by (simp add: row_text_def kv)
  with split_line [OF nl] Cons kv show ?case
    by (simp add: parse_rows_def parse_row_text)
qed (simp add: parse_rows_def)

interpretation config_rows: codec "\<lambda>rows. concat (map row_text rows)" "\<lambda>s. Some (parse_rows s)"
  "list_all (\<lambda>kv. row_key (fst kv) \<and> \<not> has_newline (snd kv))"
  by unfold_locales (simp add: parse_rows_text)

lemma LineWriter_rows:
  "fold (\<lambda>(k, v). LineWriter k v) rows (b, w) =
    (b @ concat (map row_text (filter (\<lambda>kv. \<not> has_newline (snd kv)) rows)),
     w @ map fst (filter (\<lambda>kv. has_newline (snd kv)) rows))"
  by (induction rows arbitrary: b w) (auto simp: LineWriter_def row_text_def)

lemma mgmt_keys: "list_all (\<lambda>kv. row_key (fst kv)) (mgmt_rows e d usedKey)"
  by (simp add: mgmt_rows_def Let_def row_key_def)

lemma BuildMgmtCfg_parse:
  "parse_rows (BuildMgmtCfg e d usedKey) = filter (\<lambda>kv. \<not> has_newline (snd kv)) (mgmt_rows e d usedKey)"
proof -
  have "BuildMgmtCfg e d usedKey
      = concat (map row_text (filter (\<lambda>kv. \<not> has_newline (snd kv)) (mgmt_rows e d usedKey)))"
    by (simp add: BuildMgmtCfg_def LineWriter_rows)
  moreover have "list_all (\<lambda>kv. row_key (fst kv) \<and> \<not> has_newline (snd kv))
      (filter (\<lambda>kv. \<not> has_newline (snd kv)) (mgmt_rows e d usedKey))"
    using mgmt_keys [of e d usedKey] by (simp add: list_all_iff)
  ultimately show ?thesis using config_rows.dec_enc by simp
qed

lemma authkey_row: "(''authkey'', k) \<in> set (mgmt_rows e d usedKey) \<longleftrightarrow>
    k = dev_x_authkey d \<and> k \<noteq> [] \<and> \<not> equal_fold usedKey k"
  by (auto simp: mgmt_rows_def Let_def)

section \<open>The blocked set on the wire\<close>

lemma colon_line: "canonical c \<Longrightarrow> CHR 0x0A \<notin> set (ColonMAC c) \<and> ColonMAC c \<noteq> []"
proof -
  assume c: "canonical c"
  have "CHR 0x0A \<notin> set (join_with '':'' (colon_pairs s))" if "list_all is_hex s" for s
    using that
  proof (induction s rule: colon_pairs.induct)
    case (1 a b r)
    then have "CHR 0x0A \<notin> set (join_with '':'' (colon_pairs r))" by simp
    moreover have "a \<noteq> CHR 0x0A" "b \<noteq> CHR 0x0A" using 1 by (auto simp: is_hex_def)
    ultimately show ?case by (cases "colon_pairs r") auto
  qed auto
  moreover have "ColonMAC c \<noteq> []"
    using CanonicalMAC_ColonMAC [OF c] by (auto simp: CanonicalMAC_def canonicalMAC_def to_lower_def)
  ultimately show ?thesis using c by (simp add: ColonMAC_def canonical_def Let_def)
qed

lemma join_lines: "list_all (\<lambda>l. CHR 0x0A \<notin> set l) ls \<Longrightarrow> ls \<noteq> [] \<Longrightarrow>
    join_with [CHR 0x0A] ls @ [CHR 0x0A] = concat (map (\<lambda>l. l @ [CHR 0x0A]) ls)"
  by (induction ls rule: induct_list012) auto

lemma split_concat_lines: "list_all (\<lambda>l. CHR 0x0A \<notin> set l) ls \<Longrightarrow>
    split_lines (concat (map (\<lambda>l. l @ [CHR 0x0A]) ls)) = ls"
  by (induction ls) (simp_all add: split_line)

definition wire_lines :: "string \<Rightarrow> string list" where
  "wire_lines s = (if s = [] then [] else split_lines (s @ [CHR 0x0A]))"

lemma blockedStaWire_lines: "wire_lines (blockedStaWire d) = map ColonMAC (BlockedClients d)"
proof (cases "BlockedClients d = []")
  case False
  let ?ls = "map ColonMAC (BlockedClients d)"
  have l: "list_all (\<lambda>l. CHR 0x0A \<notin> set l) ?ls"
    using BlockedClients_client_set [of d] colon_line by (auto simp: client_set_def list_all_iff)
  have "blockedStaWire d @ [CHR 0x0A] = concat (map (\<lambda>l. l @ [CHR 0x0A]) ?ls)"
    using join_lines [OF l] False by (simp add: blockedStaWire_def Let_def)
  moreover have "blockedStaWire d \<noteq> []"
  proof -
    obtain c cs where "BlockedClients d = c # cs" using False by (cases "BlockedClients d") auto
    moreover then have "ColonMAC c \<noteq> []"
      using BlockedClients_client_set [of d] colon_line [of c] by (simp add: client_set_def)
    ultimately show ?thesis by (cases cs) (simp_all add: blockedStaWire_def)
  qed
  ultimately show ?thesis using split_concat_lines [OF l] by (simp add: wire_lines_def)
qed (simp add: blockedStaWire_def wire_lines_def)

lemma blockedStaWire_inject:
  assumes "blockedStaWire a = blockedStaWire b"
  shows "BlockedClients a = BlockedClients b"
proof -
  have m: "map ColonMAC (BlockedClients a) = map ColonMAC (BlockedClients b)"
    using assms by (metis blockedStaWire_lines)
  have "inj_on ColonMAC (set (BlockedClients a) \<union> set (BlockedClients b))"
    using BlockedClients_client_set [of a] BlockedClients_client_set [of b] ColonMAC_inject
    by (auto simp: client_set_def list_all_iff intro!: inj_onI)
  with m show ?thesis by (simp add: inj_on_map_eq_map)
qed

lemma drift_after_stamp: "\<not> snd (blockedStaDrift e (stampBlockedSta e (blockedStaWire d) d))"
proof -
  have ne: "BlockedStaExtraKey \<noteq> BlockedStaShaExtraKey" by code_simp
  have "BlockedClients (stampBlockedSta e w d) = BlockedClients d" for w
    using ne by (simp add: BlockedClients_def stampBlockedSta_def get_arr_def row_simps)
  then have "blockedStaWire (stampBlockedSta e (blockedStaWire d) d) = blockedStaWire d"
    by (simp add: blockedStaWire_def)
  then show ?thesis
    by (simp add: blockedStaDrift_def Let_def) (simp add: stampBlockedSta_def get_str_def row_simps)
qed

section \<open>Properties\<close>

text \<open>
  The mgmt_cfg blob reads back, line by line, as the rows it was built from: a value that holds
  a line break never reaches the device, so no value can smuggle in a row; and it carries the
  device's key exactly when the record has one and the device does not already use it.
\<close>

theorem mgmt_cfg_rows:
  "parse_rows (BuildMgmtCfg e d used) = filter (\<lambda>kv. \<not> has_newline (snd kv)) (mgmt_rows e d used)
   \<and> ((''authkey'', k) \<in> set (mgmt_rows e d used) \<longleftrightarrow> k = dev_x_authkey d \<and> k \<noteq> [] \<and> \<not> equal_fold used k)"
  by (simp add: BuildMgmtCfg_parse authkey_row)

text \<open>
  The blocked set on the wire is one colon-spelled MAC per line, two records have the same wire
  text exactly when they block the same clients, and stamping a delivered set ends its drift.
\<close>

theorem blocked_wire_faithful:
  "wire_lines (blockedStaWire d) = map ColonMAC (BlockedClients d)
   \<and> (blockedStaWire a = blockedStaWire b \<longleftrightarrow> set (BlockedClients a) = set (BlockedClients b))
   \<and> snd (blockedStaDrift e (stampBlockedSta e (blockedStaWire d) d)) = False"
proof -
  have "set (BlockedClients a) = set (BlockedClients b) \<Longrightarrow> blockedStaWire a = blockedStaWire b"
    using client_set_eq [OF BlockedClients_client_set BlockedClients_client_set, of a b]
    by (simp add: blockedStaWire_def)
  then show ?thesis
    using blockedStaWire_lines blockedStaWire_inject [of a b] drift_after_stamp by auto
qed

end
