(* ===== verification/Set_Inform.thy ===== *)
theory Set_Inform
  imports Discovery App_Ops Mgmt_Cfg
begin

text \<open>
  Pending candidates in the application layer: listing and adopting them (\<^verbatim>\<open>internal/app/app.go\<close>) and the
  opt-in push that dials a factory device over SSH and tells it where to inform
  (\<^verbatim>\<open>internal/app/setinform.go\<close>). The candidate's note is the text the discovery listener wrote, so the
  parser here is the inverse of \<open>discoveryNote\<close>. The SSH library is a parameter.
\<close>

section \<open>The candidate\<close>

record candidate =
  ca_ip :: string
  ca_port :: int
  ca_applies :: bool

definition discovery_prefix :: string where "discovery_prefix = ''discovery:''"

definition candidate_part :: "string \<Rightarrow> candidate \<Rightarrow> (candidate \<times> string) + candidate" where
  "candidate_part part c =
    (let (key, val) = (case cut_at CHR ''='' part of Some kv \<Rightarrow> kv | None \<Rightarrow> (part, []))
     in if key = ''factory'' then Inr (if val = ''true'' then c\<lparr>ca_applies := True\<rparr> else c)
        else if key = ''ip'' then Inr (c\<lparr>ca_ip := val\<rparr>)
        else if key = ''sshd_port''
        then let (n, ok) = Atoi val
          in if \<not> ok \<or> n < 1 \<or> 65535 < n then Inl (c, ''refusing non-dialable sshd_port='' @ val)
             else Inr (c\<lparr>ca_port := n\<rparr>)
        else Inr c)"

text \<open>The loop over the comma-separated parts; nothing follows a trailing comma.\<close>

function candidate_loop :: "string \<Rightarrow> candidate \<Rightarrow> (candidate \<times> string) + candidate" where
  "candidate_loop body c =
    (if body = [] then Inr c
     else let (part, rest) = (case cut_at CHR '','' body of Some pr \<Rightarrow> pr | None \<Rightarrow> (body, []))
       in and_then (candidate_part part c) (candidate_loop rest))"
  by pat_completeness auto

termination candidate_loop
proof (relation "measure (\<lambda>(body, _). length body)")
  fix body :: string and c :: candidate and pr part rest x
  assume "body \<noteq> []" "pr = (case cut_at CHR '','' body of Some pr \<Rightarrow> pr | None \<Rightarrow> (body, []))" "(part, rest) = pr"
  then have "length rest < length body" by (auto simp: cut_at_Some split: option.splits)
  then show "((rest, x), body, c) \<in> measure (\<lambda>(body, _). length body)" by simp
qed simp

declare candidate_loop.simps [simp del]

text \<open>The target, whether the lane applies, and the refusal.\<close>

definition setInformCandidate :: "string \<Rightarrow> candidate \<times> bool \<times> string option" where
  "setInformCandidate note =
    (let tgt = \<lparr>ca_ip = [], ca_port = 22, ca_applies = False\<rparr>
     in if \<not> has_prefix discovery_prefix note then (tgt, False, None)
        else let body = drop (length discovery_prefix) note
          in case candidate_loop body tgt of
               Inl (c, e) \<Rightarrow> (c, True, Some e)
             | Inr c \<Rightarrow>
                 if body = [] then (c, False, None)
                 else if ca_applies c \<and> ca_ip c = [] then (c, True, Some ''refusing factory note without an ip= part'')
                 else (c, ca_applies c, None))"

section \<open>The push\<close>

definition factorySSHUser :: string where "factorySSHUser = ''ubnt''"
definition factorySSHPassword :: string where "factorySSHPassword = ''ubnt''"
definition setInformCommandPrefix :: string where "setInformCommandPrefix = ''mca-cli-op set-inform ''"

definition setInformCommand :: "string \<Rightarrow> string" where
  "setInformCommand informURL = setInformCommandPrefix @ informURL"

text \<open>
  What dialling, the handshake, the session and the command answer: \<open>None\<close> when all is well, else
  the library's error text; the command also has its output.
\<close>

record ssh_leg =
  sl_dial :: "string \<Rightarrow> string option"
  sl_handshake :: "string \<Rightarrow> string \<Rightarrow> string \<Rightarrow> string option"
  sl_session :: "string option"
  sl_output :: "string \<Rightarrow> string option \<times> string"

definition JoinHostPort :: "string \<Rightarrow> string \<Rightarrow> string" where
  "JoinHostPort host port = (if CHR '':'' \<in> set host then ''['' @ host @ '']:'' @ port else host @ '':'' @ port)"

definition runSetInformSSH :: "ssh_leg \<Rightarrow> string \<Rightarrow> int \<Rightarrow> string \<Rightarrow> string option" where
  "runSetInformSSH leg ip port informURL =
    (let addr = JoinHostPort ip (itoa port)
     in case sl_dial leg addr of
          Some e \<Rightarrow> Some (''dial '' @ addr @ '': '' @ e)
        | None \<Rightarrow> (case sl_handshake leg addr factorySSHUser factorySSHPassword of
            Some e \<Rightarrow> Some (''ssh handshake '' @ addr @ '': '' @ e)
          | None \<Rightarrow> (case sl_session leg of
              Some e \<Rightarrow> Some (''ssh session: '' @ e)
            | None \<Rightarrow> (case sl_output leg (setInformCommand informURL) of
                (Some e, out) \<Rightarrow> Some (''mca-cli-op set-inform: '' @ e @ '': '' @ trim_space out)
              | (None, _) \<Rightarrow> None))))"

record push_lane =
  pl_url :: string
  pl_run :: "string \<Rightarrow> int \<Rightarrow> string \<Rightarrow> string option"

definition EnableSetInformPush :: "engine \<Rightarrow> ssh_leg \<Rightarrow> app_error + push_lane" where
  "EnableSetInformPush e leg = (let url = InformURL e
     in if url = [] then Inl (AppPlain (''cannot derive an inform URL from controller URL '' @ en_controller_url e))
        else Inr \<lparr>pl_url = url, pl_run = runSetInformSSH leg\<rparr>)"

text \<open>Reading the pending map drops its expired entries from the store.\<close>

definition readPending :: "admin_env \<Rightarrow> json_store \<Rightarrow> (string \<times> string) list \<times> json_store" where
  "readPending env s = (let (pend, m) = db_Pending (ae_now env) (js_db s) in (pend, s\<lparr>js_db := m\<rparr>))"

definition pushSetInform :: "push_lane option \<Rightarrow> admin_env \<Rightarrow> string \<Rightarrow> json_store \<Rightarrow> json_store \<times> app_error option" where
  "pushSetInform lane env mac s = (case lane of
     None \<Rightarrow> (s, None)
   | Some l \<Rightarrow>
      (let (pend, s) = readPending env s
       in (s, case setInformCandidate (opt_or [] (jget pend mac)) of
            (tgt, False, _) \<Rightarrow> None
          | (tgt, True, Some cerr) \<Rightarrow> Some (AppPushFailed cerr)
          | (tgt, True, None) \<Rightarrow> map_option AppPushFailed (pl_run l (ca_ip tgt) (ca_port tgt) (pl_url l)))))"

section \<open>Listing and adopting\<close>

record pending_view =
  pv_mac :: string
  pv_source :: string
  pv_name :: string

definition pending_row :: "json_store \<Rightarrow> string \<times> string \<Rightarrow> pending_view option" where
  "pending_row s mn = (case db_Get (fst mn) (js_db s) of
     Inl _ \<Rightarrow> Some \<lparr>pv_mac = ColonMAC (fst mn), pv_source = snd mn, pv_name = []\<rparr>
   | Inr d \<Rightarrow> if dev_state d \<noteq> StatePending then None
       else Some \<lparr>pv_mac = ColonMAC (fst mn), pv_source = snd mn, pv_name = dev_name d\<rparr>)"

definition ListPending :: "admin_env \<Rightarrow> json_store \<Rightarrow> pending_view list \<times> json_store" where
  "ListPending env s = (let (pend, s) = readPending env s in (List.map_filter (pending_row s) pend, s))"

definition adopt_change :: "int \<Rightarrow> (string \<times> string) list \<Rightarrow> unit change" where
  "adopt_change now pend d =
    (if dev_state d = 0
     then if jget pend (dev_mac d) = None then Inl (AppNotFound (dev_mac d))
       else Inr (False, d\<lparr>dev_state := StatePending, dev_first_seen := now\<rparr>, ())
     else if dev_state d \<noteq> StatePending
     then Inl (AppPlain (''adopt: device '' @ ColonMAC (dev_mac d) @ '' is already in state '' @ itoa (dev_state d)))
     else Inr (False, d, ()))"

definition adopt_echo :: "device \<Rightarrow> device" where
  "adopt_echo d = (new_device (dev_mac d))\<lparr>dev_name := dev_name d, dev_model := dev_model d,
     dev_firmware := dev_firmware d, dev_ip := dev_ip d, dev_state := dev_state d, dev_last_seen := dev_last_seen d\<rparr>"

text \<open>The pending map is read inside the cycle, and only for a record the cycle seeded.\<close>

definition pending_in_cycle :: "admin_env \<Rightarrow> string \<Rightarrow> json_store \<Rightarrow> (string \<times> string) list \<times> json_store" where
  "pending_in_cycle env mac s = (case CanonicalMAC mac of
     Inl _ \<Rightarrow> ([], s)
   | Inr canon \<Rightarrow> if dev_state (seeded canon s) = 0 then readPending env s else ([], s))"

definition AdoptPending :: "push_lane option \<Rightarrow> admin_env \<Rightarrow> string \<Rightarrow> json_store \<Rightarrow> json_store \<times> (app_error + device_view)" where
  "AdoptPending lane env mac s =
    (let (pend, s) = pending_in_cycle env mac s
     in case saveIntent env mac SavePending (adopt_change (ae_now env) pend) (\<lambda>_. adopt_echo) s of
          (s, Inl e) \<Rightarrow> (s, Inl e)
        | (s, Inr rec) \<Rightarrow> (case pushSetInform lane env (dev_mac rec) s of
            (s, Some perr) \<Rightarrow> (s, Inl perr)
          | (s, None) \<Rightarrow> (s, Inr (view (ae_json env) rec))))"

lemma adopt_result:
  "adopt_change now pend d = Inr (eff, d', u) \<Longrightarrow> \<not> eff \<and> fixed_fields d' = fixed_fields d \<and> ext d' = ext d"
  by (auto simp: adopt_change_def fixed_fields_def ext_def split: if_splits)

interpretation adopt_verb: admin_verb "adopt_change now pend" for now pend
  by unfold_locales (auto dest: adopt_result)

section \<open>The note reads back\<close>

text \<open>The loop over a joined list of parts is the fold over the list.\<close>

fun candidate_parts :: "string list \<Rightarrow> candidate \<Rightarrow> (candidate \<times> string) + candidate" where
  "candidate_parts [] c = Inr c"
| "candidate_parts (p # ps) c = and_then (candidate_part p c) (candidate_parts ps)"

lemma candidate_loop_join:
  assumes "list_all (\<lambda>p. p \<noteq> [] \<and> CHR '','' \<notin> set p) ps"
  shows "candidate_loop (join_with '','' ps) c = candidate_parts ps c"
  using assms
proof (induction ps arbitrary: c)
  case Nil
  then show ?case by (simp add: candidate_loop.simps)
next
  case (Cons p ps)
  have e: "candidate_loop [] = Inr" by (rule HOL.ext) (simp add: candidate_loop.simps)
  have ih: "candidate_loop (join_with '','' ps) = candidate_parts ps" using Cons by (intro HOL.ext) simp
  show ?case
  proof (cases ps)
    case Nil
    then have "candidate_parts ps = Inr" by (intro HOL.ext) simp
    moreover have "cut_at CHR '','' p = None" using Cons.prems by (simp add: cut_at_None)
    ultimately show ?thesis using Cons.prems Nil e by (simp add: candidate_loop.simps [of p])
  next
    case (Cons q qs)
    then have j: "join_with '','' (p # ps) = p @ CHR '','' # join_with '','' ps" by simp
    have "cut_at CHR '','' (p @ CHR '','' # join_with '','' ps) = Some (p, join_with '','' ps)"
      using Cons.prems by (simp add: cut_at_Some)
    then show ?thesis unfolding j by (simp add: candidate_loop.simps [of "p @ CHR '','' # join_with '','' ps"] ih)
  qed
qed

lemma candidate_parts_append:
  "candidate_parts (xs @ ys) c = and_then (candidate_parts xs c) (candidate_parts ys)"
proof (induction xs arbitrary: c)
  case (Cons x xs)
  then show ?case by (cases "candidate_part x c") simp_all
qed simp

lemma part_keyed:
  assumes "CHR ''='' \<notin> set k"
  shows "candidate_part (k @ ''='' @ v) c =
    (if k = ''factory'' then Inr (if v = ''true'' then c\<lparr>ca_applies := True\<rparr> else c)
     else if k = ''ip'' then Inr (c\<lparr>ca_ip := v\<rparr>)
     else if k = ''sshd_port''
     then if \<not> snd (Atoi v) \<or> fst (Atoi v) < 1 \<or> 65535 < fst (Atoi v)
       then Inl (c, ''refusing non-dialable sshd_port='' @ v) else Inr (c\<lparr>ca_port := fst (Atoi v)\<rparr>)
     else Inr c)"
proof -
  have "cut_at CHR ''='' (k @ ''='' @ v) = Some (k, v)" using assms by (simp add: cut_at_Some)
  then show ?thesis by (simp add: candidate_part_def case_prod_beta Let_def)
qed

definition informational :: "string \<Rightarrow> bool" where
  "informational k \<longleftrightarrow> CHR ''='' \<notin> set k \<and> k \<notin> {''factory'', ''ip'', ''sshd_port''}"

lemma informational_keys [simp]:
  "informational ''uptime''" "informational ''version''" "informational ''model''" "informational ''hostname''"
  "informational ''shortversion''" "informational ''platform''" "informational ''essid''" "informational ''wmode''"
  by (simp_all add: informational_def)

lemma informational_part: "informational k \<Longrightarrow> candidate_part (k @ ''='' @ v) c = Inr c"
  by (simp add: informational_def part_keyed del: append.simps)

lemma informational_parts [simp]:
  assumes "informational k"
  shows "candidate_parts (note_string k v) c = Inr c" "candidate_parts (note_int k n) c = Inr c"
  using informational_part [OF assms] by (simp_all add: note_string_def note_int_def Let_def)

lemma ip_parts: "candidate_parts (note_string ''ip'' v) c = Inr (if remove_char CHR '','' v = [] then c else c\<lparr>ca_ip := remove_char CHR '','' v\<rparr>)"
  using part_keyed [of "''ip''" "remove_char CHR '','' v" c] by (simp add: note_string_def Let_def)

lemma Atoi_itoa:
  assumes "0 < n"
  shows "Atoi (itoa n) = (if n < 2 ^ 63 then (n, True) else (2 ^ 63 - 1, False))"
proof -
  have d: "all_digits (itoa n)" "undec (itoa n) = nat n"
    using assms dec_nat_digits [of "nat n"] by (simp_all add: itoa_def all_digits_def is_digit_def [abs_def])
  obtain x xs where x: "itoa n = x # xs" using d(1) by (cases "itoa n") (auto simp: all_digits_def)
  have s: "x \<noteq> CHR ''-''" "x \<noteq> CHR ''+''" using d(1) unfolding x all_digits_def by auto
  show ?thesis using d s assms unfolding Atoi_def x by (auto simp: Let_def)
qed

lemma port_parts: "candidate_parts (note_int ''sshd_port'' n) c =
    (if n \<le> 0 then Inr c
     else if 65535 < n then Inl (c, ''refusing non-dialable sshd_port='' @ itoa n) else Inr (c\<lparr>ca_port := n\<rparr>))"
  using part_keyed [of "''sshd_port''" "itoa n" c] Atoi_itoa [of n] by (auto simp: note_int_def)

lemma factory_parts [simp]:
  "candidate_part ''factory=true'' c = Inr (c\<lparr>ca_applies := True\<rparr>)" "candidate_part ''factory=false'' c = Inr c"
  by (simp_all add: candidate_part_def)

lemma note_parts_usable: "list_all (\<lambda>p. p \<noteq> [] \<and> CHR '','' \<notin> set p) (note_parts info)"
proof -
  have "[] \<notin> set (note_parts info)"
    by (auto simp: note_parts_def note_string_def note_int_def Let_def split: if_splits)
  then show ?thesis using note_parts_clean by (auto simp: list_all_iff)
qed

lemma note_body: "drop (length discovery_prefix) (discoveryNote info) = join_with '','' (note_parts info)"
    "has_prefix discovery_prefix (discoveryNote info)"
  by (simp_all add: discovery_prefix_def discoveryNote_def)

lemma note_candidate: "candidate_parts (note_parts info) \<lparr>ca_ip = [], ca_port = 22, ca_applies = False\<rparr> =
    (if 65535 < di_sshd info
     then Inl (\<lparr>ca_ip = [], ca_port = 22, ca_applies = False\<rparr>, ''refusing non-dialable sshd_port='' @ itoa (di_sshd info))
     else Inr \<lparr>ca_ip = remove_char CHR '','' (di_ip info), ca_port = (if 0 < di_sshd info then di_sshd info else 22),
       ca_applies = (di_has_factory info \<and> di_factory info)\<rparr>)"
  by (simp add: note_parts_def candidate_parts_append port_parts ip_parts)

lemma candidate_of_any_note:
  "setInformCandidate (discoveryNote info) =
    (let ip = remove_char CHR '','' (di_ip info); factory = (di_has_factory info \<and> di_factory info)
     in if 65535 < di_sshd info
        then (\<lparr>ca_ip = [], ca_port = 22, ca_applies = False\<rparr>, True,
              Some (''refusing non-dialable sshd_port='' @ itoa (di_sshd info)))
        else (\<lparr>ca_ip = ip, ca_port = (if 0 < di_sshd info then di_sshd info else 22), ca_applies = factory\<rparr>, factory,
              if factory \<and> ip = [] then Some ''refusing factory note without an ip= part'' else None))"
proof -
  have "join_with '','' (note_parts info) = [] \<Longrightarrow> note_parts info = []"
    using note_parts_usable [of info] by (cases "note_parts info" rule: list.exhaust [OF _ list.exhaust]) (auto elim: join_with.elims)
  then have e: "di_sshd info \<le> 65535 \<Longrightarrow> join_with '','' (note_parts info) = [] \<Longrightarrow> \<not> (di_has_factory info \<and> di_factory info)"
    by (auto simp: note_parts_def)
  have l: "candidate_loop (join_with '','' (note_parts info)) = candidate_parts (note_parts info)"
    by (rule HOL.ext) (rule candidate_loop_join [OF note_parts_usable])
  show ?thesis
    using e by (cases "65535 < di_sshd info") (auto simp: setInformCandidate_def Let_def note_body l note_candidate)
qed

text \<open>
  C39: the push lane reads the note the listener wrote. A factory device's note applies, with the announced
  address and port (port 22 when none was announced); it is refused when it has no address or announces a port
  beyond 65535. The note of any other device, as long as its announced port is at most 65535, does not apply and
  is never an error, and its candidate still has the announced address and port.
\<close>

theorem candidate_of_note:
  assumes "factory = (di_has_factory info \<and> di_factory info)" "factory \<or> di_sshd info \<le> 65535"
    and "ip = remove_char CHR '','' (di_ip info)" "port = (if 0 < di_sshd info then di_sshd info else 22)"
    and "setInformCandidate (discoveryNote info) = (target, applies, err)"
  shows "applies = factory
    \<and> (err = None \<longleftrightarrow> \<not> factory \<or> ip \<noteq> [] \<and> di_sshd info \<le> 65535)
    \<and> (err = None \<longrightarrow> ca_ip target = ip \<and> ca_port target = port \<and> ca_applies target = factory)"
  using assms by (auto simp: candidate_of_any_note Let_def split: if_splits)

lemma candidate_of_note_witness:
  "\<exists>target. setInformCandidate (discoveryNote (blank_info\<lparr>di_ip := ''192.168.1.20'', di_has_factory := True, di_factory := True\<rparr>))
      = (target, True, None) \<and> ca_ip target = ''192.168.1.20'' \<and> ca_port target = 22"
proof -
  let ?i = "blank_info\<lparr>di_ip := ''192.168.1.20'', di_has_factory := True, di_factory := True\<rparr>"
  obtain target applies err where r: "setInformCandidate (discoveryNote ?i) = (target, applies, err)" by (metis prod_cases3)
  have ip: "remove_char CHR '','' ''192.168.1.20'' = ''192.168.1.20''" by code_simp
  from candidate_of_note [OF _ _ refl refl r, of True] ip r show ?thesis by (auto simp: blank_info_def)
qed

text \<open>
  The port is checked while the note is read, before the factory test: a device that is no factory device but
  announces a port beyond 65535 is refused with an error, although only factory devices are pushed to.
\<close>

lemma undialable_port_refused:
  assumes "65535 < di_sshd info"
  shows "\<exists>target e. setInformCandidate (discoveryNote info) = (target, True, Some e)"
  using assms by (simp add: candidate_of_any_note Let_def)

section \<open>Adoption from the pending list\<close>

context admin_verb
begin

text \<open>The upsert mode of the skeleton: an unknown MAC is seeded, and stored only if the verb accepts it.\<close>

lemma save_pending:
  assumes "db_inv (js_db s)" "CanonicalMAC mac = Inr c"
  shows "intent_cycle env change project (seeded c s) = Inl e \<Longrightarrow>
      saveIntent env mac SavePending change project s = (s, Inl e)"
    and "intent_cycle env change project (seeded c s) = Inr (d', out) \<Longrightarrow> ae_io env \<Longrightarrow>
      \<exists>s'. saveIntent env mac SavePending change project s = (s', Inr out) \<and> db_inv (js_db s')
        \<and> devices_of (js_db s') = (devices_of (js_db s))(c \<mapsto> d') \<and> db_pending (js_db s') = db_pending (js_db s)"
proof -
  let ?f = "intent_cycle env change project" and ?d = "seeded c s"
  have c: "canonicalMAC c = c" "c \<noteq> []"
    using CanonicalMAC_D [OF assms(2)] by (auto simp: mac_simps canonical_def)
  have u: "db_update c (intent_fn ?f) True (js_db s) = (case intent_fn ?f ?d of
      Inl e \<Rightarrow> Inl (ErrFn e) | Inr d' \<Rightarrow> db_Put d' (js_db s))"
    using c by (simp add: db_update_def db_Get_devices Let_def seeded_def split: option.splits)
  {
    assume "?f ?d = Inl e"
    then show "saveIntent env mac SavePending change project s = (s, Inl e)"
      using assms(2) u by (simp add: saveIntent_def Let_def js_Update_def db_Update_def intent_fn_def js_after_def)
  next
    assume f: "?f ?d = Inr (d', out)" "ae_io env"
    have "dev_mac ?d = c"
      using assms(1) c by (auto simp: seeded_def db_Get_devices db_inv_def devices_of_def jget_def new_device_def
          dest!: map_of_SomeD split: option.splits)
    then have m: "dev_mac d' = c" using cycle_fields(1) [OF f(1)] by simp
    obtain mm where mm: "db_Put d' (js_db s) = Inr mm" "db_pending mm = db_pending (js_db s)"
      using m c by (fastforce simp: db_Put_def Let_def)
    let ?s = "s\<lparr>js_db := mm, js_file := Some (snapshot (ae_now env) mm)\<rparr>"
    have run: "saveIntent env mac SavePending change project s = (?s, Inr out)"
      using assms(2) u f mm by (simp add: saveIntent_def Let_def js_Update_def db_Update_def intent_fn_def js_after_def js_save_def)
    from assms(1) run have "db_inv (js_db ?s) \<and> devices_of (js_db ?s) = (devices_of (js_db s))(c \<mapsto> d')"
      by (cases rule: save_cases) (use assms(2) f in simp_all)
    with run mm(2) show "\<exists>s'. saveIntent env mac SavePending change project s = (s', Inr out) \<and> db_inv (js_db s')
        \<and> devices_of (js_db s') = (devices_of (js_db s))(c \<mapsto> d') \<and> db_pending (js_db s') = db_pending (js_db s)" by auto
  }
qed

end

lemma readPending_parts:
  "readPending env s = (pend, s') \<Longrightarrow> db_devices (js_db s') = db_devices (js_db s)"
  "readPending env s = (pend, s') \<Longrightarrow> db_inv (js_db s) \<Longrightarrow> db_inv (js_db s')"
  by (auto simp: readPending_def db_Pending_def Let_def evict_inv) (simp add: evictExpiredLocked_def)

lemma devices_readPending: "readPending env s = (pend, s') \<Longrightarrow> devices_of (js_db s') = devices_of (js_db s)"
  using readPending_parts(1) by (simp add: devices_of_def fun_eq_iff)

lemma push_devices: "devices_of (js_db (fst (pushSetInform lane env mac s))) = devices_of (js_db s)"
  using devices_readPending by (auto simp: pushSetInform_def split: option.splits prod.splits)

lemma push_off [simp]: "pushSetInform None env mac s = (s, None)"
  by (simp add: pushSetInform_def)

text \<open>The record a promotion leaves, from the one the cycle started with.\<close>

definition promoted :: "int \<Rightarrow> device \<Rightarrow> device" where
  "promoted now d = (if dev_state d = 0 then d\<lparr>dev_state := StatePending, dev_first_seen := now\<rparr> else d)"

lemma adopt_cycle: "intent_cycle env (adopt_change now pend) (\<lambda>_. adopt_echo) d =
    (if dev_state d = 0 \<and> jget pend (dev_mac d) = None then Inl (AppNotFound (dev_mac d))
     else if dev_state d \<noteq> 0 \<and> dev_state d \<noteq> StatePending
     then Inl (AppPlain (''adopt: device '' @ ColonMAC (dev_mac d) @ '' is already in state '' @ itoa (dev_state d)))
     else Inr (promoted now d, adopt_echo (promoted now d)))"
  by (auto simp: intent_cycle_def adopt_change_def promoted_def)

lemma adopt_echo_state: "dev_state (adopt_echo d) = dev_state d"
  by (simp add: adopt_echo_def)


definition adopting_env :: admin_env where
  "adopting_env = \<lparr>ae_now = 1000, ae_io = True, ae_random = None, ae_json = one_document GNil\<rparr>"

definition pending_store :: json_store where
  "pending_store = \<lparr>js_db = \<lparr>db_devices = [], db_pending = [(''aabbcc001122'', \<lparr>pe_note = ''discovery:ip=192.168.1.20'', pe_seen = 990\<rparr>)]\<rparr>,
     js_file = None\<rparr>"


end
