(* ===== verification/Adoption.thy ===== *)
theory Adoption
  imports Mgmt_Cfg Inform_Codec
begin

text \<open>
  The adoption engine, \<^verbatim>\<open>internal/server/adoption/engine.go\<close> and \<^verbatim>\<open>sessions.go\<close>: the pure decider
  that turns one decoded inform and a device record into a response and the record's deltas.
  A decision works on a clone of the record and on the number of random keys drawn so far;
  the delivery view \<open>st\<close> shares the clone's row map, so each stage that writes through it hands
  the map back to the record.
\<close>

section \<open>Requests and outcomes\<close>

datatype transport = TransportEncrypted | TransportPlaintext

record request =
  rq_transport :: transport
  rq_device :: device
  rq_body :: jmap
  rq_used_key :: string
  rq_now :: int
  rq_prev_target :: int

datatype kind = KindNoop | KindNoopPendingWLAN | KindSetparam | KindReboot | KindSetdefault
  | KindCmd | KindBlockedStaReconnect

record outcome =
  out_kind :: kind
  out_interval :: int
  out_noop_target :: int
  out_persist_target :: bool
  out_full :: bool
  out_system_cfg :: string
  out_blocked_sta :: string
  out_mgmt_cfg :: string
  out_credentials :: "(string \<times> string) list"
  out_state :: "int option"
  out_x_authkey :: "string option"
  out_cfg_version :: string
  out_set_cfg_version :: bool
  out_applied_cfg :: "string option"
  out_authkeys :: "string list option"
  out_key_confirmed :: "bool option"
  out_extra :: jmap
  out_cmd_task :: "jmap option"

definition outcome_of :: "kind \<Rightarrow> outcome" where
  "outcome_of k = \<lparr>out_kind = k, out_interval = 0, out_noop_target = 0, out_persist_target = False,
     out_full = False, out_system_cfg = [], out_blocked_sta = [], out_mgmt_cfg = [],
     out_credentials = [], out_state = None, out_x_authkey = None, out_cfg_version = [],
     out_set_cfg_version = False, out_applied_cfg = None, out_authkeys = None,
     out_key_confirmed = None, out_extra = [], out_cmd_task = None\<rparr>"

datatype decide_error = ErrDefaultKeyRejected | ErrKeyChars | ErrSystemCfg

type_synonym work = "device \<times> nat"
type_synonym decision = "decide_error + outcome \<times> work"

definition mint :: "engine \<Rightarrow> nat \<Rightarrow> nat \<Rightarrow> decide_error + string \<times> nat" where
  "mint e len n = (case en_key_chars e n len of None \<Rightarrow> Inl ErrKeyChars | Some v \<Rightarrow> Inr (v, n + 1))"

definition mint_cfg :: "engine \<Rightarrow> work \<Rightarrow> decide_error + work" where
  "mint_cfg e w = (case w of (d, n) \<Rightarrow> and_then (mint e 16 n)
     (\<lambda>(nv, n). Inr (d\<lparr>dev_cfg_version := nv\<rparr>, n)))"

definition sync :: "delivery \<Rightarrow> device \<Rightarrow> device" where
  "sync st d = d\<lparr>dev_extra := Some (ds_extra st)\<rparr>"

section \<open>Noop scheduling\<close>

definition truthy :: "gval option \<Rightarrow> bool" where
  "truthy v = (case v of
     Some (GBool b) \<Rightarrow> b
   | Some (GStr x) \<Rightarrow> x \<noteq> [] \<and> x \<noteq> ''false'' \<and> x \<noteq> ''0''
   | Some (GFloat x) \<Rightarrow> x \<noteq> 0
   | Some GNil \<Rightarrow> False
   | None \<Rightarrow> False
   | _ \<Rightarrow> True)"

definition isUbios :: "string \<Rightarrow> bool" where
  "isUbios model = (let m = to_upper model in contains_str ''UDM'' m \<or> contains_str ''UXG'' m)"

definition clamp_random :: "rat \<Rightarrow> rat" where
  "clamp_random r = (if r < 0 then 0 else if 1 \<le> r then 1 - 1 / 2 ^ 53 else r)"

definition cap_fallback :: "rat \<Rightarrow> int" where
  "cap_fallback r = \<lfloor>f64_round (90 * f64_round (1 - f64_round (f64_round (7 / 10) * r)))\<rfloor>"

definition noopFor :: "engine \<Rightarrow> device \<Rightarrow> int \<Rightarrow> int \<Rightarrow> kind \<Rightarrow> outcome" where
  "noopFor e d now prevTarget k =
    (let out = (outcome_of k)\<lparr>out_interval := 10\<rparr>
     in if isUbios (dev_model d) then out
        else if truthy (jget (ext d) ''watching'') then out\<lparr>out_interval := 5\<rparr>
        else let r = clamp_random (en_random e);
                 previous = (if prevTarget = 0 then now else prevTarget);
                 target = wrap64 (max (wrap64 (previous + 5)) (wrap64 (now + 10)) + \<lfloor>f64_round (r * 5)\<rfloor>);
                 candidate = wrap64 (target - now)
          in if candidate < 90
             then out\<lparr>out_interval := candidate, out_noop_target := target, out_persist_target := True\<rparr>
             else out\<lparr>out_interval := cap_fallback r\<rparr>)"

section \<open>Keys\<close>

definition addKey :: "string list \<Rightarrow> string \<Rightarrow> string list" where
  "addKey ks key = (let key = to_lower key
     in if list_ex (\<lambda>k. to_lower k = key) ks then ks else ks @ [key])"

definition rotateKeys :: "engine \<Rightarrow> work \<Rightarrow> decide_error + work" where
  "rotateKeys e w = (case w of (d, n) \<Rightarrow>
     and_then (mint e 32 n) (\<lambda>(xk, n).
     and_then (mint e 16 n) (\<lambda>(cv, n).
       let ks = addKey (dev_authkeys d) xk;
           ks = (if 2 < length ks then drop (length ks - 2) ks else ks)
       in Inr (d\<lparr>dev_x_authkey := xk, dev_cfg_version := cv, dev_authkeys := ks,
                 dev_state := StateAdopting\<rparr>, n))))"

definition adoptionPush :: "engine \<Rightarrow> device \<Rightarrow> string \<Rightarrow> outcome" where
  "adoptionPush e d usedKey = (outcome_of KindSetparam)\<lparr>out_mgmt_cfg := BuildMgmtCfg e d usedKey\<rparr>"

section \<open>Armed commands\<close>

definition informKnownTypes :: "string list" where
  "informKnownTypes = [''info'', ''heartbeat'', ''cmd'', ''setparam'', ''setparam-ack'', ''cmd-ack'',
     ''alarms'', ''disconnect'']"

definition informTypeGentleNoop :: "string \<Rightarrow> bool" where
  "informTypeGentleNoop rtype \<longleftrightarrow> rtype \<noteq> [] \<and> rtype \<notin> set informKnownTypes"

definition ext_del_all :: "string list \<Rightarrow> device \<Rightarrow> device" where
  "ext_del_all ks d = fold ext_del ks d"

definition setdefault_demotion :: "device \<Rightarrow> device" where
  "setdefault_demotion d =
    (let d = d\<lparr>dev_state := StatePending, dev_x_authkey := [], dev_cfg_version := [],
               dev_applied_cfg := [], dev_authkeys := [], dev_key_confirmed := False\<rparr>;
         d = ext_del_all FactoryResetSweepKeys d;
         d = ext_del FlagSetdefaultArmed d;
         d = ext_del FlagRebootOnConnect d
     in ext_del CmdTaskKey d)"

definition armedLifecycle :: "device \<Rightarrow> (outcome \<times> device) option" where
  "armedLifecycle d =
    (if truthy (jget (ext d) FlagSetdefaultArmed)
     then Some (outcome_of KindSetdefault, setdefault_demotion d)
     else if truthy (jget (ext d) FlagRebootOnConnect)
     then let d = ext_del FlagRebootOnConnect d
       in Some (outcome_of KindReboot, d\<lparr>dev_extra := map_option ClearWatchdogCounters (dev_extra d)\<rparr>)
     else case ArmedCmdTask d of
       Some task \<Rightarrow> Some ((outcome_of KindCmd)\<lparr>out_cmd_task := Some task\<rparr>, ext_del CmdTaskKey d)
     | None \<Rightarrow> None)"

section \<open>Full provisioning\<close>

definition consumeSessionDisconnectEvent :: "device \<Rightarrow> device" where
  "consumeSessionDisconnectEvent d = ext_del SessionDisconnectEventExtraKey d"

definition offer_stage :: "engine \<Rightarrow> int \<Rightarrow> wlan list option \<Rightarrow> provisioning_plan \<Rightarrow> device \<Rightarrow> device" where
  "offer_stage e now wls plan d =
     sync (Offer (en_json e) (pp_drift plan) now wls (pp_placements plan) (dev_cfg_version d)
       (LoadDeliveryState (en_json e) (ext d))) d"

definition assignedKeyFlow :: "engine \<Rightarrow> int \<Rightarrow> wlan list option \<Rightarrow> provisioning_plan \<Rightarrow> work \<Rightarrow> decision" where
  "assignedKeyFlow e now wls plan w =
    and_then (if dev_cfg_version (fst w) = [] then mint_cfg e w else Inr w) (\<lambda>(d, n).
      let d = d\<lparr>dev_state := StateAdopting\<rparr>
      in case en_system_cfg e d wls plan of
           None \<Rightarrow> Inl ErrSystemCfg
         | Some (sys, deltas) \<Rightarrow>
             let d = offer_stage e now wls plan d;
                 blocked = blockedStaWire d;
                 d = consumeSessionDisconnectEvent (stampBlockedSta e blocked d)
             in Inr ((outcome_of KindSetparam)
                  \<lparr>out_full := True, out_cfg_version := dev_cfg_version d, out_system_cfg := sys,
                   out_blocked_sta := blocked, out_mgmt_cfg := BuildMgmtCfg e d (dev_x_authkey d),
                   out_credentials := deltas\<rparr>, d, n))"

section \<open>The connected device\<close>

definition blockedStaReconnectPush :: "device \<Rightarrow> device \<times> outcome option" where
  "blockedStaReconnectPush d =
    (if \<not> truthy (jget (ext d) SessionDisconnectEventExtraKey) then (d, None)
     else let d = ext_del SessionDisconnectEventExtraKey d; wire = blockedStaWire d
       in if wire = [] then (d, None)
          else (d, Some ((outcome_of KindBlockedStaReconnect)\<lparr>out_blocked_sta := wire\<rparr>)))"

text \<open>
  The devname watchdog: \<open>None\<close> to go on to the connected noop, or the arm of the
  materialization reboot, which answers with a noop of its own.
\<close>

definition devname_watchdog :: "provisioning_plan \<Rightarrow> delivery \<Rightarrow> device \<Rightarrow> bool \<times> device" where
  "devname_watchdog plan st d =
    (let missing = MissingVaps (pp_vaps plan) (jget (ds_extra st) ''vap_table'')
     in if missing = []
        then let st = ClearVapNotRunningMisses st
          in (False, sync (st\<lparr>ds_extra := ClearMaterializationReboot (ds_extra st)\<rparr>) d)
        else if truthy (jget (ds_extra st) FlagRebootOnConnect) then (False, sync st d)
        else if MaterializationRebootArmedFor (ds_extra st) = Some (dev_cfg_version d)
          then (False, sync (ClearVapNotRunningMisses st) d)
        else let (st, misses) = RecordVapNotRunningMiss st
          in if misses < 2 then (False, sync st d)
             else let st = ClearVapNotRunningMisses st;
                      extra = jset FlagRebootOnConnect (GBool True) (ds_extra st);
                      extra = SetMaterializationRebootArmed (dev_cfg_version d) extra
               in (True, sync (st\<lparr>ds_extra := extra\<rparr>) d))"

definition connected_flow :: "engine \<Rightarrow> request \<Rightarrow> provisioning_plan \<Rightarrow> delivery \<Rightarrow> work \<Rightarrow> decision" where
  "connected_flow e req plan st w = (case w of (d, n) \<Rightarrow>
    (let noop = (\<lambda>d k. noopFor e d (rq_now req) (rq_prev_target req) k)
     in if ds_sha st = []
        then and_then (mint_cfg e (d, n)) (\<lambda>(d, n). Inr (noop d KindNoop, d, n))
        else if ds_pending_present st then Inr (noop d KindNoopPendingWLAN, d, n)
        else case blockedStaReconnectPush d of
          (d, Some out) \<Rightarrow> Inr (out, d\<lparr>dev_state := StateAdopted\<rparr>, n)
        | (d, None) \<Rightarrow>
            let st = st\<lparr>ds_extra := ext d\<rparr>; ev = NotRunningEvidence (en_json e) st
            in case ev of
                 NotRunningMiss \<Rightarrow>
                   let (st, misses) = RecordNotRunningMiss st
                   in if misses < 2
                      then let d = (sync st d)\<lparr>dev_state := StateAdopted\<rparr> in Inr (noop d KindNoop, d, n)
                      else and_then (mint_cfg e (sync (ClearNotRunningMisses st) d, n))
                             (\<lambda>(d, n). Inr (noop d KindNoop, d, n))
               | NotRunningUnknown \<Rightarrow>
                   let d = (sync st d)\<lparr>dev_state := StateAdopted\<rparr> in Inr (noop d KindNoop, d, n)
               | NotRunningRun \<Rightarrow>
                   let (arm, d) = devname_watchdog plan (ClearNotRunningMisses st) d
                   in if arm then Inr (noop d KindNoop, d, n)
                      else let d = d\<lparr>dev_state := StateAdopted\<rparr> in Inr (noop d KindNoop, d, n)))"

section \<open>The encrypted lane\<close>

definition key_rejected :: "string \<Rightarrow> device \<Rightarrow> bool" where
  "key_rejected usedKey d \<longleftrightarrow> equal_fold usedKey DefaultKeyHex \<and> dev_state d \<noteq> StatePending
     \<and> (dev_state d \<noteq> StateAdopting \<or> dev_key_confirmed d)"

definition wlan_drift_stage :: "engine \<Rightarrow> provisioning_plan \<Rightarrow> delivery \<Rightarrow> work \<Rightarrow> decide_error + bool \<times> work" where
  "wlan_drift_stage e plan st w =
    (if ds_sha st \<noteq> [] \<and> pp_drift plan \<noteq> ds_sha st
     then if \<not> ds_pending_present st \<or> ds_pending_sha st \<noteq> pp_drift plan
          then and_then (mint_cfg e w) (\<lambda>w. Inr (True, w))
          else Inr (True, w)
     else Inr (False, w))"

definition blocked_drift_stage :: "engine \<Rightarrow> work \<Rightarrow> decide_error + bool \<times> work" where
  "blocked_drift_stage e w =
    (if snd (blockedStaDrift e (fst w)) then and_then (mint_cfg e w) (\<lambda>w. Inr (True, w))
     else Inr (False, w))"

text \<open>The pending gate: the delivery view, whether to hold the delivery back, and the drift flag.\<close>

definition pending_stage :: "int \<Rightarrow> provisioning_plan \<Rightarrow> bool \<Rightarrow> bool \<Rightarrow> device \<Rightarrow> delivery \<Rightarrow> delivery \<times> bool \<times> bool" where
  "pending_stage now plan wlanDrift blockedDrift d st =
    (if ds_pending_present st \<and> ds_pending_sha st \<noteq> []
     then let operatorMint = (case ds_offered st of None \<Rightarrow> False | Some offered \<Rightarrow> dev_cfg_version d \<noteq> offered)
       in if \<not> blockedDrift \<and> \<not> operatorMint \<and> ds_pending_sha st = pp_drift plan
          then let (st, due) = RetryDue now st in (st, \<not> due, True)
          else (st, False, True)
     else (st, False, wlanDrift))"

definition dispatch :: "engine \<Rightarrow> request \<Rightarrow> wlan list option \<Rightarrow> provisioning_plan \<Rightarrow> bool \<Rightarrow> delivery \<Rightarrow> work \<Rightarrow> decision" where
  "dispatch e req wls plan drift st w = (case w of (d, n) \<Rightarrow>
    (let used = rq_used_key req;
         onAssigned = (dev_x_authkey d \<noteq> [] \<and> equal_fold (dev_x_authkey d) used)
     in if used = DefaultKeyHex
        then and_then (rotateKeys e (d, n)) (\<lambda>(d, n). Inr (adoptionPush e d used, d, n))
        else if \<not> onAssigned then Inr (adoptionPush e d used, d, n)
        else if drift then assignedKeyFlow e (rq_now req) wls plan (d, n)
        else if dev_cfg_version d \<noteq> [] \<and> dev_applied_cfg d = dev_cfg_version d
        then connected_flow e req plan st (d, n)
        else assignedKeyFlow e (rq_now req) wls plan (d, n)))"

definition drift_and_dispatch :: "engine \<Rightarrow> request \<Rightarrow> wlan list option \<Rightarrow> provisioning_plan \<Rightarrow> device \<Rightarrow> decision" where
  "drift_and_dispatch e req wls plan d =
    (let st = Settle (dev_cfg_version d) (LoadDeliveryState (en_json e) (ext d)); d = sync st d
     in and_then (wlan_drift_stage e plan st (d, 0)) (\<lambda>(wlanDrift, w).
        and_then (blocked_drift_stage e w) (\<lambda>(blockedDrift, d, n).
          let (st, hold, wlanDrift) = pending_stage (rq_now req) plan wlanDrift blockedDrift d st;
              d = sync st d
          in if hold then Inr (noopFor e d (rq_now req) (rq_prev_target req) KindNoopPendingWLAN, d, n)
             else dispatch e req wls plan (wlanDrift \<or> blockedDrift) st (d, n))))"

definition decideEncrypted :: "engine \<Rightarrow> request \<Rightarrow> wlan list option \<Rightarrow> provisioning_plan \<Rightarrow> device \<Rightarrow> decision" where
  "decideEncrypted e req wls plan d =
    (if key_rejected (rq_used_key req) d then Inl ErrDefaultKeyRejected
     else if informTypeGentleNoop (opt_or [] (get_str (rq_body req) ''_type''))
     then Inr (noopFor e d (rq_now req) (rq_prev_target req) KindNoop, d, 0)
     else case armedLifecycle d of
       Some (out, d) \<Rightarrow> Inr (out, d, 0)
     | None \<Rightarrow> drift_and_dispatch e req wls plan d)"

section \<open>The plaintext lane\<close>

definition plain_dispatch :: "engine \<Rightarrow> request \<Rightarrow> wlan list option \<Rightarrow> provisioning_plan \<Rightarrow> device \<Rightarrow> decision" where
  "plain_dispatch e req wls plan d =
    (if dev_x_authkey d = []
     then Inr (noopFor e d (rq_now req) (rq_prev_target req) KindNoop, d, 0)
     else if \<not> equal_fold (dev_x_authkey d) (rq_used_key req)
     then Inr (adoptionPush e d (dev_x_authkey d), d, 0)
     else assignedKeyFlow e (rq_now req) wls plan (d, 0))"

definition decidePlain :: "engine \<Rightarrow> request \<Rightarrow> wlan list option \<Rightarrow> provisioning_plan \<Rightarrow> device \<Rightarrow> decision" where
  "decidePlain e req wls plan d =
    (if informTypeGentleNoop (opt_or [] (get_str (rq_body req) ''_type''))
     then Inr (noopFor e d (rq_now req) (rq_prev_target req) KindNoop, d, 0)
     else case (if dev_x_authkey d \<noteq> [] \<and> equal_fold (dev_x_authkey d) (rq_used_key req)
                then armedLifecycle d else None) of
       Some (out, d) \<Rightarrow> Inr (out, d, 0)
     | None \<Rightarrow> plain_dispatch e req wls plan d)"

section \<open>The decision\<close>

definition cloneDevice :: "device \<Rightarrow> device" where
  "cloneDevice d = (let out = CloneDevice d in out\<lparr>dev_extra := Some (ext out)\<rparr>)"

definition confirm_key :: "string \<Rightarrow> device \<Rightarrow> device" where
  "confirm_key usedKey d =
    (if list_ex (\<lambda>k. equal_fold k usedKey) (dev_authkeys d) then d\<lparr>dev_key_confirmed := True\<rparr> else d)"

definition changed :: "('a \<Rightarrow> 'b) \<Rightarrow> 'a \<Rightarrow> 'a \<Rightarrow> 'b option" where
  "changed f snapshot work = (if f work \<noteq> f snapshot then Some (f work) else None)"

definition deltas :: "device \<Rightarrow> device \<Rightarrow> outcome \<Rightarrow> outcome" where
  "deltas snapshot work out =
    (let out = out\<lparr>out_state := changed dev_state snapshot work,
                   out_x_authkey := changed dev_x_authkey snapshot work\<rparr>;
         out = (if dev_cfg_version work \<noteq> dev_cfg_version snapshot
                then out\<lparr>out_set_cfg_version := True, out_cfg_version := dev_cfg_version work\<rparr> else out)
     in out\<lparr>out_applied_cfg := changed dev_applied_cfg snapshot work,
            out_authkeys := changed dev_authkeys snapshot work,
            out_key_confirmed := changed dev_key_confirmed snapshot work,
            out_extra := ext work\<rparr>)"

definition decide_work :: "engine \<Rightarrow> request \<Rightarrow> decision" where
  "decide_work e req =
    (let work = cloneDevice (rq_device req);
         wls = wirelessForDevice e work;
         plan = PlanProvisioning (en_json e) work (opt_or [] wls)
     in case rq_transport req of
          TransportPlaintext \<Rightarrow> decidePlain e req wls plan work
        | TransportEncrypted \<Rightarrow> decideEncrypted e req wls plan work)"

definition Decide :: "engine \<Rightarrow> request \<Rightarrow> decide_error + outcome" where
  "Decide e req = and_then (decide_work e req)
     (\<lambda>(out, work, n). Inr (deltas (rq_device req) (confirm_key (rq_used_key req) work) out))"

section \<open>What each stage leaves alone\<close>

text \<open>The key assignment of a record: what only an adoption or a demotion may change.\<close>

definition keys_of :: "device \<Rightarrow> string \<times> string list \<times> bool" where
  "keys_of d = (dev_x_authkey d, dev_authkeys d, dev_key_confirmed d)"

lemma keys_of_simps [simp]:
  "keys_of (d\<lparr>dev_cfg_version := v\<rparr>) = keys_of d" "keys_of (d\<lparr>dev_state := s\<rparr>) = keys_of d"
  "keys_of (d\<lparr>dev_extra := x\<rparr>) = keys_of d" "keys_of (sync st d) = keys_of d"
  "keys_of (ext_set k x' d) = keys_of d" "keys_of (ext_del k d) = keys_of d"
  by (simp_all add: keys_of_def sync_def ext_set_def ext_del_def)

lemma sync_simps [simp]:
  "ext (sync st d) = ds_extra st" "dev_cfg_version (sync st d) = dev_cfg_version d"
  "dev_state (sync st d) = dev_state d" "dev_x_authkey (sync st d) = dev_x_authkey d"
  "dev_applied_cfg (sync st d) = dev_applied_cfg d"
  "dev_authkeys (sync st d) = dev_authkeys d" "dev_model (sync st d) = dev_model d"
  by (simp_all add: sync_def)

lemma ext_row_fields [simp]:
  "dev_x_authkey (ext_set k v d) = dev_x_authkey d" "dev_x_authkey (ext_del k d) = dev_x_authkey d"
  "dev_state (ext_set k v d) = dev_state d" "dev_state (ext_del k d) = dev_state d"
  "dev_cfg_version (ext_set k v d) = dev_cfg_version d" "dev_cfg_version (ext_del k d) = dev_cfg_version d"
  "dev_authkeys (ext_set k v d) = dev_authkeys d" "dev_authkeys (ext_del k d) = dev_authkeys d"
  "dev_key_confirmed (ext_set k v d) = dev_key_confirmed d" "dev_key_confirmed (ext_del k d) = dev_key_confirmed d"
  "dev_applied_cfg (ext_set k v d) = dev_applied_cfg d" "dev_applied_cfg (ext_del k d) = dev_applied_cfg d"
  by (simp_all add: ext_set_def ext_del_def)

lemma ext_field_updates [simp]:
  "ext (d\<lparr>dev_cfg_version := v\<rparr>) = ext d" "ext (d\<lparr>dev_state := s\<rparr>) = ext d"
  by (simp_all add: ext_def)

lemma mint_Inr: "mint e len n = Inr (v, n') \<longleftrightarrow> en_key_chars e n len = Some v \<and> n' = n + 1"
  by (auto simp: mint_def split: option.splits)

lemma mint_cfg_Inr: "mint_cfg e (d, n) = Inr w \<longleftrightarrow>
    (\<exists>v. en_key_chars e n 16 = Some v \<and> w = (d\<lparr>dev_cfg_version := v\<rparr>, n + 1))"
  by (auto simp: mint_cfg_def and_then_Inr mint_Inr)

lemma noopFor_fields [simp]: "out_mgmt_cfg (noopFor e d now p k) = []" "out_kind (noopFor e d now p k) = k"
  "out_full (noopFor e d now p k) = False"
  by (simp_all add: noopFor_def outcome_of_def Let_def)

lemma outcome_of_fields [simp]: "out_mgmt_cfg (outcome_of k) = []" "out_kind (outcome_of k) = k"
  "out_full (outcome_of k) = False" "out_blocked_sta (outcome_of k) = []"
  by (simp_all add: outcome_of_def)

lemma blockedStaWire_cong:
  "jget (ext a) BlockedStaExtraKey = jget (ext b) BlockedStaExtraKey \<Longrightarrow> blockedStaWire a = blockedStaWire b"
  by (simp add: blockedStaWire_def BlockedClients_def get_arr_def)

lemma Offer_blocked_rows:
  "jget (ds_extra (Offer jt cur now wls pl cfg st)) BlockedStaExtraKey = jget (ds_extra st) BlockedStaExtraKey"
  by (simp add: Offer_def Let_def row_simps key_defs split: option.split)

lemma offer_stage_rows:
  "blockedStaWire (offer_stage e now wls plan d) = blockedStaWire d"
  "keys_of (offer_stage e now wls plan d) = keys_of d"
  "dev_state (offer_stage e now wls plan d) = dev_state d"
  "dev_cfg_version (offer_stage e now wls plan d) = dev_cfg_version d"
  "get_str (ext (offer_stage e now wls plan d)) WlanCfgPendingShaKey = Some (pp_drift plan)"
  "get_str (ext (offer_stage e now wls plan d)) WlanCfgOfferedCfgversionKey = Some (dev_cfg_version d)"
  "get_str (ext (offer_stage e now wls plan d)) WlanCfgPendingWlansKey = Some (EncodeStoredWlans (en_json e) wls)"
proof -
  show "blockedStaWire (offer_stage e now wls plan d) = blockedStaWire d"
    by (rule blockedStaWire_cong) (simp add: offer_stage_def Offer_blocked_rows LoadDeliveryState_def)
qed (simp_all add: offer_stage_def Offer_reads)

lemma stamp_rows:
  "keys_of (stampBlockedSta e w d) = keys_of d"
  "blockedStaWire (stampBlockedSta e w d) = blockedStaWire d"
  "k \<noteq> BlockedStaShaExtraKey \<Longrightarrow> jget (ext (stampBlockedSta e w d)) k = jget (ext d) k"
proof -
  have "BlockedStaExtraKey \<noteq> BlockedStaShaExtraKey" by code_simp
  then show "blockedStaWire (stampBlockedSta e w d) = blockedStaWire d"
    by (intro blockedStaWire_cong) (simp add: stampBlockedSta_def row_simps)
qed (simp_all add: stampBlockedSta_def row_simps)

lemma consume_rows:
  "keys_of (consumeSessionDisconnectEvent d) = keys_of d"
  "blockedStaWire (consumeSessionDisconnectEvent d) = blockedStaWire d"
  "k \<noteq> SessionDisconnectEventExtraKey \<Longrightarrow> jget (ext (consumeSessionDisconnectEvent d)) k = jget (ext d) k"
  "jget (ext (consumeSessionDisconnectEvent d)) SessionDisconnectEventExtraKey = None"
proof -
  have "BlockedStaExtraKey \<noteq> SessionDisconnectEventExtraKey" by code_simp
  then show "blockedStaWire (consumeSessionDisconnectEvent d) = blockedStaWire d"
    by (intro blockedStaWire_cong) (simp add: consumeSessionDisconnectEvent_def row_simps)
qed (simp_all add: consumeSessionDisconnectEvent_def row_simps)

text \<open>Full provisioning: what the response carries and what the record then holds.\<close>

lemma assignedKeyFlow_result:
  assumes "assignedKeyFlow e now wls plan (d, n) = Inr (out, d', n')"
  shows "keys_of d' = keys_of d" "dev_state d' = StateAdopting"
    "out_kind out = KindSetparam" "out_full out" "out_blocked_sta out = blockedStaWire d"
    "out_mgmt_cfg out = BuildMgmtCfg e d' (dev_x_authkey d')"
    "out_cfg_version out = dev_cfg_version d'" "dev_cfg_version d \<noteq> [] \<Longrightarrow> dev_cfg_version d' = dev_cfg_version d"
    "\<not> snd (blockedStaDrift e d')"
    "get_str (ext d') WlanCfgPendingShaKey = Some (pp_drift plan)"
    "get_str (ext d') WlanCfgOfferedCfgversionKey = Some (dev_cfg_version d')"
    "get_str (ext d') WlanCfgPendingWlansKey = Some (EncodeStoredWlans (en_json e) wls)"
    "jget (ext d') SessionDisconnectEventExtraKey = None"
proof -
  obtain dm nm where m: "(if dev_cfg_version d = [] then mint_cfg e (d, n) else Inr (d, n)) = Inr (dm, nm)"
    using assms by (auto simp: assignedKeyFlow_def and_then_Inr)
  have dm: "keys_of dm = keys_of d" "blockedStaWire dm = blockedStaWire d"
    "dev_cfg_version d \<noteq> [] \<Longrightarrow> dm = d"
    using m by (auto simp: mint_cfg_Inr split: if_splits intro: blockedStaWire_cong)
  define d1 where "d1 = offer_stage e now wls plan (dm\<lparr>dev_state := StateAdopting\<rparr>)"
  define d2 where "d2 = stampBlockedSta e (blockedStaWire d1) d1"
  obtain sys dl where r: "d' = consumeSessionDisconnectEvent d2"
    "out = (outcome_of KindSetparam)\<lparr>out_full := True, out_cfg_version := dev_cfg_version d',
       out_system_cfg := sys, out_blocked_sta := blockedStaWire d1,
       out_mgmt_cfg := BuildMgmtCfg e d' (dev_x_authkey d'), out_credentials := dl\<rparr>"
    using assms m by (auto simp: assignedKeyFlow_def Let_def d1_def d2_def split: option.splits)
  have b: "blockedStaWire d1 = blockedStaWire d"
    using dm(2) by (simp add: d1_def offer_stage_rows blockedStaWire_cong [of "dm\<lparr>dev_state := StateAdopting\<rparr>" dm])
  have ne: "BlockedStaShaExtraKey \<noteq> SessionDisconnectEventExtraKey"
    "BlockedStaShaExtraKey \<noteq> WlanCfgPendingShaKey" "WlanCfgPendingShaKey \<noteq> SessionDisconnectEventExtraKey"
    "BlockedStaShaExtraKey \<noteq> WlanCfgOfferedCfgversionKey" "WlanCfgOfferedCfgversionKey \<noteq> SessionDisconnectEventExtraKey"
    "BlockedStaShaExtraKey \<noteq> WlanCfgPendingWlansKey" "WlanCfgPendingWlansKey \<noteq> SessionDisconnectEventExtraKey"
    by code_simp+
  show "keys_of d' = keys_of d" using dm by (simp add: r d2_def d1_def stamp_rows consume_rows offer_stage_rows)
  have f: "dev_state d' = dev_state d1" "dev_cfg_version d' = dev_cfg_version d1"
    by (simp_all add: r d2_def stampBlockedSta_def consumeSessionDisconnectEvent_def)
  then show "dev_state d' = StateAdopting" by (simp add: d1_def offer_stage_rows)
  show "out_kind out = KindSetparam" "out_full out" "out_blocked_sta out = blockedStaWire d"
    "out_mgmt_cfg out = BuildMgmtCfg e d' (dev_x_authkey d')" "out_cfg_version out = dev_cfg_version d'"
    using b by (simp_all add: r(2))
  show "dev_cfg_version d' = dev_cfg_version d" if "dev_cfg_version d \<noteq> []"
    using dm(3) [OF that] f by (simp add: d1_def offer_stage_rows)
  have "snd (blockedStaDrift e d') = snd (blockedStaDrift e d2)"
    using ne by (simp add: blockedStaDrift_def Let_def r(1) consume_rows get_str_def split: option.split)
  then show "\<not> snd (blockedStaDrift e d')" using drift_after_stamp by (simp add: d2_def)
  have row: "jget (ext d') k = jget (ext d1) k"
    if "k \<noteq> SessionDisconnectEventExtraKey" "k \<noteq> BlockedStaShaExtraKey" for k
    using that by (simp add: r(1) d2_def consume_rows stamp_rows)
  have "get_str (ext d') k = get_str (ext d1) k"
    if "k \<noteq> SessionDisconnectEventExtraKey" "k \<noteq> BlockedStaShaExtraKey" for k
    using row [OF that] by (simp add: get_str_def)
  then show "get_str (ext d') WlanCfgPendingShaKey = Some (pp_drift plan)"
    "get_str (ext d') WlanCfgOfferedCfgversionKey = Some (dev_cfg_version d')"
    "get_str (ext d') WlanCfgPendingWlansKey = Some (EncodeStoredWlans (en_json e) wls)"
    using ne f(2) by (simp_all add: d1_def offer_stage_rows)
  show "jget (ext d') SessionDisconnectEventExtraKey = None" by (simp add: r(1) consume_rows)
qed

section \<open>The shape of a decision\<close>

text \<open>A stage before the dispatch changes only the config version and the row map.\<close>

definition same_assignment :: "device \<Rightarrow> device \<Rightarrow> bool" where
  "same_assignment a b \<longleftrightarrow> keys_of a = keys_of b \<and> dev_state a = dev_state b
     \<and> dev_applied_cfg a = dev_applied_cfg b"

lemma same_assignment_simps [simp]:
  "same_assignment d d" "same_assignment (sync st a) b = same_assignment a b"
  "same_assignment (a\<lparr>dev_cfg_version := v\<rparr>) b = same_assignment a b"
  by (simp_all add: same_assignment_def)

lemma wlan_drift_stage_Inr:
  assumes "wlan_drift_stage e plan st (d, n) = Inr (drift, d', n')"
  shows "same_assignment d' d" "ext d' = ext d"
    "drift \<longleftrightarrow> ds_sha st \<noteq> [] \<and> pp_drift plan \<noteq> ds_sha st" "\<not> drift \<Longrightarrow> d' = d"
  using assms by (auto simp: wlan_drift_stage_def and_then_Inr mint_cfg_Inr split: if_splits)

lemma blocked_drift_stage_Inr:
  assumes "blocked_drift_stage e (d, n) = Inr (drift, d', n')"
  shows "same_assignment d' d" "ext d' = ext d"
    "drift \<longleftrightarrow> snd (blockedStaDrift e d)" "\<not> drift \<Longrightarrow> d' = d"
  using assms by (auto simp: blocked_drift_stage_def and_then_Inr mint_cfg_Inr split: if_splits)

lemma RetryDue_view: "ds_extra (fst (RetryDue now st)) = (if WlanMaxAttempts \<le> ds_attempts st
      then jset WlanCfgDeliveryStatusKey (GStr ''exhausted'') (ds_extra st) else ds_extra st)"
  "snd (RetryDue now st) \<Longrightarrow> fst (RetryDue now st) = st"
  by (simp_all add: RetryDue_def split: if_splits)

lemma pending_stage_free:
  assumes "pending_stage now plan wd bd d st = (st', False, wd')"
  shows "st' = st" "wd' \<longleftrightarrow> wd \<or> ds_pending_present st \<and> ds_pending_sha st \<noteq> []"
  using assms RetryDue_view(2) [of now st]
  by (auto simp: pending_stage_def Let_def split: if_splits prod.splits)

lemma drift_and_dispatch_cases:
  assumes "drift_and_dispatch e req wls plan d = Inr (out, d', n')"
  defines "st \<equiv> Settle (dev_cfg_version d) (LoadDeliveryState (en_json e) (ext d))"
  obtains (held) d1 where "same_assignment d1 d" "d' = d1"
      "out = noopFor e d1 (rq_now req) (rq_prev_target req) KindNoopPendingWLAN"
      "ds_pending_present st"
  | (go) drift d1 n1 where "dispatch e req wls plan drift st (d1, n1) = Inr (out, d', n')"
      "same_assignment d1 d" "ext d1 = ds_extra st"
      "drift \<longleftrightarrow> ds_sha st \<noteq> [] \<and> pp_drift plan \<noteq> ds_sha st \<or> snd (blockedStaDrift e (sync st d))
         \<or> ds_pending_present st \<and> ds_pending_sha st \<noteq> []"
      "\<not> drift \<Longrightarrow> dev_cfg_version d1 = dev_cfg_version d"
proof -
  obtain wd dw nw where w: "wlan_drift_stage e plan st (sync st d, 0) = Inr (wd, dw, nw)"
    using assms(1) by (auto simp: drift_and_dispatch_def Let_def and_then_Inr st_def)
  obtain bd db nb where b: "blocked_drift_stage e (dw, nw) = Inr (bd, db, nb)"
    using assms(1) w by (auto simp: drift_and_dispatch_def Let_def and_then_Inr st_def)
  obtain st' hold wd' where p: "pending_stage (rq_now req) plan wd bd db st = (st', hold, wd')"
    by (metis prod_cases3)
  note W = wlan_drift_stage_Inr [OF w] and B = blocked_drift_stage_Inr [OF b]
  have a: "same_assignment db d" using W(1) B(1) by (auto simp: same_assignment_def)
  have res: "(if hold then Inr (noopFor e (sync st' db) (rq_now req) (rq_prev_target req) KindNoopPendingWLAN, sync st' db, nb)
      else dispatch e req wls plan (wd' \<or> bd) st' (sync st' db, nb)) = Inr (out, d', n')"
    using assms(1) w b p by (simp add: drift_and_dispatch_def Let_def st_def)
  have bd: "bd \<longleftrightarrow> snd (blockedStaDrift e (sync st d))"
    using B(3) W(2) by (simp add: blockedStaDrift_def Let_def blockedStaWire_def BlockedClients_def)
  show thesis
  proof (cases hold)
    case True
    have "ds_pending_present st" using p True by (auto simp: pending_stage_def split: if_splits)
    moreover have "d' = sync st' db"
      "out = noopFor e (sync st' db) (rq_now req) (rq_prev_target req) KindNoopPendingWLAN"
      using res True by auto
    ultimately show ?thesis using a by (intro held) simp_all
  next
    case False
    note P = pending_stage_free [OF p [unfolded False [THEN Eq_FalseI]]]
    show ?thesis
    proof (rule go [of "wd' \<or> bd" "sync st db" nb])
      show "dispatch e req wls plan (wd' \<or> bd) st (sync st db, nb) = Inr (out, d', n')"
        using res False P(1) by simp
      show "(wd' \<or> bd) = (ds_sha st \<noteq> [] \<and> pp_drift plan \<noteq> ds_sha st \<or> snd (blockedStaDrift e (sync st d))
         \<or> ds_pending_present st \<and> ds_pending_sha st \<noteq> [])"
        using P(2) W(3) bd by blast
      show "\<not> (wd' \<or> bd) \<Longrightarrow> dev_cfg_version (sync st db) = dev_cfg_version d"
        using P(2) W(4) B(4) by simp
    qed (use a in simp_all)
  qed
qed

lemma blockedStaReconnectPush_keeps:
  "keys_of (fst (blockedStaReconnectPush d)) = keys_of d"
  "dev_state (fst (blockedStaReconnectPush d)) = dev_state d"
  "blockedStaReconnectPush d = (d', Some out) \<Longrightarrow> out_mgmt_cfg out = [] \<and> out_full out = False
     \<and> out_kind out = KindBlockedStaReconnect"
  by (auto simp: blockedStaReconnectPush_def Let_def split: if_splits)

lemma devname_watchdog_keeps:
  "keys_of (snd (devname_watchdog plan st d)) = keys_of d"
  "dev_state (snd (devname_watchdog plan st d)) = dev_state d"
  by (simp_all add: devname_watchdog_def Let_def split: prod.split)

text \<open>A connected decision keeps the keys, pushes no config, and settles the record in the adopted
  state only with a baseline and nothing pending.\<close>

lemma connected_flow_result:
  assumes "connected_flow e req plan st (d, n) = Inr (out, d', n')"
  shows "keys_of d' = keys_of d" "out_mgmt_cfg out = []" "\<not> out_full out"
    "dev_state d' = dev_state d \<or> dev_state d' = StateAdopted \<and> ds_sha st \<noteq> [] \<and> \<not> ds_pending_present st"
proof -
  consider (seed) "ds_sha st = []" | (pend) "ds_sha st \<noteq> []" "ds_pending_present st"
    | (push) dp o' where "ds_sha st \<noteq> []" "\<not> ds_pending_present st" "blockedStaReconnectPush d = (dp, Some o')"
    | (watch) dp where "ds_sha st \<noteq> []" "\<not> ds_pending_present st" "blockedStaReconnectPush d = (dp, None)"
    by (metis option.exhaust prod.exhaust)
  then have "keys_of d' = keys_of d \<and> out_mgmt_cfg out = [] \<and> \<not> out_full out \<and>
    (dev_state d' = dev_state d \<or> dev_state d' = StateAdopted \<and> ds_sha st \<noteq> [] \<and> \<not> ds_pending_present st)"
  proof cases
    case seed
    with assms show ?thesis by (auto simp: connected_flow_def Let_def and_then_Inr mint_cfg_Inr)
  next
    case pend
    with assms show ?thesis by (auto simp: connected_flow_def)
  next
    case push
    with assms blockedStaReconnectPush_keeps [of d] show ?thesis by (auto simp: connected_flow_def)
  next
    case watch
    let ?st = "st\<lparr>ds_extra := ext dp\<rparr>"
    have k: "keys_of dp = keys_of d" "dev_state dp = dev_state d"
      using blockedStaReconnectPush_keeps(1,2) [of d] watch(3) by simp_all
    show ?thesis
    proof (cases "NotRunningEvidence (en_json e) ?st")
      case NotRunningUnknown
      with assms watch k show ?thesis by (auto simp: connected_flow_def Let_def)
    next
      case NotRunningRun
      obtain arm dd where "devname_watchdog plan (ClearNotRunningMisses ?st) dp = (arm, dd)" by fastforce
      moreover have "keys_of dd = keys_of dp" "dev_state dd = dev_state dp"
        using devname_watchdog_keeps [of plan "ClearNotRunningMisses ?st" dp] calculation by simp_all
      ultimately show ?thesis
        using assms watch k NotRunningRun by (auto simp: connected_flow_def Let_def split: if_splits)
    next
      case NotRunningMiss
      obtain s m where "RecordNotRunningMiss ?st = (s, m)" by fastforce
      with assms watch k NotRunningMiss show ?thesis
        by (auto simp: connected_flow_def Let_def and_then_Inr mint_cfg_Inr split: if_splits)
    qed
  qed
  then show "keys_of d' = keys_of d" "out_mgmt_cfg out = []" "\<not> out_full out"
    "dev_state d' = dev_state d \<or> dev_state d' = StateAdopted \<and> ds_sha st \<noteq> [] \<and> \<not> ds_pending_present st"
    by blast+
qed

text \<open>The dispatch arms, as elimination rule.\<close>

lemma dispatch_cases:
  assumes "dispatch e req wls plan drift st (d, n) = Inr (out, d', n')"
  obtains (adopt) "rq_used_key req = DefaultKeyHex" "rotateKeys e (d, n) = Inr (d', n')"
      "out = adoptionPush e d' (rq_used_key req)"
  | (repush) "rq_used_key req \<noteq> DefaultKeyHex"
      "dev_x_authkey d = [] \<or> \<not> equal_fold (dev_x_authkey d) (rq_used_key req)"
      "out = adoptionPush e d (rq_used_key req)" "d' = d"
  | (provision) "dev_x_authkey d \<noteq> []" "equal_fold (dev_x_authkey d) (rq_used_key req)"
      "assignedKeyFlow e (rq_now req) wls plan (d, n) = Inr (out, d', n')"
      "drift \<or> dev_cfg_version d = [] \<or> dev_applied_cfg d \<noteq> dev_cfg_version d"
  | (conn) "dev_x_authkey d \<noteq> []" "equal_fold (dev_x_authkey d) (rq_used_key req)" "\<not> drift"
      "dev_cfg_version d \<noteq> []" "dev_applied_cfg d = dev_cfg_version d"
      "connected_flow e req plan st (d, n) = Inr (out, d', n')"
proof (cases "rq_used_key req = DefaultKeyHex")
  case True
  with assms adopt show ?thesis by (auto simp: dispatch_def and_then_Inr)
next
  case used: False
  show ?thesis
  proof (cases "dev_x_authkey d \<noteq> [] \<and> equal_fold (dev_x_authkey d) (rq_used_key req)")
    case False
    with used assms have "out = adoptionPush e d (rq_used_key req)" "d' = d"
      by (auto simp: dispatch_def Let_def)
    with used False repush show ?thesis by blast
  next
    case on: True
    then have x: "dev_x_authkey d \<noteq> []" "equal_fold (dev_x_authkey d) (rq_used_key req)" by simp_all
    show ?thesis
    proof (cases "\<not> drift \<and> dev_cfg_version d \<noteq> [] \<and> dev_applied_cfg d = dev_cfg_version d")
      case True
      with used on assms have "connected_flow e req plan st (d, n) = Inr (out, d', n')"
        by (simp add: dispatch_def)
      with conn x True show ?thesis by blast
    next
      case False
      with used on assms have "assignedKeyFlow e (rq_now req) wls plan (d, n) = Inr (out, d', n')"
        by (auto simp: dispatch_def split: if_splits)
      with provision x False show ?thesis by blast
    qed
  qed
qed

lemma rotateKeys_Inr:
  assumes "rotateKeys e (d, n) = Inr (d', n')"
  obtains xk cv where "en_key_chars e n 32 = Some xk" "en_key_chars e (n + 1) 16 = Some cv" "n' = n + 2"
    "d' = d\<lparr>dev_x_authkey := xk, dev_cfg_version := cv,
       dev_authkeys := (let ks = addKey (dev_authkeys d) xk
         in if 2 < length ks then drop (length ks - 2) ks else ks), dev_state := StateAdopting\<rparr>"
  using assms by (auto simp: rotateKeys_def and_then_Inr mint_Inr Let_def)

lemma setdefault_fields:
  "dev_state (setdefault_demotion d) = StatePending" "dev_x_authkey (setdefault_demotion d) = []"
  "dev_cfg_version (setdefault_demotion d) = []" "dev_applied_cfg (setdefault_demotion d) = []"
  "dev_authkeys (setdefault_demotion d) = []" "\<not> dev_key_confirmed (setdefault_demotion d)"
proof -
  have f: "dev_state (ext_del_all ks x) = dev_state x" "dev_x_authkey (ext_del_all ks x) = dev_x_authkey x"
    "dev_cfg_version (ext_del_all ks x) = dev_cfg_version x" "dev_applied_cfg (ext_del_all ks x) = dev_applied_cfg x"
    "dev_authkeys (ext_del_all ks x) = dev_authkeys x" "dev_key_confirmed (ext_del_all ks x) = dev_key_confirmed x" for ks x
    by (induction ks arbitrary: x) (simp_all add: ext_del_all_def)
  show "dev_state (setdefault_demotion d) = StatePending" "dev_x_authkey (setdefault_demotion d) = []"
    "dev_cfg_version (setdefault_demotion d) = []" "dev_applied_cfg (setdefault_demotion d) = []"
    "dev_authkeys (setdefault_demotion d) = []" "\<not> dev_key_confirmed (setdefault_demotion d)"
    by (simp_all add: setdefault_demotion_def Let_def f)
qed

lemma ext_del_all_ext: "ext (ext_del_all ks d) = fold jdel ks (ext d)"
  by (induction ks arbitrary: d) (simp_all add: ext_del_all_def)

lemma setdefault_rows: "jget (ext (setdefault_demotion d)) k =
    (if k \<in> set FactoryResetSweepKeys \<union> {FlagSetdefaultArmed, FlagRebootOnConnect, CmdTaskKey} then None
     else jget (ext d) k)"
  by (simp add: setdefault_demotion_def Let_def row_simps ext_del_all_ext sweep_row) (simp add: ext_def)

lemma armedLifecycle_cases:
  assumes "armedLifecycle d = Some (out, d')"
  obtains (setdefault) "truthy (jget (ext d) FlagSetdefaultArmed)" "out = outcome_of KindSetdefault"
      "d' = setdefault_demotion d"
  | (reboot) "\<not> truthy (jget (ext d) FlagSetdefaultArmed)" "truthy (jget (ext d) FlagRebootOnConnect)"
      "out = outcome_of KindReboot"
      "d' = (ext_del FlagRebootOnConnect d)\<lparr>dev_extra :=
         map_option ClearWatchdogCounters (dev_extra (ext_del FlagRebootOnConnect d))\<rparr>"
  | (task) row where "\<not> truthy (jget (ext d) FlagSetdefaultArmed)"
      "\<not> truthy (jget (ext d) FlagRebootOnConnect)" "ArmedCmdTask d = Some row"
      "out = (outcome_of KindCmd)\<lparr>out_cmd_task := Some row\<rparr>" "d' = ext_del CmdTaskKey d"
proof -
  consider "truthy (jget (ext d) FlagSetdefaultArmed)"
    | "\<not> truthy (jget (ext d) FlagSetdefaultArmed)" "truthy (jget (ext d) FlagRebootOnConnect)"
    | "\<not> truthy (jget (ext d) FlagSetdefaultArmed)" "\<not> truthy (jget (ext d) FlagRebootOnConnect)"
    by blast
  then show thesis
  proof cases
    case 1
    with assms setdefault show ?thesis by (simp add: armedLifecycle_def)
  next
    case 2
    with assms reboot show ?thesis by (simp add: armedLifecycle_def Let_def)
  next
    case 3
    with assms task show ?thesis by (simp add: armedLifecycle_def split: option.splits)
  qed
qed

lemma armed_keys:
  assumes "armedLifecycle d = Some (out, d')"
  shows "keys_of d' = keys_of d \<and> dev_state d' = dev_state d \<or> d' = setdefault_demotion d"
    "out_mgmt_cfg out = []" "\<not> out_full out"
proof -
  have "(keys_of d' = keys_of d \<and> dev_state d' = dev_state d \<or> d' = setdefault_demotion d)
    \<and> out_mgmt_cfg out = [] \<and> \<not> out_full out"
    using assms
  proof (cases rule: armedLifecycle_cases)
    case setdefault
    then show ?thesis by (simp only: outcome_of_fields) simp
  next
    case reboot
    then show ?thesis by simp
  next
    case task
    then show ?thesis by simp
  qed
  then show "keys_of d' = keys_of d \<and> dev_state d' = dev_state d \<or> d' = setdefault_demotion d"
    "out_mgmt_cfg out = []" "\<not> out_full out" by blast+
qed

section \<open>The key assignment\<close>

definition keys_inv :: "device \<Rightarrow> bool" where
  "keys_inv d \<longleftrightarrow> length (dev_authkeys d) \<le> 2 \<and> distinct (map to_lower (dev_authkeys d))
     \<and> (dev_x_authkey d \<noteq> [] \<longrightarrow> to_lower (dev_x_authkey d) \<in> to_lower ` set (dev_authkeys d))
     \<and> (dev_authkeys d \<noteq> [] \<longrightarrow> dev_x_authkey d \<noteq> [])
     \<and> (dev_key_confirmed d \<longrightarrow> dev_authkeys d \<noteq> [])"

text \<open>The random key source returns as many characters as it is asked for.\<close>

definition key_source :: "engine \<Rightarrow> bool" where
  "key_source e \<longleftrightarrow> (\<forall>i n s. en_key_chars e i n = Some s \<longrightarrow> length s = n)"

lemma keys_inv_cong: "keys_of a = keys_of b \<Longrightarrow> keys_inv a = keys_inv b"
  by (simp add: keys_inv_def keys_of_def)

lemma addKey_distinct: "distinct (map to_lower ks) \<Longrightarrow> distinct (map to_lower (addKey ks k))"
  by (auto simp: addKey_def Let_def list_ex_iff)

lemma distinct_map_drop: "distinct (map f xs) \<Longrightarrow> distinct (map f (drop n xs))"
  by (metis distinct_drop drop_map)

lemma rotateKeys_inv:
  assumes "keys_inv d" "key_source e" "rotateKeys e (d, n) = Inr (d', n')"
  shows "keys_inv d'"
  using assms(3)
proof (cases rule: rotateKeys_Inr)
  case (1 xk cv)
  let ?ks = "addKey (dev_authkeys d) xk"
  let ?kept = "if 2 < length ?ks then drop (length ?ks - 2) ?ks else ?ks"
  have x: "xk \<noteq> []" using assms(2) 1(1) by (force simp: key_source_def)
  have l: "length ?kept \<le> 2" by simp
  have dist: "distinct (map to_lower ?kept)"
    using addKey_distinct [of "dev_authkeys d" xk] assms(1) distinct_map_drop [of to_lower ?ks]
    by (simp add: keys_inv_def)
  have "to_lower xk \<in> to_lower ` set ?kept"
  proof (cases "list_ex (\<lambda>k. to_lower k = to_lower xk) (dev_authkeys d)")
    case True
    then have k: "?kept = dev_authkeys d" using assms(1) by (simp add: addKey_def Let_def keys_inv_def)
    obtain y where "y \<in> set (dev_authkeys d)" "to_lower xk = to_lower y"
      using True by (auto simp: list_ex_iff)
    then show ?thesis unfolding k by (rule rev_image_eqI)
  next
    case False
    then have "?ks = dev_authkeys d @ [to_lower xk]" by (simp add: addKey_def Let_def)
    then show ?thesis by auto
  qed
  moreover then have "?kept \<noteq> []" by auto
  ultimately show ?thesis using l dist x 1(4) by (simp add: keys_inv_def Let_def)
qed

lemma dispatch_keys_inv:
  assumes "keys_inv d" "key_source e" "dispatch e req wls plan drift st (d, n) = Inr (out, d', n')"
  shows "keys_inv d'"
  using assms(3)
proof (cases rule: dispatch_cases)
  case adopt
  with assms rotateKeys_inv show ?thesis by blast
next
  case repush
  with assms show ?thesis by simp
next
  case provision
  with assms keys_inv_cong assignedKeyFlow_result(1) show ?thesis by blast
next
  case conn
  with assms keys_inv_cong connected_flow_result(1) show ?thesis by blast
qed

lemma demotion_keys_inv: "keys_inv (setdefault_demotion d)"
  by (simp add: keys_inv_def setdefault_fields)

lemma armed_keys_inv: "keys_inv d \<Longrightarrow> armedLifecycle d = Some (out, d') \<Longrightarrow> keys_inv d'"
  using armed_keys(1) keys_inv_cong demotion_keys_inv by metis

lemma drift_and_dispatch_keys_inv:
  assumes "keys_inv d" "key_source e" "drift_and_dispatch e req wls plan d = Inr (out, d', n')"
  shows "keys_inv d'"
  using assms(3)
proof (cases rule: drift_and_dispatch_cases)
  case (held d1)
  then have "keys_inv d1 = keys_inv d" by (intro keys_inv_cong) (simp add: same_assignment_def)
  with held assms(1) show ?thesis by simp
next
  case (go drift d1 n1)
  then have "keys_inv d1 = keys_inv d" by (intro keys_inv_cong) (simp add: same_assignment_def)
  with assms(1) dispatch_keys_inv [OF _ assms(2) go(1)] show ?thesis by simp
qed

lemma decide_work_keys_inv:
  assumes "keys_inv (rq_device req)" "key_source e" "decide_work e req = Inr (out, d', n')"
  shows "keys_inv d'"
proof -
  define d where "d = cloneDevice (rq_device req)"
  have c: "keys_inv d"
    using assms(1) keys_inv_cong [of d "rq_device req"] by (simp add: d_def cloneDevice_def Let_def)
  show ?thesis
  proof (cases "rq_transport req")
    case TransportEncrypted
    then obtain wls plan where "decideEncrypted e req wls plan d = Inr (out, d', n')"
      using assms(3) by (auto simp: decide_work_def Let_def d_def)
    then show ?thesis
      using c assms(2) armed_keys_inv [OF c] drift_and_dispatch_keys_inv [OF c]
      by (auto simp: decideEncrypted_def split: if_splits option.splits)
  next
    case TransportPlaintext
    then obtain wls plan where "decidePlain e req wls plan d = Inr (out, d', n')"
      using assms(3) by (auto simp: decide_work_def Let_def d_def)
    moreover have "keys_inv d'" if "plain_dispatch e req wls plan d = Inr (out, d', n')"
    proof -
      have "d' = d \<or> assignedKeyFlow e (rq_now req) wls plan (d, 0) = Inr (out, d', n')"
        using that by (auto simp: plain_dispatch_def split: if_splits)
      then show ?thesis using c keys_inv_cong [OF assignedKeyFlow_result(1)] by blast
    qed
    ultimately show ?thesis
      using c armed_keys_inv [OF c] by (auto simp: decidePlain_def split: if_splits option.splits)
  qed
qed

lemma confirm_keys_inv: "keys_inv d \<Longrightarrow> keys_inv (confirm_key used d)"
  by (auto simp: confirm_key_def keys_inv_def list_ex_iff)

section \<open>Rejection\<close>

lemma mint_cfg_Inl: "mint_cfg e w = Inl err \<Longrightarrow> err = ErrKeyChars"
  by (cases w) (auto simp: mint_cfg_def and_then_Inl mint_def split: option.splits)

lemma assignedKeyFlow_Inl: "assignedKeyFlow e now wls plan w \<noteq> Inl ErrDefaultKeyRejected"
  by (auto simp: assignedKeyFlow_def and_then_Inl Let_def dest: mint_cfg_Inl
      split: if_splits option.splits)

lemma connected_flow_Inl: "connected_flow e req plan st (d, n) \<noteq> Inl ErrDefaultKeyRejected"
  by (auto simp: connected_flow_def and_then_Inl Let_def dest!: mint_cfg_Inl
      split: if_splits prod.splits option.splits not_running.splits)

lemma rotateKeys_Inl: "rotateKeys e (d, n) = Inl err \<Longrightarrow> err = ErrKeyChars"
  by (auto simp: rotateKeys_def and_then_Inl mint_def Let_def split: option.splits)

lemma dispatch_Inl: "dispatch e req wls plan drift st (d, n) \<noteq> Inl ErrDefaultKeyRejected"
  using assignedKeyFlow_Inl [of e "rq_now req" wls plan "(d, n)"] connected_flow_Inl [of e req plan st d n]
  by (auto simp: dispatch_def Let_def and_then_Inl dest: rotateKeys_Inl split: if_splits)

lemma stage_Inl:
  "wlan_drift_stage e plan st w \<noteq> Inl ErrDefaultKeyRejected"
  "blocked_drift_stage e w \<noteq> Inl ErrDefaultKeyRejected"
  by (auto simp: wlan_drift_stage_def blocked_drift_stage_def and_then_Inl dest: mint_cfg_Inl split: if_splits)

lemma drift_and_dispatch_Inl: "drift_and_dispatch e req wls plan d \<noteq> Inl ErrDefaultKeyRejected"
proof -
  define st where "st = Settle (dev_cfg_version d) (LoadDeliveryState (en_json e) (ext d))"
  have eq: "drift_and_dispatch e req wls plan d =
      and_then (wlan_drift_stage e plan st (sync st d, 0)) (\<lambda>(wlanDrift, w).
      and_then (blocked_drift_stage e w) (\<lambda>(blockedDrift, d, n).
        let (st, hold, wlanDrift) = pending_stage (rq_now req) plan wlanDrift blockedDrift d st;
            d = sync st d
        in if hold then Inr (noopFor e d (rq_now req) (rq_prev_target req) KindNoopPendingWLAN, d, n)
           else dispatch e req wls plan (wlanDrift \<or> blockedDrift) st (d, n)))"
    by (simp add: drift_and_dispatch_def Let_def st_def)
  show ?thesis
  proof (cases "wlan_drift_stage e plan st (sync st d, 0)")
    case (Inl err)
    with stage_Inl(1) [of e plan st "(sync st d, 0)"] show ?thesis unfolding eq by simp
  next
    case w: (Inr r)
    obtain wd dw where r: "r = (wd, dw)" by (metis surj_pair)
    show ?thesis
    proof (cases "blocked_drift_stage e dw")
      case (Inl err)
      with stage_Inl(2) [of e dw] w r show ?thesis unfolding eq by simp
    next
      case (Inr q)
      obtain bd db nb where q: "q = (bd, db, nb)" by (metis prod_cases3)
      obtain st' hold wd' where "pending_stage (rq_now req) plan wd bd db st = (st', hold, wd')"
        by (metis prod_cases3)
      with w r Inr q dispatch_Inl show ?thesis unfolding eq by (simp add: Let_def)
    qed
  qed
qed

lemma Decide_rejects:
  "Decide e req = Inl ErrDefaultKeyRejected \<longleftrightarrow>
    rq_transport req = TransportEncrypted \<and> key_rejected (rq_used_key req) (cloneDevice (rq_device req))"
proof (cases "rq_transport req")
  case TransportEncrypted
  have "decideEncrypted e req wls plan d = Inl ErrDefaultKeyRejected \<longleftrightarrow> key_rejected (rq_used_key req) d" for wls plan d
    using drift_and_dispatch_Inl [of e req wls plan d]
    by (auto simp: decideEncrypted_def split: option.splits)
  with TransportEncrypted show ?thesis
    by (auto simp: Decide_def decide_work_def Let_def and_then_Inl)
next
  case TransportPlaintext
  have "decidePlain e req wls plan d \<noteq> Inl ErrDefaultKeyRejected" for wls plan d
    using assignedKeyFlow_Inl [of e "rq_now req" wls plan "(d, 0)"]
    by (auto simp: decidePlain_def plain_dispatch_def split: option.splits if_splits)
  with TransportPlaintext show ?thesis
    by (auto simp: Decide_def decide_work_def Let_def and_then_Inl)
qed

lemma cloneDevice_fields [simp]: "keys_of (cloneDevice d) = keys_of d" "dev_state (cloneDevice d) = dev_state d"
  "ext (cloneDevice d) = ext d" "dev_cfg_version (cloneDevice d) = dev_cfg_version d"
  "dev_applied_cfg (cloneDevice d) = dev_applied_cfg d" "dev_x_authkey (cloneDevice d) = dev_x_authkey d"
  "dev_key_confirmed (cloneDevice d) = dev_key_confirmed d" "dev_authkeys (cloneDevice d) = dev_authkeys d"
  "dev_model (cloneDevice d) = dev_model d"
  by (simp_all add: cloneDevice_def Let_def keys_of_def)

section \<open>Where the key appears\<close>

lemma authkey_rows_of_config:
  "(''authkey'', k) \<in> set (parse_rows (BuildMgmtCfg e d used)) \<Longrightarrow>
     k = dev_x_authkey d \<and> k \<noteq> [] \<and> \<not> equal_fold used k"
  by (auto simp: BuildMgmtCfg_parse authkey_row)

lemma parse_rows_Nil [simp]: "parse_rows [] = []"
  by (simp add: parse_rows_def)

lemma assignedKeyFlow_no_key:
  assumes "assignedKeyFlow e now wls plan (d, n) = Inr (out, d', n')"
  shows "(''authkey'', k) \<notin> set (parse_rows (out_mgmt_cfg out))"
  using authkey_rows_of_config [of k e d' "dev_x_authkey d'"] assignedKeyFlow_result(6) [OF assms]
  by auto

lemma dispatch_key:
  assumes "dispatch e req wls plan drift st (d, n) = Inr (out, d', n')"
    and "(''authkey'', k) \<in> set (parse_rows (out_mgmt_cfg out))"
  shows "out_kind out = KindSetparam \<and> \<not> out_full out \<and> k = dev_x_authkey d' \<and> \<not> equal_fold (rq_used_key req) k"
  using assms(1)
proof (cases rule: dispatch_cases)
  case adopt
  with assms(2) authkey_rows_of_config show ?thesis by (fastforce simp: adoptionPush_def)
next
  case repush
  with assms(2) authkey_rows_of_config show ?thesis by (fastforce simp: adoptionPush_def)
next
  case provision
  with assms(2) assignedKeyFlow_no_key show ?thesis by blast
next
  case conn
  with assms(2) connected_flow_result(2) show ?thesis by fastforce
qed

lemma encrypted_key:
  assumes "decideEncrypted e req wls plan d = Inr (out, d', n')"
    and k: "(''authkey'', k) \<in> set (parse_rows (out_mgmt_cfg out))"
  shows "out_kind out = KindSetparam \<and> \<not> out_full out \<and> k = dev_x_authkey d' \<and> \<not> equal_fold (rq_used_key req) k"
proof -
  have "out_mgmt_cfg out \<noteq> []" using k by auto
  then have "drift_and_dispatch e req wls plan d = Inr (out, d', n')"
    using assms(1) armed_keys(2) [of d out d'] by (auto simp: decideEncrypted_def split: if_splits option.splits)
  then show ?thesis
  proof (cases rule: drift_and_dispatch_cases)
    case held
    with k show ?thesis by simp
  next
    case go
    with k dispatch_key show ?thesis by blast
  qed
qed

lemma plain_key:
  assumes "decidePlain e req wls plan d = Inr (out, d', n')"
  shows "(''authkey'', k) \<notin> set (parse_rows (out_mgmt_cfg out))"
proof
  assume k: "(''authkey'', k) \<in> set (parse_rows (out_mgmt_cfg out))"
  then have "out_mgmt_cfg out \<noteq> []" by auto
  then have "plain_dispatch e req wls plan d = Inr (out, d', n')"
    using assms armed_keys(2) [of d out d'] by (auto simp: decidePlain_def split: if_splits option.splits)
  then consider "out_mgmt_cfg out = []" | "out = adoptionPush e d (dev_x_authkey d)"
    | "assignedKeyFlow e (rq_now req) wls plan (d, 0) = Inr (out, d', n')"
    by (auto simp: plain_dispatch_def split: if_splits)
  then show False
  proof cases
    case 2
    with k authkey_rows_of_config show False by (fastforce simp: adoptionPush_def)
  qed (use k assignedKeyFlow_no_key in auto)
qed

end
