(* ===== verification/Adoption_Laws.thy ===== *)
theory Adoption_Laws
  imports Adoption
begin

text \<open>
  The laws of the adoption engine's decisions: when a record may become adopted, the noop
  schedule, the one-shot commands, the drift of the blocked set, the watchdogs, and the return
  of a factory-reset device.
\<close>

section \<open>Adopted means proven\<close>

lemma connected_flow_adopts:
  assumes "drift_and_dispatch e req wls plan d = Inr (out, d', n')"
    and "dev_state d \<noteq> StateAdopted" "dev_state d' = StateAdopted"
  defines "st \<equiv> Settle (dev_cfg_version d) (LoadDeliveryState (en_json e) (ext d))"
  shows "equal_fold (dev_x_authkey d) (rq_used_key req)" "dev_x_authkey d \<noteq> []"
    "dev_applied_cfg d = dev_cfg_version d" "dev_cfg_version d \<noteq> []"
    "ds_sha st = pp_drift plan" "ds_sha st \<noteq> []" "\<not> ds_pending_present st"
    "\<not> snd (blockedStaDrift e (sync st d))"
proof -
  have "equal_fold (dev_x_authkey d) (rq_used_key req) \<and> dev_x_authkey d \<noteq> []
    \<and> dev_applied_cfg d = dev_cfg_version d \<and> dev_cfg_version d \<noteq> []
    \<and> ds_sha st = pp_drift plan \<and> ds_sha st \<noteq> [] \<and> \<not> ds_pending_present st
    \<and> \<not> snd (blockedStaDrift e (sync st d))"
    using assms(1)
  proof (cases rule: drift_and_dispatch_cases)
    case held
    with assms(2,3) show ?thesis by (simp add: same_assignment_def)
  next
    case (go drift d1 n1)
    have s: "dev_state d1 = dev_state d" "dev_x_authkey d1 = dev_x_authkey d"
      "dev_applied_cfg d1 = dev_applied_cfg d"
      using go(2) by (simp_all add: same_assignment_def keys_of_def)
    show ?thesis
      using go(1)
    proof (cases rule: dispatch_cases)
      case adopt
      with assms(3) show ?thesis by (auto elim!: rotateKeys_Inr simp: device_states)
    next
      case repush
      with assms(2,3) s show ?thesis by simp
    next
      case provision
      with assms(3) assignedKeyFlow_result(2) show ?thesis by (fastforce simp: device_states)
    next
      case conn
      have "dev_cfg_version d1 = dev_cfg_version d" using go(5) conn(3) by blast
      with connected_flow_result(4) [OF conn(6)] assms(2,3) s conn go(4)
      show ?thesis unfolding st_def by auto
    qed
  qed
  then show "equal_fold (dev_x_authkey d) (rq_used_key req)" "dev_x_authkey d \<noteq> []"
    "dev_applied_cfg d = dev_cfg_version d" "dev_cfg_version d \<noteq> []"
    "ds_sha st = pp_drift plan" "ds_sha st \<noteq> []" "\<not> ds_pending_present st"
    "\<not> snd (blockedStaDrift e (sync st d))" by blast+
qed

section \<open>The cfgversion delta is set in one place\<close>

lemma unset_fields [simp]: "\<not> out_set_cfg_version (noopFor e d now p k)"
  "\<not> out_set_cfg_version (outcome_of k)" "\<not> out_set_cfg_version (adoptionPush e d used)"
  by (simp_all add: noopFor_def adoptionPush_def outcome_of_def Let_def)

lemma assignedKeyFlow_unset:
  "assignedKeyFlow e now wls plan w = Inr (out, d', n') \<Longrightarrow> \<not> out_set_cfg_version out"
  by (auto simp: assignedKeyFlow_def and_then_Inr Let_def outcome_of_def split: option.splits prod.splits)

lemma push_unset: "blockedStaReconnectPush d = (d', Some out) \<Longrightarrow> \<not> out_set_cfg_version out"
  by (auto simp: blockedStaReconnectPush_def Let_def outcome_of_def split: if_splits)

lemma connected_flow_unset:
  assumes "connected_flow e req plan st (d, n) = Inr (out, d', n')"
  shows "\<not> out_set_cfg_version out"
proof -
  obtain dp o' where p: "blockedStaReconnectPush d = (dp, o')" by fastforce
  show ?thesis
  proof (cases o')
    case None
    then show ?thesis
      using assms p by (auto simp: connected_flow_def Let_def and_then_Inr
          split: if_splits not_running.splits prod.splits)
  next
    case (Some o'')
    then show ?thesis
      using assms p push_unset by (auto simp: connected_flow_def Let_def and_then_Inr split: if_splits)
  qed
qed

lemma dispatch_unset:
  "dispatch e req wls plan drift st (d, n) = Inr (out, d', n') \<Longrightarrow> \<not> out_set_cfg_version out"
  by (erule dispatch_cases) (auto dest: assignedKeyFlow_unset connected_flow_unset)

lemma armed_unset: "armedLifecycle d = Some (out, d') \<Longrightarrow> \<not> out_set_cfg_version out"
  by (erule armedLifecycle_cases) (auto simp: outcome_of_def)

lemma drift_and_dispatch_unset:
  assumes "drift_and_dispatch e req wls plan d = Inr (out, d', n')"
  shows "\<not> out_set_cfg_version out"
  using assms by (cases rule: drift_and_dispatch_cases) (auto dest: dispatch_unset)

lemma decide_work_unset:
  assumes "decide_work e req = Inr (out, d', n')"
  shows "\<not> out_set_cfg_version out"
proof -
  define d where "d = cloneDevice (rq_device req)"
  obtain wls plan where "decideEncrypted e req wls plan d = Inr (out, d', n')
      \<or> decidePlain e req wls plan d = Inr (out, d', n')"
    using assms by (auto simp: decide_work_def Let_def d_def split: transport.splits)
  then consider "\<not> out_set_cfg_version out" | "armedLifecycle d = Some (out, d')"
    | "drift_and_dispatch e req wls plan d = Inr (out, d', n')"
    | "assignedKeyFlow e (rq_now req) wls plan (d, 0) = Inr (out, d', n')"
    by (auto simp: decideEncrypted_def decidePlain_def plain_dispatch_def
        split: if_splits option.splits)
  then show ?thesis using armed_unset drift_and_dispatch_unset assignedKeyFlow_unset by cases blast+
qed

section \<open>The noop schedule\<close>

lemma clamp_random_range: "0 \<le> clamp_random r" "clamp_random r < 1"
  by (simp_all add: clamp_random_def)

text \<open>The clock, and the target tracked for a device, stay far inside 64 bits.\<close>

definition sane_clock :: "int \<Rightarrow> int \<Rightarrow> bool" where
  "sane_clock now prev \<longleftrightarrow> 0 \<le> now \<and> now < 2 ^ 61 \<and> 0 \<le> prev \<and> prev < 2 ^ 61"

lemma noop_jitter: "0 \<le> \<lfloor>f64_round (clamp_random r * 5)\<rfloor>" "\<lfloor>f64_round (clamp_random r * 5)\<rfloor> < 2 ^ 61"
proof -
  have r: "0 \<le> clamp_random r * 5" "clamp_random r * 5 < 5" using clamp_random_range [of r] by simp_all
  then show "0 \<le> \<lfloor>f64_round (clamp_random r * 5)\<rfloor>" using f64_round_nonneg by simp
  have "f64_round (clamp_random r * 5) < 2 ^ 61" using f64_round_le [OF r(1)] r(2) by simp
  then show "\<lfloor>f64_round (clamp_random r * 5)\<rfloor> < 2 ^ 61" by (simp add: floor_less_iff)
qed

lemma noopFor_scheduled:
  assumes "sane_clock now prev"
    and "out_persist_target (noopFor e d now prev k)"
  shows "10 \<le> out_interval (noopFor e d now prev k)" "out_interval (noopFor e d now prev k) < 90"
    "out_noop_target (noopFor e d now prev k) = now + out_interval (noopFor e d now prev k)"
    "prev \<noteq> 0 \<Longrightarrow> prev + 5 \<le> out_noop_target (noopFor e d now prev k)"
proof -
  define previous where "previous = (if prev = 0 then now else prev)"
  define j where "j = \<lfloor>f64_round (clamp_random (en_random e) * 5)\<rfloor>"
  define t where "t = max (previous + 5) (now + 10) + j"
  have j: "0 \<le> j" "j < 2 ^ 61" using noop_jitter [of "en_random e"] by (simp_all add: j_def)
  have p: "0 \<le> previous" "previous < 2 ^ 61" "0 \<le> now" "now < 2 ^ 61"
    using assms(1) by (simp_all add: sane_clock_def previous_def)
  have w: "wrap64 (max (wrap64 (previous + 5)) (wrap64 (now + 10)) + j) = t" "wrap64 (t - now) = t - now"
    using p j by (simp_all add: wrap64_id t_def)
  have b: "\<not> isUbios (dev_model d)" "\<not> truthy (jget (ext d) ''watching'')"
    using assms(2) by (auto simp: noopFor_def outcome_of_def Let_def split: if_splits)
  have out: "noopFor e d now prev k = (if t - now < 90
      then (outcome_of k)\<lparr>out_interval := t - now, out_noop_target := t, out_persist_target := True\<rparr>
      else (outcome_of k)\<lparr>out_interval := cap_fallback (clamp_random (en_random e))\<rparr>)"
    using b w by (simp add: noopFor_def Let_def previous_def j_def outcome_of_def)
  have "t - now < 90"
    using assms(2) by (simp add: out outcome_of_def split: if_splits)
  then have o: "noopFor e d now prev k
      = (outcome_of k)\<lparr>out_interval := t - now, out_noop_target := t, out_persist_target := True\<rparr>"
    by (simp add: out)
  show "10 \<le> out_interval (noopFor e d now prev k)" "out_interval (noopFor e d now prev k) < 90"
    "out_noop_target (noopFor e d now prev k) = now + out_interval (noopFor e d now prev k)"
    "prev \<noteq> 0 \<Longrightarrow> prev + 5 \<le> out_noop_target (noopFor e d now prev k)"
    using \<open>t - now < 90\<close> j by (simp_all add: o t_def previous_def)
qed

section \<open>One-shot commands\<close>

lemma armed_consumed:
  assumes "armedLifecycle d = Some (out, d')"
  shows "out_kind out = KindSetdefault \<Longrightarrow> armedLifecycle d' = None"
    and "out_kind out = KindReboot \<Longrightarrow> jget (ext d') FlagRebootOnConnect = None
           \<and> jget (ext d') CmdTaskKey = jget (ext d) CmdTaskKey
           \<and> jget (ext d') WlanCfgNotRunningMissesKey = None \<and> jget (ext d') WlanCfgVapNotRunningMissesKey = None"
    and "out_kind out = KindCmd \<Longrightarrow> out_cmd_task out = ArmedCmdTask d \<and> armedLifecycle d' = None"
    and "out_kind out \<in> {KindSetdefault, KindReboot, KindCmd}"
proof -
  have ne: "FlagRebootOnConnect \<noteq> CmdTaskKey" "FlagRebootOnConnect \<noteq> FlagSetdefaultArmed"
    "CmdTaskKey \<noteq> FlagSetdefaultArmed" "CmdTaskKey \<noteq> WlanCfgNotRunningMissesKey"
    "CmdTaskKey \<noteq> WlanCfgVapNotRunningMissesKey" "FlagRebootOnConnect \<noteq> WlanCfgNotRunningMissesKey"
    "FlagRebootOnConnect \<noteq> WlanCfgVapNotRunningMissesKey"
    by code_simp+
  have none: "truthy None = False" by (simp add: truthy_def)
  have unarmed: "ArmedCmdTask x = None" if "jget (ext x) CmdTaskKey = None" for x
    using that by (simp add: ArmedCmdTask_def)
  show "armedLifecycle d' = None" if "out_kind out = KindSetdefault"
    using assms
  proof (cases rule: armedLifecycle_cases)
    case setdefault
    then show ?thesis
      by (simp add: armedLifecycle_def setdefault_rows none ArmedCmdTask_def)
  qed (use that in simp_all)
  show "jget (ext d') FlagRebootOnConnect = None
           \<and> jget (ext d') CmdTaskKey = jget (ext d) CmdTaskKey
           \<and> jget (ext d') WlanCfgNotRunningMissesKey = None \<and> jget (ext d') WlanCfgVapNotRunningMissesKey = None"
    if "out_kind out = KindReboot"
    using assms
  proof (cases rule: armedLifecycle_cases)
    case reboot
    have "ext d' = ClearWatchdogCounters (jdel FlagRebootOnConnect (ext d))"
      unfolding reboot(4) by (cases "dev_extra d") (simp_all add: ext_def ext_del_def ClearWatchdogCounters_def)
    then show ?thesis using ne by (simp add: ClearWatchdogCounters_def row_simps)
  qed (use that in simp_all)
  show "out_cmd_task out = ArmedCmdTask d \<and> armedLifecycle d' = None" if "out_kind out = KindCmd"
    using assms
  proof (cases rule: armedLifecycle_cases)
    case (task row)
    have r: "jget (ext d') CmdTaskKey = None" "jget (ext d') FlagSetdefaultArmed = jget (ext d) FlagSetdefaultArmed"
      "jget (ext d') FlagRebootOnConnect = jget (ext d) FlagRebootOnConnect"
      using ne by (simp_all add: task(5) row_simps)
    have "armedLifecycle d' = None"
      using task(1,2) unarmed [OF r(1)] by (simp add: armedLifecycle_def r(2,3))
    moreover have "out_cmd_task out = ArmedCmdTask d" using task(3,4) by simp
    ultimately show ?thesis by blast
  qed (use that in simp_all)
  show "out_kind out \<in> {KindSetdefault, KindReboot, KindCmd}"
    using assms by (cases rule: armedLifecycle_cases) simp_all
qed

section \<open>The blocked set\<close>

lemma drift_rows_cong:
  "jget (ext a) BlockedStaExtraKey = jget (ext b) BlockedStaExtraKey \<Longrightarrow>
   jget (ext a) BlockedStaShaExtraKey = jget (ext b) BlockedStaShaExtraKey \<Longrightarrow>
   blockedStaDrift e a = blockedStaDrift e b"
  by (simp add: blockedStaDrift_def get_str_def Let_def blockedStaWire_cong [of a b])

lemma Settle_blocked_rows:
  "jget (ds_extra (Settle cv st)) BlockedStaExtraKey = jget (ds_extra st) BlockedStaExtraKey"
  "jget (ds_extra (Settle cv st)) BlockedStaShaExtraKey = jget (ds_extra st) BlockedStaShaExtraKey"
proof -
  have p: "jget (ds_extra (promote cv st)) BlockedStaExtraKey = jget (ds_extra st) BlockedStaExtraKey"
    "jget (ds_extra (promote cv st)) BlockedStaShaExtraKey = jget (ds_extra st) BlockedStaShaExtraKey" for st
    by (simp_all add: promote_def Let_def row_simps key_defs split: option.split)
  have "Settle cv st = st \<or> (\<exists>pl. Settle cv st = st\<lparr>ds_placements := pl\<rparr>
      \<or> Settle cv st = promote cv (st\<lparr>ds_placements := pl\<rparr>))"
    by (auto simp: Settle_def Let_def split: prod.split option.split)
  then show "jget (ds_extra (Settle cv st)) BlockedStaExtraKey = jget (ds_extra st) BlockedStaExtraKey"
    "jget (ds_extra (Settle cv st)) BlockedStaShaExtraKey = jget (ds_extra st) BlockedStaShaExtraKey"
    using p by auto
qed

lemma settled_drift:
  "blockedStaDrift e (sync (Settle cv (LoadDeliveryState jt (ext d))) d) = blockedStaDrift e d"
  by (rule drift_rows_cong) (simp_all add: Settle_blocked_rows LoadDeliveryState_def)

lemma pending_stage_blocked: "\<not> fst (snd (pending_stage now plan wd True d st))"
  by (simp add: pending_stage_def Let_def)

lemma blocked_drift_provisions:
  assumes "drift_and_dispatch e req wls plan d = Inr (out, d', n')"
    and drift: "snd (blockedStaDrift e d)"
    and key: "dev_x_authkey d \<noteq> []" "equal_fold (dev_x_authkey d) (rq_used_key req)"
      "rq_used_key req \<noteq> DefaultKeyHex"
  shows "out_kind out = KindSetparam" "out_full out" "out_blocked_sta out = blockedStaWire d"
    "\<not> snd (blockedStaDrift e d')"
proof -
  define st where "st = Settle (dev_cfg_version d) (LoadDeliveryState (en_json e) (ext d))"
  have sd: "snd (blockedStaDrift e (sync st d))" using drift by (simp add: st_def settled_drift)
  have "out_kind out = KindSetparam \<and> out_full out \<and> out_blocked_sta out = blockedStaWire d
    \<and> \<not> snd (blockedStaDrift e d')"
    using assms(1)
  proof (cases rule: drift_and_dispatch_cases)
    case (held d1)
    obtain wd dw nw where w: "wlan_drift_stage e plan st (sync st d, 0) = Inr (wd, dw, nw)"
      using assms(1) by (auto simp: drift_and_dispatch_def Let_def and_then_Inr st_def)
    obtain bd db nb where b: "blocked_drift_stage e (dw, nw) = Inr (bd, db, nb)"
      using assms(1) w by (auto simp: drift_and_dispatch_def Let_def and_then_Inr st_def)
    have "snd (blockedStaDrift e dw)"
      using sd wlan_drift_stage_Inr(2) [OF w]
      by (simp add: blockedStaDrift_def Let_def blockedStaWire_def BlockedClients_def)
    then have bd: "bd" using blocked_drift_stage_Inr(3) [OF b] by simp
    obtain st' hold wd' where p: "pending_stage (rq_now req) plan wd bd db st = (st', hold, wd')"
      by (metis prod_cases3)
    have "\<not> hold" using pending_stage_blocked [of "rq_now req" plan wd db st] p bd by simp
    then have dsp: "dispatch e req wls plan (wd' \<or> bd) st' (sync st' db, nb) = Inr (out, d', n')"
      using assms(1) w b p by (simp add: drift_and_dispatch_def Let_def st_def)
    have "out_kind out = KindNoopPendingWLAN" using held by simp
    moreover have "out_kind out = KindSetparam \<or> (\<exists>d1 n1 st1. connected_flow e req plan st1 (d1, n1) = Inr (out, d', n') \<and> \<not> bd)"
      using dsp
    proof (cases rule: dispatch_cases)
      case provision
      then show ?thesis using assignedKeyFlow_result(3) by blast
    qed (auto simp: adoptionPush_def)
    ultimately show ?thesis using bd by simp
  next
    case (go dr d1 n1)
    have dr: "dr" using go(4) sd by (simp add: st_def)
    have s: "dev_x_authkey d1 = dev_x_authkey d" using go(2) by (simp add: same_assignment_def keys_of_def)
    have wire: "blockedStaWire d1 = blockedStaWire d"
      using go(3) by (intro blockedStaWire_cong) (simp add: Settle_blocked_rows LoadDeliveryState_def)
    show ?thesis
      using go(1)
    proof (cases rule: dispatch_cases)
      case provision
      with assignedKeyFlow_result [OF provision(3)] wire show ?thesis by simp
    qed (use key s dr in auto)
  qed
  then show "out_kind out = KindSetparam" "out_full out" "out_blocked_sta out = blockedStaWire d"
    "\<not> snd (blockedStaDrift e d')" by blast+
qed

section \<open>The watchdogs\<close>

lemma marker_read:
  "cfg \<noteq> [] \<Longrightarrow> MaterializationRebootArmedFor (SetMaterializationRebootArmed cfg extra) = Some cfg"
  by (simp add: MaterializationRebootArmedFor_def SetMaterializationRebootArmed_def row_simps
      map_row_def get_str_def)

lemma watchdog_arms:
  assumes "devname_watchdog plan st d = (True, d')"
  shows "MissingVaps (pp_vaps plan) (jget (ds_extra st) ''vap_table'') \<noteq> []"
    "MaterializationRebootArmedFor (ds_extra st) \<noteq> Some (dev_cfg_version d)"
    "2 \<le> wrap64 (ds_vap_misses st + 1)"
    "dev_cfg_version d \<noteq> [] \<Longrightarrow> MaterializationRebootArmedFor (ext d') = Some (dev_cfg_version d)"
    "truthy (jget (ext d') FlagRebootOnConnect)" "dev_cfg_version d' = dev_cfg_version d"
proof -
  have ne: "FlagRebootOnConnect \<noteq> WlanCfgMaterializationRebootKey" by code_simp
  note w = assms [unfolded devname_watchdog_def Let_def RecordVapNotRunningMiss_def, simplified]
  show "MissingVaps (pp_vaps plan) (jget (ds_extra st) ''vap_table'') \<noteq> []"
    "MaterializationRebootArmedFor (ds_extra st) \<noteq> Some (dev_cfg_version d)"
    "2 \<le> wrap64 (ds_vap_misses st + 1)"
    using w by (auto split: if_splits)
  obtain extra where x: "d' = sync (st\<lparr>ds_vap_misses := 0, ds_extra := SetMaterializationRebootArmed (dev_cfg_version d)
      (jset FlagRebootOnConnect (GBool True) extra)\<rparr>) d"
    using w by (auto simp: ClearVapNotRunningMisses_def split: if_splits)
  show "dev_cfg_version d \<noteq> [] \<Longrightarrow> MaterializationRebootArmedFor (ext d') = Some (dev_cfg_version d)"
    "truthy (jget (ext d') FlagRebootOnConnect)" "dev_cfg_version d' = dev_cfg_version d"
    using ne by (simp_all add: x marker_read)
      (simp_all add: SetMaterializationRebootArmed_def row_simps truthy_def)
qed

lemma watchdog_standing:
  assumes "MaterializationRebootArmedFor (ds_extra st) = Some (dev_cfg_version d)"
  shows "\<not> fst (devname_watchdog plan st d)"
  using assms by (simp add: devname_watchdog_def Let_def)

lemma watchdog_cfg: "dev_cfg_version (snd (devname_watchdog plan st d)) = dev_cfg_version d"
  by (simp add: devname_watchdog_def Let_def split: prod.split)

lemma push_cfg: "dev_cfg_version (fst (blockedStaReconnectPush d)) = dev_cfg_version d"
  by (simp add: blockedStaReconnectPush_def Let_def)

text \<open>A connected decision mints a version only to seed a missing baseline or on the second miss.\<close>

lemma connected_mint:
  assumes "connected_flow e req plan st (d, n) = Inr (out, d', n')"
    and "dev_cfg_version d' \<noteq> dev_cfg_version d" "ds_sha st \<noteq> []"
  shows "2 \<le> wrap64 (ds_misses st + 1)"
    "NotRunningEvidence (en_json e) (st\<lparr>ds_extra := ext (fst (blockedStaReconnectPush d))\<rparr>) = NotRunningMiss"
    "jget (ext d') WlanCfgNotRunningMissesKey = None" "out_kind out = KindNoop"
    "\<not> ds_pending_present st"
proof -
  obtain dp o' where p: "blockedStaReconnectPush d = (dp, o')" by fastforce
  have c: "dev_cfg_version dp = dev_cfg_version d" using push_cfg [of d] p by simp
  let ?st = "st\<lparr>ds_extra := ext dp\<rparr>"
  have np: "\<not> ds_pending_present st" using assms by (auto simp: connected_flow_def Let_def)
  moreover have "o' = None" using assms p c np by (auto simp: connected_flow_def split: option.splits)
  moreover have miss: "NotRunningEvidence (en_json e) ?st = NotRunningMiss"
  proof (cases "NotRunningEvidence (en_json e) ?st")
    case NotRunningUnknown
    with assms p c np \<open>o' = None\<close> show ?thesis by (auto simp: connected_flow_def Let_def)
  next
    case NotRunningRun
    obtain arm dd where w: "devname_watchdog plan (ClearNotRunningMisses ?st) dp = (arm, dd)" by fastforce
    with watchdog_cfg [of plan "ClearNotRunningMisses ?st" dp] have "dev_cfg_version dd = dev_cfg_version d"
      using c by simp
    with w assms p np \<open>o' = None\<close> NotRunningRun show ?thesis
      by (auto simp: connected_flow_def Let_def split: if_splits)
  qed
  ultimately have r: "(if wrap64 (ds_misses st + 1) < 2
      then Inr (noopFor e ((sync (fst (RecordNotRunningMiss ?st)) dp)\<lparr>dev_state := StateAdopted\<rparr>)
             (rq_now req) (rq_prev_target req) KindNoop,
           (sync (fst (RecordNotRunningMiss ?st)) dp)\<lparr>dev_state := StateAdopted\<rparr>, n)
      else and_then (mint_cfg e (sync (ClearNotRunningMisses (fst (RecordNotRunningMiss ?st))) dp, n))
             (\<lambda>(d, n). Inr (noopFor e d (rq_now req) (rq_prev_target req) KindNoop, d, n)))
      = Inr (out, d', n')"
    using assms(1,3) p by (auto simp: connected_flow_def Let_def RecordNotRunningMiss_def split: if_splits)
  then show two: "2 \<le> wrap64 (ds_misses st + 1)" using assms(2) c by (auto split: if_splits)
  obtain v where d': "d' = (sync (ClearNotRunningMisses (fst (RecordNotRunningMiss ?st))) dp)\<lparr>dev_cfg_version := v\<rparr>"
    and k: "out_kind out = KindNoop"
    using r two by (auto simp: and_then_Inr mint_cfg_Inr)
  show "out_kind out = KindNoop" by (rule k)
  show "jget (ext d') WlanCfgNotRunningMissesKey = None"
    by (simp add: d' ClearNotRunningMisses_def row_simps)
  show "NotRunningEvidence (en_json e) (st\<lparr>ds_extra := ext (fst (blockedStaReconnectPush d))\<rparr>) = NotRunningMiss"
    using miss p by simp
  show "\<not> ds_pending_present st" by (rule np)
qed

section \<open>A factory-reset device comes back\<close>

lemma swept:
  "jget (ext (setdefault_demotion d)) WlanCfgShaKey = None"
  "jget (ext (setdefault_demotion d)) WlanCfgPendingShaKey = None"
proof -
  have "WlanCfgShaKey \<in> set FactoryResetSweepKeys" "WlanCfgPendingShaKey \<in> set FactoryResetSweepKeys"
    by code_simp+
  then show "jget (ext (setdefault_demotion d)) WlanCfgShaKey = None"
    "jget (ext (setdefault_demotion d)) WlanCfgPendingShaKey = None"
    by (simp_all add: setdefault_rows)
qed

lemma unpaired_dispatch:
  assumes sha: "jget (ext d) WlanCfgShaKey = None" "jget (ext d) WlanCfgPendingShaKey = None"
    and used: "rq_used_key req = DefaultKeyHex"
    and keys: "\<And>i n. en_key_chars e i n \<noteq> None"
    and none: "dev_authkeys d = []"
  shows "\<exists>d' n' i xk. drift_and_dispatch e req wls plan d = Inr (adoptionPush e d' DefaultKeyHex, d', n')
    \<and> en_key_chars e i 32 = Some xk \<and> dev_x_authkey d' = xk \<and> dev_authkeys d' = [to_lower xk]
    \<and> dev_state d' = StateAdopting"
proof -
  let ?ld = "LoadDeliveryState (en_json e) (ext d)"
  have l: "ds_sha ?ld = []" "\<not> ds_pending_present ?ld" "\<not> ds_pending_is_string ?ld"
    using sha by (simp_all add: LoadDeliveryState_def get_str_def)
  then have st: "Settle (dev_cfg_version d) ?ld = ?ld" by (simp add: Settle_def)
  have w: "wlan_drift_stage e plan ?ld (sync ?ld d, 0) = Inr (False, sync ?ld d, 0)"
    using l by (simp add: wlan_drift_stage_def)
  have "\<exists>bd db nb. blocked_drift_stage e (sync ?ld d, 0) = Inr (bd, db, nb) \<and> same_assignment db d"
  proof (cases "snd (blockedStaDrift e (sync ?ld d))")
    case True
    obtain v where "en_key_chars e 0 16 = Some v" using keys by blast
    with True show ?thesis by (auto simp: blocked_drift_stage_def mint_cfg_def mint_def)
  next
    case False
    then show ?thesis by (auto simp: blocked_drift_stage_def)
  qed
  then obtain bd db nb where b: "blocked_drift_stage e (sync ?ld d, 0) = Inr (bd, db, nb)"
    and s: "same_assignment db d" by blast
  have p: "pending_stage (rq_now req) plan False bd db ?ld = (?ld, False, False)"
    using l by (simp add: pending_stage_def)
  obtain xk where xk: "en_key_chars e nb 32 = Some xk" using keys by blast
  obtain cv where cv: "en_key_chars e (nb + 1) 16 = Some cv" using keys by blast
  have ak: "dev_authkeys (sync ?ld db) = []" using s none by (simp add: same_assignment_def keys_of_def)
  define d' where "d' = (sync ?ld db)\<lparr>dev_x_authkey := xk, dev_cfg_version := cv,
      dev_authkeys := [to_lower xk], dev_state := StateAdopting\<rparr>"
  have r: "rotateKeys e (sync ?ld db, nb) = Inr (d', nb + 2)"
    using xk cv ak by (simp add: rotateKeys_def mint_def Let_def addKey_def d'_def)
  have "drift_and_dispatch e req wls plan d = Inr (adoptionPush e d' DefaultKeyHex, d', nb + 2)"
    using st w b p r used by (simp add: drift_and_dispatch_def Let_def dispatch_def)
  then show ?thesis using xk by (auto simp: d'_def)
qed

lemma demoted_admitted: "\<not> key_rejected used (cloneDevice (setdefault_demotion d))"
  by (simp add: key_rejected_def setdefault_fields)

lemma armed_cong:
  "ext a = ext b \<Longrightarrow> armedLifecycle a = None \<longleftrightarrow> armedLifecycle b = None"
  by (auto simp: armedLifecycle_def ArmedCmdTask_def Let_def split: option.splits)

section \<open>The arms of a decision\<close>

definition request_plan :: "engine \<Rightarrow> request \<Rightarrow> provisioning_plan" where
  "request_plan e req = PlanProvisioning (en_json e) (cloneDevice (rq_device req))
     (opt_or [] (wirelessForDevice e (cloneDevice (rq_device req))))"

definition gentle :: "request \<Rightarrow> bool" where
  "gentle req \<longleftrightarrow> informTypeGentleNoop (opt_or [] (get_str (rq_body req) ''_type''))"

lemma decideEncrypted_arms:
  assumes "decideEncrypted e req wls plan d = Inr (out, d', n')"
  shows "out = noopFor e d (rq_now req) (rq_prev_target req) KindNoop \<and> d' = d
    \<or> armedLifecycle d = Some (out, d') \<or> drift_and_dispatch e req wls plan d = Inr (out, d', n')"
  using assms unfolding decideEncrypted_def by (auto split: if_splits option.splits)

lemma decidePlain_arms:
  assumes "decidePlain e req wls plan d = Inr (out, d', n')"
  shows "out = noopFor e d (rq_now req) (rq_prev_target req) KindNoop \<and> d' = d
    \<or> armedLifecycle d = Some (out, d') \<or> plain_dispatch e req wls plan d = Inr (out, d', n')"
  using assms unfolding decidePlain_def by (auto split: if_splits option.splits)

lemma decide_work_cases:
  assumes "decide_work e req = Inr (out, d', n')"
  obtains (gentle) "out = noopFor e (cloneDevice (rq_device req)) (rq_now req) (rq_prev_target req) KindNoop"
      "d' = cloneDevice (rq_device req)"
  | (armed) "armedLifecycle (cloneDevice (rq_device req)) = Some (out, d')"
  | (encrypted) "rq_transport req = TransportEncrypted"
      "drift_and_dispatch e req (wirelessForDevice e (cloneDevice (rq_device req))) (request_plan e req)
         (cloneDevice (rq_device req)) = Inr (out, d', n')"
  | (plain) "rq_transport req = TransportPlaintext"
      "plain_dispatch e req (wirelessForDevice e (cloneDevice (rq_device req))) (request_plan e req)
         (cloneDevice (rq_device req)) = Inr (out, d', n')"
proof -
  let ?d = "cloneDevice (rq_device req)" and ?w = "wirelessForDevice e (cloneDevice (rq_device req))"
  let ?noop = "noopFor e ?d (rq_now req) (rq_prev_target req) KindNoop"
  show thesis
  proof (cases "rq_transport req")
    case TransportEncrypted
    with assms have "decideEncrypted e req ?w (request_plan e req) ?d = Inr (out, d', n')"
      by (simp add: decide_work_def Let_def request_plan_def)
    from decideEncrypted_arms [OF this] show ?thesis
      using gentle armed encrypted [OF TransportEncrypted] by blast
  next
    case TransportPlaintext
    with assms have "decidePlain e req ?w (request_plan e req) ?d = Inr (out, d', n')"
      by (simp add: decide_work_def Let_def request_plan_def)
    from decidePlain_arms [OF this] show ?thesis
      using gentle armed plain [OF TransportPlaintext] by blast
  qed
qed

lemma Decide_Inr:
  assumes "Decide e req = Inr out"
  obtains o' w n where "decide_work e req = Inr (o', w, n)"
    "out = deltas (rq_device req) (confirm_key (rq_used_key req) w) o'"
  using assms by (auto simp: Decide_def and_then_Inr)

lemma deltas_outcome [simp]:
  "out_kind (deltas s w o') = out_kind o'" "out_full (deltas s w o') = out_full o'"
  "out_mgmt_cfg (deltas s w o') = out_mgmt_cfg o'" "out_blocked_sta (deltas s w o') = out_blocked_sta o'"
  "out_cmd_task (deltas s w o') = out_cmd_task o'" "out_extra (deltas s w o') = ext w"
  "out_state (deltas s w o') = changed dev_state s w"
  "out_x_authkey (deltas s w o') = changed dev_x_authkey s w"
  "out_authkeys (deltas s w o') = changed dev_authkeys s w"
  "out_key_confirmed (deltas s w o') = changed dev_key_confirmed s w"
  by (simp_all add: deltas_def Let_def)

lemma confirm_fields [simp]:
  "ext (confirm_key k w) = ext w" "dev_state (confirm_key k w) = dev_state w"
  "dev_x_authkey (confirm_key k w) = dev_x_authkey w" "dev_authkeys (confirm_key k w) = dev_authkeys w"
  "dev_cfg_version (confirm_key k w) = dev_cfg_version w"
  by (simp_all add: confirm_key_def ext_def)

lemma changed_Some: "changed f s w = Some v \<longleftrightarrow> f w = v \<and> f s \<noteq> v"
  by (auto simp: changed_def)

lemma connected_kind:
  assumes "connected_flow e req plan st (d, n) = Inr (out, d', n')"
  shows "out_kind out \<in> {KindNoop, KindNoopPendingWLAN, KindBlockedStaReconnect}"
proof -
  obtain dp o' where p: "blockedStaReconnectPush d = (dp, o')" by fastforce
  show ?thesis
  proof (cases o')
    case None
    then show ?thesis
      using assms p by (auto simp: connected_flow_def Let_def and_then_Inr
          split: if_splits not_running.splits prod.splits)
  next
    case (Some o'')
    then show ?thesis
      using assms p blockedStaReconnectPush_keeps(3) [of d dp o'']
      by (auto simp: connected_flow_def Let_def and_then_Inr split: if_splits)
  qed
qed

text \<open>Only an armed command answers with a command.\<close>

definition command_kinds :: "kind set" where
  "command_kinds = {KindSetdefault, KindReboot, KindCmd}"

lemma adoptionPush_kind [simp]: "out_kind (adoptionPush e d u) = KindSetparam" "\<not> out_full (adoptionPush e d u)"
  by (simp_all add: adoptionPush_def)

lemma drift_and_dispatch_kind:
  assumes "drift_and_dispatch e req wls plan d = Inr (out, d', n')"
  shows "out_kind out \<notin> command_kinds"
  using assms
proof (cases rule: drift_and_dispatch_cases)
  case held
  then show ?thesis by (simp add: command_kinds_def)
next
  case (go drift d1 n1)
  then show ?thesis
  proof (cases rule: dispatch_cases [OF go(1)])
    case 3
    then show ?thesis using assignedKeyFlow_result(3) by (fastforce simp: command_kinds_def)
  next
    case 4
    then show ?thesis using connected_kind by (fastforce simp: command_kinds_def)
  qed (simp_all add: command_kinds_def)
qed

lemma plain_dispatch_kind:
  assumes "plain_dispatch e req wls plan d = Inr (out, d', n')"
  shows "out_kind out \<notin> command_kinds"
  using assms assignedKeyFlow_result(3) [of e "rq_now req" wls plan d 0 out d' n']
  by (auto simp: plain_dispatch_def command_kinds_def split: if_splits)

lemma command_armed:
  assumes "decide_work e req = Inr (out, d', n')" "out_kind out \<in> command_kinds"
  shows "armedLifecycle (cloneDevice (rq_device req)) = Some (out, d')"
  using assms(1)
proof (cases rule: decide_work_cases)
  case gentle
  with assms(2) show ?thesis by (simp add: command_kinds_def)
next
  case encrypted
  with assms(2) drift_and_dispatch_kind show ?thesis by blast
next
  case plain
  with assms(2) plain_dispatch_kind show ?thesis by blast
qed

lemma armed_row_cong:
  "ext a = ext b \<Longrightarrow> armedLifecycle a = None \<Longrightarrow> armedLifecycle b = None"
  using armed_cong by blast

section \<open>A decision is always reached\<close>

text \<open>The two dependencies that can fail: the random key source and the system_cfg producer.\<close>

definition engine_total :: "engine \<Rightarrow> bool" where
  "engine_total e \<longleftrightarrow> (\<forall>i n. en_key_chars e i n \<noteq> None) \<and> (\<forall>d wls plan. en_system_cfg e d wls plan \<noteq> None)"

definition succeeds :: "'e + 'a \<Rightarrow> bool" where
  "succeeds r \<longleftrightarrow> \<not> isl r"

lemma succeeds_simps [simp]: "succeeds (Inr x)" "\<not> succeeds (Inl e)"
  by (simp_all add: succeeds_def)

lemma succeeds_and_then: "succeeds r \<Longrightarrow> (\<And>x. r = Inr x \<Longrightarrow> succeeds (f x)) \<Longrightarrow> succeeds (and_then r f)"
  by (cases r) simp_all

lemma succeedsD: "succeeds r \<Longrightarrow> \<exists>x. r = Inr x"
  by (cases r) simp_all

lemma mint_succeeds: "engine_total e \<Longrightarrow> succeeds (mint e k n)"
  by (auto simp: mint_def engine_total_def split: option.split)

lemma mint_cfg_succeeds: "engine_total e \<Longrightarrow> succeeds (mint_cfg e w)"
  by (cases w) (auto simp: mint_cfg_def intro!: succeeds_and_then mint_succeeds)

lemma assignedKeyFlow_succeeds: "engine_total e \<Longrightarrow> succeeds (assignedKeyFlow e now wls plan w)"
  unfolding assignedKeyFlow_def
  by (rule succeeds_and_then) (auto simp: mint_cfg_succeeds engine_total_def Let_def split: option.split)

lemma connected_flow_succeeds:
  assumes "engine_total e"
  shows "succeeds (connected_flow e req plan st w)"
proof -
  obtain d n where w: "w = (d, n)" by (cases w)
  obtain dp o' where p: "blockedStaReconnectPush d = (dp, o')" by fastforce
  have m: "succeeds (and_then (mint_cfg e x) (\<lambda>(d, n). Inr (f d n, d, n)))" for x and f :: "device \<Rightarrow> nat \<Rightarrow> outcome"
    by (auto intro!: succeeds_and_then mint_cfg_succeeds assms)
  show ?thesis
    using m p unfolding w connected_flow_def Let_def
    by (cases "NotRunningEvidence (en_json e) (st\<lparr>ds_extra := ext dp\<rparr>)")
      (simp_all split: option.split prod.split)
qed

lemma rotateKeys_succeeds: "engine_total e \<Longrightarrow> succeeds (rotateKeys e w)"
  by (cases w) (auto simp: rotateKeys_def Let_def intro!: succeeds_and_then mint_succeeds)

lemma dispatch_succeeds:
  assumes "engine_total e"
  shows "succeeds (dispatch e req wls plan drift st w)"
proof -
  obtain d n where w: "w = (d, n)" by (cases w)
  have r: "succeeds (and_then (rotateKeys e (d, n)) (\<lambda>(d, n). Inr (adoptionPush e d used, d, n)))" for used
    by (auto intro!: succeeds_and_then rotateKeys_succeeds assms)
  show ?thesis
    using r assignedKeyFlow_succeeds [OF assms] connected_flow_succeeds [OF assms]
    by (simp add: w dispatch_def Let_def)
qed

lemma drift_and_dispatch_succeeds:
  assumes "engine_total e"
  shows "succeeds (drift_and_dispatch e req wls plan d)"
proof -
  have w: "succeeds (wlan_drift_stage e plan st x)" for st x
    by (auto simp: wlan_drift_stage_def intro!: succeeds_and_then mint_cfg_succeeds assms)
  have b: "succeeds (blocked_drift_stage e x)" for x
    by (auto simp: blocked_drift_stage_def intro!: succeeds_and_then mint_cfg_succeeds assms)
  show ?thesis
    unfolding drift_and_dispatch_def Let_def
    by (auto intro!: succeeds_and_then w b dispatch_succeeds assms split: prod.split)
qed

lemma Decide_succeeds:
  assumes "engine_total e" "Decide e req \<noteq> Inl ErrDefaultKeyRejected"
  shows "succeeds (Decide e req)"
proof -
  have "decide_work e req = Inl ErrDefaultKeyRejected \<or> succeeds (decide_work e req)"
    using drift_and_dispatch_succeeds [OF assms(1)] assignedKeyFlow_succeeds [OF assms(1)]
    by (auto simp: decide_work_def decideEncrypted_def decidePlain_def plain_dispatch_def Let_def
        split: transport.split option.split)
  then have "succeeds (decide_work e req)"
    using assms(2) by (auto simp: Decide_def)
  then show ?thesis by (auto simp: Decide_def intro!: succeeds_and_then)
qed

section \<open>A concrete engine\<close>

definition demo_engine :: engine where
  "demo_engine = \<lparr>en_url_parse = (\<lambda>_. None), en_controller_url = [], en_listen_addr = ''0.0.0.0:8080'',
     en_wireless = None, en_system_cfg = (\<lambda>d wls plan. Some (''system_cfg'', [])),
     en_json = one_document GNil, en_key_chars = (\<lambda>i n. Some (replicate n CHR ''a'')), en_random = 0\<rparr>"

definition demo_mac :: string where "demo_mac = ''aabbcc001122''"

definition demo_key :: string where "demo_key = ''0123456789abcdef0123456789abcdef''"

text \<open>A pending record, and one the device already uses its key on with the rows given.\<close>

definition pending_device :: device where
  "pending_device = (new_device demo_mac)\<lparr>dev_state := StatePending\<rparr>"

definition keyed_device :: "int \<Rightarrow> jmap \<Rightarrow> device" where
  "keyed_device st rows = (new_device demo_mac)\<lparr>dev_state := st, dev_x_authkey := demo_key,
     dev_authkeys := [demo_key], dev_cfg_version := ''c1'', dev_applied_cfg := ''c1'', dev_extra := Some rows\<rparr>"

definition demo_request :: "transport \<Rightarrow> device \<Rightarrow> string \<Rightarrow> request" where
  "demo_request t d used = \<lparr>rq_transport = t, rq_device = d, rq_body = [], rq_used_key = used,
     rq_now = 1000, rq_prev_target = 0\<rparr>"

lemma demo_engine_total: "engine_total demo_engine"
  by (simp add: engine_total_def demo_engine_def)

definition decided :: "(outcome \<Rightarrow> bool) \<Rightarrow> decide_error + outcome \<Rightarrow> bool" where
  "decided P r = (case r of Inr out \<Rightarrow> P out | Inl _ \<Rightarrow> False)"

lemma decidedE: "decided P r \<Longrightarrow> (\<And>out. r = Inr out \<Longrightarrow> P out \<Longrightarrow> thesis) \<Longrightarrow> thesis"
  by (cases r) (simp_all add: decided_def)

lemma demo_decides:
  assumes "\<not> (rq_transport req = TransportEncrypted \<and> key_rejected (rq_used_key req) (cloneDevice (rq_device req)))"
  obtains out where "Decide demo_engine req = Inr out"
  using assms Decide_succeeds [OF demo_engine_total, of req] by (auto simp: Decide_rejects dest!: succeedsD)

section \<open>Properties\<close>

text \<open>
  C21: the engine always answers: with a key source and a system_cfg producer that do not fail,
  every inform that passes the default-key gate gets a response and record deltas.
\<close>

theorem Decide_answers:
  assumes "engine_total e"
  shows "Decide e req = Inl ErrDefaultKeyRejected \<or> (\<exists>out. Decide e req = Inr out)"
  using Decide_succeeds [OF assms] succeedsD by blast

lemma Decide_answers_witness:
  "\<exists>out. Decide demo_engine (demo_request TransportPlaintext pending_device DefaultKeyHex) = Inr out"
  using Decide_answers [OF demo_engine_total, of "demo_request TransportPlaintext pending_device DefaultKeyHex"]
  by (simp add: Decide_rejects demo_request_def)

text \<open>
  The default-key gate: a decision is refused exactly when an encrypted inform was opened with
  the factory key and the record is neither pending nor adopting with an unconfirmed key.
\<close>

theorem default_key_gate:
  "Decide e req = Inl ErrDefaultKeyRejected \<longleftrightarrow>
     rq_transport req = TransportEncrypted \<and> equal_fold (rq_used_key req) DefaultKeyHex
     \<and> dev_state (rq_device req) \<noteq> StatePending
     \<and> \<not> (dev_state (rq_device req) = StateAdopting \<and> \<not> dev_key_confirmed (rq_device req))"
  by (auto simp: Decide_rejects key_rejected_def)

text \<open>
  C5: a response carries a device key only on the encrypted lane, in an adoption push, when the
  device does not use that key yet, and the key is the one the record holds after the decision.
\<close>

theorem key_disclosure:
  assumes "Decide e req = Inr out" "(''authkey'', k) \<in> set (parse_rows (out_mgmt_cfg out))"
  shows "rq_transport req = TransportEncrypted \<and> out_kind out = KindSetparam \<and> \<not> out_full out
    \<and> \<not> equal_fold (rq_used_key req) k
    \<and> (out_x_authkey out = Some k \<or> out_x_authkey out = None \<and> dev_x_authkey (rq_device req) = k)"
  using assms(1)
proof (cases rule: Decide_Inr)
  case (1 o' w n)
  have k: "(''authkey'', k) \<in> set (parse_rows (out_mgmt_cfg o'))" using assms(2) 1(2) by simp
  have t: "rq_transport req = TransportEncrypted"
  proof (rule ccontr)
    assume "rq_transport req \<noteq> TransportEncrypted"
    then have "rq_transport req = TransportPlaintext" by (cases "rq_transport req") auto
    with 1(1) have "decidePlain e req (wirelessForDevice e (cloneDevice (rq_device req)))
        (request_plan e req) (cloneDevice (rq_device req)) = Inr (o', w, n)"
      by (simp add: decide_work_def Let_def request_plan_def)
    from plain_key [OF this] k show False by blast
  qed
  with 1(1) have "decideEncrypted e req (wirelessForDevice e (cloneDevice (rq_device req)))
      (request_plan e req) (cloneDevice (rq_device req)) = Inr (o', w, n)"
    by (simp add: decide_work_def Let_def request_plan_def)
  from encrypted_key [OF this k] show ?thesis using t 1(2) by (auto simp: changed_def)
qed

lemma key_disclosure_witness:
  "\<exists>out. Decide demo_engine (demo_request TransportEncrypted pending_device DefaultKeyHex) = Inr out
    \<and> out_kind out = KindSetparam \<and> \<not> out_full out \<and> out_x_authkey out = Some (replicate 32 CHR ''a'')"
proof -
  let ?req = "demo_request TransportEncrypted pending_device DefaultKeyHex"
  have "decided (\<lambda>out. (''authkey'', replicate 32 CHR ''a'') \<in> set (parse_rows (out_mgmt_cfg out)))
      (Decide demo_engine ?req)" by code_simp
  then obtain out where o: "Decide demo_engine ?req = Inr out"
      "(''authkey'', replicate 32 CHR ''a'') \<in> set (parse_rows (out_mgmt_cfg out))" by (rule decidedE)
  have "dev_x_authkey (rq_device ?req) \<noteq> replicate 32 CHR ''a''" by code_simp
  with key_disclosure [OF o] o(1) show ?thesis by blast
qed

text \<open>
  C4: a record becomes adopted only on proof: the inform was encrypted, opened with the record's
  assigned key, it reported the record's config version, the settled delivery's hash is the current
  plan's, nothing is pending, and the delivered blocked set is the current one.
\<close>

theorem adopted_only_when_proven:
  assumes "Decide e req = Inr out" "out_state out = Some StateAdopted"
  shows "rq_transport req = TransportEncrypted
    \<and> dev_x_authkey (rq_device req) \<noteq> [] \<and> equal_fold (dev_x_authkey (rq_device req)) (rq_used_key req)
    \<and> dev_cfg_version (rq_device req) \<noteq> [] \<and> dev_applied_cfg (rq_device req) = dev_cfg_version (rq_device req)
    \<and> (let st = Settle (dev_cfg_version (rq_device req)) (LoadDeliveryState (en_json e) (ext (rq_device req)))
       in ds_sha st = pp_drift (request_plan e req) \<and> ds_sha st \<noteq> [] \<and> \<not> ds_pending_present st)
    \<and> \<not> snd (blockedStaDrift e (cloneDevice (rq_device req)))"
  using assms(1)
proof (cases rule: Decide_Inr)
  case (1 o' w n)
  let ?d = "cloneDevice (rq_device req)"
  have s: "dev_state w = StateAdopted" "dev_state ?d \<noteq> StateAdopted"
    using assms(2) 1(2) by (simp_all add: changed_Some)
  from 1(1) show ?thesis
  proof (cases rule: decide_work_cases)
    case gentle
    with s show ?thesis by simp
  next
    case armed
    from armed_keys(1) [OF this] s show ?thesis by (auto simp: setdefault_fields device_states)
  next
    case encrypted
    from connected_flow_adopts [OF encrypted(2) s(2,1)] encrypted(1) settled_drift [of e _ "en_json e" ?d]
    show ?thesis by (simp add: Let_def)
  next
    case plain
    then have "w = ?d \<or> dev_state w = StateAdopting"
      using assignedKeyFlow_result(2) [of e "rq_now req" _ "request_plan e req" ?d 0 o' w n]
      by (auto simp: plain_dispatch_def split: if_splits)
    with s show ?thesis by (auto simp: device_states)
  qed
qed

lemma adopted_only_when_proven_witness:
  "\<exists>out. Decide demo_engine (demo_request TransportEncrypted
        (keyed_device StateAdopting [(WlanCfgShaKey, GStr (WlanListHash (one_document GNil) []))]) demo_key) = Inr out
    \<and> out_state out = Some StateAdopted
    \<and> ds_sha (Settle ''c1'' (LoadDeliveryState (en_json demo_engine)
         [(WlanCfgShaKey, GStr (WlanListHash (one_document GNil) []))])) \<noteq> []"
proof -
  let ?rows = "[(WlanCfgShaKey, GStr (WlanListHash (one_document GNil) []))]"
  let ?req = "demo_request TransportEncrypted (keyed_device StateAdopting ?rows) demo_key"
  have "decided (\<lambda>out. out_state out = Some StateAdopted) (Decide demo_engine ?req)" by code_simp
  then obtain out where o: "Decide demo_engine ?req = Inr out" "out_state out = Some StateAdopted" by (rule decidedE)
  have "dev_cfg_version (rq_device ?req) = ''c1''" "ext (rq_device ?req) = ?rows"
    by (simp_all add: demo_request_def keyed_device_def ext_def)
  with adopted_only_when_proven [OF o] o show ?thesis by (auto simp: Let_def)
qed

lemma plaintext_keeps_keys:
  assumes "decide_work e req = Inr (o', w, n)" "rq_transport req = TransportPlaintext"
  shows "keys_of w = keys_of (rq_device req) \<or>
    out_kind o' = KindSetdefault \<and> truthy (jget (ext (rq_device req)) FlagSetdefaultArmed)"
  using assms(1)
proof (cases rule: decide_work_cases)
  case armed
  then show ?thesis
  proof (cases rule: armedLifecycle_cases)
    case reboot
    then have "keys_of w = keys_of (cloneDevice (rq_device req))" by (simp only: keys_of_simps)
    then show ?thesis by simp
  next
    case task
    then have "keys_of w = keys_of (cloneDevice (rq_device req))" by (simp only: keys_of_simps)
    then show ?thesis by simp
  qed simp
next
  case plain
  then have "keys_of w = keys_of (cloneDevice (rq_device req))"
    using assignedKeyFlow_result(1) [of e "rq_now req" _ "request_plan e req" "cloneDevice (rq_device req)" 0 o' w n]
    by (auto simp: plain_dispatch_def split: if_splits)
  then show ?thesis by simp
qed (use assms(2) in simp_all)

text \<open>
  The plaintext lane never assigns, rotates or pushes a key: the record keeps its key and its
  key list, unless an armed factory reset is carried out, and the response carries no key.
\<close>

theorem plaintext_never_rekeys:
  assumes "Decide e req = Inr out" "rq_transport req = TransportPlaintext"
  shows "(out_x_authkey out = None \<and> out_authkeys out = None \<or>
      out_kind out = KindSetdefault \<and> truthy (jget (ext (rq_device req)) FlagSetdefaultArmed))
    \<and> (''authkey'', k) \<notin> set (parse_rows (out_mgmt_cfg out))"
  using assms(1)
proof (cases rule: Decide_Inr)
  case (1 o' w n)
  let ?d = "cloneDevice (rq_device req)"
  have "decidePlain e req (wirelessForDevice e ?d) (request_plan e req) ?d = Inr (o', w, n)"
    using 1(1) assms(2) by (simp add: decide_work_def Let_def request_plan_def)
  from plain_key [OF this] plaintext_keeps_keys [OF 1(1) assms(2)] 1(2) show ?thesis
    by (auto simp: changed_def keys_of_def)
qed

lemma plaintext_never_rekeys_witness:
  "\<exists>out. Decide demo_engine (demo_request TransportPlaintext pending_device DefaultKeyHex) = Inr out
    \<and> out_x_authkey out = None"
proof -
  let ?req = "demo_request TransportPlaintext pending_device DefaultKeyHex"
  have "decided (\<lambda>out. True) (Decide demo_engine ?req)" by code_simp
  then obtain out where o: "Decide demo_engine ?req = Inr out" by (rule decidedE)
  have "rq_transport ?req = TransportPlaintext" by (simp add: demo_request_def)
  moreover have "\<not> truthy (jget (ext (rq_device ?req)) FlagSetdefaultArmed)" by code_simp
  ultimately show ?thesis using plaintext_never_rekeys [OF o] o by blast
qed

text \<open>
  C22: armed commands fire once: the record a decision leaves after emitting a factory reset or a
  stored task has nothing armed, and after a reboot has the reboot flag and both watchdog counters
  cleared and a queued task kept for the next inform.
\<close>

theorem commands_fire_once:
  assumes "Decide e req = Inr out" "out_kind out \<in> command_kinds"
  shows "case out_kind out of
      KindReboot \<Rightarrow> jget (out_extra out) FlagRebootOnConnect = None
        \<and> jget (out_extra out) CmdTaskKey = jget (ext (rq_device req)) CmdTaskKey
        \<and> jget (out_extra out) WlanCfgNotRunningMissesKey = None
        \<and> jget (out_extra out) WlanCfgVapNotRunningMissesKey = None
    | _ \<Rightarrow> armedLifecycle ((rq_device req)\<lparr>dev_extra := Some (out_extra out)\<rparr>) = None"
  using assms(1)
proof (cases rule: Decide_Inr)
  case (1 o' w n)
  have a: "armedLifecycle (cloneDevice (rq_device req)) = Some (o', w)"
    using command_armed [OF 1(1)] assms(2) 1(2) by simp
  have x: "ext ((rq_device req)\<lparr>dev_extra := Some (out_extra out)\<rparr>) = ext w" using 1(2) by simp
  have none: "armedLifecycle w = None \<Longrightarrow> armedLifecycle ((rq_device req)\<lparr>dev_extra := Some (out_extra out)\<rparr>) = None"
    using armed_row_cong [OF x [symmetric]] .
  show ?thesis
    using armed_consumed(1,2,3) [OF a] assms(2) 1(2) none by (auto simp: command_kinds_def)
qed

definition armed_rows :: jmap where
  "armed_rows = [(FlagRebootOnConnect, GBool True), (WlanCfgNotRunningMissesKey, GInt 1),
     (CmdTaskKey, GMap [(''cmd'', GStr ''locate'')])]"

lemma commands_fire_once_witness:
  "\<exists>out. Decide demo_engine (demo_request TransportEncrypted (keyed_device StateAdopted armed_rows) demo_key) = Inr out
    \<and> out_kind out = KindReboot \<and> jget (out_extra out) FlagRebootOnConnect = None
    \<and> jget (out_extra out) CmdTaskKey = Some (GMap [(''cmd'', GStr ''locate'')])"
proof -
  let ?req = "demo_request TransportEncrypted (keyed_device StateAdopted armed_rows) demo_key"
  have "decided (\<lambda>out. out_kind out = KindReboot) (Decide demo_engine ?req)" by code_simp
  then obtain out where o: "Decide demo_engine ?req = Inr out" "out_kind out = KindReboot" by (rule decidedE)
  have "jget (ext (rq_device ?req)) CmdTaskKey = Some (GMap [(''cmd'', GStr ''locate'')])" by code_simp
  with commands_fire_once [OF o(1)] o show ?thesis by (auto simp: command_kinds_def)
qed

text \<open>
  A changed blocked set is delivered at once: an encrypted inform on the assigned key, with no
  command armed, is answered by full provisioning that carries the record's blocked set, and the
  record it leaves no longer drifts.
\<close>

theorem blocked_change_provisioned:
  assumes "Decide e req = Inr out" "rq_transport req = TransportEncrypted" "\<not> gentle req"
    and "armedLifecycle (cloneDevice (rq_device req)) = None"
    and "snd (blockedStaDrift e (cloneDevice (rq_device req)))"
    and "dev_x_authkey (rq_device req) \<noteq> []" "equal_fold (dev_x_authkey (rq_device req)) (rq_used_key req)"
    and "rq_used_key req \<noteq> DefaultKeyHex"
  shows "out_kind out = KindSetparam \<and> out_full out \<and> out_blocked_sta out = blockedStaWire (rq_device req)
    \<and> \<not> snd (blockedStaDrift e ((rq_device req)\<lparr>dev_extra := Some (out_extra out)\<rparr>))"
  using assms(1)
proof (cases rule: Decide_Inr)
  case (1 o' w n)
  let ?d = "cloneDevice (rq_device req)"
  have "drift_and_dispatch e req (wirelessForDevice e ?d) (request_plan e req) ?d = Inr (o', w, n)"
    using 1(1) assms(2,3,4)
    by (simp add: decide_work_def decideEncrypted_def gentle_def Let_def request_plan_def split: if_splits)
  note p = blocked_drift_provisions [OF this assms(5)]
  have "blockedStaDrift e ((rq_device req)\<lparr>dev_extra := Some (out_extra out)\<rparr>) = blockedStaDrift e w"
    using 1(2) by (intro drift_rows_cong) simp_all
  moreover have "blockedStaWire ?d = blockedStaWire (rq_device req)"
    by (intro blockedStaWire_cong) simp
  ultimately show ?thesis using p assms(6,7,8) 1(2) by simp
qed

definition blocked_rows :: jmap where
  "blocked_rows = [(BlockedStaExtraKey, GArr [GStr ''00:11:22:33:44:55''])]"

lemma blocked_change_provisioned_witness:
  "\<exists>out. Decide demo_engine (demo_request TransportEncrypted (keyed_device StateAdopted blocked_rows) demo_key) = Inr out
    \<and> out_full out \<and> out_blocked_sta out = ''00:11:22:33:44:55''"
proof -
  let ?req = "demo_request TransportEncrypted (keyed_device StateAdopted blocked_rows) demo_key"
  have g: "\<not> key_rejected (rq_used_key ?req) (cloneDevice (rq_device ?req))" by code_simp
  then obtain out where o: "Decide demo_engine ?req = Inr out" by (auto intro: demo_decides)
  have "out_kind out = KindSetparam \<and> out_full out \<and> out_blocked_sta out = blockedStaWire (rq_device ?req)
    \<and> \<not> snd (blockedStaDrift demo_engine ((rq_device ?req)\<lparr>dev_extra := Some (out_extra out)\<rparr>))"
    by (rule blocked_change_provisioned [OF o]) code_simp+
  moreover have "blockedStaWire (rq_device ?req) = ''00:11:22:33:44:55''" by code_simp
  ultimately show ?thesis using o by simp
qed

text \<open>
  A scheduled noop asks the device back in 10 to 89 seconds, at the tracked target, which is
  at least five seconds after the target of the inform before.
\<close>

theorem noop_schedule:
  assumes "sane_clock now prev" "out_persist_target (noopFor e d now prev k)"
  shows "10 \<le> out_interval (noopFor e d now prev k) \<and> out_interval (noopFor e d now prev k) < 90
    \<and> out_noop_target (noopFor e d now prev k) = now + out_interval (noopFor e d now prev k)
    \<and> (prev = 0 \<or> prev + 5 \<le> out_noop_target (noopFor e d now prev k))"
  using noopFor_scheduled [OF assms] by blast

lemma noop_schedule_witness:
  "10 \<le> out_interval (noopFor demo_engine pending_device 1000 990 KindNoop)"
proof -
  have "out_persist_target (noopFor demo_engine pending_device 1000 990 KindNoop)" by code_simp
  with noop_schedule [of 1000 990 demo_engine pending_device KindNoop] show ?thesis
    by (simp add: sane_clock_def)
qed

text \<open>
  The devname watchdog reboots at most once per config version: it arms only on the second miss
  in a row with a planned vap missing, and while its marker stands it never arms again for that
  version, whatever the plan and the report.
\<close>

theorem watchdog_one_shot:
  assumes "devname_watchdog plan st d = (True, d')" "dev_cfg_version d \<noteq> []"
  shows "MissingVaps (pp_vaps plan) (jget (ds_extra st) ''vap_table'') \<noteq> [] \<and> 2 \<le> wrap64 (ds_vap_misses st + 1)
    \<and> truthy (jget (ext d') FlagRebootOnConnect) \<and> dev_cfg_version d' = dev_cfg_version d
    \<and> (\<forall>plan' st'. jget (ds_extra st') WlanCfgMaterializationRebootKey = jget (ext d') WlanCfgMaterializationRebootKey
         \<longrightarrow> \<not> fst (devname_watchdog plan' st' d'))"
proof -
  note w = watchdog_arms [OF assms(1)]
  have "MaterializationRebootArmedFor m = Some (dev_cfg_version d')"
    if "jget m WlanCfgMaterializationRebootKey = jget (ext d') WlanCfgMaterializationRebootKey" for m
    using w(4) [OF assms(2)] w(6) that by (simp add: MaterializationRebootArmedFor_def)
  then show ?thesis using w watchdog_standing by blast
qed

definition lost_vap_plan :: provisioning_plan where
  "lost_vap_plan = \<lparr>pp_drift = ''h'', pp_vaps = [\<lparr>vp_wlan = home_wlan, vp_id = ''i'', vp_radio = 1,
     vp_phy = ''wifi0'', vp_ath = 3, vp_vid = 0\<rparr>], pp_radios = [], pp_placements = []\<rparr>"

definition lost_vap_view :: delivery where
  "lost_vap_view = home_delivery\<lparr>ds_vap_misses := 1\<rparr>"

lemma watchdog_one_shot_witness:
  "\<exists>d'. devname_watchdog lost_vap_plan lost_vap_view (keyed_device StateAdopted []) = (True, d')
    \<and> truthy (jget (ext d') FlagRebootOnConnect)"
proof -
  have "fst (devname_watchdog lost_vap_plan lost_vap_view (keyed_device StateAdopted []))" by code_simp
  then obtain d' where d': "devname_watchdog lost_vap_plan lost_vap_view (keyed_device StateAdopted []) = (True, d')"
    by (metis (full_types) prod.collapse)
  have "dev_cfg_version (keyed_device StateAdopted []) \<noteq> []" by (simp add: keyed_device_def)
  from watchdog_one_shot [OF d' this] d' show ?thesis by blast
qed

text \<open>
  On a settled record the connected path mints a new config version only on the second miss in
  a row: the report positively disproves the applied list, the counter is cleared with it, and the
  answer is an ordinary noop.
\<close>

theorem settled_mint_needs_two_misses:
  assumes "connected_flow e req plan st (d, n) = Inr (out, d', n')"
    and "dev_cfg_version d' \<noteq> dev_cfg_version d" "ds_sha st \<noteq> []"
  shows "2 \<le> wrap64 (ds_misses st + 1) \<and> \<not> ds_pending_present st
    \<and> NotRunningEvidence (en_json e) (st\<lparr>ds_extra := ext (fst (blockedStaReconnectPush d))\<rparr>) = NotRunningMiss
    \<and> jget (ext d') WlanCfgNotRunningMissesKey = None \<and> out_kind out = KindNoop"
  using connected_mint [OF assms] by blast

definition office_engine :: engine where
  "office_engine = demo_engine\<lparr>en_json := one_document (stored_document (Some [guest_wlan]))\<rparr>"

definition miss_rows :: jmap where
  "miss_rows = [(''vap_table'', home_vaps), (WlanCfgAppliedWlansKey, GStr ''document'')]"

definition miss_view :: delivery where
  "miss_view = home_delivery\<lparr>ds_extra := miss_rows, ds_pending_present := False, ds_misses := 1\<rparr>"

lemma settled_mint_needs_two_misses_witness:
  "\<exists>out d' n'. connected_flow office_engine (demo_request TransportEncrypted (keyed_device StateAdopted miss_rows) demo_key)
      lost_vap_plan miss_view (keyed_device StateAdopted miss_rows, 0) = Inr (out, d', n')
    \<and> out_kind out = KindNoop \<and> jget (ext d') WlanCfgNotRunningMissesKey = None"
proof -
  let ?r = "connected_flow office_engine (demo_request TransportEncrypted (keyed_device StateAdopted miss_rows) demo_key)
      lost_vap_plan miss_view (keyed_device StateAdopted miss_rows, 0)"
  have p: "blockedStaReconnectPush (keyed_device StateAdopted miss_rows) = (keyed_device StateAdopted miss_rows, None)"
    by code_simp
  have x: "ext (keyed_device StateAdopted miss_rows) = miss_rows" by (simp add: keyed_device_def)
  have v: "miss_view\<lparr>ds_extra := miss_rows\<rparr> = miss_view" by (simp add: miss_view_def)
  have ev: "ReadVapEvidence (jget miss_rows ''vap_table'') = ReadVapEvidence (Some home_vaps)"
    by (simp add: miss_rows_def)
  have run: "Known (ReadVapEvidence (Some home_vaps))"
    "vr_ssid ` set (ve_running (ReadVapEvidence (Some home_vaps))) = {''home''}" by code_simp+
  have raw: "get_str miss_rows WlanCfgAppliedWlansKey = Some ''document''" by code_simp
  have dec: "DecodeStoredWlans (en_json office_engine) ''document'' = Some (Some [guest_wlan])"
    using decode_encoded [of "Some [guest_wlan]"]
    by (simp add: DecodeStoredWlans_def office_engine_def one_document_def wlan_ok_def server_ok_def
        int64_range_def guest_wlan_def zero_wlan_def)
  have w: "w_enabled guest_wlan" "SSIDOf guest_wlan = ''Guest''"
    by (simp_all add: guest_wlan_def zero_wlan_def SSIDOf_def)
  have "ds_extra miss_view = miss_rows" by (simp add: miss_view_def)
  then have m: "NotRunningEvidence (en_json office_engine) miss_view = NotRunningMiss"
    unfolding NotRunning_Miss_iff by (simp add: ev run raw dec w Let_def)
  have f: "ds_sha miss_view = ''old''" "ds_misses miss_view = 1" "\<not> ds_pending_present miss_view"
    "en_key_chars office_engine 0 16 = Some (replicate 16 CHR ''a'')"
    by (simp_all add: miss_view_def home_delivery_def office_engine_def demo_engine_def)
  have ne: "replicate 16 CHR ''a'' \<noteq> ''c1''" by code_simp
  obtain out d' n' where r: "?r = Inr (out, d', n')" "dev_cfg_version d' \<noteq> ''c1''"
    using ne by (simp add: connected_flow_def p x v m f RecordNotRunningMiss_def wrap64_def mint_cfg_def mint_def)
  have "dev_cfg_version (keyed_device StateAdopted miss_rows) = ''c1''" by (simp add: keyed_device_def)
  moreover have "ds_sha miss_view \<noteq> []" by (simp add: miss_view_def home_delivery_def)
  ultimately show ?thesis using settled_mint_needs_two_misses [OF r(1)] r by auto
qed

text \<open>
  A plaintext claim confirms a key: for an adopting record whose key is not confirmed yet, a
  plaintext inform that merely claims the key marks it confirmed, which closes the factory-key path
  the device may still need.
\<close>

theorem plaintext_claim_confirms:
  "\<exists>out out'. Decide demo_engine (demo_request TransportPlaintext (keyed_device StateAdopting []) demo_key) = Inr out
     \<and> out_key_confirmed out = Some True
     \<and> Decide demo_engine (demo_request TransportEncrypted (keyed_device StateAdopting []) DefaultKeyHex) = Inr out'
     \<and> Decide demo_engine (demo_request TransportEncrypted
        ((keyed_device StateAdopting [])\<lparr>dev_key_confirmed := True\<rparr>) DefaultKeyHex) = Inl ErrDefaultKeyRejected"
proof -
  let ?d = "keyed_device StateAdopting []"
  let ?req = "demo_request TransportPlaintext ?d demo_key"
  have "rq_transport ?req \<noteq> TransportEncrypted" by (simp add: demo_request_def)
  then obtain out where o: "Decide demo_engine ?req = Inr out" by (auto intro: demo_decides)
  obtain o' w n where w: "decide_work demo_engine ?req = Inr (o', w, n)"
      "out = deltas (rq_device ?req) (confirm_key (rq_used_key ?req) w) o'" using o by (rule Decide_Inr)
  have "\<not> truthy (jget (ext (rq_device ?req)) FlagSetdefaultArmed)" by code_simp
  with plaintext_keeps_keys [OF w(1)] have "dev_authkeys w = [demo_key]"
    by (simp add: demo_request_def keyed_device_def keys_of_def)
  then have "out_key_confirmed out = Some True"
    using w(2) by (simp add: changed_def confirm_key_def demo_request_def keyed_device_def new_device_def)
  moreover have "\<not> key_rejected DefaultKeyHex (cloneDevice ?d)"
    by (simp add: key_rejected_def keyed_device_def device_states new_device_def)
  then obtain out' where "Decide demo_engine (demo_request TransportEncrypted ?d DefaultKeyHex) = Inr out'"
    by (metis (no_types, lifting) demo_decides demo_request_def request.select_convs(2) request.select_convs(4))
  moreover have "Decide demo_engine (demo_request TransportEncrypted (?d\<lparr>dev_key_confirmed := True\<rparr>) DefaultKeyHex)
      = Inl ErrDefaultKeyRejected"
    by (simp add: Decide_rejects key_rejected_def demo_request_def keyed_device_def device_states)
  ultimately show ?thesis using o by blast
qed

end
