(* ===== verification/Sessions.thy ===== *)
theory Sessions
  imports Trust_Policy "HOL-Library.Product_Lexorder"
begin

text \<open>
  The per-device client session rows, \<^verbatim>\<open>internal/store/sessions.go\<close>: the reader and writer of
  the \<^verbatim>\<open>client_sessions\<close> row, the refresh that a full inform's station table drives, the
  retention cap, and the transitions the refresh reports.
\<close>

section \<open>Data\<close>

record session_row =
  sr_connected :: bool
  sr_last_seen :: int
  sr_since :: int
  sr_hostname :: string
  sr_ip :: string
  sr_essid :: string
  sr_radio :: string
  sr_channel :: int
  sr_bytes :: int

definition empty_row :: session_row where
  "empty_row = \<lparr>sr_connected = False, sr_last_seen = 0, sr_since = 0, sr_hostname = [],
     sr_ip = [], sr_essid = [], sr_radio = [], sr_channel = 0, sr_bytes = 0\<rparr>"

record client_session =
  cs_mac :: string
  cs_row :: session_row

definition session :: "session_row \<Rightarrow> string \<Rightarrow> client_session" where
  "session r mac = \<lparr>cs_mac = mac, cs_row = r\<rparr>"

record station_info =
  si_mac :: string
  si_hostname :: string
  si_ip :: string
  si_essid :: string
  si_radio :: string
  si_channel :: int
  si_bytes :: int

datatype transition_kind = TransitionConnect | TransitionDisconnect | TransitionRadioChange

fun transitionOrder :: "transition_kind \<Rightarrow> nat" where
  "transitionOrder TransitionConnect = 0"
| "transitionOrder TransitionDisconnect = 1"
| "transitionOrder TransitionRadioChange = 2"

instantiation transition_kind :: linorder
begin

definition less_eq_transition_kind :: "transition_kind \<Rightarrow> transition_kind \<Rightarrow> bool" where
  "a \<le> b \<longleftrightarrow> transitionOrder a \<le> transitionOrder b"

definition less_transition_kind :: "transition_kind \<Rightarrow> transition_kind \<Rightarrow> bool" where
  "a < b \<longleftrightarrow> transitionOrder a < transitionOrder b"

instance
proof
  fix a b :: transition_kind
  assume "a \<le> b" "b \<le> a"
  then show "a = b" by (cases a; cases b) (simp_all add: less_eq_transition_kind_def)
qed (auto simp: less_eq_transition_kind_def less_transition_kind_def)

end

record transition =
  t_mac :: string
  t_kind :: transition_kind
  t_at :: int
  t_session :: client_session
  t_prev :: client_session

type_synonym row_table = "(string \<times> session_row) list"

section \<open>Reading and writing\<close>

definition read_row :: "jmap \<Rightarrow> session_row" where
  "read_row row =
    \<lparr>sr_connected = opt_or False (get_bool row ''connected''),
     sr_last_seen = opt_or 0 (map_option int64_of_f64 (get_float row ''last_seen'')),
     sr_since = opt_or 0 (map_option int64_of_f64 (get_float row ''since'')),
     sr_hostname = opt_or [] (get_str row ''hostname''),
     sr_ip = opt_or [] (get_str row ''ip''),
     sr_essid = opt_or [] (get_str row ''essid''),
     sr_radio = opt_or [] (get_str row ''radio''),
     sr_channel = opt_or 0 (map_option int64_of_f64 (get_float row ''channel'')),
     sr_bytes = opt_or 0 (map_option int64_of_f64 (get_float row ''bytes''))\<rparr>"

fun read_entry :: "string \<times> gval \<Rightarrow> row_table \<Rightarrow> row_table" where
  "read_entry (mac, GObj row) out = jset mac (read_row row) out"
| "read_entry (mac, _) out = out"

definition readSessionRows :: "jmap \<Rightarrow> row_table" where
  "readSessionRows extra = (case get_obj extra SessionsExtraKey of
     None \<Rightarrow> [] | Some raw \<Rightarrow> fold read_entry raw [])"

definition put_num :: "string \<Rightarrow> int \<Rightarrow> jmap \<Rightarrow> jmap" where
  "put_num k n m = (if n \<noteq> 0 then jset k (GFloat (f64_of_int n)) m else m)"

definition put_text :: "string \<Rightarrow> string \<Rightarrow> jmap \<Rightarrow> jmap" where
  "put_text k s m = (if s \<noteq> [] then jset k (GStr s) m else m)"

definition write_row :: "session_row \<Rightarrow> jmap" where
  "write_row row =
    (let m = [(''last_seen'', GFloat (f64_of_int (sr_last_seen row))),
              (''connected'', GBool (sr_connected row))];
         m = put_num ''since'' (sr_since row) m;
         m = put_text ''hostname'' (sr_hostname row) m;
         m = put_text ''ip'' (sr_ip row) m;
         m = put_text ''essid'' (sr_essid row) m;
         m = put_text ''radio'' (sr_radio row) m;
         m = put_num ''channel'' (sr_channel row) m
     in put_num ''bytes'' (sr_bytes row) m)"

definition writeSessionRows :: "row_table \<Rightarrow> device \<Rightarrow> device" where
  "writeSessionRows rows d =
    (let d = d\<lparr>dev_extra := Some (ext d)\<rparr>
     in if length rows = 0 then ext_del SessionsExtraKey d
        else ext_set SessionsExtraKey (GObj (map (\<lambda>(mac, r). (mac, GObj (write_row r))) rows)) d)"

definition ClientSessions :: "device \<Rightarrow> client_session list" where
  "ClientSessions d = sort_key cs_mac (map (\<lambda>(mac, r). session r mac) (readSessionRows (ext d)))"

section \<open>The refresh\<close>

definition merge_station :: "station_info \<Rightarrow> session_row \<Rightarrow> session_row" where
  "merge_station st next =
    (let next = (if si_hostname st \<noteq> [] then next\<lparr>sr_hostname := si_hostname st\<rparr> else next);
         next = (if si_ip st \<noteq> [] then next\<lparr>sr_ip := si_ip st\<rparr> else next);
         next = (if si_essid st \<noteq> [] then next\<lparr>sr_essid := si_essid st\<rparr> else next);
         next = (if si_radio st \<noteq> [] then next\<lparr>sr_radio := si_radio st\<rparr> else next);
         next = (if si_channel st \<noteq> 0 then next\<lparr>sr_channel := si_channel st\<rparr> else next)
     in if si_bytes st \<noteq> 0 then next\<lparr>sr_bytes := si_bytes st\<rparr> else next)"

definition fresh_row :: "session_row option \<Rightarrow> bool" where
  "fresh_row old \<longleftrightarrow> (case old of None \<Rightarrow> True | Some r \<Rightarrow> \<not> sr_connected r)"

definition next_row :: "session_row option \<Rightarrow> int \<Rightarrow> station_info \<Rightarrow> session_row" where
  "next_row old now st = merge_station st
    (if fresh_row old then empty_row\<lparr>sr_connected := True, sr_last_seen := now, sr_since := now\<rparr>
     else (opt_or empty_row old)\<lparr>sr_last_seen := now\<rparr>)"

definition radio_changed :: "session_row \<Rightarrow> session_row \<Rightarrow> bool" where
  "radio_changed old next \<longleftrightarrow>
     (sr_radio old \<noteq> [] \<and> sr_radio next \<noteq> [] \<and> sr_radio old \<noteq> sr_radio next) \<or>
     (sr_channel old \<noteq> 0 \<and> sr_channel next \<noteq> 0 \<and> sr_channel old \<noteq> sr_channel next)"

definition mk_transition :: "string \<Rightarrow> transition_kind \<Rightarrow> int \<Rightarrow> session_row \<Rightarrow> session_row \<Rightarrow> transition" where
  "mk_transition c k now next old = \<lparr>t_mac = c, t_kind = k, t_at = now,
     t_session = session next c, t_prev = session old c\<rparr>"

fun refresh_stations :: "row_table \<Rightarrow> int \<Rightarrow> station_info list \<Rightarrow>
    row_table \<times> string list \<times> transition list \<Rightarrow> row_table \<times> string list \<times> transition list" where
  "refresh_stations prev now [] acc = acc"
| "refresh_stations prev now (st # sts) (rows, present, out) = (case CanonicalMAC (si_mac st) of
     Inl _ \<Rightarrow> refresh_stations prev now sts (rows, present, out)
   | Inr c \<Rightarrow> if c \<in> set present then refresh_stations prev now sts (rows, present, out)
       else let old = jget prev c;
                next = next_row old now st;
                out' = (if fresh_row old
                          then out @ [mk_transition c TransitionConnect now next (opt_or empty_row old)]
                        else if radio_changed (opt_or empty_row old) next
                          then out @ [mk_transition c TransitionRadioChange now next (opt_or empty_row old)]
                        else out)
            in refresh_stations prev now sts (jset c next rows, c # present, out'))"

fun disconnect_absent :: "string list \<Rightarrow> int \<Rightarrow> row_table \<Rightarrow>
    row_table \<times> bool \<times> transition list \<Rightarrow> row_table \<times> bool \<times> transition list" where
  "disconnect_absent present now [] acc = acc"
| "disconnect_absent present now ((mac, row) # prev) (rows, armed, out) =
    (if sr_connected row \<and> mac \<notin> set present
     then let gone = row\<lparr>sr_connected := False\<rparr>
          in disconnect_absent present now prev
               (jset mac gone rows, True, out @ [mk_transition mac TransitionDisconnect now gone row])
     else disconnect_absent present now prev (rows, armed, out))"

definition sessionRowCap :: nat where "sessionRowCap = 2048"

definition evictionOrder :: "row_table \<Rightarrow> string list" where
  "evictionOrder rows = map snd (sort (map (\<lambda>(mac, r). (sr_last_seen r, mac)) rows))"

definition enforceSessionRowCap :: "row_table \<Rightarrow> row_table" where
  "enforceSessionRowCap rows =
    (let over = int (length rows) - int sessionRowCap
     in if over \<le> 0 then rows
        else fold jdel (take (nat over) (evictionOrder rows)) rows)"

definition transition_key :: "transition \<Rightarrow> string \<times> transition_kind" where
  "transition_key t = (t_mac t, t_kind t)"

definition RefreshSessionStations :: "device \<Rightarrow> station_info list \<Rightarrow> int \<Rightarrow> device \<times> transition list" where
  "RefreshSessionStations d stations now =
    (let prev = readSessionRows (ext d);
         (rows, present, out) = refresh_stations prev now stations (prev, [], []);
         (rows, armed, out) = disconnect_absent present now prev (rows, False, out);
         out = sort_key transition_key out;
         d = writeSessionRows (enforceSessionRowCap rows) d;
         d = (if armed then ext_set SessionDisconnectEventExtraKey (GBool True) d else d)
     in (d, out))"

definition bare_station :: "string \<Rightarrow> station_info" where
  "bare_station m = \<lparr>si_mac = m, si_hostname = [], si_ip = [], si_essid = [], si_radio = [],
     si_channel = 0, si_bytes = 0\<rparr>"

definition RefreshSessions :: "device \<Rightarrow> string list \<Rightarrow> int \<Rightarrow> device \<times> string list \<times> string list" where
  "RefreshSessions d macs now =
    (let (d, ts) = RefreshSessionStations d (map bare_station macs) now
     in (d, map t_mac (filter (\<lambda>t. t_kind t = TransitionConnect) ts),
         map t_mac (filter (\<lambda>t. t_kind t = TransitionDisconnect) ts)))"

section \<open>Rows survive the record\<close>

definition row_bounds :: "session_row \<Rightarrow> bool" where
  "row_bounds r \<longleftrightarrow> \<bar>sr_last_seen r\<bar> \<le> 2 ^ 53 \<and> \<bar>sr_since r\<bar> \<le> 2 ^ 53
     \<and> \<bar>sr_channel r\<bar> \<le> 2 ^ 53 \<and> \<bar>sr_bytes r\<bar> \<le> 2 ^ 53"

definition table_ok :: "row_table \<Rightarrow> bool" where
  "table_ok rows \<longleftrightarrow> distinct (map fst rows) \<and> (\<forall>r \<in> snd ` set rows. row_bounds r)"

lemma jget_put_num [row_simps]: "jget (put_num k n m) k' =
    (if k' = k \<and> n \<noteq> 0 then Some (GFloat (f64_of_int n)) else jget m k')"
  by (simp add: put_num_def row_simps)

lemma jget_put_text [row_simps]: "jget (put_text k s m) k' =
    (if k' = k \<and> s \<noteq> [] then Some (GStr s) else jget m k')"
  by (simp add: put_text_def row_simps)

lemma read_write_row: "row_bounds r \<Longrightarrow> read_row (write_row r) = r"
  by (simp add: read_row_def write_row_def Let_def typed_reads row_simps row_bounds_def)

lemma distinct_read_entries: "distinct (map fst out) \<Longrightarrow> distinct (map fst (fold read_entry raw out))"
proof (induction raw arbitrary: out)
  case (Cons e raw)
  show ?case
  proof (cases "\<exists>mac row. e = (mac, GObj row)")
    case True
    then obtain mac row where "e = (mac, GObj row)" by blast
    with Cons show ?thesis by (simp add: distinct_jset)
  next
    case False
    then have "read_entry e out = out" by (cases "(e, out)" rule: read_entry.cases) auto
    with Cons show ?thesis by simp
  qed
qed simp

lemma distinct_readSessionRows: "distinct (map fst (readSessionRows extra))"
  by (simp add: readSessionRows_def distinct_read_entries split: option.split)

lemma jset_fresh: "k \<notin> fst ` set m \<Longrightarrow> jset k v m = m @ [(k, v)]"
  by (induction m) auto

lemma read_written:
  assumes "distinct (map fst (out @ rows))" "\<forall>r \<in> snd ` set rows. row_bounds r"
  shows "fold read_entry (map (\<lambda>(mac, r). (mac, GObj (write_row r))) rows) out = out @ rows"
  using assms
proof (induction rows arbitrary: out)
  case (Cons e rows)
  obtain mac r where e: "e = (mac, r)" by (cases e)
  have "mac \<notin> fst ` set out" using Cons.prems(1) e by auto
  then have s: "jset mac (read_row (write_row r)) out = out @ [e]"
    using Cons.prems(2) e by (simp add: jset_fresh read_write_row)
  have "distinct (map fst ((out @ [e]) @ rows))" using Cons.prems(1) by simp
  with Cons.IH [of "out @ [e]"] Cons.prems(2) e s show ?case by simp
qed simp

lemma write_read:
  assumes "table_ok rows"
  shows "readSessionRows (ext (writeSessionRows rows d)) = rows"
proof (cases "rows = []")
  case True
  then show ?thesis
    by (simp add: writeSessionRows_def Let_def readSessionRows_def get_obj_def row_simps)
next
  case False
  with assms read_written [of "[]" rows] show ?thesis
    by (simp add: writeSessionRows_def Let_def readSessionRows_def get_obj_def row_simps table_ok_def)
qed

lemma writeSessionRows_other: "k \<noteq> SessionsExtraKey \<Longrightarrow>
    jget (ext (writeSessionRows rows d)) k = jget (ext d) k"
  by (simp add: writeSessionRows_def Let_def row_simps)

section \<open>What a refresh does to each client\<close>

definition first_sighting :: "station_info list \<Rightarrow> string \<Rightarrow> station_info option" where
  "first_sighting sts c = List.find (\<lambda>st. CanonicalMAC (si_mac st) = Inr c) sts"

lemma first_sighting_simps [simp]:
  "first_sighting [] c = None"
  "first_sighting (st # sts) c =
     (if CanonicalMAC (si_mac st) = Inr c then Some st else first_sighting sts c)"
  by (simp_all add: first_sighting_def)

definition sighted :: "session_row option \<Rightarrow> int \<Rightarrow> string \<Rightarrow> station_info \<Rightarrow> transition list" where
  "sighted old now c st =
    (let next = next_row old now st
     in if fresh_row old then [mk_transition c TransitionConnect now next (opt_or empty_row old)]
        else if radio_changed (opt_or empty_row old) next
          then [mk_transition c TransitionRadioChange now next (opt_or empty_row old)]
        else [])"

lemma refresh_stations_Cons:
  "refresh_stations prev now (st # sts) (rows, present, out) = (case CanonicalMAC (si_mac st) of
     Inl _ \<Rightarrow> refresh_stations prev now sts (rows, present, out)
   | Inr c \<Rightarrow> if c \<in> set present then refresh_stations prev now sts (rows, present, out)
       else refresh_stations prev now sts (jset c (next_row (jget prev c) now st) rows,
              c # present, out @ sighted (jget prev c) now c st))"
  by (auto simp: sighted_def Let_def split: sum.split)

declare refresh_stations.simps(2) [simp del]

lemma refresh_stations_spec:
  assumes "refresh_stations prev now sts (rows, present, out) = (rows', present', out')"
  shows "set present' = set present \<union> {c. first_sighting sts c \<noteq> None}"
    and "jget rows' c = (if c \<in> set present then jget rows c else
           case first_sighting sts c of Some st \<Rightarrow> Some (next_row (jget prev c) now st)
           | None \<Rightarrow> jget rows c)"
    and "t \<in> set out' \<longleftrightarrow> t \<in> set out \<or> (\<exists>c st. c \<notin> set present
           \<and> first_sighting sts c = Some st \<and> t \<in> set (sighted (jget prev c) now c st))"
    and "distinct (map fst rows) \<Longrightarrow> distinct (map fst rows')"
proof -
  have "set present' = set present \<union> {c. first_sighting sts c \<noteq> None} \<and>
    (\<forall>c. jget rows' c = (if c \<in> set present then jget rows c else
           case first_sighting sts c of Some st \<Rightarrow> Some (next_row (jget prev c) now st)
           | None \<Rightarrow> jget rows c)) \<and>
    (\<forall>t. t \<in> set out' \<longleftrightarrow> t \<in> set out \<or> (\<exists>c st. c \<notin> set present
           \<and> first_sighting sts c = Some st \<and> t \<in> set (sighted (jget prev c) now c st))) \<and>
    (distinct (map fst rows) \<longrightarrow> distinct (map fst rows'))"
    using assms
  proof (induction sts arbitrary: rows present out)
    case (Cons st sts)
    show ?case
    proof (cases "CanonicalMAC (si_mac st)")
      case (Inl e)
      with Cons.prems have "refresh_stations prev now sts (rows, present, out) = (rows', present', out')"
        by (simp add: refresh_stations_Cons)
      from Cons.IH [OF this] Inl show ?thesis by simp
    next
      case (Inr d)
      show ?thesis
      proof (cases "d \<in> set present")
        case True
        with Cons.prems Inr have "refresh_stations prev now sts (rows, present, out) = (rows', present', out')"
          by (simp add: refresh_stations_Cons)
        note ih = Cons.IH [OF this]
        have "(if Inr d = (Inr c :: mac_error + string) then Some st else first_sighting sts c)
                = first_sighting sts c" if "c \<notin> set present" for c
          using that True by auto
        with ih Inr True show ?thesis by auto
      next
        case False
        with Cons.prems Inr have "refresh_stations prev now sts
            (jset d (next_row (jget prev d) now st) rows, d # present,
             out @ sighted (jget prev d) now d st) = (rows', present', out')"
          by (simp add: refresh_stations_Cons)
        note ih = Cons.IH [OF this]
        note ih1 = conjunct1 [OF ih] and ih2 = conjunct1 [OF conjunct2 [OF ih]]
          and ih3 = conjunct1 [OF conjunct2 [OF conjunct2 [OF ih]]]
          and ih4 = conjunct2 [OF conjunct2 [OF conjunct2 [OF ih]]]
        have fs: "first_sighting (st # sts) c = (if c = d then Some st else first_sighting sts c)" for c
          using Inr by auto
        have "set present' = set present \<union> {c. first_sighting (st # sts) c \<noteq> None}"
          unfolding ih1 fs by auto
        moreover have "\<forall>c. jget rows' c = (if c \<in> set present then jget rows c else
           case first_sighting (st # sts) c of Some st \<Rightarrow> Some (next_row (jget prev c) now st)
           | None \<Rightarrow> jget rows c)"
        proof
          fix c
          show "jget rows' c = (if c \<in> set present then jget rows c else
             case first_sighting (st # sts) c of Some st \<Rightarrow> Some (next_row (jget prev c) now st)
             | None \<Rightarrow> jget rows c)"
            unfolding spec [OF ih2, of c] fs
            using False by (cases "c = d") (simp_all add: row_simps cong: option.case_cong)
        qed
        moreover have "\<forall>t. t \<in> set out' \<longleftrightarrow> t \<in> set out \<or> (\<exists>c s. c \<notin> set present
           \<and> first_sighting (st # sts) c = Some s \<and> t \<in> set (sighted (jget prev c) now c s))"
          unfolding fs using ih3 False by auto
        moreover have "distinct (map fst rows) \<longrightarrow> distinct (map fst rows')"
          using ih4 distinct_jset by blast
        ultimately show ?thesis by blast
      qed
    qed
  qed simp
  then show "set present' = set present \<union> {c. first_sighting sts c \<noteq> None}"
    and "jget rows' c = (if c \<in> set present then jget rows c else
           case first_sighting sts c of Some st \<Rightarrow> Some (next_row (jget prev c) now st)
           | None \<Rightarrow> jget rows c)"
    and "t \<in> set out' \<longleftrightarrow> t \<in> set out \<or> (\<exists>c st. c \<notin> set present
           \<and> first_sighting sts c = Some st \<and> t \<in> set (sighted (jget prev c) now c st))"
    and "distinct (map fst rows) \<Longrightarrow> distinct (map fst rows')"
    by blast+
qed

definition vanished :: "string list \<Rightarrow> session_row \<Rightarrow> string \<Rightarrow> bool" where
  "vanished present r mac \<longleftrightarrow> sr_connected r \<and> mac \<notin> set present"

lemma disconnect_absent_Cons:
  "disconnect_absent present now ((mac, row) # prev) (rows, armed, out) =
    (if vanished present row mac
     then disconnect_absent present now prev (jset mac (row\<lparr>sr_connected := False\<rparr>) rows, True,
            out @ [mk_transition mac TransitionDisconnect now (row\<lparr>sr_connected := False\<rparr>) row])
     else disconnect_absent present now prev (rows, armed, out))"
  by (simp add: vanished_def Let_def)

declare disconnect_absent.simps(2) [simp del]

lemma disconnect_absent_spec:
  assumes "disconnect_absent present now prev (rows, armed, out) = (rows', armed', out')"
    and "distinct (map fst prev)"
  shows "armed' \<longleftrightarrow> armed \<or> (\<exists>(mac, r) \<in> set prev. vanished present r mac)"
    and "jget rows' c = (case jget prev c of
           Some r \<Rightarrow> if vanished present r c then Some (r\<lparr>sr_connected := False\<rparr>) else jget rows c
         | None \<Rightarrow> jget rows c)"
    and "t \<in> set out' \<longleftrightarrow> t \<in> set out \<or> (\<exists>(mac, r) \<in> set prev. vanished present r mac
           \<and> t = mk_transition mac TransitionDisconnect now (r\<lparr>sr_connected := False\<rparr>) r)"
    and "distinct (map fst rows) \<Longrightarrow> distinct (map fst rows')"
proof -
  have "(armed' \<longleftrightarrow> armed \<or> (\<exists>(mac, r) \<in> set prev. vanished present r mac)) \<and>
    (\<forall>c. jget rows' c = (case jget prev c of
           Some r \<Rightarrow> if vanished present r c then Some (r\<lparr>sr_connected := False\<rparr>) else jget rows c
         | None \<Rightarrow> jget rows c)) \<and>
    (\<forall>t. t \<in> set out' \<longleftrightarrow> t \<in> set out \<or> (\<exists>(mac, r) \<in> set prev. vanished present r mac
           \<and> t = mk_transition mac TransitionDisconnect now (r\<lparr>sr_connected := False\<rparr>) r)) \<and>
    (distinct (map fst rows) \<longrightarrow> distinct (map fst rows'))"
    using assms
  proof (induction prev arbitrary: rows armed out)
    case (Cons e prev)
    obtain mac row where e: "e = (mac, row)" by (cases e)
    have fresh: "jget prev mac = None" using Cons.prems(2) e by (simp add: jget_None_iff)
    show ?case
    proof (cases "vanished present row mac")
      case True
      with Cons.prems(1) e have "disconnect_absent present now prev
          (jset mac (row\<lparr>sr_connected := False\<rparr>) rows, True,
           out @ [mk_transition mac TransitionDisconnect now (row\<lparr>sr_connected := False\<rparr>) row])
          = (rows', armed', out')" by (simp add: disconnect_absent_Cons)
      from Cons.IH [OF this] Cons.prems(2) e True fresh show ?thesis
        by (auto simp: row_simps distinct_jset split: option.splits)
    next
      case False
      with Cons.prems(1) e have "disconnect_absent present now prev (rows, armed, out)
          = (rows', armed', out')" by (simp add: disconnect_absent_Cons)
      from Cons.IH [OF this] Cons.prems(2) e False fresh show ?thesis
        by (auto split: option.splits)
    qed
  qed simp
  then show "armed' \<longleftrightarrow> armed \<or> (\<exists>(mac, r) \<in> set prev. vanished present r mac)"
    and "jget rows' c = (case jget prev c of
           Some r \<Rightarrow> if vanished present r c then Some (r\<lparr>sr_connected := False\<rparr>) else jget rows c
         | None \<Rightarrow> jget rows c)"
    and "t \<in> set out' \<longleftrightarrow> t \<in> set out \<or> (\<exists>(mac, r) \<in> set prev. vanished present r mac
           \<and> t = mk_transition mac TransitionDisconnect now (r\<lparr>sr_connected := False\<rparr>) r)"
    and "distinct (map fst rows) \<Longrightarrow> distinct (map fst rows')"
    by blast+
qed

section \<open>The retention cap\<close>

lemma length_del_all:
  "distinct (map fst m) \<Longrightarrow> distinct ks \<Longrightarrow> set ks \<subseteq> fst ` set m \<Longrightarrow>
   length (fold jdel ks m) = length m - length ks \<and> distinct (map fst (fold jdel ks m))"
proof (induction ks arbitrary: m)
  case (Cons k ks)
  have d: "distinct (map fst (jdel k m))" using Cons.prems(1) by (rule distinct_jdel)
  have "set ks \<subseteq> fst ` set (jdel k m)" using Cons.prems by (auto simp: keys_jdel)
  with Cons.IH [OF d] Cons.prems(2)
  have "length (fold jdel ks (jdel k m)) = length (jdel k m) - length ks
    \<and> distinct (map fst (fold jdel ks (jdel k m)))" by simp
  moreover have "length (jdel k m) = length m - 1"
  proof -
    have "card (fst ` set (jdel k m)) = card (fst ` set m) - 1"
      using Cons.prems(3) by (simp add: keys_jdel card_Diff_singleton)
    moreover have "card (fst ` set x) = length x" if "distinct (map fst x)" for x :: "('a \<times> 'b) list"
      using that distinct_card [of "map fst x"] by simp
    ultimately show ?thesis using d Cons.prems(1) by simp
  qed
  ultimately show ?case by simp
qed simp

lemma eviction_keys: "set (evictionOrder rows) = fst ` set rows"
  by (force simp: evictionOrder_def)

lemma eviction_length [simp]: "length (evictionOrder rows) = length rows"
  by (simp add: evictionOrder_def)

lemma eviction_distinct:
  assumes "distinct (map fst rows)"
  shows "distinct (evictionOrder rows)"
proof -
  have "card (set (evictionOrder rows)) = length rows"
    using assms distinct_card [of "map fst rows"] by (simp add: eviction_keys)
  then show ?thesis by (simp add: card_distinct)
qed

lemma eviction_taken: "set (take n (evictionOrder rows)) \<subseteq> fst ` set rows"
  using set_take_subset [of n "evictionOrder rows"] by (simp only: eviction_keys)

lemma cap_length: "distinct (map fst rows) \<Longrightarrow>
    length (enforceSessionRowCap rows) = min (length rows) sessionRowCap"
  using length_del_all [of rows "take (length rows - sessionRowCap) (evictionOrder rows)"]
  by (auto simp: enforceSessionRowCap_def Let_def eviction_distinct eviction_taken nat_diff_distrib)

lemma cap_row: "jget (enforceSessionRowCap rows) c =
    (if c \<in> set (take (length rows - sessionRowCap) (evictionOrder rows)) then None
     else jget rows c)"
  by (simp add: enforceSessionRowCap_def Let_def rows.get_del_all nat_diff_distrib)

lemma cap_distinct: "distinct (map fst rows) \<Longrightarrow> distinct (map fst (enforceSessionRowCap rows))"
  using length_del_all [of rows "take (length rows - sessionRowCap) (evictionOrder rows)"]
  by (auto simp: enforceSessionRowCap_def Let_def eviction_distinct eviction_taken nat_diff_distrib)

lemma cap_noop: "length rows \<le> sessionRowCap \<Longrightarrow> enforceSessionRowCap rows = rows"
  by (simp add: enforceSessionRowCap_def)

section \<open>The refresh as a whole\<close>

text \<open>
  The specification: what one full inform makes of one client, given only the first row of
  the station table that names it and the row held before.
\<close>

definition refreshed :: "row_table \<Rightarrow> int \<Rightarrow> station_info list \<Rightarrow> string \<Rightarrow> session_row option" where
  "refreshed prev now sts c = (case first_sighting sts c of
     Some st \<Rightarrow> Some (next_row (jget prev c) now st)
   | None \<Rightarrow> map_option (\<lambda>r. r\<lparr>sr_connected := False\<rparr>) (jget prev c))"

definition observed :: "row_table \<Rightarrow> int \<Rightarrow> station_info list \<Rightarrow> transition set" where
  "observed prev now sts =
     {t. \<exists>c st. first_sighting sts c = Some st \<and> t \<in> set (sighted (jget prev c) now c st)} \<union>
     {t. \<exists>c r. jget prev c = Some r \<and> sr_connected r \<and> first_sighting sts c = None
        \<and> t = mk_transition c TransitionDisconnect now (r\<lparr>sr_connected := False\<rparr>) r}"

definition refresh_table :: "row_table \<Rightarrow> int \<Rightarrow> station_info list \<Rightarrow> row_table" where
  "refresh_table prev now sts = (let (rows, present, out) = refresh_stations prev now sts (prev, [], [])
     in fst (disconnect_absent present now prev (rows, False, out)))"

definition some_vanish :: "row_table \<Rightarrow> station_info list \<Rightarrow> bool" where
  "some_vanish prev sts \<longleftrightarrow> list_ex (\<lambda>(c, r). sr_connected r \<and> first_sighting sts c = None) prev"

lemma refresh_parts:
  assumes d: "distinct (map fst prev)"
    and r: "refresh_stations prev now sts (prev, [], []) = (rows, present, out)"
    and a: "disconnect_absent present now prev (rows, False, out) = (rows', armed, out')"
  shows "jget rows' c = refreshed prev now sts c"
    and "distinct (map fst rows')"
    and "armed \<longleftrightarrow> some_vanish prev sts"
    and "set out' = observed prev now sts"
proof -
  note R = refresh_stations_spec [OF r] and A = disconnect_absent_spec [OF a d]
  have v: "vanished present row c \<longleftrightarrow> sr_connected row \<and> first_sighting sts c = None" for row c
    using R(1) by (simp add: vanished_def)
  have off: "row\<lparr>sr_connected := False\<rparr> = row" if "\<not> sr_connected row" for row :: session_row
    using that by simp
  show "jget rows' c = refreshed prev now sts c"
    unfolding A(2) R(2) v refreshed_def using off
    by (cases "first_sighting sts c"; cases "jget prev c") auto
  show "distinct (map fst rows')" by (rule A(4) [OF R(4) [OF d]])
  show "armed \<longleftrightarrow> some_vanish prev sts"
    unfolding A(1) v by (simp add: some_vanish_def list_ex_iff)
  show "set out' = observed prev now sts"
  proof (rule set_eqI)
    fix t
    have m: "((c, row) \<in> set prev) = (jget prev c = Some row)" for c row
      using jget_set [OF d] by blast
    show "t \<in> set out' \<longleftrightarrow> t \<in> observed prev now sts"
      unfolding A(3) R(3) v observed_def by (simp add: Bex_def m)
  qed
qed

lemma RefreshSessionStations_parts:
  assumes "RefreshSessionStations d sts now = (d', ts)"
  defines "prev \<equiv> readSessionRows (ext d)"
  shows "readSessionRows (ext d') = readSessionRows (ext
           (writeSessionRows (enforceSessionRowCap (refresh_table prev now sts)) d))"
    and "jget (ext d') SessionDisconnectEventExtraKey =
           (if some_vanish prev sts then Some (GBool True) else jget (ext d) SessionDisconnectEventExtraKey)"
    and "k \<noteq> SessionsExtraKey \<Longrightarrow> k \<noteq> SessionDisconnectEventExtraKey \<Longrightarrow> jget (ext d') k = jget (ext d) k"
    and "set ts = observed prev now sts"
    and "sorted (map transition_key ts)"
    and "distinct (map fst (refresh_table prev now sts))"
    and "jget (refresh_table prev now sts) c = refreshed prev now sts c"
proof -
  have dp: "distinct (map fst prev)" by (simp add: prev_def distinct_readSessionRows)
  obtain rows present out where r: "refresh_stations prev now sts (prev, [], []) = (rows, present, out)"
    by (metis prod_cases3)
  obtain rows' armed out' where a: "disconnect_absent present now prev (rows, False, out) = (rows', armed, out')"
    by (metis prod_cases3)
  note P = refresh_parts [OF dp r a]
  have t: "refresh_table prev now sts = rows'" by (simp add: refresh_table_def r a)
  have d': "d' = (if armed then ext_set SessionDisconnectEventExtraKey (GBool True)
      (writeSessionRows (enforceSessionRowCap rows') d)
      else writeSessionRows (enforceSessionRowCap rows') d)"
    and ts: "ts = sort_key transition_key out'"
    using assms(1) r a unfolding RefreshSessionStations_def prev_def by (simp_all add: Let_def)
  have ne: "SessionDisconnectEventExtraKey \<noteq> SessionsExtraKey" by code_simp
  have o: "readSessionRows (ext (ext_set SessionDisconnectEventExtraKey v x)) = readSessionRows (ext x)" for v x
    using ne by (simp add: readSessionRows_def get_obj_def row_simps)
  show "readSessionRows (ext d') = readSessionRows (ext
           (writeSessionRows (enforceSessionRowCap (refresh_table prev now sts)) d))"
    unfolding t d' using o by simp
  show "jget (ext d') SessionDisconnectEventExtraKey =
      (if some_vanish prev sts then Some (GBool True) else jget (ext d) SessionDisconnectEventExtraKey)"
    unfolding d' using P(3) ne by (simp add: row_simps writeSessionRows_other)
  show "k \<noteq> SessionsExtraKey \<Longrightarrow> k \<noteq> SessionDisconnectEventExtraKey \<Longrightarrow> jget (ext d') k = jget (ext d) k"
    unfolding d' by (simp add: row_simps writeSessionRows_other)
  show "set ts = observed prev now sts" "sorted (map transition_key ts)"
    unfolding ts using P(4) by simp_all
  show "distinct (map fst (refresh_table prev now sts))"
    "jget (refresh_table prev now sts) c = refreshed prev now sts c"
    unfolding t using P(1,2) by simp_all
qed

text \<open>Magnitudes float64 carries exactly: what one table must stay inside for the row round trip.\<close>

definition station_bounds :: "station_info \<Rightarrow> bool" where
  "station_bounds st \<longleftrightarrow> \<bar>si_channel st\<bar> \<le> 2 ^ 53 \<and> \<bar>si_bytes st\<bar> \<le> 2 ^ 53"

lemma merge_bounds: "row_bounds r \<Longrightarrow> station_bounds st \<Longrightarrow> row_bounds (merge_station st r)"
  by (simp add: row_bounds_def station_bounds_def merge_station_def Let_def)

lemma next_row_bounds:
  "\<bar>now\<bar> \<le> 2 ^ 53 \<Longrightarrow> station_bounds st \<Longrightarrow> (\<And>r. old = Some r \<Longrightarrow> row_bounds r)
   \<Longrightarrow> row_bounds (next_row old now st)"
  unfolding next_row_def
  by (rule merge_bounds) (auto simp: row_bounds_def empty_row_def fresh_row_def split: option.splits)

lemma refresh_table_ok:
  assumes "distinct (map fst prev)" "\<forall>r \<in> snd ` set prev. row_bounds r" "\<bar>now\<bar> \<le> 2 ^ 53"
    and "\<forall>st \<in> set sts. station_bounds st"
    and t: "distinct (map fst tab)" "\<And>c. jget tab c = refreshed prev now sts c"
  shows "table_ok tab"
proof -
  have p: "row_bounds r" if "jget prev c = Some r" for c r
  proof -
    from that have "(c, r) \<in> set prev" using jget_set [OF assms(1)] by simp
    with assms(2) show ?thesis by force
  qed
  have fs: "st \<in> set sts" if "first_sighting sts c = Some st" for c st
    using that by (auto simp: first_sighting_def find_Some_iff)
  have "row_bounds r" if "(c, r) \<in> set tab" for c r
  proof -
    have "refreshed prev now sts c = Some r" using that t jget_set [OF t(1)] by metis
    then consider st where "first_sighting sts c = Some st" "r = next_row (jget prev c) now st"
      | r' where "jget prev c = Some r'" "r = r'\<lparr>sr_connected := False\<rparr>"
      by (auto simp: refreshed_def split: option.splits)
    then show ?thesis
    proof cases
      case 1
      with fs assms(3,4) p show ?thesis by (auto intro: next_row_bounds)
    next
      case 2
      with p [of c r'] show ?thesis by (simp add: row_bounds_def)
    qed
  qed
  with t(1) show ?thesis by (auto simp: table_ok_def)
qed

lemma table_ok_cap:
  assumes "table_ok tab"
  shows "table_ok (enforceSessionRowCap tab)"
proof -
  have d: "distinct (map fst tab)" using assms by (simp add: table_ok_def)
  have "(c, r) \<in> set tab" if "(c, r) \<in> set (enforceSessionRowCap tab)" for c r
  proof -
    have "jget (enforceSessionRowCap tab) c = Some r" using that jget_set [OF cap_distinct [OF d]] by simp
    then have "jget tab c = Some r" by (simp add: cap_row split: if_splits)
    then show ?thesis using jget_set [OF d] by simp
  qed
  with assms cap_distinct [OF d] show ?thesis by (fastforce simp: table_ok_def)
qed

lemma refresh_ok:
  assumes "RefreshSessionStations d sts now = (d', ts)"
    and "\<forall>r \<in> snd ` set (readSessionRows (ext d)). row_bounds r" "\<bar>now\<bar> \<le> 2 ^ 53"
    and "\<forall>st \<in> set sts. station_bounds st"
  shows "readSessionRows (ext d') = enforceSessionRowCap (refresh_table (readSessionRows (ext d)) now sts)"
  using refresh_table_ok [OF distinct_readSessionRows assms(2,3,4)
      RefreshSessionStations_parts(6,7) [OF assms(1)]]
  by (simp add: RefreshSessionStations_parts(1) [OF assms(1)] write_read table_ok_cap)

lemma eviction_oldest:
  assumes d: "distinct (map fst rows)"
    and "c \<in> set (take n (evictionOrder rows))" "b \<in> set (drop n (evictionOrder rows))"
    and "jget rows c = Some rc" "jget rows b = Some rb"
  shows "(sr_last_seen rc, c) \<le> (sr_last_seen rb, b)"
proof -
  define ps where "ps = sort (map (\<lambda>(mac, r). (sr_last_seen r, mac)) rows)"
  have e: "evictionOrder rows = map snd ps" by (simp add: evictionOrder_def ps_def)
  have only: "x = sr_last_seen r" if "(x, k) \<in> set ps" "jget rows k = Some r" for x k r
    using that jget_set [OF d] eq_key_imp_eq_value [OF d] by (fastforce simp: ps_def)
  obtain x where x: "(x, c) \<in> set (take n ps)" using assms(2) by (auto simp: e take_map)
  obtain y where y: "(y, b) \<in> set (drop n ps)" using assms(3) by (auto simp: e drop_map)
  have "sorted (take n ps @ drop n ps)" by (simp add: ps_def)
  then have "(x, c) \<le> (y, b)" using x y unfolding sorted_append by blast
  moreover have "x = sr_last_seen rc" "y = sr_last_seen rb"
    using only x y assms(4,5) in_set_takeD in_set_dropD by metis+
  ultimately show ?thesis by simp
qed

lemma refresh_keys: "sorted (map cs_mac (ClientSessions d)) \<and> distinct (map cs_mac (ClientSessions d))"
proof -
  have "map cs_mac (map (\<lambda>(mac, r). session r mac) (readSessionRows (ext d)))
      = map fst (readSessionRows (ext d))"
    by (simp add: session_def case_prod_beta comp_def)
  then have "distinct (map cs_mac (map (\<lambda>(mac, r). session r mac) (readSessionRows (ext d))))"
    by (simp only: distinct_readSessionRows)
  then show ?thesis by (simp only: ClientSessions_def distinct_map_sort sorted_sort_key simp_thms)
qed

text \<open>The eviction order, in terms of the rows themselves.\<close>

definition last_sighting :: "row_table \<Rightarrow> string \<Rightarrow> int" where
  "last_sighting tab c = (case jget tab c of Some r \<Rightarrow> sr_last_seen r | None \<Rightarrow> 0)"

lemma eviction_sorted:
  assumes dt: "distinct (map fst tab)"
  shows "sorted (map (\<lambda>c. (last_sighting tab c, c)) (evictionOrder tab))"
proof -
  have "(last_sighting tab k, k) = (x, k)"
    if "(x, k) \<in> set (sort (map (\<lambda>(mac, r). (sr_last_seen r, mac)) tab))" for x k
  proof -
    from that obtain r where "(k, r) \<in> set tab" "x = sr_last_seen r" by auto
    then show ?thesis using jget_set [OF dt, of k r] by (simp add: last_sighting_def)
  qed
  then have "map (\<lambda>c. (last_sighting tab c, c)) (evictionOrder tab)
      = sort (map (\<lambda>(mac, r). (sr_last_seen r, mac)) tab)"
    by (auto simp: evictionOrder_def intro!: map_idI)
  then show ?thesis by simp
qed

section \<open>Properties\<close>

text \<open>The rows one full inform leaves, before the cap, and the clients the cap drops.\<close>

definition refreshed_table :: "device \<Rightarrow> station_info list \<Rightarrow> int \<Rightarrow> row_table" where
  "refreshed_table d sts now = refresh_table (readSessionRows (ext d)) now sts"

definition capped_out :: "row_table \<Rightarrow> string list" where
  "capped_out tab = take (length tab - sessionRowCap) (evictionOrder tab)"

text \<open>
  A refresh does to every client exactly what its first row in the station table and its held
  row call for (connect, keep connected, disconnect), except for the clients the cap drops.
\<close>

theorem refresh_per_client:
  assumes "\<forall>r \<in> snd ` set (readSessionRows (ext d)). row_bounds r" "\<bar>now\<bar> \<le> 2 ^ 53"
    and "\<forall>st \<in> set sts. station_bounds st"
  shows "jget (readSessionRows (ext (fst (RefreshSessionStations d sts now)))) c =
    (if c \<in> set (capped_out (refreshed_table d sts now)) then None
     else refreshed (readSessionRows (ext d)) now sts c)"
proof -
  obtain d' ts where r: "RefreshSessionStations d sts now = (d', ts)" by fastforce
  show ?thesis
    using refresh_ok [OF r assms] RefreshSessionStations_parts(7) [OF r, of c]
    by (simp add: r cap_row refreshed_table_def capped_out_def)
qed

definition one_station :: station_info where
  "one_station = (bare_station ''AA:BB:CC:00:11:22'')\<lparr>si_radio := ''ng'', si_channel := 6\<rparr>"

lemma one_station_mac: "CanonicalMAC (si_mac one_station) = Inr ''aabbcc001122''"
  by code_simp

lemma refresh_per_client_witness:
  "jget (readSessionRows (ext (fst (RefreshSessionStations (new_device ''m'') [one_station] 100)))) ''aabbcc001122''
    = Some (empty_row\<lparr>sr_connected := True, sr_last_seen := 100, sr_since := 100, sr_radio := ''ng'', sr_channel := 6\<rparr>)"
proof -
  have n: "readSessionRows (ext (new_device ''m'')) = []"
    by (simp add: new_device_def ext_def readSessionRows_def get_obj_def)
  have "jget (readSessionRows (ext (fst (RefreshSessionStations (new_device ''m'') [one_station] 100)))) ''aabbcc001122'' =
    (if ''aabbcc001122'' \<in> set (capped_out (refreshed_table (new_device ''m'') [one_station] 100)) then None
     else refreshed (readSessionRows (ext (new_device ''m''))) 100 [one_station] ''aabbcc001122'')"
    by (rule refresh_per_client) (simp_all add: n station_bounds_def one_station_def bare_station_def)
  moreover have "length (refreshed_table (new_device ''m'') [one_station] 100) = 1"
    by (simp add: refreshed_table_def refresh_table_def n refresh_stations_Cons one_station_mac)
  ultimately show ?thesis
    by (simp add: capped_out_def sessionRowCap_def n refreshed_def one_station_mac)
      (simp add: next_row_def fresh_row_def merge_station_def one_station_def bare_station_def Let_def empty_row_def)
qed

text \<open>
  The table never outgrows the cap, and what the cap drops are the rows seen longest ago
  (by last sighting, then MAC): the eviction order lists every client once in that order and the
  dropped ones are its beginning.
\<close>

theorem cap_drops_oldest:
  "length (enforceSessionRowCap (refreshed_table d sts now)) = min (length (refreshed_table d sts now)) sessionRowCap
   \<and> set (evictionOrder (refreshed_table d sts now)) = fst ` set (refreshed_table d sts now)
   \<and> distinct (evictionOrder (refreshed_table d sts now))
   \<and> sorted (map (\<lambda>c. (last_sighting (refreshed_table d sts now) c, c)) (evictionOrder (refreshed_table d sts now)))
   \<and> jget (enforceSessionRowCap (refreshed_table d sts now)) c =
       (if c \<in> set (capped_out (refreshed_table d sts now)) then None else jget (refreshed_table d sts now) c)"
proof -
  obtain d' ts where r: "RefreshSessionStations d sts now = (d', ts)" by fastforce
  have dt: "distinct (map fst (refreshed_table d sts now))"
    using RefreshSessionStations_parts(6) [OF r] by (simp add: refreshed_table_def)
  then show ?thesis
    by (simp add: cap_length eviction_keys eviction_distinct cap_row capped_out_def eviction_sorted)
qed

text \<open>
  The transitions a refresh reports are exactly those observed (a connect for every client
  newly seen, a radio change for a connected client seen on another radio or channel, a disconnect
  for every connected client gone), in (MAC, kind) order; the disconnect flag is raised exactly when
  a client vanished, and no other row of the record changes.
\<close>

theorem refresh_transitions:
  "set (snd (RefreshSessionStations d sts now)) = observed (readSessionRows (ext d)) now sts
   \<and> sorted (map transition_key (snd (RefreshSessionStations d sts now)))
   \<and> jget (ext (fst (RefreshSessionStations d sts now))) SessionDisconnectEventExtraKey =
       (if some_vanish (readSessionRows (ext d)) sts then Some (GBool True)
        else jget (ext d) SessionDisconnectEventExtraKey)
   \<and> (k \<in> {SessionsExtraKey, SessionDisconnectEventExtraKey}
       \<or> jget (ext (fst (RefreshSessionStations d sts now))) k = jget (ext d) k)"
proof -
  obtain d' ts where r: "RefreshSessionStations d sts now = (d', ts)" by fastforce
  show ?thesis
    using RefreshSessionStations_parts(2,4,5) [OF r] RefreshSessionStations_parts(3) [OF r, of k]
    by (auto simp: r)
qed

end
