(* ===== verification/Stations.thy ===== *)
theory Stations
  imports Go_Prelude
begin

text \<open>
  Station-table decode, \<^verbatim>\<open>internal/inform/stations.go\<close>: the per-client rows a full inform
  carries, read defensively out of the decoded body.
\<close>

record station =
  st_mac :: string
  st_hostname :: string
  st_ip :: string
  st_signal :: int
  st_tx_bytes :: int
  st_rx_bytes :: int
  st_uptime :: int
  st_essid :: string
  st_bssid :: string
  st_radio :: string
  st_channel :: int

definition strField :: "jmap \<Rightarrow> string \<Rightarrow> string" where
  "strField m key = opt_or [] (get_str m key)"

fun numField :: "jmap \<Rightarrow> string list \<Rightarrow> int" where
  "numField m [] = 0"
| "numField m (k # ks) = (case jget m k of
     Some (GFloat n) \<Rightarrow> int64_of_f64 n
   | Some (GInt n) \<Rightarrow> n
   | Some (GInt64 n) \<Rightarrow> n
   | Some (GNumber i f) \<Rightarrow> (case i of Some n \<Rightarrow> n
       | None \<Rightarrow> (case f of Some x \<Rightarrow> int64_of_f64 x | None \<Rightarrow> numField m ks))
   | _ \<Rightarrow> numField m ks)"

text \<open>One row with its context: the parent vap row, or the row itself when there is none.\<close>

definition station_of :: "jmap option \<Rightarrow> jmap \<Rightarrow> string \<Rightarrow> station" where
  "station_of vap m mac = (let ctx = (case vap of None \<Rightarrow> m | Some v \<Rightarrow> v) in
     \<lparr>st_mac = mac, st_hostname = strField m ''hostname'', st_ip = strField m ''ip'',
      st_signal = numField m [''signal'', ''rssi''],
      st_tx_bytes = numField m [''tx_bytes''], st_rx_bytes = numField m [''rx_bytes''],
      st_uptime = numField m [''uptime''],
      st_essid = strField ctx ''essid'', st_bssid = strField ctx ''bssid'',
      st_radio = strField ctx ''radio'', st_channel = numField ctx [''channel'']\<rparr>)"

text \<open>The \<^verbatim>\<open>add\<close> closure; \<open>seen\<close> holds the MACs already reported.\<close>

fun add_rows :: "jmap option \<Rightarrow> gval list \<Rightarrow> string list \<times> station list \<Rightarrow> string list \<times> station list" where
  "add_rows vap [] acc = acc"
| "add_rows vap (row # rows) (seen, sts) = (case row of
     GObj m \<Rightarrow> (case get_str m ''mac'' of
         None \<Rightarrow> add_rows vap rows (seen, sts)
       | Some mac \<Rightarrow> if mac = [] \<or> mac \<in> set seen then add_rows vap rows (seen, sts)
           else add_rows vap rows (mac # seen, sts @ [station_of vap m mac]))
   | _ \<Rightarrow> add_rows vap rows (seen, sts))"

fun add_vaps :: "gval list \<Rightarrow> (string list \<times> station list) \<times> bool \<Rightarrow> (string list \<times> station list) \<times> bool" where
  "add_vaps [] acc = acc"
| "add_vaps (v # vs) (acc, present) = (case v of
     GObj vm \<Rightarrow> (case get_arr vm ''sta_table'' of
         None \<Rightarrow> add_vaps vs (acc, present)
       | Some rows \<Rightarrow> add_vaps vs (add_rows (Some vm) rows acc, True))
   | _ \<Rightarrow> add_vaps vs (acc, present))"

definition Stations :: "jmap \<Rightarrow> station list \<times> bool" where
  "Stations body =
    (let s0 = (case get_arr body ''sta_table'' of
         None \<Rightarrow> (([], []), False)
       | Some raw \<Rightarrow> (add_rows None raw ([], []), True));
       s1 = (case get_arr body ''vap_table'' of None \<Rightarrow> s0 | Some vaps \<Rightarrow> add_vaps vaps s0)
     in (snd (fst s1), snd s1))"

definition StationMACs :: "jmap \<Rightarrow> string list \<times> bool" where
  "StationMACs body = (let (sts, present) = Stations body in (map st_mac sts, present))"

lemma st_mac_station_of [simp]: "st_mac (station_of vap m mac) = mac"
  by (simp add: station_of_def Let_def)

text \<open>The decode invariant: \<open>seen\<close> is exactly the reported MACs, which are distinct and non-empty.\<close>

definition stations_inv :: "string list \<times> station list \<Rightarrow> bool" where
  "stations_inv acc \<longleftrightarrow> set (fst acc) = st_mac ` set (snd acc)
     \<and> distinct (map st_mac (snd acc)) \<and> [] \<notin> st_mac ` set (snd acc)"

lemma add_rows_inv: "stations_inv acc \<Longrightarrow> stations_inv (add_rows vap rows acc)"
proof (induction vap rows acc rule: add_rows.induct)
  case (2 vap row rows seen sts)
  show ?case
  proof (cases "\<exists>m mac. row = GObj m \<and> get_str m ''mac'' = Some mac \<and> mac \<noteq> [] \<and> mac \<notin> set seen")
    case True
    then obtain m mac where r: "row = GObj m" "get_str m ''mac'' = Some mac" "mac \<noteq> []" "mac \<notin> set seen"
      by blast
    have "stations_inv (mac # seen, sts @ [station_of vap m mac])"
      using "2.prems" r(3,4) by (auto simp: stations_inv_def)
    with "2.IH" r show ?thesis by simp
  next
    case False
    then have "add_rows vap (row # rows) (seen, sts) = add_rows vap rows (seen, sts)"
      by (auto split: gval.splits option.splits)
    with "2.IH" "2.prems" False show ?thesis
      by (auto split: gval.splits option.splits)
  qed
qed simp

lemma add_vaps_inv: "stations_inv (fst s) \<Longrightarrow> stations_inv (fst (add_vaps vs s))"
  by (induction vs s rule: add_vaps.induct) (auto simp: add_rows_inv split: gval.splits option.splits)

lemma stations_inv_empty [simp]: "stations_inv ([], [])"
  by (simp add: stations_inv_def)

lemma Stations_inv: "\<exists>seen. stations_inv (seen, fst (Stations body))"
proof -
  define s0 where "s0 = (case get_arr body ''sta_table'' of None \<Rightarrow> (([], []), False)
       | Some raw \<Rightarrow> (add_rows None raw ([], []), True))"
  have i0: "stations_inv (fst s0)"
    by (auto simp: s0_def add_rows_inv split: option.splits)
  define s1 where "s1 = (case get_arr body ''vap_table'' of None \<Rightarrow> s0 | Some vaps \<Rightarrow> add_vaps vaps s0)"
  have i1: "stations_inv (fst s1)"
    using i0 by (auto simp: s1_def add_vaps_inv split: option.splits)
  have "fst (Stations body) = snd (fst s1)"
    by (simp only: Stations_def s1_def s0_def Let_def fst_conv)
  then have "stations_inv (fst (fst s1), fst (Stations body))"
    using i1 by simp
  then show ?thesis by blast
qed

lemma add_vaps_present: "snd (add_vaps vs (acc, b)) \<longleftrightarrow>
   b \<or> (\<exists>vm. GObj vm \<in> set vs \<and> get_arr vm ''sta_table'' \<noteq> None)"
proof (induction vs arbitrary: acc b)
  case (Cons v vs)
  then show ?case by (cases v) (auto split: option.splits)
qed simp

lemma add_vaps_absent:
  "\<not> (\<exists>vm. GObj vm \<in> set vs \<and> get_arr vm ''sta_table'' \<noteq> None) \<Longrightarrow> add_vaps vs (acc, b) = (acc, b)"
proof (induction vs arbitrary: acc b)
  case (Cons v vs)
  have "\<not> (\<exists>vm. GObj vm \<in> set vs \<and> get_arr vm ''sta_table'' \<noteq> None)"
    using Cons.prems by auto
  with Cons.IH have ih: "add_vaps vs (acc, b) = (acc, b)" by blast
  show ?case using Cons.prems ih by (cases v) (auto split: option.splits)
qed simp

lemma Stations_absent:
  "\<not> snd (Stations body) \<Longrightarrow> fst (Stations body) = []"
  by (auto simp: Stations_def Let_def add_vaps_present add_vaps_absent split: option.splits)

lemma Stations_present:
  "snd (Stations body) \<longleftrightarrow> get_arr body ''sta_table'' \<noteq> None \<or>
     (\<exists>vaps vm. get_arr body ''vap_table'' = Some vaps \<and> GObj vm \<in> set vaps
        \<and> get_arr vm ''sta_table'' \<noteq> None)"
  by (auto simp: Stations_def Let_def add_vaps_present split: option.splits)

section \<open>Properties\<close>

text \<open>The rows of a station table that name a client, in report order, and first-row-wins.\<close>

fun named_rows :: "jmap option \<Rightarrow> gval list \<Rightarrow> station list" where
  "named_rows vap [] = []"
| "named_rows vap (row # rows) = (case row of
     GObj m \<Rightarrow> (case get_str m ''mac'' of
         Some mac \<Rightarrow> if mac = [] then named_rows vap rows else station_of vap m mac # named_rows vap rows
       | None \<Rightarrow> named_rows vap rows)
   | _ \<Rightarrow> named_rows vap rows)"

definition vap_rows :: "gval \<Rightarrow> station list" where
  "vap_rows v = (case v of GObj vm \<Rightarrow> named_rows (Some vm) (opt_or [] (get_arr vm ''sta_table'')) | _ \<Rightarrow> [])"

definition all_rows :: "jmap \<Rightarrow> station list" where
  "all_rows body = named_rows None (opt_or [] (get_arr body ''sta_table''))
     @ concat (map vap_rows (opt_or [] (get_arr body ''vap_table'')))"

fun first_rows :: "string set \<Rightarrow> station list \<Rightarrow> station list" where
  "first_rows seen [] = []"
| "first_rows seen (s # ss) = (if st_mac s \<in> seen then first_rows seen ss
     else s # first_rows (insert (st_mac s) seen) ss)"

lemma first_rows_append: "first_rows seen (xs @ ys) = first_rows seen xs @ first_rows (seen \<union> st_mac ` set xs) ys"
  by (induction xs arbitrary: seen) (auto simp: insert_absorb)

lemma add_rows_first:
  "add_rows vap rows (seen, sts) = (seen', sts') \<Longrightarrow>
   sts' = sts @ first_rows (set seen) (named_rows vap rows) \<and> set seen' = set seen \<union> st_mac ` set (named_rows vap rows)"
proof (induction rows arbitrary: seen sts)
  case (Cons row rows)
  show ?case
  proof (cases "\<exists>m mac. row = GObj m \<and> get_str m ''mac'' = Some mac \<and> mac \<noteq> []")
    case True
    then obtain m mac where r: "row = GObj m" "get_str m ''mac'' = Some mac" "mac \<noteq> []" by blast
    then show ?thesis
      using Cons.prems Cons.IH [of seen sts] Cons.IH [of "mac # seen" "sts @ [station_of vap m mac]"]
      by (cases "mac \<in> set seen") (auto simp: insert_absorb)
  next
    case False
    then have "add_rows vap (row # rows) (seen, sts) = add_rows vap rows (seen, sts)"
      "named_rows vap (row # rows) = named_rows vap rows"
      by (auto split: gval.splits option.splits)
    with Cons show ?thesis by simp
  qed
qed simp

lemma add_vaps_first:
  "add_vaps vs ((seen, sts), b) = ((seen', sts'), b') \<Longrightarrow>
   sts' = sts @ first_rows (set seen) (concat (map vap_rows vs))"
proof (induction vs arbitrary: seen sts b)
  case (Cons v vs)
  show ?case
  proof (cases "\<exists>vm rows. v = GObj vm \<and> get_arr vm ''sta_table'' = Some rows")
    case True
    then obtain vm rows where v: "v = GObj vm" "get_arr vm ''sta_table'' = Some rows" by blast
    obtain s1 t1 where a: "add_rows (Some vm) rows (seen, sts) = (s1, t1)" by fastforce
    from add_rows_first [OF a] Cons.prems a v Cons.IH [of s1 t1 True] show ?thesis
      by (simp add: vap_rows_def first_rows_append)
  next
    case False
    then have "add_vaps (v # vs) ((seen, sts), b) = add_vaps vs ((seen, sts), b)" "vap_rows v = []"
      by (auto simp: vap_rows_def split: gval.splits option.splits)
    with Cons show ?thesis by simp
  qed
qed simp

text \<open>
  The decoded station table is the list of the rows that name a client, top-level table
  before the vap tables, first row per MAC; the MACs are distinct and non-empty, and a body
  without any table reads as absent and empty.
\<close>

theorem Stations_decoded:
  "fst (Stations body) = first_rows {} (all_rows body)
   \<and> distinct (map st_mac (fst (Stations body))) \<and> [] \<notin> st_mac ` set (fst (Stations body))
   \<and> (snd (Stations body) \<longleftrightarrow> (\<exists>rows. get_arr body ''sta_table'' = Some rows) \<or>
       (\<exists>vaps vm rows. get_arr body ''vap_table'' = Some vaps \<and> GObj vm \<in> set vaps
         \<and> get_arr vm ''sta_table'' = Some rows))
   \<and> (snd (Stations body) \<or> fst (Stations body) = [])"
proof (intro conjI)
  show "fst (Stations body) = first_rows {} (all_rows body)"
  proof -
    obtain seen sts where a: "add_rows None (opt_or [] (get_arr body ''sta_table'')) ([], []) = (seen, sts)"
      by fastforce
    obtain seen' sts' b' where v: "add_vaps (opt_or [] (get_arr body ''vap_table''))
        ((seen, sts), get_arr body ''sta_table'' \<noteq> None) = ((seen', sts'), b')"
      by (metis surj_pair)
    have "fst (Stations body) = sts'"
      using a v by (auto simp: Stations_def Let_def split: option.splits)
    with add_rows_first [OF a] add_vaps_first [OF v] show ?thesis
      by (simp add: all_rows_def first_rows_append)
  qed
qed (use Stations_inv [of body] Stations_absent [of body] in \<open>auto simp: stations_inv_def Stations_present\<close>)

end
