(* ===== verification/Inform_Lane.thy ===== *)
theory Inform_Lane
  imports Adoption_Laws Sessions Stations Device_Store
begin

text \<open>
  The transport adapter, \<^verbatim>\<open>internal/server/server.go\<close> and \<^verbatim>\<open>server/sessions.go\<close>: one decoded inform
  runs absorption, session refresh, the engine's decision and the outcome's deltas as one
  read-modify-write of the store, and the lanes wrap it in their transport. Time, randomness
  and the outcome of the file write come with each inform.
\<close>

section \<open>Wire helpers\<close>

definition str_field :: "jmap \<Rightarrow> string \<Rightarrow> string" where
  "str_field m key = opt_or [] (get_str m key)"

definition canonMACFromHeader :: "bytes \<Rightarrow> string" where
  "canonMACFromHeader raw = (if length raw \<noteq> 6 then [] else to_lower (concat (map hex_byte raw)))"

fun candidate_keys :: "string list \<Rightarrow> string list \<Rightarrow> string list" where
  "candidate_keys [] out = out"
| "candidate_keys (k # ks) out =
    (let k = to_lower k
     in if k \<noteq> [] \<and> k \<notin> set out then candidate_keys ks (out @ [k]) else candidate_keys ks out)"

definition keyCandidates :: "device \<Rightarrow> string list" where
  "keyCandidates rec = (let out = candidate_keys (dev_authkeys rec) []
     in if DefaultKeyHex \<in> set out then out else out @ [DefaultKeyHex])"

definition payloadMACMatches :: "string \<Rightarrow> jmap \<Rightarrow> bool" where
  "payloadMACMatches hdrMAC jm = (case get_str jm ''mac'' of
     None \<Rightarrow> False
   | Some m \<Rightarrow> m \<noteq> [] \<and> CanonicalMAC m = Inr hdrMAC)"

text \<open>\<^verbatim>\<open>randKeyChars\<close>: one hexadecimal character per random byte (\<open>None\<close> for a failed read).\<close>

definition randKeyChars :: "bytes option \<Rightarrow> string option" where
  "randKeyChars buf = map_option (map (\<lambda>b. ''0123456789abcdef'' ! (unat b mod 16))) buf"

section \<open>One cycle\<close>

definition station_info_of :: "station \<Rightarrow> station_info" where
  "station_info_of st = \<lparr>si_mac = st_mac st, si_hostname = st_hostname st, si_ip = st_ip st,
     si_essid = st_essid st, si_radio = st_radio st, si_channel = st_channel st,
     si_bytes = wrap64 (st_tx_bytes st + st_rx_bytes st)\<rparr>"

definition refreshClientSessions :: "device \<Rightarrow> jmap \<Rightarrow> int \<Rightarrow> device \<times> transition list" where
  "refreshClientSessions rec body now = (let (stations, present) = Stations body
     in if \<not> present then (rec, [])
        else RefreshSessionStations rec (map station_info_of stations) now)"

definition countTransitions :: "transition list \<Rightarrow> nat \<times> nat" where
  "countTransitions ts = (length (filter (\<lambda>t. t_kind t = TransitionConnect) ts),
     length (filter (\<lambda>t. t_kind t = TransitionDisconnect) ts))"

definition set_field :: "(('a \<Rightarrow> 'a) \<Rightarrow> device \<Rightarrow> device) \<Rightarrow> 'a option \<Rightarrow> device \<Rightarrow> device" where
  "set_field upd v d = (case v of None \<Rightarrow> d | Some x \<Rightarrow> upd (\<lambda>_. x) d)"

text \<open>\<^verbatim>\<open>applyOutcome\<close>, the record half.\<close>

definition apply_deltas :: "outcome \<Rightarrow> device \<Rightarrow> device" where
  "apply_deltas out rec =
    (let rec = set_field dev_state_update (out_state out) rec;
         rec = set_field dev_x_authkey_update (out_x_authkey out) rec;
         rec = (if out_set_cfg_version out then rec\<lparr>dev_cfg_version := out_cfg_version out\<rparr> else rec);
         rec = set_field dev_applied_cfg_update (out_applied_cfg out) rec;
         rec = set_field dev_authkeys_update (out_authkeys out) rec;
         rec = set_field dev_key_confirmed_update (out_key_confirmed out) rec;
         rec = rec\<lparr>dev_extra := Some (out_extra out)\<rparr>
     in fold (\<lambda>(k, v). ext_set k (GStr v)) (out_credentials out) rec)"

text \<open>The response half; \<open>ms\<close> is the clock in milliseconds as text.\<close>

definition response_of :: "string \<Rightarrow> outcome \<Rightarrow> jmap" where
  "response_of ms out = (case out_kind out of
     KindSetparam \<Rightarrow>
       if out_full out
       then [(''_type'', GStr ''setparam''), (''server_time_in_utc'', GStr ms),
             (''cfgversion'', GStr (out_cfg_version out)), (''system_cfg'', GStr (out_system_cfg out)),
             (''blocked_sta'', GStr (out_blocked_sta out)), (''mgmt_cfg'', GStr (out_mgmt_cfg out))]
       else [(''_type'', GStr ''setparam''), (''server_time_in_utc'', GStr ms),
             (''mgmt_cfg'', GStr (out_mgmt_cfg out))]
   | KindBlockedStaReconnect \<Rightarrow>
       [(''_type'', GStr ''setparam''), (''server_time_in_utc'', GStr ms),
        (''blocked_sta'', GStr (out_blocked_sta out))]
   | KindReboot \<Rightarrow>
       [(''_type'', GStr ''reboot''), (''reboot_type'', GStr ''soft''), (''server_time_in_utc'', GStr ms)]
   | KindSetdefault \<Rightarrow> [(''_type'', GStr ''setdefault''), (''server_time_in_utc'', GStr ms)]
   | KindCmd \<Rightarrow>
       fold (\<lambda>(k, v). jset k v) (opt_or [] (out_cmd_task out))
         [(''_type'', GStr ''cmd''), (''server_time_in_utc'', GStr ms)]
   | KindNoop \<Rightarrow>
       [(''_type'', GStr ''noop''), (''server_time_in_utc'', GStr ms), (''interval'', GInt64 (out_interval out))]
   | KindNoopPendingWLAN \<Rightarrow>
       [(''_type'', GStr ''noop''), (''server_time_in_utc'', GStr ms), (''interval'', GInt64 (out_interval out))])"

definition noopResp :: "string \<Rightarrow> jmap" where
  "noopResp ms = [(''_type'', GStr ''noop''), (''server_time_in_utc'', GStr ms), (''interval'', GInt 10)]"

record lane =
  ln_transport :: transport
  ln_used_key :: string
  ln_gcm :: bool

text \<open>
  The mutation the store runs. The absorbed body and the record's rows are one map, so the
  refresh and the decision read the body through the record.
\<close>

definition inform_mutation :: "engine \<Rightarrow> int \<Rightarrow> int \<Rightarrow> lane \<Rightarrow> jmap \<Rightarrow> device \<Rightarrow>
    decide_error + device \<times> outcome \<times> transition list" where
  "inform_mutation e now prevTarget la jm rec =
    (let rec = Absorb jm now (ln_gcm la) rec;
         (rec, transitions) = refreshClientSessions rec (ext rec) now
     in and_then (Decide e \<lparr>rq_transport = ln_transport la, rq_device = rec, rq_body = ext rec,
                            rq_used_key = ln_used_key la, rq_now = now, rq_prev_target = prevTarget\<rparr>)
          (\<lambda>out. Inr (apply_deltas out rec, out, transitions)))"

record server =
  sv_store :: json_store
  sv_noop :: "(string \<times> int) list"

text \<open>What one inform brings from outside: clock, clock text, and whether the file write succeeds.\<close>

record tick =
  tk_now :: int
  tk_ms :: string
  tk_io :: bool

datatype cycle_result = Rejected nat | Committed jmap "transition list" | InternalNoop jmap

definition fn_of :: "(device \<Rightarrow> decide_error + device \<times> 'x) \<Rightarrow> device \<Rightarrow> string + device" where
  "fn_of f rec = (case f rec of
     Inl ErrDefaultKeyRejected \<Rightarrow> Inl ''rejected'' | Inl _ \<Rightarrow> Inl ''internal'' | Inr (rec', _) \<Rightarrow> Inr rec')"

definition runInformCycle :: "engine \<Rightarrow> tick \<Rightarrow> string \<Rightarrow> jmap \<Rightarrow> lane \<Rightarrow> server \<Rightarrow> server \<times> cycle_result" where
  "runInformCycle e tk mac jm la s =
    (let prev = opt_or 0 (jget (sv_noop s) mac);
         f = inform_mutation e (tk_now tk) prev la jm;
         ran = (case db_Get mac (js_db (sv_store s)) of Inl _ \<Rightarrow> None
                | Inr rec \<Rightarrow> (case f rec of Inl _ \<Rightarrow> None | Inr r \<Rightarrow> Some r));
         (st, err) = js_UpdateExisting (tk_now tk) (tk_io tk) mac (fn_of f) (sv_store s);
         noop = (case ran of
             Some (_, out, _) \<Rightarrow> if out_persist_target out then jset mac (out_noop_target out) (sv_noop s) else sv_noop s
           | None \<Rightarrow> sv_noop s);
         s' = \<lparr>sv_store = st, sv_noop = noop\<rparr>
     in case err of
          None \<Rightarrow> (case ran of
              Some (_, out, ts) \<Rightarrow> (s', Committed (response_of (tk_ms tk) out) ts)
            | None \<Rightarrow> (s', InternalNoop (noopResp (tk_ms tk))))
        | Some (ErrFn r) \<Rightarrow> if r = ''rejected'' then (s', Rejected 404) else (s', InternalNoop (noopResp (tk_ms tk)))
        | Some ErrNotFound \<Rightarrow> (s', Rejected 404)
        | Some _ \<Rightarrow> (s', InternalNoop (noopResp (tk_ms tk))))"

section \<open>The lanes\<close>

text \<open>
  What rides back over HTTP: a bare status, a JSON error, plain JSON under 200, or sealed
  bytes under 200.
\<close>

datatype reply = StatusOnly nat | ErrorJSON nat string | PlainJSON jmap | Sealed bytes

definition json_bytes :: "json_text \<Rightarrow> jmap \<Rightarrow> bytes" where
  "json_bytes jt m = map (\<lambda>c. word_of_nat (of_char c)) (js_marshal jt (GObj (sort_key fst m)))"

text \<open>\<open>sealed_reply\<close> is \<^verbatim>\<open>writeInformResponse\<close>; \<open>rnd\<close> and \<open>fresh\<close> are the two IV draws.\<close>

definition sealed_reply :: "engine \<Rightarrow> crypto \<Rightarrow> tick \<Rightarrow> bytes option \<Rightarrow> bytes option \<Rightarrow> packet \<Rightarrow> bytes \<Rightarrow> jmap \<Rightarrow> reply" where
  "sealed_reply e C tk rnd fresh pkt key resp =
    (case Respond C rnd fresh pkt key (json_bytes (en_json e) resp) of
       Inl _ \<Rightarrow> PlainJSON (noopResp (tk_ms tk)) | Inr b \<Rightarrow> Sealed b)"

definition cycle_reply :: "(jmap \<Rightarrow> reply) \<Rightarrow> cycle_result \<Rightarrow> reply" where
  "cycle_reply respond r = (case r of
     Rejected status \<Rightarrow> StatusOnly status | Committed resp _ \<Rightarrow> respond resp | InternalNoop resp \<Rightarrow> respond resp)"

definition informFactoryNote :: string where "informFactoryNote = ''inform:factory''"

definition mark_unknown :: "tick \<Rightarrow> string \<Rightarrow> server \<Rightarrow> server" where
  "mark_unknown tk mac s = s\<lparr>sv_store := fst (js_MarkPending (tk_now tk) (tk_io tk) mac informFactoryNote (sv_store s))\<rparr>"

definition errMACMismatch :: "string \<Rightarrow> jmap \<Rightarrow> reply" where
  "errMACMismatch hdr jm = ErrorJSON 400
     (''mac inconsistent in header['' @ hdr @ ''] and payload['' @ str_field jm ''mac'' @ '']'')"

definition handlePacket :: "engine \<Rightarrow> crypto \<Rightarrow> tick \<Rightarrow> bytes option \<Rightarrow> bytes option \<Rightarrow> packet \<Rightarrow> server \<Rightarrow> server \<times> reply" where
  "handlePacket e C tk rnd fresh pkt s =
    (let mac = canonMACFromHeader (p_mac pkt)
     in if mac = [] then (s, StatusOnly 400)
        else case db_Get mac (js_db (sv_store s)) of
          Inl ErrNotFound \<Rightarrow>
            (case Decode C pkt [DefaultKeyHex] of
               Inl _ \<Rightarrow> (s, ErrorJSON 400 ''unable to decrypt inform payload'')
             | Inr jd \<Rightarrow>
                 if \<not> payloadMACMatches mac (d_body jd)
                 then (s, errMACMismatch mac (d_body jd))
                 else (mark_unknown tk mac s, StatusOnly 404))
        | Inl _ \<Rightarrow> (s, PlainJSON (noopResp (tk_ms tk)))
        | Inr rec \<Rightarrow>
            (case Decode C pkt (keyCandidates rec) of
               Inl _ \<Rightarrow> (s, ErrorJSON 400 ''unable to decrypt inform payload'')
             | Inr jd \<Rightarrow>
                 if \<not> payloadMACMatches mac (d_body jd)
                 then (s, errMACMismatch mac (d_body jd))
                 else let (s', r) = runInformCycle e tk mac (d_body jd)
                        \<lparr>ln_transport = TransportEncrypted, ln_used_key = d_used_key jd,
                         ln_gcm = (p_flags pkt AND FlagGCM \<noteq> 0)\<rparr> s
                   in (s', cycle_reply (sealed_reply e C tk rnd fresh pkt (opt_or [] (d_key_bytes jd))) r)))"

definition handlePlain :: "engine \<Rightarrow> tick \<Rightarrow> string \<Rightarrow> jmap \<Rightarrow> server \<Rightarrow> server \<times> reply" where
  "handlePlain e tk mac jm s =
    (if mac = [] then (s, StatusOnly 400)
     else if \<not> payloadMACMatches mac jm then (s, errMACMismatch mac jm)
     else case db_Get mac (js_db (sv_store s)) of
       Inl ErrNotFound \<Rightarrow> (mark_unknown tk mac s, StatusOnly 404)
     | Inl _ \<Rightarrow> (s, PlainJSON (noopResp (tk_ms tk)))
     | Inr _ \<Rightarrow>
         let claim = to_lower (str_field jm ''_authkey'');
             claim = (if claim = [] then DefaultKeyHex else claim);
             (s', r) = runInformCycle e tk mac jm
               \<lparr>ln_transport = TransportPlaintext, ln_used_key = claim, ln_gcm = False\<rparr> s
         in (s', cycle_reply PlainJSON r))"

definition handlePacketPlain :: "engine \<Rightarrow> crypto \<Rightarrow> tick \<Rightarrow> packet \<Rightarrow> server \<Rightarrow> server \<times> reply" where
  "handlePacketPlain e C tk pkt s =
    (let mac = canonMACFromHeader (p_mac pkt)
     in if mac = [] then (s, StatusOnly 400)
        else case Decode C pkt [DefaultKeyHex] of
          Inl _ \<Rightarrow> (s, ErrorJSON 400 ''unable to parse inform payload'')
        | Inr d \<Rightarrow> handlePlain e tk mac (d_body d) s)"

text \<open>\<^verbatim>\<open>handleInform\<close> on a POST whose body was read; one byte over the cap is what the reader stops at.\<close>

definition handleInform :: "bool \<Rightarrow> engine \<Rightarrow> crypto \<Rightarrow> tick \<Rightarrow> bytes option \<Rightarrow> bytes option \<Rightarrow> bytes \<Rightarrow> server \<Rightarrow> server \<times> reply" where
  "handleInform allowPlain e C tk rnd fresh raw s =
    (let body = take (MaxBodySize + 1) raw
     in if MaxBodySize < length body then (s, ErrorJSON 400 ''payload too large'')
        else case ParsePacket body of
          Inr pkt \<Rightarrow>
            if p_flags pkt AND (FlagEncCBC OR FlagGCM) = 0 \<and> \<not> allowPlain
            then (s, ErrorJSON 400 ''Plain text inform is not supported'')
            else if p_flags pkt AND (FlagEncCBC OR FlagGCM) = 0
            then handlePacketPlain e C tk pkt s
            else handlePacket e C tk rnd fresh pkt s
        | Inl _ \<Rightarrow>
            (case json_parse C body of
               Some (GObj jm) \<Rightarrow>
                 if \<not> allowPlain then (s, ErrorJSON 400 ''Plain text inform is not supported'')
                 else (case CanonicalMAC (str_field jm ''mac'') of
                     Inl _ \<Rightarrow> (s, StatusOnly 400) | Inr mac \<Rightarrow> handlePlain e tk mac jm s)
             | _ \<Rightarrow> (s, StatusOnly 400)))"

section \<open>Candidate keys\<close>

lemma candidate_keys_inv:
  "distinct out \<Longrightarrow> [] \<notin> set out \<Longrightarrow> distinct (candidate_keys ks out) \<and> [] \<notin> set (candidate_keys ks out)
     \<and> set (candidate_keys ks out) = set out \<union> (to_lower ` set ks - {[]})"
proof (induction ks arbitrary: out)
  case (Cons k ks)
  show ?case
  proof (cases "to_lower k \<noteq> [] \<and> to_lower k \<notin> set out")
    case True
    then have "distinct (out @ [to_lower k])" "[] \<notin> set (out @ [to_lower k])"
      using Cons.prems by (auto simp: eq_commute [of "[]"])
    from Cons.IH [OF this] True show ?thesis by auto
  next
    case False
    then have c: "candidate_keys (k # ks) out = candidate_keys ks out"
      "set out \<union> (to_lower ` set (k # ks) - {[]}) = set out \<union> (to_lower ` set ks - {[]})" by auto
    show ?thesis using Cons.IH [OF Cons.prems] unfolding c .
  qed
qed simp

lemma DefaultKeyHex_nonempty [simp]: "DefaultKeyHex \<noteq> []"
  by (simp add: DefaultKeyHex_def)

lemma keyCandidates_facts:
  "distinct (keyCandidates rec)" "[] \<notin> set (keyCandidates rec)"
  "set (keyCandidates rec) = insert DefaultKeyHex (to_lower ` set (dev_authkeys rec) - {[]})"
proof -
  define ks where "ks = candidate_keys (dev_authkeys rec) []"
  have i: "distinct ks" "[] \<notin> set ks" "set ks = to_lower ` set (dev_authkeys rec) - {[]}"
    using candidate_keys_inv [of "[]" "dev_authkeys rec"] by (simp_all add: ks_def)
  have k: "keyCandidates rec = (if DefaultKeyHex \<in> set ks then ks else ks @ [DefaultKeyHex])"
    by (simp add: keyCandidates_def Let_def ks_def)
  show "distinct (keyCandidates rec)" using i(1) by (simp add: k)
  show "[] \<notin> set (keyCandidates rec)" using i(2) by (simp add: k eq_commute [of "[]" DefaultKeyHex])
  show "set (keyCandidates rec) = insert DefaultKeyHex (to_lower ` set (dev_authkeys rec) - {[]})"
    unfolding i(3) [symmetric] by (auto simp: k)
qed

section \<open>What a cycle stores\<close>

lemma set_field_simps [simp]: "set_field upd None d = d" "set_field upd (Some x) d = upd (\<lambda>_. x) d"
  by (simp_all add: set_field_def)

lemma credential_rows:
  "keys_of (fold (\<lambda>(k, v). ext_set k (GStr v)) cs d) = keys_of d"
  "dev_state (fold (\<lambda>(k, v). ext_set k (GStr v)) cs d) = dev_state d"
  "dev_cfg_version (fold (\<lambda>(k, v). ext_set k (GStr v)) cs d) = dev_cfg_version d"
  "dev_applied_cfg (fold (\<lambda>(k, v). ext_set k (GStr v)) cs d) = dev_applied_cfg d"
  by (induction cs arbitrary: d) auto

text \<open>A changed column is carried, an unchanged one is left: either way the record ends with the
  working copy's value.\<close>

lemma set_changed:
  "set_field dev_state_update (changed dev_state snap w) r
     = r\<lparr>dev_state := if dev_state w = dev_state snap then dev_state r else dev_state w\<rparr>"
  "set_field dev_x_authkey_update (changed dev_x_authkey snap w) r
     = r\<lparr>dev_x_authkey := if dev_x_authkey w = dev_x_authkey snap then dev_x_authkey r else dev_x_authkey w\<rparr>"
  "set_field dev_applied_cfg_update (changed dev_applied_cfg snap w) r
     = r\<lparr>dev_applied_cfg := if dev_applied_cfg w = dev_applied_cfg snap then dev_applied_cfg r else dev_applied_cfg w\<rparr>"
  "set_field dev_authkeys_update (changed dev_authkeys snap w) r
     = r\<lparr>dev_authkeys := if dev_authkeys w = dev_authkeys snap then dev_authkeys r else dev_authkeys w\<rparr>"
  "set_field dev_key_confirmed_update (changed dev_key_confirmed snap w) r
     = r\<lparr>dev_key_confirmed := if dev_key_confirmed w = dev_key_confirmed snap then dev_key_confirmed r else dev_key_confirmed w\<rparr>"
  by (simp_all add: changed_def)

lemma deltas_fields:
  "out_state (deltas s w o') = changed dev_state s w" "out_x_authkey (deltas s w o') = changed dev_x_authkey s w"
  "out_applied_cfg (deltas s w o') = changed dev_applied_cfg s w"
  "out_authkeys (deltas s w o') = changed dev_authkeys s w"
  "out_key_confirmed (deltas s w o') = changed dev_key_confirmed s w" "out_extra (deltas s w o') = ext w"
  "\<not> out_set_cfg_version o' \<Longrightarrow> out_set_cfg_version (deltas s w o') = (dev_cfg_version w \<noteq> dev_cfg_version s)"
  "dev_cfg_version w \<noteq> dev_cfg_version s \<Longrightarrow> out_cfg_version (deltas s w o') = dev_cfg_version w"
  by (simp_all add: deltas_def Let_def)

lemma apply_deltas_fields:
  assumes "Decide e req = Inr out" "decide_work e req = Inr (o', w, n)"
  defines "rec \<equiv> apply_deltas out (rq_device req)"
  shows "keys_of rec = keys_of (confirm_key (rq_used_key req) w)" "dev_state rec = dev_state w"
    "dev_cfg_version rec = dev_cfg_version w" "dev_applied_cfg rec = dev_applied_cfg w"
proof -
  define k where "k = confirm_key (rq_used_key req) w"
  have o: "out = deltas (rq_device req) k o'"
    using assms(1,2) by (simp add: Decide_def k_def)
  have c: "dev_state k = dev_state w" "dev_cfg_version k = dev_cfg_version w" "dev_applied_cfg k = dev_applied_cfg w"
    by (simp_all add: confirm_key_def k_def)
  define d where "d = rq_device req"
  define r1 where "r1 = d\<lparr>dev_state := if dev_state k = dev_state d then dev_state d else dev_state k,
      dev_x_authkey := if dev_x_authkey k = dev_x_authkey d then dev_x_authkey d else dev_x_authkey k\<rparr>"
  have cfg: "(if out_set_cfg_version out then x\<lparr>dev_cfg_version := out_cfg_version out\<rparr> else x)
      = x\<lparr>dev_cfg_version := if dev_cfg_version k = dev_cfg_version d then dev_cfg_version x else dev_cfg_version k\<rparr>" for x
    using decide_work_unset [OF assms(2)] by (simp add: o d_def deltas_fields)
  have rec: "rec = fold (\<lambda>(k, v). ext_set k (GStr v)) (out_credentials out)
      ((d\<lparr>dev_state := dev_state k, dev_x_authkey := dev_x_authkey k, dev_cfg_version := dev_cfg_version k,
         dev_applied_cfg := dev_applied_cfg k, dev_authkeys := dev_authkeys k,
         dev_key_confirmed := dev_key_confirmed k\<rparr>)\<lparr>dev_extra := Some (out_extra out)\<rparr>)"
    unfolding rec_def apply_deltas_def Let_def cfg
    by (simp add: o deltas_fields set_changed d_def [symmetric])
  show "keys_of rec = keys_of (confirm_key (rq_used_key req) w)" "dev_state rec = dev_state w"
    "dev_cfg_version rec = dev_cfg_version w" "dev_applied_cfg rec = dev_applied_cfg w"
    unfolding rec credential_rows by (simp_all add: keys_of_def c k_def [symmetric])
qed

lemma Absorb_keys: "keys_of (Absorb body now g d) = keys_of d" "dev_state (Absorb body now g d) = dev_state d"
  using Absorb_columns(1) [of body now g d] by (simp_all add: admin_columns_def keys_of_def)

lemma writeSessionRows_keys:
  "keys_of (writeSessionRows rows d) = keys_of d" "dev_state (writeSessionRows rows d) = dev_state d"
  by (simp_all add: writeSessionRows_def Let_def)

lemma refresh_keys_of:
  "keys_of (fst (refreshClientSessions d body now)) = keys_of d"
  "dev_state (fst (refreshClientSessions d body now)) = dev_state d"
  by (simp_all add: refreshClientSessions_def RefreshSessionStations_def Let_def writeSessionRows_keys
      split: prod.split)

lemma inform_mutation_Inr:
  assumes "inform_mutation e now prev la jm rec = Inr (rec', out, ts)"
  obtains rec2 req where "keys_of rec2 = keys_of rec" "dev_state rec2 = dev_state rec"
    "(rec2, ts) = refreshClientSessions (Absorb jm now (ln_gcm la) rec) (ext (Absorb jm now (ln_gcm la) rec)) now"
    "req = \<lparr>rq_transport = ln_transport la, rq_device = rec2, rq_body = ext rec2,
            rq_used_key = ln_used_key la, rq_now = now, rq_prev_target = prev\<rparr>"
    "Decide e req = Inr out" "rec' = apply_deltas out rec2"
proof -
  let ?a = "Absorb jm now (ln_gcm la) rec"
  obtain rec2 ts2 where r: "refreshClientSessions ?a (ext ?a) now = (rec2, ts2)" by fastforce
  have k: "keys_of rec2 = keys_of rec" "dev_state rec2 = dev_state rec"
    using refresh_keys_of [of ?a "ext ?a" now] r Absorb_keys by simp_all
  show thesis
    using assms r by (intro that [OF k]) (auto simp: inform_mutation_def and_then_Inr)
qed

lemma inform_mutation_keys_inv:
  assumes "keys_inv rec" "key_source e" "inform_mutation e now prev la jm rec = Inr (rec', out, ts)"
  shows "keys_inv rec'"
  using assms(3)
proof (cases rule: inform_mutation_Inr)
  case (1 rec2 req)
  obtain o' w n where w: "decide_work e req = Inr (o', w, n)"
    using 1(5) by (auto simp: Decide_def and_then_Inr)
  have "rq_device req = rec2" by (simp only: 1(4) request.simps)
  then have "keys_inv (rq_device req)" using assms(1) keys_inv_cong [OF 1(1)] by (simp only:)
  from confirm_keys_inv [OF decide_work_keys_inv [OF this assms(2) w]]
  have "keys_inv (confirm_key (rq_used_key req) w)" .
  then show ?thesis
    unfolding 1(6) \<open>rq_device req = rec2\<close> [symmetric]
    using keys_inv_cong [OF apply_deltas_fields(1) [OF 1(5) w]] by (simp only:)
qed

section \<open>The cycle as a store operation\<close>

definition server_inv :: "server \<Rightarrow> bool" where
  "server_inv s \<longleftrightarrow> db_inv (js_db (sv_store s))
     \<and> (\<forall>m d. devices_of (js_db (sv_store s)) m = Some d \<longrightarrow> keys_inv d)"

lemma fn_of_Inr: "fn_of f d = Inr d' \<longleftrightarrow> (\<exists>x. f d = Inr (d', x))"
  by (auto simp: fn_of_def split: sum.splits decide_error.splits)

lemma update_existing_result:
  assumes "db_UpdateExisting mac fn m = Inr m'"
  obtains d d' where "devices_of m (canonicalMAC mac) = Some d" "fn d = Inr d'"
    "devices_of m' = (devices_of m)(canonicalMAC (dev_mac d') \<mapsto> d'\<lparr>dev_mac := canonicalMAC (dev_mac d')\<rparr>)"
proof -
  obtain d d' where "devices_of m (canonicalMAC mac) = Some d" "fn d = Inr d'" "db_Put d' m = Inr m'"
    using assms unfolding db_UpdateExisting_def db_update_cases by (auto split: option.splits)
  then show thesis using that db_Put_devices by blast
qed

lemma js_after_cases:
  "js_after now io r st = (st', err) \<Longrightarrow>
   (\<exists>e. r = Inl e \<and> st' = st \<and> err = Some e)
   \<or> (\<exists>m. r = Inr m \<and> js_db st' = m \<and> (io \<and> err = None \<and> js_file st' = Some (snapshot now m) \<or> \<not> io \<and> err = Some ErrSave))"
  by (auto simp: js_after_def js_save_def split: sum.splits if_splits)

definition cycle_prev :: "string \<Rightarrow> server \<Rightarrow> int" where
  "cycle_prev mac s = opt_or 0 (jget (sv_noop s) mac)"

lemma runInformCycle_store:
  assumes "runInformCycle e tk mac jm la s = (s', r)"
  shows "\<exists>err. js_UpdateExisting (tk_now tk) (tk_io tk) mac
      (fn_of (inform_mutation e (tk_now tk) (cycle_prev mac s) la jm)) (sv_store s) = (sv_store s', err)"
  using assms by (auto simp: runInformCycle_def Let_def cycle_prev_def
      split: prod.splits option.splits store_error.splits if_splits)

lemma runInformCycle_update:
  assumes "runInformCycle e tk mac jm la s = (s', r)"
  obtains (same) "sv_store s' = sv_store s"
  | (stored) rec rec' out ts where
      "devices_of (js_db (sv_store s)) (canonicalMAC mac) = Some rec"
      "inform_mutation e (tk_now tk) (cycle_prev mac s) la jm rec = Inr (rec', out, ts)"
      "db_UpdateExisting mac (fn_of (inform_mutation e (tk_now tk) (cycle_prev mac s) la jm))
         (js_db (sv_store s)) = Inr (js_db (sv_store s'))"
      "devices_of (js_db (sv_store s')) = (devices_of (js_db (sv_store s)))
         (canonicalMAC (dev_mac rec') \<mapsto> rec'\<lparr>dev_mac := canonicalMAC (dev_mac rec')\<rparr>)"
proof -
  let ?f = "inform_mutation e (tk_now tk) (cycle_prev mac s) la jm"
  obtain err where u: "js_after (tk_now tk) (tk_io tk) (db_UpdateExisting mac (fn_of ?f) (js_db (sv_store s)))
      (sv_store s) = (sv_store s', err)"
    using runInformCycle_store [OF assms] by (auto simp: js_UpdateExisting_def)
  show thesis
  proof (cases "db_UpdateExisting mac (fn_of ?f) (js_db (sv_store s))")
    case (Inl x)
    with u same show ?thesis by (simp add: js_after_def)
  next
    case (Inr m)
    have m: "js_db (sv_store s') = m" using js_after_cases [OF u] Inr by auto
    from Inr obtain rec rec' where r: "devices_of (js_db (sv_store s)) (canonicalMAC mac) = Some rec"
      "fn_of ?f rec = Inr rec'" "devices_of m = (devices_of (js_db (sv_store s)))
         (canonicalMAC (dev_mac rec') \<mapsto> rec'\<lparr>dev_mac := canonicalMAC (dev_mac rec')\<rparr>)"
      by (rule update_existing_result)
    then obtain out ts where "?f rec = Inr (rec', out, ts)" by (auto simp: fn_of_Inr)
    with stored r Inr m show ?thesis by simp
  qed
qed

lemma keys_inv_mac [simp]: "keys_inv (d\<lparr>dev_mac := m\<rparr>) = keys_inv d"
  by (simp add: keys_inv_def)

lemma runInformCycle_inv:
  assumes "server_inv s" "key_source e" "runInformCycle e tk mac jm la s = (s', r)"
  shows "server_inv s'"
  using assms(3)
proof (cases rule: runInformCycle_update)
  case same
  with assms(1) show ?thesis by (simp add: server_inv_def)
next
  case (stored rec rec' out ts)
  have "db_inv (js_db (sv_store s'))"
    using assms(1) db_update_inv stored(3) by (auto simp: server_inv_def db_UpdateExisting_def)
  moreover have "keys_inv rec'"
    using inform_mutation_keys_inv [OF _ assms(2) stored(2)] assms(1) stored(1) by (auto simp: server_inv_def)
  ultimately show ?thesis
    using assms(1) stored(4) by (auto simp: server_inv_def split: if_splits)
qed

lemma mark_unknown_inv:
  assumes "server_inv s"
  shows "server_inv (mark_unknown tk mac s)"
proof -
  let ?m = "js_db (sv_store s)"
  have inv: "db_inv ?m" using assms by (simp add: server_inv_def)
  have dev: "db_devices (js_db (fst (js_MarkPending n io mac nt st))) = db_devices (js_db st)" for n io nt st
    by (auto simp: js_MarkPending_def js_save_def db_markPending_def Let_def evictExpiredLocked_def
        split: sum.splits store_error.splits if_splits option.splits prod.splits)
  have "js_db (fst (js_MarkPending n io mac nt (sv_store s))) \<in>
      {?m, evictExpiredLocked n ?m} \<union> {m. db_MarkPending n mac nt ?m = Inr m}" for n io nt
    by (auto simp: js_MarkPending_def js_save_def db_MarkPending_def
        split: sum.splits store_error.splits if_splits prod.splits)
  then have "js_db (sv_store (mark_unknown tk mac s)) \<in> {?m, evictExpiredLocked (tk_now tk) ?m}
      \<union> {m. db_MarkPending (tk_now tk) mac informFactoryNote ?m = Inr m}"
    unfolding mark_unknown_def by simp
  then have "db_inv (js_db (sv_store (mark_unknown tk mac s)))"
    using inv evict_inv [OF inv] by (auto intro: db_MarkPending_inv [OF inv])
  then show ?thesis
    using assms dev by (simp add: server_inv_def mark_unknown_def devices_of_def)
qed

lemma handlePacket_inv:
  assumes "server_inv s" "key_source e"
  shows "server_inv (fst (handlePacket e C tk rnd fresh pkt s))"
  using assms mark_unknown_inv [OF assms(1)] runInformCycle_inv [OF assms]
  by (auto simp: handlePacket_def Let_def split: sum.splits store_error.splits prod.splits)

lemma handlePlain_inv:
  assumes "server_inv s" "key_source e"
  shows "server_inv (fst (handlePlain e tk mac jm s))"
  using assms mark_unknown_inv [OF assms(1)] runInformCycle_inv [OF assms]
  by (auto simp: handlePlain_def Let_def split: sum.splits store_error.splits prod.splits)

lemma handleInform_inv:
  assumes "server_inv s" "key_source e"
  shows "server_inv (fst (handleInform allowPlain e C tk rnd fresh raw s))"
  using assms handlePacket_inv [OF assms] handlePlain_inv [OF assms]
  by (auto simp: handleInform_def handlePacketPlain_def Let_def
      split: sum.splits option.splits gval.splits)

section \<open>What an inform can touch\<close>

lemma apply_deltas_mac: "dev_mac (apply_deltas out rec) = dev_mac rec"
proof -
  have f: "dev_mac (fold (\<lambda>(k, v). ext_set k (GStr v)) cs d) = dev_mac d" for cs d
    by (induction cs arbitrary: d) (auto simp: ext_set_def)
  show ?thesis
    unfolding apply_deltas_def Let_def f by (simp add: set_field_def split: option.split)
qed

lemma inform_mutation_mac:
  assumes "inform_mutation e now prev la jm rec = Inr (rec', out, ts)"
  shows "dev_mac rec' = dev_mac rec"
  using assms
proof (cases rule: inform_mutation_Inr)
  case (1 rec2 req)
  have w: "dev_mac (writeSessionRows r d) = dev_mac d" for r d
    by (simp add: writeSessionRows_def Let_def ext_set_def ext_del_def)
  have "dev_mac rec2 = dev_mac (Absorb jm now (ln_gcm la) rec)"
    using 1(3) by (auto simp: refreshClientSessions_def RefreshSessionStations_def Let_def w ext_set_def
        split: prod.splits if_splits)
  moreover have "dev_mac (Absorb jm now (ln_gcm la) rec) = dev_mac rec"
    using Absorb_columns(1) [of jm now "ln_gcm la" rec] by (simp add: admin_columns_def)
  ultimately show ?thesis by (simp add: 1(6) apply_deltas_mac)
qed

text \<open>A step touches one MAC, and never adds or removes a record.\<close>

definition touches :: "string \<Rightarrow> server \<Rightarrow> server \<Rightarrow> bool" where
  "touches c s s' \<longleftrightarrow> dom (devices_of (js_db (sv_store s'))) = dom (devices_of (js_db (sv_store s)))
     \<and> (\<forall>m. m \<noteq> c \<longrightarrow> devices_of (js_db (sv_store s')) m = devices_of (js_db (sv_store s)) m)"

lemma touches_refl [simp]: "touches c s s"
  by (simp add: touches_def)

lemma cycle_touches:
  assumes "server_inv s" "runInformCycle e tk mac jm la s = (s', r)"
  shows "touches (canonicalMAC mac) s s'"
  using assms(2)
proof (cases rule: runInformCycle_update)
  case (stored rec rec' out ts)
  have "dev_mac rec = canonicalMAC mac"
    using assms(1) stored(1) by (force simp: server_inv_def db_inv_def devices_of_def jget_set)
  then have "canonicalMAC (dev_mac rec') = canonicalMAC mac"
    using inform_mutation_mac [OF stored(2)] by simp
  with stored(1,4) show ?thesis by (auto simp: touches_def)
qed (simp add: touches_def)

lemma mark_devices_same: "devices_of (js_db (sv_store (mark_unknown tk mac s))) = devices_of (js_db (sv_store s))"
proof -
  have "db_devices (js_db (fst (js_MarkPending n io mac nt st))) = db_devices (js_db st)" for n io nt st
    by (auto simp: js_MarkPending_def js_save_def db_markPending_def Let_def evictExpiredLocked_def
        split: sum.splits store_error.splits if_splits option.splits prod.splits)
  then show ?thesis by (simp add: mark_unknown_def devices_of_def fun_eq_iff)
qed

lemma mark_touches [simp]: "touches c s (mark_unknown tk mac s)"
  by (simp add: touches_def mark_devices_same)

lemma handlePacket_touches:
  assumes "server_inv s"
  shows "touches (canonicalMAC (canonMACFromHeader (p_mac pkt))) s (fst (handlePacket e C tk rnd fresh pkt s))"
  using cycle_touches [OF assms]
  by (auto simp: handlePacket_def Let_def split: sum.splits store_error.splits prod.splits)

lemma handlePlain_touches:
  assumes "server_inv s"
  shows "touches (canonicalMAC mac) s (fst (handlePlain e tk mac jm s))"
  using cycle_touches [OF assms]
  by (auto simp: handlePlain_def Let_def split: sum.splits store_error.splits prod.splits)

lemma handlePacketPlain_arms:
  "(\<exists>r. handlePacketPlain e C tk pkt s = (s, r)) \<or> (\<exists>mac jm. handlePacketPlain e C tk pkt s = handlePlain e tk mac jm s)"
  unfolding handlePacketPlain_def Let_def by (cases "Decode C pkt [DefaultKeyHex]") auto

lemma handleInform_arms:
  obtains (none) r where "handleInform allowPlain e C tk rnd fresh raw s = (s, r)"
  | (packet) pkt where "handleInform allowPlain e C tk rnd fresh raw s = handlePacket e C tk rnd fresh pkt s"
  | (plain) mac jm where "handleInform allowPlain e C tk rnd fresh raw s = handlePlain e tk mac jm s"
proof -
  let ?h = "handleInform allowPlain e C tk rnd fresh raw s" and ?b = "take (MaxBodySize + 1) raw"
  have "(\<exists>r. ?h = (s, r)) \<or> (\<exists>pkt. ?h = handlePacket e C tk rnd fresh pkt s) \<or> (\<exists>mac jm. ?h = handlePlain e tk mac jm s)"
  proof (cases "MaxBodySize < length ?b")
    case True
    then show ?thesis by (simp add: handleInform_def Let_def)
  next
    case False
    show ?thesis
    proof (cases "ParsePacket ?b")
      case (Inr pkt)
      with False handlePacketPlain_arms [of e C tk pkt s] show ?thesis
        by (simp add: handleInform_def Let_def) blast
    next
      case (Inl err)
      have "(\<exists>r. (case CanonicalMAC (str_field jm ''mac'') of
            Inl _ \<Rightarrow> (s, StatusOnly 400) | Inr mac \<Rightarrow> handlePlain e tk mac jm s) = (s, r))
          \<or> (\<exists>mac jm'. (case CanonicalMAC (str_field jm ''mac'') of
            Inl _ \<Rightarrow> (s, StatusOnly 400) | Inr mac \<Rightarrow> handlePlain e tk mac jm s) = handlePlain e tk mac jm' s)" for jm
        by (cases "CanonicalMAC (str_field jm ''mac'')") auto
      with False Inl show ?thesis
        by (simp add: handleInform_def Let_def split: option.split gval.split) blast
    qed
  qed
  then show thesis using none packet plain by blast
qed

lemma handleInform_touches:
  assumes "server_inv s"
  shows "\<exists>c. touches c s (fst (handleInform allowPlain e C tk rnd fresh raw s))"
proof (cases rule: handleInform_arms [of allowPlain e C tk rnd fresh raw s])
  case none
  then show ?thesis by simp
next
  case packet
  then show ?thesis using handlePacket_touches [OF assms] by metis
next
  case plain
  then show ?thesis using handlePlain_touches [OF assms] by metis
qed

section \<open>Refusals\<close>

definition refuses :: "reply \<Rightarrow> bool" where
  "refuses r \<longleftrightarrow> (\<exists>code msg. r = ErrorJSON code msg)"

lemma refuses_simps [simp]: "refuses (ErrorJSON c m)" "\<not> refuses (StatusOnly n)" "\<not> refuses (PlainJSON j)"
  "\<not> refuses (Sealed b)" "refuses (errMACMismatch h j)"
  by (simp_all add: refuses_def errMACMismatch_def)

lemma cycle_reply_accepts: "(\<And>j. \<not> refuses (f j)) \<Longrightarrow> \<not> refuses (cycle_reply f r)"
  by (cases r) (simp_all add: cycle_reply_def)

lemma sealed_accepts [simp]: "\<not> refuses (sealed_reply e C tk rnd fresh pkt key resp)"
  by (simp add: sealed_reply_def split: sum.split)

lemma handlePacket_refusal:
  "refuses (snd (handlePacket e C tk rnd fresh pkt s)) \<Longrightarrow> fst (handlePacket e C tk rnd fresh pkt s) = s"
  using cycle_reply_accepts [of "sealed_reply e C tk rnd fresh pkt k" for k]
  by (auto simp: handlePacket_def Let_def split: sum.splits store_error.splits prod.splits if_splits)

lemma handlePlain_refusal:
  "refuses (snd (handlePlain e tk mac jm s)) \<Longrightarrow> fst (handlePlain e tk mac jm s) = s"
  using cycle_reply_accepts [of PlainJSON]
  by (auto simp: handlePlain_def Let_def split: sum.splits store_error.splits prod.splits if_splits)

section \<open>A committed cycle\<close>

lemma runInformCycle_committed:
  assumes inv: "server_inv s" and run: "runInformCycle e tk mac jm la s = (s', Committed resp ts)"
  obtains rec rec' out where "devices_of (js_db (sv_store s)) (canonicalMAC mac) = Some rec"
    "inform_mutation e (tk_now tk) (cycle_prev mac s) la jm rec = Inr (rec', out, ts)"
    "resp = response_of (tk_ms tk) out"
    "devices_of (js_db (sv_store s')) = (devices_of (js_db (sv_store s)))(canonicalMAC mac \<mapsto> rec')"
    "js_file (sv_store s') = Some (snapshot (tk_now tk) (js_db (sv_store s')))"
proof -
  let ?f = "inform_mutation e (tk_now tk) (cycle_prev mac s) la jm"
  obtain st err where u: "js_UpdateExisting (tk_now tk) (tk_io tk) mac (fn_of ?f) (sv_store s) = (st, err)" by fastforce
  obtain x out where r: "db_Get mac (js_db (sv_store s)) = Inr x" "\<exists>y. ?f x = Inr (y, out, ts)"
      "err = None" "sv_store s' = st" "resp = response_of (tk_ms tk) out"
    using run u by (auto simp: runInformCycle_def Let_def cycle_prev_def
        split: sum.splits option.splits store_error.splits if_splits prod.splits)
  have a: "js_after (tk_now tk) (tk_io tk) (db_UpdateExisting mac (fn_of ?f) (js_db (sv_store s))) (sv_store s) = (st, None)"
    using u r(3) by (simp add: js_UpdateExisting_def)
  note w = js_after_written [OF a]
  have dx: "devices_of (js_db (sv_store s)) (canonicalMAC mac) = Some x"
    using r(1) by (simp add: db_Get_devices split: option.splits)
  from w have m: "db_UpdateExisting mac (fn_of ?f) (js_db (sv_store s)) = Inr (js_db st)" by simp
  obtain d d' where d: "devices_of (js_db (sv_store s)) (canonicalMAC mac) = Some d" "fn_of ?f d = Inr d'"
      "devices_of (js_db st) = (devices_of (js_db (sv_store s)))
         (canonicalMAC (dev_mac d') \<mapsto> d'\<lparr>dev_mac := canonicalMAC (dev_mac d')\<rparr>)"
    using m by (rule update_existing_result)
  then have e: "?f x = Inr (d', out, ts)" using dx r(2) by (auto simp: fn_of_Inr)
  have "dev_mac x = canonicalMAC mac"
    using inv dx by (force simp: server_inv_def db_inv_def devices_of_def jget_set)
  then have "dev_mac d' = canonicalMAC mac" using inform_mutation_mac [OF e] by simp
  then have "d'\<lparr>dev_mac := canonicalMAC (dev_mac d')\<rparr> = d'\<lparr>dev_mac := dev_mac d'\<rparr>" "canonicalMAC (dev_mac d') = canonicalMAC mac"
    by simp_all
  then have "devices_of (js_db st) = (devices_of (js_db (sv_store s)))(canonicalMAC mac \<mapsto> d')"
    using d(3) by simp
  with that dx e r(4,5) w show thesis by simp
qed

lemma cycle_key_rejected:
  assumes "devices_of (js_db (sv_store s)) (canonicalMAC mac) = Some rec"
    and "canonicalMAC mac \<noteq> []" "ln_transport la = TransportEncrypted" "key_rejected (ln_used_key la) rec"
  shows "runInformCycle e tk mac jm la s = (s, Rejected 404)"
proof -
  let ?f = "inform_mutation e (tk_now tk) (cycle_prev mac s) la jm"
  obtain rec2 ts where r2: "refreshClientSessions (Absorb jm (tk_now tk) (ln_gcm la) rec)
      (ext (Absorb jm (tk_now tk) (ln_gcm la) rec)) (tk_now tk) = (rec2, ts)" by fastforce
  have k: "keys_of rec2 = keys_of rec" "dev_state rec2 = dev_state rec"
    using refresh_keys_of [of "Absorb jm (tk_now tk) (ln_gcm la) rec" "ext (Absorb jm (tk_now tk) (ln_gcm la) rec)" "tk_now tk"]
      r2 Absorb_keys [of jm "tk_now tk" "ln_gcm la" rec] by simp_all
  have "key_rejected (ln_used_key la) (cloneDevice rec2)"
    using assms(4) k by (simp add: key_rejected_def keys_of_def)
  then have "Decide e \<lparr>rq_transport = TransportEncrypted, rq_device = rec2, rq_body = ext rec2,
      rq_used_key = ln_used_key la, rq_now = tk_now tk, rq_prev_target = cycle_prev mac s\<rparr> = Inl ErrDefaultKeyRejected"
    unfolding Decide_rejects by simp
  then have f: "?f rec = Inl ErrDefaultKeyRejected"
    using r2 assms(3) by (simp add: inform_mutation_def)
  have g: "db_Get mac (js_db (sv_store s)) = Inr rec" using assms(1) by (simp add: db_Get_devices)
  have "js_UpdateExisting (tk_now tk) (tk_io tk) mac (fn_of ?f) (sv_store s) = (sv_store s, Some (ErrFn ''rejected''))"
    using assms(2) f g
    by (simp add: js_UpdateExisting_def db_UpdateExisting_def db_update_def db_Get_def js_after_def fn_of_def Let_def
        split: option.splits)
  with f g show ?thesis by (simp add: runInformCycle_def cycle_prev_def Let_def)
qed

section \<open>The MAC in the header\<close>

lemma hex_digit_facts:
  assumes "unat x < 16"
  shows "is_hex (hex_digit x)" "\<not> mac_separator (hex_digit x)" "lower_char (hex_digit x) = hex_digit x"
proof -
  have "list_all (\<lambda>n. is_hex (hex_digit (word_of_nat n)) \<and> lower_char (hex_digit (word_of_nat n)) = hex_digit (word_of_nat n))
      [0..<16]" by code_simp
  moreover have "unat x \<in> set [0..<16]" using assms by simp
  ultimately have x: "is_hex (hex_digit (word_of_nat (unat x)))
      \<and> lower_char (hex_digit (word_of_nat (unat x))) = hex_digit (word_of_nat (unat x))"
    unfolding list_all_iff by blast
  then show "is_hex (hex_digit x)" "lower_char (hex_digit x) = hex_digit x" by simp_all
  then show "\<not> mac_separator (hex_digit x)" by (simp add: is_hex_not_sep)
qed

lemma hex_byte_facts: "list_all is_hex (hex_byte b)" "filter (\<lambda>c. \<not> mac_separator c) (hex_byte b) = hex_byte b"
  "to_lower (hex_byte b) = hex_byte b"
  using nibbles(1,2) [of b] by (simp_all add: hex_byte_def hex_digit_facts to_lower_def)

lemma colon_separates: "mac_separator CHR '':''"
  by (simp add: mac_separator_def)

lemma MACString_canonical: "canonicalMAC (MACString bs) = concat (map hex_byte bs)"
proof -
  have "filter (\<lambda>c. \<not> mac_separator c) (MACString bs) = concat (map hex_byte bs)"
    unfolding MACString_def
    by (induction bs rule: induct_list012) (simp_all add: hex_byte_facts colon_separates)
  moreover have "to_lower (concat (map hex_byte bs)) = concat (map hex_byte bs)"
    by (induction bs) (use hex_byte_facts(3) in \<open>simp_all add: to_lower_def\<close>)
  ultimately show ?thesis by (simp add: canonicalMAC_def)
qed

lemma header_mac: "canonMACFromHeader raw = (case CanonicalMAC (MACString raw) of Inr c \<Rightarrow> c | Inl _ \<Rightarrow> [])"
proof -
  have "list_all is_hex (concat (map hex_byte bs))" for bs
    by (induction bs) (simp_all add: hex_byte_facts)
  moreover have "to_lower (concat (map hex_byte bs)) = concat (map hex_byte bs)" for bs
    by (induction bs) (use hex_byte_facts(3) in \<open>simp_all add: to_lower_def\<close>)
  ultimately show ?thesis
    by (auto simp: canonMACFromHeader_def CanonicalMAC_def Let_def MACString_canonical length_concat_hex)
qed

end
