(* ===== verification/Cfg_Emit.thy ===== *)
theory Cfg_Emit
  imports Mgmt_Cfg Go_Text
begin

text \<open>
  How \<^verbatim>\<open>internal/server/systemcfg\<close> writes a configuration: the emissions (section heads, guarded
  rows, raw lines, alerts), what a sequence of them leaves in the text builder and in the alert list,
  and the parts of the renderer the sections share: the management interface, the ethernet inventory,
  the ledbar block (\<^verbatim>\<open>ledbar.go\<close>) and the netconf section (\<^verbatim>\<open>wireless.go\<close>).
\<close>

unbundle bit_operations_syntax

section \<open>Emissions\<close>

record alert =
  at_msg :: string
  at_where :: string
  at_key :: string

definition plain_alert :: "string \<Rightarrow> alert" where
  "plain_alert msg = \<lparr>at_msg = msg, at_where = [], at_key = []\<rparr>"

definition skipped_row :: "string \<Rightarrow> string \<Rightarrow> alert" where
  "skipped_row w k = \<lparr>at_msg = ''config blob: row skipped, newline in value'', at_where = w, at_key = k\<rparr>"

text \<open>
  One write of the renderer: a literal line, a row through the guarded writer of a block, an
  administrator's raw line, or an alert.
\<close>

datatype emission =
    Head string
  | Row string string string
  | Raw string
  | Alerted alert

type_synonym builder = "string \<times> alert list"

definition nl :: char where "nl = CHR 0x0A"

fun emit :: "emission \<Rightarrow> builder \<Rightarrow> builder" where
  "emit (Head h) (b, al) = (b @ h @ [nl], al)"
| "emit (Row w k v) (b, al) = (let (b', skipped) = LineWriter k v (b, []) in (b', al @ map (skipped_row w) skipped))"
| "emit (Raw l) (b, al) =
    (if l = [] then (b, al)
     else if has_prefix [nl] (rev l) then (b @ l, al)
     else (b @ l @ [nl], al))"
| "emit (Alerted a) (b, al) = (b, al @ [a])"

definition run_emissions :: "emission list \<Rightarrow> builder" where
  "run_emissions es = fold emit es ([], [])"

definition rows :: "string \<Rightarrow> string \<Rightarrow> (string \<times> string) list \<Rightarrow> emission list" where
  "rows w p kvs = map (\<lambda>(k, v). Row w (p @ k) v) kvs"

text \<open>Blocks numbered from one: the row prefix of block \<open>i\<close> is \<open>p\<close>, the number and a dot.\<close>

definition indexed :: "string \<Rightarrow> nat \<Rightarrow> string" where
  "indexed p n = p @ dec_nat n @ ''.''"

definition blocks :: "string \<Rightarrow> string \<Rightarrow> (string \<times> string) list list \<Rightarrow> emission list" where
  "blocks w p kvss = concat (map (\<lambda>(i, kvs). rows w (indexed p i) kvs) (enumerate 1 kvss))"

definition boolStr :: "bool \<Rightarrow> string" where
  "boolStr v = (if v then ''enabled'' else ''disabled'')"

section \<open>Management interface and ethernet inventory\<close>

definition defaultEthIface :: string where "defaultEthIface = ''eth0''"

definition mgmtDevOf :: "device \<Rightarrow> string" where
  "mgmtDevOf d = (let v = opt_or [] (get_str (ext d) MgmtDevKey) in if v \<noteq> [] then v else ''br0'')"

definition isEthIfaceName :: "string \<Rightarrow> bool" where
  "isEthIfaceName name \<longleftrightarrow>
     (if \<not> has_prefix ''eth'' name \<or> length name = length ''eth'' then False
      else list_all is_digit (drop (length ''eth'') name))"

text \<open>The entries of \<^verbatim>\<open>ethernet_table\<close>: the port total, and whether any entry was an object.\<close>

definition maxPerEntry :: int where "maxPerEntry = 8"
definition maxTotal :: int where "maxTotal = 64"

definition entry_ports :: "jmap \<Rightarrow> int" where
  "entry_ports m = (let n = JSONInt m ''num_port''
     in if 0 < n then (if maxPerEntry < n then maxPerEntry else n) else 1)"

fun count_ports :: "gval list \<Rightarrow> int \<times> bool \<Rightarrow> int \<times> bool" where
  "count_ports [] acc = acc"
| "count_ports (item # items) (cnt, saw) = (case item of
     GObj m \<Rightarrow> count_ports items (cnt + entry_ports m, True)
   | _ \<Rightarrow> count_ports items (cnt, saw))"

definition ethPortNamesFromEthernetTable :: "device \<Rightarrow> string list option" where
  "ethPortNamesFromEthernetTable d = (case get_arr (ext d) ''ethernet_table'' of
     None \<Rightarrow> None
   | Some rawList \<Rightarrow>
       (let (cnt, sawEntries) = count_ports rawList (0, False)
        in if \<not> sawEntries \<or> cnt \<le> 0 then None
           else Some (map (\<lambda>i. ''eth'' @ dec_nat i)
             [0..<nat (if maxTotal < cnt then maxTotal else cnt)])))"

fun eth_names :: "gval list \<Rightarrow> string list" where
  "eth_names [] = []"
| "eth_names (item # items) = (case item of
     GObj m \<Rightarrow>
       (let name = opt_or [] (get_str m ''name'')
        in if \<not> isEthIfaceName name then eth_names items else name # eth_names items)
   | _ \<Rightarrow> eth_names items)"

definition ethPortNamesFromIfTable :: "device \<Rightarrow> string list option" where
  "ethPortNamesFromIfTable d = (case get_arr (ext d) ''if_table'' of
     None \<Rightarrow> None
   | Some rawList \<Rightarrow>
       (let seen = remdups (eth_names rawList) in if length seen = 0 then None else Some (sort seen)))"

definition ethPortNames :: "device \<Rightarrow> string list \<times> bool" where
  "ethPortNames d = (case ethPortNamesFromEthernetTable d of
     Some names \<Rightarrow> (names, True)
   | None \<Rightarrow> (case ethPortNamesFromIfTable d of
       Some names \<Rightarrow> (names, True)
     | None \<Rightarrow> (case get_str (ext d) ''uplink'' of
         Some up \<Rightarrow> if isEthIfaceName up then ([up], False) else ([defaultEthIface], False)
       | None \<Rightarrow> ([defaultEthIface], False))))"

section \<open>The ledbar block\<close>

definition defaultLedBrightnessPercent :: int where "defaultLedBrightnessPercent = 100"

definition ledbarModels :: "string set" where "ledbarModels = {''U7PG2''}"

text \<open>Go's \<^verbatim>\<open>int\<close> arithmetic where it could leave 64 bits, and its truncating division.\<close>

definition int64_wrap :: "int \<Rightarrow> int" where
  "int64_wrap i = (i + 2 ^ 63) mod 2 ^ 64 - 2 ^ 63"

definition quot_trunc :: "int \<Rightarrow> int \<Rightarrow> int" where
  "quot_trunc a b = (if 0 \<le> a then a div b else - ((- a) div b))"

definition char_digit :: "char \<Rightarrow> nat option" where
  "char_digit c = (let n = (of_char c :: nat) in
     if 48 \<le> n \<and> n \<le> 57 then Some (n - 48)
     else if 97 \<le> n \<and> n \<le> 122 then Some (n - 87)
     else if 65 \<le> n \<and> n \<le> 90 then Some (n - 55)
     else None)"

text \<open>\<^verbatim>\<open>strconv.ParseInt(s, radix, 64)\<close> on a text without a sign.\<close>

fun parse_digits :: "nat \<Rightarrow> nat \<Rightarrow> string \<Rightarrow> nat option" where
  "parse_digits radix acc [] = Some acc"
| "parse_digits radix acc (c # cs) = (case char_digit c of
     None \<Rightarrow> None
   | Some d \<Rightarrow> if radix \<le> d then None else parse_digits radix (acc * radix + d) cs)"

definition ParseInt :: "string \<Rightarrow> nat \<Rightarrow> nat option" where
  "ParseInt s radix = (if s = [] then None else case parse_digits radix 0 s of
     None \<Rightarrow> None | Some v \<Rightarrow> if 2 ^ 63 - 1 < v then None else Some v)"

definition javaIntegerDecode :: "string \<Rightarrow> int option" where
  "javaIntegerDecode nm =
    (if nm = [] then None
     else let neg = (hd nm = CHR ''-'');
              rest = (if hd nm = CHR ''-'' \<or> hd nm = CHR ''+'' then tl nm else nm);
              (radix, rest) =
                (if has_prefix ''0x'' rest \<or> has_prefix ''0X'' rest then (16, drop 2 rest)
                 else if has_prefix ''#'' rest then (16, drop 1 rest)
                 else if 1 < length rest \<and> hd rest = CHR ''0'' then (8, drop 1 rest)
                 else (10, rest))
       in if rest = [] \<or> hd rest = CHR ''-'' \<or> hd rest = CHR ''+'' then None
          else case ParseInt rest radix of
            None \<Rightarrow> None
          | Some v \<Rightarrow>
              if neg then (if 2 ^ 31 < v then None else Some (- int v))
              else if 2 ^ 31 - 1 < v then None else Some (int v))"

definition isBlank :: "string \<Rightarrow> bool" where
  "isBlank s \<longleftrightarrow> trim_space s = []"

definition decodeLedColor :: "string \<Rightarrow> int \<times> int \<times> int" where
  "decodeLedColor raw =
    (if isBlank raw then (0, 0, 255)
     else case javaIntegerDecode raw of
       None \<Rightarrow> (0, 0, 255)
     | Some rgb \<Rightarrow> (drop_bit 16 rgb AND 0xFF, drop_bit 8 rgb AND 0xFF, rgb AND 0xFF))"

definition ledbar_rows :: "device \<Rightarrow> (string \<times> string) list" where
  "ledbar_rows d =
    (if dev_model d \<notin> ledbarModels then []
     else let siteLEDEnabledDefault = True;
       override = (if dev_led_override d = [] then ''default'' else dev_led_override d);
       enabled = (\<not> dev_disabled d \<and> (override = ''on'' \<or> override = ''default'' \<and> siteLEDEnabledDefault));
       head = [(''ledbar.status'', boolStr enabled), (''ledbar.persistent'', ''true'')]
     in if \<not> enabled then head
        else let b = opt_or defaultLedBrightnessPercent (dev_led_brightness d);
                 (r, g, bl) = decodeLedColor (dev_led_color d)
          in head @
            [(''ledbar.brightness'', itoa (quot_trunc (int64_wrap (255 * b)) 100)),
             (''ledbar.active'', ''3''),
             (''ledbar.color.1.color'', ''3''),
             (''ledbar.color.1.r'', itoa r),
             (''ledbar.color.1.g'', itoa g),
             (''ledbar.color.1.b'', itoa bl)])"

definition emitLedBar :: "device \<Rightarrow> emission list" where
  "emitLedBar d = rows ''system_cfg'' [] (ledbar_rows d)"

section \<open>The netconf section\<close>

definition factoryMgmtIP :: string where "factoryMgmtIP = ''192.168.1.20''"
definition factoryMgmtNetmask :: string where "factoryMgmtNetmask = ''255.255.255.0''"

definition netconf_mgmt :: "device \<Rightarrow> (string \<times> string) list" where
  "netconf_mgmt d =
    [(''autoip.status'', ''disabled''), (''devname'', mgmtDevOf d), (''ip'', factoryMgmtIP),
     (''netmask'', factoryMgmtNetmask), (''status'', ''enabled''), (''up'', ''enabled'')]"

definition netconf_eth :: "string \<Rightarrow> (string \<times> string) list" where
  "netconf_eth p =
    [(''autoip.status'', ''disabled''), (''devname'', p), (''ip'', ''0.0.0.0''), (''promisc'', ''enabled''),
     (''status'', ''enabled''), (''up'', ''enabled'')]"

definition netconf_radio :: "nat \<Rightarrow> (string \<times> string) list" where
  "netconf_radio i =
    [(''autoip.status'', ''disabled''), (''devname'', devname i), (''ip'', ''0.0.0.0''), (''promisc'', ''enabled''),
     (''status'', ''enabled''), (''up'', ''disabled'')]"

definition netconf_vid :: "int \<Rightarrow> (string \<times> string) list" where
  "netconf_vid vid =
    [(''status'', ''enabled''), (''devname'', ''br0.'' @ itoa vid), (''ip'', ''0.0.0.0''),
     (''autoip.status'', ''disabled''), (''promisc'', ''enabled''), (''up'', ''enabled'')]"

definition netconf_instances :: "device \<Rightarrow> int list \<Rightarrow> (string \<times> string) list list" where
  "netconf_instances d vids = [netconf_mgmt d] @ map netconf_eth (fst (ethPortNames d))
     @ map netconf_radio [0..<length (StoredRadios d)] @ map netconf_vid vids"

definition emitNetconfSection :: "device \<Rightarrow> int list \<Rightarrow> emission list" where
  "emitNetconfSection d vids =
    Head ''# netconf'' # Row ''netconf'' ''netconf.status'' ''enabled''
     # blocks ''netconf'' ''netconf.'' (netconf_instances d vids)"

section \<open>Names\<close>

definition safe_char :: "char \<Rightarrow> bool" where
  "safe_char c \<longleftrightarrow> (let n = (of_char c :: nat) in
     97 \<le> n \<and> n \<le> 122 \<or> 65 \<le> n \<and> n \<le> 90 \<or> 48 \<le> n \<and> n \<le> 57 \<or> n = 46 \<or> n = 95 \<or> n = 45)"

definition safeDiagnosticName :: "string \<Rightarrow> bool" where
  "safeDiagnosticName name \<longleftrightarrow> name \<noteq> [] \<and> list_all safe_char name"

lemma digits_safe: "is_digit c \<Longrightarrow> safe_char c"
  by (simp add: is_digit_def safe_char_def)

lemma dec_nat_safe [simp]: "list_all safe_char (dec_nat n)"
  using dec_nat_digits [of n] by (auto simp: list_all_iff digits_safe)

lemma dot_safe [simp]: "safe_char (CHR ''.'')"
  by code_simp

lemma indexed_safe [simp]: "list_all safe_char (indexed p n) \<longleftrightarrow> list_all safe_char p"
  by (simp add: indexed_def)

lemma safe_name_append [simp]:
  "list_all safe_char p \<Longrightarrow> safeDiagnosticName k \<Longrightarrow> safeDiagnosticName (p @ k)"
  by (simp add: safeDiagnosticName_def)

lemma safe_name_no_newline: "safeDiagnosticName k \<Longrightarrow> nl \<notin> set k"
  by (auto simp: safeDiagnosticName_def list_all_iff safe_char_def nl_def)

lemma safe_name_no_eq: "safeDiagnosticName k \<Longrightarrow> CHR ''='' \<notin> set k"
  by (auto simp: safeDiagnosticName_def list_all_iff safe_char_def)

section \<open>The text and the lines of a run\<close>

fun emitted :: "emission \<Rightarrow> string" where
  "emitted (Head h) = h @ [nl]"
| "emitted (Row w k v) = (if has_newline v then [] else row_text (k, v))"
| "emitted (Raw l) = (if l = [] then [] else if has_prefix [nl] (rev l) then l else l @ [nl])"
| "emitted (Alerted a) = []"

fun alerts_of :: "emission \<Rightarrow> alert list" where
  "alerts_of (Row w k v) = (if has_newline v then [skipped_row w k] else [])"
| "alerts_of (Alerted a) = [a]"
| "alerts_of _ = []"

lemma emit_eq: "emit e (b, al) = (b @ emitted e, al @ alerts_of e)"
  by (cases e) (auto simp: LineWriter_def row_text_def)

lemma run_emissions_eq: "run_emissions es = (concat (map emitted es), concat (map alerts_of es))"
proof -
  have "fold emit es (b, al) = (b @ concat (map emitted es), al @ concat (map alerts_of es))" for b al
    by (induction es arbitrary: b al) (simp_all add: emit_eq)
  then show ?thesis by (simp add: run_emissions_def)
qed

text \<open>An emission is unbroken when what the program itself writes of it cannot break a line.\<close>

fun unbroken :: "emission \<Rightarrow> bool" where
  "unbroken (Head h) \<longleftrightarrow> nl \<notin> set h"
| "unbroken (Row w k v) \<longleftrightarrow> safeDiagnosticName k"
| "unbroken (Raw l) \<longleftrightarrow> True"
| "unbroken (Alerted a) \<longleftrightarrow> True"

fun lines_of :: "emission \<Rightarrow> string list" where
  "lines_of (Head h) = [h]"
| "lines_of (Row w k v) = (if has_newline v then [] else [k @ ''='' @ v])"
| "lines_of (Raw l) = (if l = [] then [] else if has_prefix [nl] (rev l) then butlast (split_on nl l)
     else split_on nl l)"
| "lines_of (Alerted a) = []"

definition line_text :: "string list \<Rightarrow> string" where
  "line_text ls = concat (map (\<lambda>l. l @ [nl]) ls)"

lemma line_text_simps [simp]: "line_text [] = []" "line_text (ls @ ms) = line_text ls @ line_text ms"
  "line_text (l # ls) = l @ nl # line_text ls"
  by (simp_all add: line_text_def)

lemma split_lines: "list_all (\<lambda>l. nl \<notin> set l) ls \<Longrightarrow> split_on nl (line_text ls) = ls @ [[]]"
  by (induction ls) (simp_all add: split_on_sep)

lemma line_text_split: "line_text (split_on nl l) = l @ [nl]"
  by (induction l) (auto split: list.splits)

lemma split_last_nl: "split_on c (l @ [c]) = split_on c l @ [[]]"
  by (induction l) (auto split: list.splits)

lemma split_parts: "w \<in> set (split_on c s) \<Longrightarrow> c \<notin> set w"
  by (induction s arbitrary: w) (auto split: list.splits if_splits)

lemma raw_ends: "has_prefix [nl] (rev l) \<longleftrightarrow> (\<exists>m. l = m @ [nl])"
  by (cases l rule: rev_cases) auto

lemma emitted_lines: "unbroken e \<Longrightarrow> emitted e = line_text (lines_of e)"
proof (cases e)
  case (Raw l)
  then show ?thesis
    by (auto simp: raw_ends split_last_nl line_text_split butlast_append)
qed (auto simp: row_text_def nl_def)

lemma lines_of_clean: "unbroken e \<Longrightarrow> list_all (\<lambda>l. nl \<notin> set l) (lines_of e)"
proof (cases e)
  case (Row w k v)
  assume "unbroken e"
  with Row show ?thesis
    using safe_name_no_newline [of k] by (auto simp: has_newline_def nl_def)
next
  case (Raw l)
  then show ?thesis by (auto simp: list_all_iff dest: in_set_butlastD split_parts)
qed auto

lemma run_lines:
  assumes "list_all unbroken es"
  shows "split_on nl (fst (run_emissions es)) = concat (map lines_of es) @ [[]]"
proof -
  have "concat (map emitted es) = line_text (concat (map lines_of es))"
    using assms by (induction es) (auto simp: emitted_lines)
  moreover have "list_all (\<lambda>l. nl \<notin> set l) (concat (map lines_of es))"
    using assms by (induction es) (auto simp: lines_of_clean)
  ultimately show ?thesis by (simp add: run_emissions_eq split_lines)
qed

lemma tidy_rows:
  "list_all safe_char p \<Longrightarrow> list_all (\<lambda>kv. safeDiagnosticName (fst kv)) kvs \<Longrightarrow> list_all unbroken (rows w p kvs)"
  by (auto simp: rows_def list_all_iff)

lemma tidy_blocks:
  "list_all safe_char p \<Longrightarrow> list_all (list_all (\<lambda>kv. safeDiagnosticName (fst kv))) kvss \<Longrightarrow>
   list_all unbroken (blocks w p kvss)"
proof -
  assume a: "list_all safe_char p" "list_all (list_all (\<lambda>kv. safeDiagnosticName (fst kv))) kvss"
  have "list_all unbroken (rows w (indexed p i) kvs)" if "(i, kvs) \<in> set (enumerate 1 kvss)" for i kvs
  proof (rule tidy_rows)
    show "list_all safe_char (indexed p i)" using a(1) by simp
    have "kvs \<in> set kvss" using that unfolding enumerate_eq_zip by (rule set_zip_rightD)
    then show "list_all (\<lambda>kv. safeDiagnosticName (fst kv)) kvs" using a(2) by (simp add: list_all_iff)
  qed
  then show ?thesis by (auto simp: blocks_def list_all_iff)
qed

lemma tidy_Cons: "unbroken e \<Longrightarrow> list_all unbroken es \<Longrightarrow> list_all unbroken (e # es)"
  by simp

section \<open>The ethernet inventory\<close>

lemma count_ports_bounds: "count_ports items (t, s) = (t', s') \<Longrightarrow> 0 \<le> t \<Longrightarrow> (\<not> s \<longrightarrow> t = 0) \<Longrightarrow>
    (s' \<longrightarrow> s \<or> 0 < t') \<and> t \<le> t'"
proof (induction items arbitrary: t s)
  case (Cons item items)
  show ?case
  proof (cases "\<exists>m. item = GObj m")
    case True
    then obtain m where m: "item = GObj m" by blast
    have "0 < entry_ports m" by (simp add: entry_ports_def Let_def maxPerEntry_def)
    moreover have "count_ports items (t + entry_ports m, True) = (t', s')"
      using Cons.prems(1) by (simp add: m)
    moreover from calculation have "t + entry_ports m \<le> t'"
      using Cons.IH [of "t + entry_ports m" True] Cons.prems(2) by simp
    ultimately show ?thesis using Cons.prems by simp
  next
    case False
    then have "count_ports items (t, s) = (t', s')"
      using Cons.prems(1) by (cases item) auto
    then show ?thesis using Cons by blast
  qed
qed simp

lemma eth_name_number: "isEthIfaceName (''eth'' @ dec_nat i)"
  using dec_nat_digits [of i] by (simp add: isEthIfaceName_def)

lemma default_eth_name: "isEthIfaceName defaultEthIface"
  by code_simp

lemma eth_names_ok: "list_all isEthIfaceName (eth_names items)"
  by (induction items) (auto simp: Let_def split: gval.splits)

lemma length_eth_names: "length (eth_names items) \<le> length items"
  by (induction items) (auto simp: Let_def le_SucI split: gval.splits)

lemma ethernet_table_names:
  assumes "ethPortNamesFromEthernetTable d = Some names"
  shows "names \<noteq> []" "distinct names" "list_all isEthIfaceName names" "length names \<le> 64"
proof -
  from assms obtain raw cnt saw where "count_ports raw (0, False) = (cnt, saw)" and c: "0 < cnt"
    and n: "names = map (\<lambda>i. ''eth'' @ dec_nat i) [0..<nat (if maxTotal < cnt then maxTotal else cnt)]"
    by (auto simp: ethPortNamesFromEthernetTable_def split: option.splits prod.splits if_splits)
  show "names \<noteq> []" "length names \<le> 64" using c by (auto simp: n maxTotal_def)
  show "distinct names" by (simp add: n distinct_map inj_on_def)
  show "list_all isEthIfaceName names" using eth_name_number by (simp add: n list_all_iff)
qed

lemma if_table_names:
  assumes "ethPortNamesFromIfTable d = Some names"
  shows "names \<noteq> []" "distinct names" "list_all isEthIfaceName names"
    "\<exists>raw. get_arr (ext d) ''if_table'' = Some raw \<and> length names \<le> length raw"
proof -
  from assms obtain raw where r: "get_arr (ext d) ''if_table'' = Some raw"
    and n: "names = sort (remdups (eth_names raw))" "remdups (eth_names raw) \<noteq> []"
    by (auto simp: ethPortNamesFromIfTable_def Let_def split: option.splits if_splits)
  show "names \<noteq> []" "distinct names" using n by (auto dest: arg_cong [of _ _ length])
  show "list_all isEthIfaceName names" using eth_names_ok [of raw] by (simp add: n list_all_iff)
  have "length names \<le> length raw"
    using length_remdups_leq [of "eth_names raw"] length_eth_names [of raw] unfolding n length_sort by (rule le_trans)
  with r show "\<exists>raw. get_arr (ext d) ''if_table'' = Some raw \<and> length names \<le> length raw" by blast
qed

text \<open>The two inventories, then the learned uplink: one case rule for the proofs about them.\<close>

lemma ethPortNames_cases [consumes 0, case_names ethernet if_table inferred]:
  obtains names where "ethPortNames d = (names, True)" "ethPortNamesFromEthernetTable d = Some names"
  | names where "ethPortNames d = (names, True)" "ethPortNamesFromEthernetTable d = None"
      "ethPortNamesFromIfTable d = Some names"
  | up where "ethPortNames d = ([up], False)" "isEthIfaceName up"
proof (cases "ethPortNamesFromEthernetTable d")
  case None
  show thesis
  proof (cases "ethPortNamesFromIfTable d")
    case n: None
    show thesis
    proof (cases "\<exists>up. get_str (ext d) ''uplink'' = Some up \<and> isEthIfaceName up")
      case True
      with that(3) None n show thesis by (auto simp: ethPortNames_def)
    next
      case False
      then have "ethPortNames d = ([defaultEthIface], False)"
        using None n by (auto simp: ethPortNames_def split: option.splits)
      with that(3) default_eth_name show thesis by blast
    qed
  qed (use that(2) None in \<open>simp add: ethPortNames_def\<close>)
qed (use that(1) in \<open>simp add: ethPortNames_def\<close>)

lemma ethPortNames_ok:
  "fst (ethPortNames d) \<noteq> []" "distinct (fst (ethPortNames d))" "list_all isEthIfaceName (fst (ethPortNames d))"
  by (cases rule: ethPortNames_cases [of d]; simp add: ethernet_table_names if_table_names)+

section \<open>The ledbar block\<close>

lemma byte_range: "0 \<le> i AND 0xFF \<and> i AND 0xFF \<le> (255 :: int)"
proof -
  have "mask 8 = (0xFF :: int)" by (simp add: mask_eq_exp_minus_1)
  then have "i AND 0xFF = take_bit 8 i" by (simp add: take_bit_eq_mask)
  then show ?thesis using take_bit_int_less_exp [of 8 i] by simp
qed

lemma color_range: "decodeLedColor raw = (r, g, b) \<Longrightarrow> {r, g, b} \<subseteq> {0..255}"
  using byte_range by (auto simp: decodeLedColor_def split: if_splits option.splits)

lemma brightness_range: "0 \<le> b \<Longrightarrow> b \<le> 100 \<Longrightarrow>
    quot_trunc (int64_wrap (255 * b)) 100 = 255 * b div 100 \<and> 255 * b div 100 \<le> 255"
  by (simp add: quot_trunc_def int64_wrap_def)

lemma ledbar_keys: "list_all (\<lambda>kv. safeDiagnosticName (fst kv)) (ledbar_rows d)"
proof -
  have "list_all safeDiagnosticName
    [''ledbar.status'', ''ledbar.persistent'', ''ledbar.brightness'', ''ledbar.active'', ''ledbar.color.1.color'',
     ''ledbar.color.1.r'', ''ledbar.color.1.g'', ''ledbar.color.1.b'']" by code_simp
  then show ?thesis by (simp add: ledbar_rows_def Let_def case_prod_beta)
qed

lemma tidy_ledbar: "list_all unbroken (emitLedBar d)"
  by (simp add: emitLedBar_def tidy_rows ledbar_keys)

section \<open>The netconf section\<close>

lemma netconf_keys: "list_all (list_all (\<lambda>kv. safeDiagnosticName (fst kv))) (netconf_instances d vids)"
proof -
  have "list_all safeDiagnosticName [''autoip.status'', ''devname'', ''ip'', ''netmask'', ''status'', ''up'', ''promisc'']"
    by code_simp
  then show ?thesis
    by (auto simp: netconf_instances_def list_all_iff netconf_mgmt_def netconf_eth_def netconf_radio_def netconf_vid_def)
qed

lemma tidy_netconf: "list_all unbroken (emitNetconfSection d vids)"
proof -
  have "nl \<notin> set ''# netconf''" "safeDiagnosticName ''netconf.status''" "list_all safe_char ''netconf.''"
    by code_simp+
  then show ?thesis by (simp add: emitNetconfSection_def tidy_blocks netconf_keys)
qed

end
