(* ===== verification/Cfg_Wireless.thy ===== *)
theory Cfg_Wireless
  imports Cfg_Emit
begin

text \<open>
  The wireless and VLAN compound of \<^verbatim>\<open>internal/server/systemcfg/wireless.go\<close>: the radio rows, the two
  row blocks of every vap (\<^verbatim>\<open>aaa.<n>\<close>, \<^verbatim>\<open>wireless.<n>\<close>) and the \<^verbatim>\<open># vlan\<close>, \<^verbatim>\<open># bridge\<close> and
  \<^verbatim>\<open># dhcpc\<close> sections. A block is the list of its rows, in the order they are written; the once-per-render
  flag \<^verbatim>\<open>dasDadStatusDone\<close> is threaded through the vaps.
\<close>

unbundle bit_operations_syntax

section \<open>RADIUS rows\<close>

definition maxRadiusAuthSlots :: nat where "maxRadiusAuthSlots = 4"

definition port_text :: "string \<Rightarrow> int \<Rightarrow> string" where
  "port_text dflt port = (if port = 0 then dflt else itoa port)"

fun radius_auth_rows :: "nat \<Rightarrow> string \<Rightarrow> radius_server list \<Rightarrow> (string \<times> string) list" where
  "radius_auth_rows idx secret [] = []"
| "radius_auth_rows idx secret (srv # srvs) =
    (if maxRadiusAuthSlots \<le> idx then []
     else if rs_ip srv = [] then radius_auth_rows (idx + 1) secret srvs
     else let rp = indexed ''radius.auth.'' (idx + 1)
       in [(rp @ ''ip'', rs_ip srv), (rp @ ''port'', port_text ''1812'' (rs_port srv)), (rp @ ''secret'', secret)]
          @ radius_auth_rows (idx + 1) secret srvs)"

text \<open>The accounting servers, and per server the DAS/DAD client rows; \<open>done\<close> is \<^verbatim>\<open>dasClientDone\<close>.\<close>

fun radius_acct_rows :: "nat \<Rightarrow> string \<Rightarrow> bool \<Rightarrow> bool \<Rightarrow> radius_server list \<Rightarrow> (string \<times> string) list" where
  "radius_acct_rows idx secret dasGate dasClientDone [] = []"
| "radius_acct_rows idx secret dasGate dasClientDone (srv # srvs) =
    (if maxRadiusAuthSlots \<le> idx then []
     else if rs_ip srv = [] then radius_acct_rows (idx + 1) secret dasGate dasClientDone srvs
     else let rp = indexed ''radius.acct.'' (idx + 1);
              dad = indexed ''radius.dad.client.'' (idx + 1)
       in [(rp @ ''ip'', rs_ip srv), (rp @ ''port'', port_text ''1813'' (rs_port srv)), (rp @ ''secret'', secret)]
          @ (if dasGate
             then (if \<not> dasClientDone then [(''radius.das.client'', rs_ip srv), (''radius.das.secret'', secret)] else [])
               @ [(dad @ ''cidr'', rs_ip srv @ ''/32''), (dad @ ''secret'', secret)]
             else [])
          @ radius_acct_rows (idx + 1) secret dasGate (dasClientDone \<or> dasGate) srvs)"

fun has_server :: "nat \<Rightarrow> radius_server list \<Rightarrow> bool" where
  "has_server idx [] = False"
| "has_server idx (srv # srvs) =
    (if maxRadiusAuthSlots \<le> idx then False
     else if rs_ip srv \<noteq> [] then True else has_server (idx + 1) srvs)"

definition wlanHasRadiusProfile :: "wlan \<Rightarrow> bool" where
  "wlanHasRadiusProfile w = has_server 0 (opt_or [] (w_radius_servers w))"

definition dynamicVlanOf :: "string \<Rightarrow> string" where
  "dynamicVlanOf mode = (if mode = ''optional'' then ''1'' else if mode = ''required'' then ''2'' else ''0'')"

text \<open>The accounting block of one vap, and the flag after it.\<close>

definition accounting_rows :: "nat \<Rightarrow> wlan \<Rightarrow> bool \<Rightarrow> bool \<Rightarrow> (string \<times> string) list \<times> bool" where
  "accounting_rows n w dasCap dadDone =
    (if \<not> w_accounting w then ([], dadDone)
     else let dasGate = (w_das w \<and> dasCap)
       in ((if dasGate
            then (if \<not> dadDone then [(''radius.dad.status'', ''enabled''), (''radius.dad.port'', ''3799'')] else [])
              @ [(''radius.das.status'', ''enabled''), (''radius.das.port'', itoa (3800 + int n)),
                 (''radius.dad.status'', ''enabled'')]
            else [])
           @ radius_acct_rows 0 (w_radius_secret w) dasGate False (opt_or [] (w_acct_servers w)),
           dadDone \<or> dasGate))"

definition interim_rows :: "wlan \<Rightarrow> (string \<times> string) list" where
  "interim_rows w = (if w_accounting w \<and> w_interim_update w
     then [(''interim_update.status'', ''enabled''), (''interim_update.interval'', ''3600'')] else [])"

section \<open>The \<^verbatim>\<open>aaa\<close> block of a vap\<close>

definition fallbackPsk :: string where "fallbackPsk = ''letmeinnow''"

definition aaaBridge :: "vap_plan \<Rightarrow> string" where
  "aaaBridge v = (if vp_vid v = 0 then ''br0'' else ''br0.'' @ itoa (vp_vid v))"

definition is_wpa3 :: "wlan \<Rightarrow> bool" where
  "is_wpa3 w \<longleftrightarrow> w_security w = ''wpa3-p'' \<or> w_security w = ''wpa2-wpa3''"

definition is_transition :: "wlan \<Rightarrow> bool" where
  "is_transition w \<longleftrightarrow> w_security w = ''wpa2-wpa3''"

definition aaa_head :: "vap_plan \<Rightarrow> (string \<times> string) list" where
  "aaa_head v = (let w = vp_wlan v in
    [(''pmf.status'', boolStr (is_wpa3 w)),
     (''pmf.mode'', if is_wpa3 w then (if is_transition w then ''1'' else ''2'') else ''0''),
     (''ft.status'', ''disabled''),
     (''country_beacon'', ''disabled''),
     (''11k.status'', ''disabled''),
     (''br.devname'', aaaBridge v),
     (''devname'', devname (vp_ath v)),
     (''driver'', ''madwifi''),
     (''ssid'', SSIDOf w)])"

definition aaa_open :: "vap_plan \<Rightarrow> bool \<Rightarrow> (string \<times> string) list" where
  "aaa_open v openHostapd = [(''status'', boolStr openHostapd), (''id'', vp_id v)]"

definition no_servers_alert :: alert where
  "no_servers_alert = plain_alert (''provisioning WPA-EAP wlan without RADIUS servers; '' @
     ''emitting mgmt=WPA-EAP with auth_cache enabled, no radius.* rows'')"

definition no_secret_alert :: alert where
  "no_secret_alert = plain_alert (''provisioning WPA-EAP wlan without a radius secret; '' @
     ''emitting radius.auth rows with an empty secret= value'')"

definition eap_alerts :: "wlan \<Rightarrow> alert list" where
  "eap_alerts w =
    (if w_security w = ''wpa-eap'' \<and> \<not> wlanHasRadiusProfile w then [no_servers_alert]
     else if w_security w = ''wpa-eap'' \<and> w_radius_secret w = [] then [no_secret_alert]
     else [])"

definition effective_psk :: "wlan \<Rightarrow> string" where
  "effective_psk w = (if w_passphrase w = [] then fallbackPsk else w_passphrase w)"

definition aaa_fixed :: "vap_plan \<Rightarrow> (string \<times> string) list" where
  "aaa_fixed v =
    [(''status'', ''enabled''),
     (''verbose'', ''2''),
     (''wpa'', if is_wpa3 (vp_wlan v) then ''2'' else ''3''),
     (''eapol_version'', ''2''),
     (''wpa.group_rekey'', ''3600''),
     (''p2p'', ''disabled''),
     (''p2p_cross_connect'', ''disabled''),
     (''proxy_arp'', ''disabled''),
     (''is_guest'', ''false''),
     (''tdls_prohibit'', ''disabled''),
     (''bss_transition'', ''enabled''),
     (''id'', vp_id v)]"

definition aaa_sae :: "wlan \<Rightarrow> (string \<times> string) list" where
  "aaa_sae w =
    (if \<not> is_wpa3 w then []
     else [(''wpa3.support'', ''enabled''), (''wpa3.transition'', boolStr (is_transition w)),
           (''wpa3.ft.status'', ''disabled'')]
       @ (if is_transition w then [(''wpa.psk'', effective_psk w)]
          else [(''sae.psk.1.psk'', effective_psk w), (''sae.psk.1.mac'', ''ff:ff:ff:ff:ff:ff'')]))"

definition aaa_mgmt :: "wlan \<Rightarrow> (string \<times> string) list" where
  "aaa_mgmt w =
    [(''wpa.key.1.mgmt'', if is_wpa3 w then ''SAE'' else if w_security w = ''wpa-eap'' then ''WPA-EAP'' else ''WPA-PSK''),
     (''wpa.psk'', effective_psk w)]"

definition aaa_eap :: "nat \<Rightarrow> wlan \<Rightarrow> bool \<Rightarrow> bool \<Rightarrow> (string \<times> string) list \<times> bool" where
  "aaa_eap n w dasCap dadDone =
    (if w_security w \<noteq> ''wpa-eap'' then ([], dadDone)
     else let (acct, dadDone') = accounting_rows n w dasCap dadDone
       in ([(''auth_cache'', ''enabled'')]
           @ radius_auth_rows 0 (w_radius_secret w) (opt_or [] (w_radius_servers w))
           @ acct @ interim_rows w
           @ [(''dynamic_vlan'', dynamicVlanOf (w_radius_vlan_mode w))],
           dadDone'))"

definition aaa_tail :: "(string \<times> string) list" where
  "aaa_tail = [(''radius.macacl.status'', ''disabled''), (''hide_ssid'', ''false'')]"

definition emitAaaRows :: "nat \<Rightarrow> vap_plan \<Rightarrow> bool \<Rightarrow> bool \<Rightarrow> bool \<Rightarrow> emission list \<times> bool" where
  "emitAaaRows n v openHostapd dasCap dadDone =
    (let w = vp_wlan v; line = rows ''aaa-rows'' (indexed ''aaa.'' n)
     in if w_security w = ''open''
        then (line (aaa_head v @ aaa_open v openHostapd @ aaa_tail), dadDone)
        else let (eap, dadDone') = aaa_eap n w dasCap dadDone
          in (line (aaa_head v) @ map Alerted (eap_alerts w)
              @ line (aaa_fixed v @ aaa_sae w @ aaa_mgmt w @ eap
                @ [(''wpa.1.pairwise'', ''CCMP''), (''pmf.cipher'', ''AES-128-CMAC'')] @ aaa_tail),
              dadDone'))"

section \<open>The \<^verbatim>\<open>wireless\<close> block of a vap\<close>

definition wireless_rows :: "vap_plan \<Rightarrow> bool \<Rightarrow> (string \<times> string) list" where
  "wireless_rows v bgaFilterCap =
    [(''mode'', ''master''),
     (''devname'', devname (vp_ath v)),
     (''id'', vp_id v),
     (''status'', ''enabled''),
     (''authmode'', if w_security (vp_wlan v) = ''open'' then ''0'' else ''1''),
     (''l2_isolation'', ''disabled''),
     (''is_guest'', ''false''),
     (''security'', ''none''),
     (''addmtikie'', ''disabled''),
     (''ssid'', SSIDOf (vp_wlan v)),
     (''hide_ssid'', ''false''),
     (''mac_acl.status'', ''enabled''),
     (''mac_acl.policy'', ''deny''),
     (''wmm'', ''enabled''),
     (''uapsd'', ''disabled''),
     (''parent'', vp_phy v),
     (''puren'', ''0''),
     (''pureg'', ''1''),
     (''usage'', ''user''),
     (''wds'', ''disabled''),
     (''mcast.enhance'', ''0''),
     (''autowds'', ''disabled''),
     (''vport'', ''disabled''),
     (''vwire'', ''disabled''),
     (''schedule_enabled'', ''disabled''),
     (''no2ghz_oui'', ''disabled''),
     (''element_adopt'', ''disabled''),
     (''mcastrate'', ''auto'')]
    @ (if bgaFilterCap then [(''bga_filter'', ''enabled'')] else [])
    @ [(''dtim_period'', ''3'')]"

definition emitWirelessRows :: "nat \<Rightarrow> vap_plan \<Rightarrow> bool \<Rightarrow> emission list" where
  "emitWirelessRows n v bgaFilterCap = rows ''wireless-rows'' (indexed ''wireless.'' n) (wireless_rows v bgaFilterCap)"

text \<open>The loop over the vaps: the row index and the flag run along.\<close>

fun emit_vaps :: "nat \<Rightarrow> vap_plan list \<Rightarrow> bool \<Rightarrow> bool \<Rightarrow> bool \<Rightarrow> bool \<Rightarrow> emission list" where
  "emit_vaps n [] openHostapd dasCap bgaFilterCap dadDone = []"
| "emit_vaps n (v # vs) openHostapd dasCap bgaFilterCap dadDone =
    (let (aaa, dadDone') = emitAaaRows (n + 1) v openHostapd dasCap dadDone
     in aaa @ emitWirelessRows (n + 1) v bgaFilterCap
        @ emit_vaps (n + 1) vs openHostapd dasCap bgaFilterCap dadDone')"

section \<open>The radio rows\<close>

definition intentOr :: "string \<Rightarrow> string \<Rightarrow> string" where
  "intentOr intent echo = (if intent \<noteq> [] then intent else echo)"

definition antennaGain :: "jmap \<Rightarrow> string" where
  "antennaGain raw = (if JSONBool raw ''builtin_antenna'' then JSONStr raw ''builtin_ant_gain'' ''0''
     else JSONStr raw ''antenna_gain'' ''6'')"

definition radio_intent_of :: "(string \<times> radio_intent) list \<Rightarrow> string \<Rightarrow> radio_intent" where
  "radio_intent_of intent name = opt_or \<lparr>ri_channel = [], ri_txpower = []\<rparr> (jget intent name)"

definition radio_cfg_rows :: "int \<Rightarrow> (string \<times> radio_intent) list \<Rightarrow> radio_row \<Rightarrow> (string \<times> string) list" where
  "radio_cfg_rows countryCode intent r =
    (let raw = rr_raw r; it = radio_intent_of intent (rr_name r)
     in [(''phyname'', rr_name r),
         (''ack.auto'', ''disabled''),
         (''acktimeout'', ''64''),
         (''ampdu.status'', ''enabled''),
         (''clksel'', ''1''),
         (''countrycode'', itoa countryCode),
         (''cwm.enable'', ''0''),
         (''cwm.mode'', ''0''),
         (''forbiasauto'', ''0''),
         (''channel'', intentOr (ri_channel it) (JSONStr raw ''channel'' ''0'')),
         (''backup_channel'', JSONStr raw ''backup_channel'' ''0''),
         (''ieee_mode'', if rr_band r = ''na'' then ''11naht40'' else ''11nght20''),
         (''mode'', ''master''),
         (''rate.auto'', ''enabled''),
         (''rate.mcs'', ''auto''),
         (''rfscan'', boolStr (JSONBool raw ''spectrum_enabled'')),
         (''bcmc_l2_filter.status'', ''enabled''),
         (''bgscan.status'', ''disabled''),
         (''antenna.gain'', antennaGain raw),
         (''antenna'', JSONStr raw ''antenna_id'' ''-1''),
         (''txpower_mode'', JSONStr raw ''tx_power_mode'' ''auto''),
         (''txpower'', intentOr (ri_txpower it) (JSONStr raw ''tx_power'' ''auto'')),
         (''hard_noisefloor.status'', ''disabled'')])"

text \<open>The vaps of radio \<open>n\<close>: the first under the radio's own prefix, the others as virtual companions.\<close>

definition radio_vap_rows :: "nat \<Rightarrow> vap_plan list \<Rightarrow> (string \<times> string) list" where
  "radio_vap_rows n vaps = concat (map (\<lambda>(vIdx, v).
     let p = (if 0 < vIdx then indexed ''virtual.'' vIdx else [])
     in [(p @ ''devname'', devname (vp_ath v)), (p @ ''status'', ''enabled'')])
     (enumerate 0 (filter (\<lambda>v. vp_radio v = n) vaps)))"

definition radio_blocks :: "int \<Rightarrow> (string \<times> radio_intent) list \<Rightarrow> vap_plan list \<Rightarrow> radio_row list \<Rightarrow> (string \<times> string) list list" where
  "radio_blocks countryCode intent vaps radios =
    map (\<lambda>(i, r). radio_cfg_rows countryCode intent r @ radio_vap_rows (i + 1) vaps) (enumerate 0 radios)"

section \<open>VLAN wiring\<close>

definition partial_inventory_alert :: alert where
  "partial_inventory_alert = plain_alert (''wireless provision: no ethernet_table/if_table inventory in the device record; '' @
     ''falling back to a single inferred uplink (partial eth inventory)'')"

definition tagged_vids :: "vap_plan list \<Rightarrow> int list" where
  "tagged_vids vaps = sort (remdups (map vp_vid (filter (\<lambda>v. vp_vid v \<noteq> 0) vaps)))"

definition vid_aths :: "vap_plan list \<Rightarrow> int \<Rightarrow> string list" where
  "vid_aths vaps vid = map (\<lambda>v. devname (vp_ath v)) (filter (\<lambda>v. vp_vid v = vid) vaps)"

definition vlan_blocks :: "string list \<Rightarrow> int list \<Rightarrow> (string \<times> string) list list" where
  "vlan_blocks ethIfaces vids =
    concat (map (\<lambda>vid. map (\<lambda>p. [(''devname'', p), (''id'', itoa vid)]) ethIfaces) vids)"

definition bridge_rows :: "string \<Rightarrow> string list \<Rightarrow> (string \<times> string) list" where
  "bridge_rows name ports =
    [(''devname'', name), (''fd'', ''1''), (''stp.status'', ''disabled'')]
    @ map (\<lambda>(k, port). (indexed ''port.'' k @ ''devname'', port)) (enumerate 1 ports)"

definition untagged_ports :: "string list \<Rightarrow> vap_plan list \<Rightarrow> string list" where
  "untagged_ports ethIfaces vaps = ethIfaces @ vid_aths vaps 0"

definition tagged_ports :: "string list \<Rightarrow> vap_plan list \<Rightarrow> int \<Rightarrow> string list" where
  "tagged_ports ethIfaces vaps vid = map (\<lambda>p. p @ ''.'' @ itoa vid) ethIfaces @ vid_aths vaps vid"

definition bridge_blocks :: "string list \<Rightarrow> vap_plan list \<Rightarrow> int list \<Rightarrow> (string \<times> string) list list" where
  "bridge_blocks ethIfaces vaps vids =
    bridge_rows ''br0'' (untagged_ports ethIfaces vaps)
    # map (\<lambda>vid. bridge_rows (''br0.'' @ itoa vid) (tagged_ports ethIfaces vaps vid)) vids"

definition emitVlanBlocks :: "device \<Rightarrow> vap_plan list \<Rightarrow> emission list" where
  "emitVlanBlocks d vaps =
    (let (ethIfaces, ethKnown) = ethPortNames d;
         vids = tagged_vids vaps;
         line = rows ''vlan-blocks'' []
     in (if \<not> ethKnown then [Alerted partial_inventory_alert] else [])
        @ [Head ''# vlan'']
        @ (if 0 < length vids
           then line [(''vlan.status'', ''enabled'')] @ blocks ''vlan-blocks'' ''vlan.'' (vlan_blocks ethIfaces vids)
           else line [(''vlan.status'', ''disabled'')])
        @ [Head ''# bridge''] @ line [(''bridge.status'', ''enabled'')]
        @ blocks ''vlan-blocks'' ''bridge.'' (bridge_blocks ethIfaces vaps vids)
        @ emitNetconfSection d vids
        @ [Head ''# dhcpc'']
        @ line [(''dhcpc.status'', ''enabled''), (''dhcpc.1.status'', ''enabled''), (''dhcpc.1.devname'', mgmtDevOf d)])"

section \<open>The compound\<close>

definition unknown_band_warning :: "nat \<Rightarrow> string" where
  "unknown_band_warning skipped = ''wireless provision: skipped '' @ dec_nat skipped @
     '' radio(s) with unrecognized band token '' @
     ''(known provisioning bands: na, ng; real tokens also include 6e/scan)''"

definition wireless_warnings :: "device \<Rightarrow> string list" where
  "wireless_warnings d = (let skipped = UnknownBandRadios d
     in if 0 < skipped then [unknown_band_warning skipped] else [])"

definition supportsDasDad :: "device \<Rightarrow> bool" where
  "supportsDasDad d = (let (ok, caps) = NumFromExtra (ext d) ''fw_caps'' in ok \<and> caps AND 0x100000 = 0x100000)"

definition wifi_cap :: "device \<Rightarrow> int \<Rightarrow> bool" where
  "wifi_cap d m = (let (known, caps) = NumFromExtra (ext d) ''wifi_caps'' in known \<and> caps AND m \<noteq> 0)"

definition radio_header :: "int \<Rightarrow> (string \<times> string) list" where
  "radio_header countryCode =
    [(''radio.status'', ''enabled''), (''radio.countrycode'', itoa countryCode), (''aaa.status'', ''enabled''),
     (''wireless.status'', ''enabled''), (''radio.outdoor'', ''disabled'')]"

definition emitWirelessCfg :: "int \<Rightarrow> provisioning_plan \<Rightarrow> device \<Rightarrow> emission list" where
  "emitWirelessCfg countryCode plan d =
    (let vaps = pp_vaps plan; radios = pp_radios plan
     in if length radios = 0
        then [Head ''# no wlan provisioned as no radio found'', Head ''radio.status=disabled'']
          @ emitNetconfSection d []
        else [Head ''# wlans (radio)''] @ rows ''wireless-radio'' [] (radio_header countryCode)
          @ blocks ''wireless-radio'' ''radio.'' (radio_blocks countryCode (RadioIntents d) vaps radios)
          @ emit_vaps 0 vaps (wifi_cap d 0x2000) (supportsDasDad d) (wifi_cap d 0x40) False
          @ emitVlanBlocks d vaps)"

section \<open>Every row key is a plain name\<close>

text \<open>A block's rows all have plain names; the literal ones are checked by evaluation.\<close>

definition named :: "(string \<times> string) list \<Rightarrow> bool" where
  "named kvs \<longleftrightarrow> list_all (\<lambda>kv. safeDiagnosticName (fst kv)) kvs"

lemma named_simps [simp]:
  "named []" "named (kv # kvs) \<longleftrightarrow> safeDiagnosticName (fst kv) \<and> named kvs"
  "named (xs @ ys) \<longleftrightarrow> named xs \<and> named ys"
  by (simp_all add: named_def)

lemma safe_indexed [simp]: "list_all safe_char p \<Longrightarrow> safeDiagnosticName k \<Longrightarrow> safeDiagnosticName (indexed p n @ k)"
  by (simp add: safeDiagnosticName_def)

lemma safe_literal: "list_all safe_char k \<Longrightarrow> k \<noteq> [] \<Longrightarrow> safeDiagnosticName k"
  by (simp add: safeDiagnosticName_def)

lemma tidy_rows_named: "list_all safe_char p \<Longrightarrow> named kvs \<Longrightarrow> list_all unbroken (rows w p kvs)"
  unfolding named_def by (rule tidy_rows)

lemma tidy_blocks_named: "list_all safe_char p \<Longrightarrow> list_all named kvss \<Longrightarrow> list_all unbroken (blocks w p kvss)"
  by (rule tidy_blocks) (auto simp: named_def list_all_iff)

lemma named_auth: "named (radius_auth_rows idx secret srvs)"
proof -
  have "list_all safe_char ''radius.auth.''" "list_all safeDiagnosticName [''ip'', ''port'', ''secret'']"
    by code_simp+
  then show ?thesis by (induction idx secret srvs rule: radius_auth_rows.induct) (simp_all add: Let_def)
qed

lemma named_acct: "named (radius_acct_rows idx secret gate dn srvs)"
proof -
  have "list_all (list_all safe_char) [''radius.acct.'', ''radius.dad.client.'']"
    "list_all safeDiagnosticName [''ip'', ''port'', ''secret'', ''cidr'', ''radius.das.client'', ''radius.das.secret'']"
    by code_simp+
  then show ?thesis
    by (induction idx secret gate dn srvs rule: radius_acct_rows.induct) (simp_all add: Let_def)
qed

lemma named_accounting: "named (fst (accounting_rows n w dasCap dn))"
proof -
  have "list_all safeDiagnosticName [''radius.dad.status'', ''radius.dad.port'', ''radius.das.status'', ''radius.das.port'']"
    by code_simp
  then show ?thesis by (simp add: accounting_rows_def Let_def named_acct)
qed

lemma named_eap: "named (fst (aaa_eap n w dasCap dn))"
proof -
  have "list_all safeDiagnosticName [''auth_cache'', ''dynamic_vlan'', ''interim_update.status'', ''interim_update.interval'']"
    by code_simp
  then show ?thesis
    using named_accounting [of n w dasCap dn]
    by (simp add: aaa_eap_def interim_rows_def named_auth case_prod_beta)
qed

lemma named_aaa:
  "named (aaa_head v)" "named (aaa_open v b)" "named (aaa_fixed v)" "named (aaa_sae w)" "named (aaa_mgmt w)" "named aaa_tail"
proof -
  have "list_all safeDiagnosticName
    [''pmf.status'', ''pmf.mode'', ''ft.status'', ''country_beacon'', ''11k.status'', ''br.devname'', ''devname'',
     ''driver'', ''ssid'', ''status'', ''id'', ''verbose'', ''wpa'', ''eapol_version'', ''wpa.group_rekey'', ''p2p'',
     ''p2p_cross_connect'', ''proxy_arp'', ''is_guest'', ''tdls_prohibit'', ''bss_transition'', ''wpa3.support'',
     ''wpa3.transition'', ''wpa3.ft.status'', ''wpa.psk'', ''sae.psk.1.psk'', ''sae.psk.1.mac'', ''wpa.key.1.mgmt'',
     ''radius.macacl.status'', ''hide_ssid'']" by code_simp
  then show "named (aaa_head v)" "named (aaa_open v b)" "named (aaa_fixed v)" "named (aaa_sae w)"
      "named (aaa_mgmt w)" "named aaa_tail"
    by (simp_all add: aaa_head_def aaa_open_def aaa_fixed_def aaa_sae_def aaa_mgmt_def aaa_tail_def Let_def)
qed

lemma tidy_aaa: "list_all unbroken (fst (emitAaaRows n v oh das dn))"
proof -
  have lit: "list_all safe_char ''aaa.''" "list_all safeDiagnosticName [''wpa.1.pairwise'', ''pmf.cipher'']"
    by code_simp+
  have "list_all unbroken (rows ''aaa-rows'' (indexed ''aaa.'' n) kvs)" if "named kvs" for kvs
    using that lit by (intro tidy_rows_named) simp_all
  moreover have "list_all unbroken (map Alerted al)" for al by (simp add: list_all_iff)
  ultimately show ?thesis
    using lit named_eap [of n "vp_wlan v" das dn] by (simp add: emitAaaRows_def Let_def case_prod_beta named_aaa)
qed

lemma named_wireless: "named (wireless_rows v bga)"
proof -
  have "list_all safeDiagnosticName
    [''mode'', ''devname'', ''id'', ''status'', ''authmode'', ''l2_isolation'', ''is_guest'', ''security'', ''addmtikie'',
     ''ssid'', ''hide_ssid'', ''mac_acl.status'', ''mac_acl.policy'', ''wmm'', ''uapsd'', ''parent'', ''puren'', ''pureg'',
     ''usage'', ''wds'', ''mcast.enhance'', ''autowds'', ''vport'', ''vwire'', ''schedule_enabled'', ''no2ghz_oui'',
     ''element_adopt'', ''mcastrate'', ''bga_filter'', ''dtim_period'']" by code_simp
  then show ?thesis by (simp add: wireless_rows_def)
qed

lemma tidy_vaps: "list_all unbroken (emit_vaps n vs oh das bga dn)"
proof -
  have "list_all safe_char ''wireless.''" by code_simp
  then have "list_all unbroken (emitWirelessRows m v bga)" for m v
    unfolding emitWirelessRows_def by (intro tidy_rows_named) (simp_all add: named_wireless)
  then show ?thesis
    using tidy_aaa by (induction vs arbitrary: n dn) (simp_all add: case_prod_beta)
qed

lemma named_radio: "named (radio_cfg_rows cc intent r)" "named (radio_vap_rows n vaps)"
proof -
  have "list_all safeDiagnosticName
    [''phyname'', ''ack.auto'', ''acktimeout'', ''ampdu.status'', ''clksel'', ''countrycode'', ''cwm.enable'', ''cwm.mode'',
     ''forbiasauto'', ''channel'', ''backup_channel'', ''ieee_mode'', ''mode'', ''rate.auto'', ''rate.mcs'', ''rfscan'',
     ''bcmc_l2_filter.status'', ''bgscan.status'', ''antenna.gain'', ''antenna'', ''txpower_mode'', ''txpower'',
     ''hard_noisefloor.status'']" by code_simp
  then show "named (radio_cfg_rows cc intent r)" by (simp add: radio_cfg_rows_def Let_def)
  have "list_all safe_char ''virtual.''" "safeDiagnosticName ''devname''" "safeDiagnosticName ''status''" by code_simp+
  then show "named (radio_vap_rows n vaps)"
    by (auto simp: radio_vap_rows_def named_def list_all_iff Let_def split: if_splits)
qed

lemma named_vlan: "list_all named (vlan_blocks eths vids)" "list_all named (bridge_blocks eths vaps vids)"
proof -
  have lit: "list_all safeDiagnosticName [''devname'', ''id'', ''fd'', ''stp.status'']" "list_all safe_char ''port.''"
    by code_simp+
  then show "list_all named (vlan_blocks eths vids)" by (auto simp: vlan_blocks_def list_all_iff)
  have "named (bridge_rows name ports)" for name ports
    using lit by (auto simp: bridge_rows_def) (auto simp: named_def list_all_iff)
  then show "list_all named (bridge_blocks eths vaps vids)" by (simp add: bridge_blocks_def list_all_iff)
qed

lemma tidy_vlan: "list_all unbroken (emitVlanBlocks d vaps)"
proof -
  have "nl \<notin> set ''# vlan''" "nl \<notin> set ''# bridge''" "nl \<notin> set ''# dhcpc''"
    "list_all (list_all safe_char) [''vlan.'', ''bridge.'']"
    "list_all safeDiagnosticName
       [''vlan.status'', ''bridge.status'', ''dhcpc.status'', ''dhcpc.1.status'', ''dhcpc.1.devname'']" by code_simp+
  then show ?thesis
    by (simp add: emitVlanBlocks_def case_prod_beta Let_def tidy_rows_named tidy_blocks_named tidy_netconf named_vlan)
qed

lemma tidy_wireless: "list_all unbroken (emitWirelessCfg cc plan d)"
proof -
  have lit: "nl \<notin> set ''# no wlan provisioned as no radio found''" "nl \<notin> set ''radio.status=disabled''"
    "nl \<notin> set ''# wlans (radio)''" "list_all safe_char ''radio.''"
    "list_all safeDiagnosticName [''radio.status'', ''radio.countrycode'', ''aaa.status'', ''wireless.status'', ''radio.outdoor'']"
    by code_simp+
  have "list_all named (radio_blocks cc it vs rs)" for it vs rs
    by (auto simp: radio_blocks_def list_all_iff named_radio)
  with lit show ?thesis
    by (simp add: emitWirelessCfg_def Let_def tidy_netconf tidy_vlan tidy_vaps tidy_rows_named tidy_blocks_named radio_header_def)
qed

end
