(* ===== verification/Password_Crypt.thy ===== *)
theory Password_Crypt
  imports Go_Text
begin

text \<open>
  The two password hashes of \<^verbatim>\<open>internal/server/systemcfg\<close>: MD5 crypt (\<^verbatim>\<open>md5crypt.go\<close>) and SHA-512
  crypt (\<^verbatim>\<open>sha512crypt.go\<close>), their salts, the checks of a stored hash and the format gates. The digest
  functions (\<^verbatim>\<open>crypto/md5\<close>, \<^verbatim>\<open>crypto/sha512\<close>) are the argument \<open>H\<close>; the random source is the argument
  \<open>rnd\<close>, the \<open>n\<close> bytes it returns or \<open>None\<close> for its error.
\<close>

unbundle bit_operations_syntax

section \<open>The alphabet and the output encoding\<close>

definition b64cryptAlphabet :: string where
  "b64cryptAlphabet = ''./0123456789ABCDEFGHIJKLMNOPQRSTUVWXYZabcdefghijklmnopqrstuvwxyz''"

definition letters :: string where
  "letters = ''ABCDEFGHIJKLMNOPQRSTUVWXYZabcdefghijklmnopqrstuvwxyz''"

definition number :: "u8 \<Rightarrow> u8 \<Rightarrow> u8 \<Rightarrow> u32" where
  "number b1 b2 b3 = push_bit 16 (ucast b1) OR push_bit 8 (ucast b2) OR ucast b3"

fun emit64 :: "u32 \<Rightarrow> nat \<Rightarrow> string" where
  "emit64 v 0 = []"
| "emit64 v (Suc n) = b64cryptAlphabet ! unat (v AND 0x3f) # emit64 (drop_bit 6 v) n"

definition b64From24bit :: "u8 \<Rightarrow> u8 \<Rightarrow> u8 \<Rightarrow> string" where
  "b64From24bit b1 b2 b3 = emit64 (number b1 b2 b3) 4"

section \<open>The digest inputs both share\<close>

text \<open>A digest repeated to \<open>n\<close> bytes, block by block.\<close>

function fill_blocks :: "nat \<Rightarrow> bytes \<Rightarrow> nat \<Rightarrow> bytes" where
  "fill_blocks blk d n = (if 0 < blk \<and> blk < n then d @ fill_blocks blk d (n - blk) else take n d)"
  by pat_completeness auto

termination fill_blocks
  by (relation "measure (\<lambda>(blk, d, n). n)") auto

declare fill_blocks.simps [simp del]

text \<open>One piece per bit of \<open>n\<close>, lowest first.\<close>

fun bit_pieces :: "bytes \<Rightarrow> bytes \<Rightarrow> nat \<Rightarrow> bytes" where
  "bit_pieces one nought n = (if n = 0 then []
     else (if odd n then one else nought) @ bit_pieces one nought (n div 2))"

declare bit_pieces.simps [simp del]

text \<open>The input of round \<open>i\<close>: \<open>p\<close> and the running digest alternate, \<open>s\<close> and \<open>p\<close> join in by the round number.\<close>

definition round_input :: "bytes \<Rightarrow> bytes \<Rightarrow> nat \<Rightarrow> bytes \<Rightarrow> bytes" where
  "round_input p s i d = (if odd i then p else d) @ (if i mod 3 \<noteq> 0 then s else [])
     @ (if i mod 7 \<noteq> 0 then p else []) @ (if odd i then d else p)"

section \<open>MD5 crypt\<close>

definition md5_groups :: "(nat \<times> nat \<times> nat) list" where
  "md5_groups = [(0, 6, 12), (1, 7, 13), (2, 8, 14), (3, 9, 15), (4, 10, 5)]"

definition md5_encode :: "bytes \<Rightarrow> string" where
  "md5_encode f = concat (map (\<lambda>(i, j, k). emit64 (number (f ! i) (f ! j) (f ! k)) 4) md5_groups)
     @ emit64 (ucast (f ! 11)) 2"

definition md5_final :: "(bytes \<Rightarrow> bytes) \<Rightarrow> bytes \<Rightarrow> bytes \<Rightarrow> bytes" where
  "md5_final H key salt =
    (let alt = H (key @ salt @ key);
         start = H (key @ bytes_of ''$1$'' @ salt @ fill_blocks 16 alt (length key)
           @ bit_pieces [0] (take 1 key) (length key))
     in fold (\<lambda>i d. H (round_input key salt i d)) [0..<1000] start)"

definition md5CryptRaw :: "(bytes \<Rightarrow> bytes) \<Rightarrow> bytes \<Rightarrow> bytes \<Rightarrow> string" where
  "md5CryptRaw H key salt = md5_encode (md5_final H key (take 8 salt))"

definition randAlphaSaltLive :: "(nat \<Rightarrow> bytes option) \<Rightarrow> nat \<Rightarrow> string option" where
  "randAlphaSaltLive rnd n = map_option (map (\<lambda>b. letters ! (unat b mod length letters))) (rnd n)"

definition md5Crypt :: "(bytes \<Rightarrow> bytes) \<Rightarrow> (nat \<Rightarrow> bytes option) \<Rightarrow> string \<Rightarrow> string option" where
  "md5Crypt H rnd key = (case randAlphaSaltLive rnd 8 of
     None \<Rightarrow> None
   | Some salt \<Rightarrow> Some (''$1$'' @ salt @ ''$'' @ md5CryptRaw H (bytes_of key) (bytes_of salt)))"

definition md5CryptMatches :: "(bytes \<Rightarrow> bytes) \<Rightarrow> string \<Rightarrow> string \<Rightarrow> bool" where
  "md5CryptMatches H key stored =
    (if \<not> has_prefix ''$1$'' stored then False
     else let rest = drop 3 stored
       in case cut_at (CHR ''$'') rest of
            None \<Rightarrow> False
          | Some (salt, _) \<Rightarrow>
              if salt = [] \<or> 8 < length salt then False
              else md5CryptRaw H (bytes_of key) (bytes_of salt) = drop (length salt + 1) rest)"

section \<open>SHA-512 crypt\<close>

definition sha512_groups :: "(nat \<times> nat \<times> nat) list" where
  "sha512_groups =
    [(0, 21, 42), (22, 43, 1), (44, 2, 23), (3, 24, 45),
     (25, 46, 4), (47, 5, 26), (6, 27, 48), (28, 49, 7),
     (50, 8, 29), (9, 30, 51), (31, 52, 10), (53, 11, 32),
     (12, 33, 54), (34, 55, 13), (56, 14, 35), (15, 36, 57),
     (37, 58, 16), (59, 17, 38), (18, 39, 60), (40, 61, 19),
     (62, 20, 41)]"

definition sha512_encode :: "bytes \<Rightarrow> string" where
  "sha512_encode f = concat (map (\<lambda>(i, j, k). b64From24bit (f ! i) (f ! j) (f ! k)) sha512_groups)
     @ [b64cryptAlphabet ! unat (f ! 63 AND 0x3f), b64cryptAlphabet ! unat (drop_bit 6 (f ! 63))]"

definition seqFill :: "bytes \<Rightarrow> nat \<Rightarrow> bytes" where
  "seqFill digest want = map (\<lambda>i. digest ! (i mod length digest)) [0..<want]"

definition sha512_final :: "(bytes \<Rightarrow> bytes) \<Rightarrow> bytes \<Rightarrow> bytes \<Rightarrow> bytes" where
  "sha512_final H key salt =
    (let sumB = H (key @ salt @ key);
         sumA = H (key @ salt @ fill_blocks 64 sumB (length key) @ bit_pieces sumB key (length key));
         pSeq = seqFill (H (concat (replicate (length key) key))) (length key);
         sSeq = seqFill (H (concat (replicate (16 + unat (sumA ! 0)) salt))) (length salt)
     in fold (\<lambda>i d. H (round_input pSeq sSeq i d)) [0..<5000] sumA)"

definition sha512CryptRaw :: "(bytes \<Rightarrow> bytes) \<Rightarrow> bytes \<Rightarrow> bytes \<Rightarrow> string" where
  "sha512CryptRaw H key salt0 =
    (if salt0 = [] then []
     else let salt = take 16 salt0
       in ''$6$'' @ text_of salt @ ''$'' @ sha512_encode (sha512_final H key salt))"

definition randSaltLive :: "(nat \<Rightarrow> bytes option) \<Rightarrow> nat \<Rightarrow> string option" where
  "randSaltLive rnd n = map_option (map (\<lambda>b. b64cryptAlphabet ! (unat b mod length b64cryptAlphabet))) (rnd n)"

definition sha512Crypt :: "(bytes \<Rightarrow> bytes) \<Rightarrow> (nat \<Rightarrow> bytes option) \<Rightarrow> string \<Rightarrow> string option" where
  "sha512Crypt H rnd key = (case randSaltLive rnd 8 of
     None \<Rightarrow> None
   | Some salt \<Rightarrow> Some (sha512CryptRaw H (bytes_of key) (bytes_of salt)))"

section \<open>Format gates\<close>

text \<open>
  The regular expressions \<^verbatim>\<open>^\$1\$[./0-9A-Za-z]{8}\$[./0-9A-Za-z]{22}$\<close> and its SHA-512 analogues: no
  character of the class is a dollar sign, so the salt ends at the first one.
\<close>

definition crypt_char :: "char \<Rightarrow> bool" where
  "crypt_char c \<longleftrightarrow> (let n = (of_char c :: nat) in
     n = 46 \<or> n = 47 \<or> 48 \<le> n \<and> n \<le> 57 \<or> 65 \<le> n \<and> n \<le> 90 \<or> 97 \<le> n \<and> n \<le> 122)"

definition crypt_body :: "string \<Rightarrow> nat \<Rightarrow> nat \<Rightarrow> nat \<Rightarrow> string \<Rightarrow> string option" where
  "crypt_body magic lo hi dlen s =
    (if \<not> has_prefix magic s then None
     else case cut_at (CHR ''$'') (drop (length magic) s) of
       None \<Rightarrow> None
     | Some (salt, dig) \<Rightarrow>
         if lo \<le> length salt \<and> length salt \<le> hi \<and> list_all crypt_char salt
            \<and> length dig = dlen \<and> list_all crypt_char dig then Some salt else None)"

definition md5CacheFormatRx :: "string \<Rightarrow> bool" where
  "md5CacheFormatRx s \<longleftrightarrow> crypt_body ''$1$'' 8 8 22 s \<noteq> None"

definition sha512BodyRx :: "string \<Rightarrow> string option" where
  "sha512BodyRx s = crypt_body ''$6$'' 1 16 86 s"

definition sha512CacheFormatRx :: "string \<Rightarrow> bool" where
  "sha512CacheFormatRx s \<longleftrightarrow> crypt_body ''$6$'' 8 8 86 s \<noteq> None"

definition sha512CryptMatches :: "(bytes \<Rightarrow> bytes) \<Rightarrow> string \<Rightarrow> string \<Rightarrow> bool" where
  "sha512CryptMatches H key stored = (case sha512BodyRx stored of
     None \<Rightarrow> False
   | Some salt \<Rightarrow> sha512CryptRaw H (bytes_of key) (bytes_of salt) = stored)"

section \<open>What the encodings keep\<close>

lemma length_alphabet [simp]: "length b64cryptAlphabet = 64"
  by (simp add: b64cryptAlphabet_def)

lemma alphabet_chars: "list_all crypt_char b64cryptAlphabet"
  by code_simp

lemma distinct_alphabet: "distinct b64cryptAlphabet"
  by code_simp

lemma alphabet_nth: "n < 64 \<Longrightarrow> crypt_char (b64cryptAlphabet ! n)"
  using alphabet_chars by (simp add: list_all_length)

lemma letters_chars: "length letters = 52" "list_all crypt_char letters"
  by code_simp+

lemma and_63_take_bit: "v AND 0x3f = take_bit 6 (v :: 'a::len word)"
proof -
  have "(mask 6 :: 'a word) = 0x3f" by (simp add: mask_eq_exp_minus_1)
  then show ?thesis by (simp add: take_bit_eq_mask)
qed

lemma and_63: "unat (v AND 0x3f :: 'a::len word) < 64"
  using take_bit_nat_less_exp [of 6 "unat v"] by (simp add: and_63_take_bit unsigned_take_bit_eq)

lemma alphabet_inject: "m < 64 \<Longrightarrow> n < 64 \<Longrightarrow> b64cryptAlphabet ! m = b64cryptAlphabet ! n \<longleftrightarrow> m = n"
  using distinct_alphabet by (simp add: nth_eq_iff_index_eq)

lemma emit64_chars: "list_all crypt_char (emit64 v n)"
  by (induction v n rule: emit64.induct) (simp_all add: alphabet_nth and_63)

lemma length_emit64 [simp]: "length (emit64 v n) = n"
  by (induction v n rule: emit64.induct) simp_all

lemma bit_63: "bit (v AND 0x3f :: 'a::len word) i \<longleftrightarrow> i < 6 \<and> bit v i"
  using bit_imp_le_length [of v i] by (auto simp: and_63_take_bit bit_take_bit_iff)

lemma emit64_bits: "emit64 v n = emit64 w n \<Longrightarrow> i < 6 * n \<Longrightarrow> bit v i = bit w i"
proof (induction v n arbitrary: w i rule: emit64.induct)
  case (2 v n)
  then have "v AND 0x3f = w AND 0x3f" by (auto simp: alphabet_inject and_63 word_unat_eq_iff)
  then have low: "bit v j = bit w j" if "j < 6" for j using bit_63 [of v j] bit_63 [of w j] that by simp
  show ?case
  proof (cases "i < 6")
    case False
    from 2(2) have "emit64 (drop_bit 6 v) n = emit64 (drop_bit 6 w) n" by simp
    from 2(1) [OF this, of "i - 6"] 2(3) False show ?thesis by (simp add: bit_drop_bit_eq)
  qed (rule low)
qed simp

lemma number_bits:
  assumes "\<And>i. i < 24 \<Longrightarrow> bit (number a b c) i = bit (number a' b' c') i"
  shows "a = a' \<and> b = b' \<and> c = c'"
proof -
  have "bit a i = bit a' i" "bit b i = bit b' i" "bit c i = bit c' i" if i: "i < 8" for i
    using i assms [of i] assms [of "i + 8"] assms [of "i + 16"]
    by (auto simp: number_def bit_simps dest: bit_imp_le_length)
  then show ?thesis by (auto intro!: bit_word_eqI)
qed

lemma group_inject: "emit64 (number a b c) 4 = emit64 (number a' b' c') 4 \<Longrightarrow> a = a' \<and> b = b' \<and> c = c'"
  using emit64_bits [of "number a b c" 4] by (intro number_bits) simp

lemma concat_map_inject:
  "concat (map F xs) = concat (map G xs) \<Longrightarrow> (\<And>x. x \<in> set xs \<Longrightarrow> length (F x) = length (G x)) \<Longrightarrow>
   x \<in> set xs \<Longrightarrow> F x = G x"
  by (induction xs) auto

lemma group_eq:
  assumes "concat (map (\<lambda>(i, j, k). emit64 (number (f ! i) (f ! j) (f ! k)) 4) gs)
      = concat (map (\<lambda>(i, j, k). emit64 (number (g ! i) (g ! j) (g ! k)) 4) gs)"
    "(i, j, k) \<in> set gs" "n \<in> {i, j, k}"
  shows "f ! n = g ! n"
  using concat_map_inject [OF assms(1) _ assms(2)] group_inject [of "f ! i" "f ! j" "f ! k"] assms(3)
  by fastforce

definition group_indices :: "(nat \<times> nat \<times> nat) list \<Rightarrow> nat list" where
  "group_indices gs = concat (map (\<lambda>(i, j, k). [i, j, k]) gs)"

lemma groups_eq:
  assumes "concat (map (\<lambda>(i, j, k). emit64 (number (f ! i) (f ! j) (f ! k)) 4) gs)
      = concat (map (\<lambda>(i, j, k). emit64 (number (g ! i) (g ! j) (g ! k)) 4) gs)"
    "n \<in> set (group_indices gs)"
  shows "f ! n = g ! n"
proof -
  from assms(2) obtain i j k where "(i, j, k) \<in> set gs" "n \<in> {i, j, k}"
    by (auto simp: group_indices_def)
  from group_eq [OF assms(1) this] show ?thesis .
qed

lemma length_groups: "length (concat (map (\<lambda>(i, j, k). emit64 (number (f ! i) (f ! j) (f ! k)) 4) gs)) = 4 * length gs"
  by (induction gs) auto

lemma groups_chars: "list_all crypt_char (concat (map (\<lambda>(i, j, k). emit64 (number (f ! i) (f ! j) (f ! k)) 4) gs))"
  by (induction gs) (auto simp: emit64_chars)

lemma top_bits: "unat (drop_bit 6 (x :: u8)) < 64"
proof -
  have "unat (drop_bit 6 x) = unat x div 64"
    by (subst unsigned_drop_bit_eq) (simp add: drop_bit_eq_div take_bit_nat_eq_self unsigned_less [of x, simplified])
  moreover have "unat x < 256" using unsigned_less [of x] by simp
  ultimately show ?thesis by simp
qed

text \<open>Every byte of the digest is in exactly one group, or is the tail byte.\<close>

lemma indices_cover:
  assumes "distinct (group_indices gs)" "set (group_indices gs) \<subseteq> A" "finite A" "card A = length (group_indices gs)"
  shows "set (group_indices gs) = A"
  using assms by (simp add: card_subset_eq distinct_card)

lemma md5_cover: "set (group_indices md5_groups) = {..<16} - {11}"
  by (rule indices_cover) (simp_all add: group_indices_def md5_groups_def)

lemma sha512_cover: "set (group_indices sha512_groups) = {..<63}"
  by (rule indices_cover) (simp_all add: group_indices_def sha512_groups_def)

lemma tail_inject:
  "[b64cryptAlphabet ! unat (a AND 0x3f), b64cryptAlphabet ! unat (drop_bit 6 a)]
   = [b64cryptAlphabet ! unat (b AND 0x3f), b64cryptAlphabet ! unat (drop_bit 6 b)] \<Longrightarrow> a = (b :: u8)"
proof -
  have "unat (drop_bit 6 x) < 64" for x :: u8
    by (rule top_bits)
  moreover assume "[b64cryptAlphabet ! unat (a AND 0x3f), b64cryptAlphabet ! unat (drop_bit 6 a)]
    = [b64cryptAlphabet ! unat (b AND 0x3f), b64cryptAlphabet ! unat (drop_bit 6 b)]"
  ultimately have eq: "a AND 0x3f = b AND 0x3f" "drop_bit 6 a = drop_bit 6 b"
    by (simp_all add: alphabet_inject and_63 word_unat_eq_iff)
  have "bit a i = bit b i" for i
    using bit_63 [of a i] bit_63 [of b i] arg_cong [OF eq(2), of "\<lambda>w. bit w (i - 6)"] eq(1)
    by (cases "i < 6") (simp_all add: bit_drop_bit_eq)
  then show ?thesis by (intro bit_word_eqI)
qed

lemma md5_tail_inject: "emit64 (ucast a) 2 = emit64 (ucast b) 2 \<Longrightarrow> a = (b :: u8)"
proof (rule bit_word_eqI)
  fix i assume "emit64 (ucast a) 2 = emit64 (ucast b) 2" "i < LENGTH(8)"
  then show "bit a i = bit b i"
    using emit64_bits [of "ucast a" 2 "ucast b" i] by (simp add: bit_ucast_iff)
qed

lemma md5_encode_shape: "length (md5_encode f) = 22" "list_all crypt_char (md5_encode f)"
  by (simp_all only: md5_encode_def length_append length_groups list_all_append groups_chars emit64_chars)
    (simp_all add: md5_groups_def)

lemma sha512_encode_shape: "length (sha512_encode f) = 86" "list_all crypt_char (sha512_encode f)"
proof -
  have "unat (drop_bit 6 x) < 64" for x :: u8
    by (rule top_bits)
  then have t: "list_all crypt_char [b64cryptAlphabet ! unat (f ! 63 AND 0x3f), b64cryptAlphabet ! unat (drop_bit 6 (f ! 63))]"
    by (simp add: alphabet_nth and_63)
  show "length (sha512_encode f) = 86"
    unfolding sha512_encode_def b64From24bit_def length_append length_groups by (simp add: sha512_groups_def)
  show "list_all crypt_char (sha512_encode f)"
    unfolding sha512_encode_def b64From24bit_def list_all_append using groups_chars t by simp
qed

lemma md5_encode_inject:
  assumes "length f = 16" "length g = 16" "md5_encode f = md5_encode g"
  shows "f = g"
proof (rule nth_equalityI)
  have split: "concat (map (\<lambda>(i, j, k). emit64 (number (f ! i) (f ! j) (f ! k)) 4) md5_groups)
      = concat (map (\<lambda>(i, j, k). emit64 (number (g ! i) (g ! j) (g ! k)) 4) md5_groups)
    \<and> emit64 (ucast (f ! 11)) 2 = emit64 (ucast (g ! 11)) 2"
    using assms(3) unfolding md5_encode_def
    by (subst (asm) append_eq_append_conv) (simp_all add: length_groups)
  then have "f ! 11 = g ! 11" using md5_tail_inject by blast
  then show "f ! n = g ! n" if "n < length f" for n
    using groups_eq [of f md5_groups g n] split that assms(1) by (cases "n = 11") (simp_all add: md5_cover)
qed (simp add: assms)

lemma sha512_encode_inject:
  assumes "length f = 64" "length g = 64" "sha512_encode f = sha512_encode g"
  shows "f = g"
proof (rule nth_equalityI)
  have split: "concat (map (\<lambda>(i, j, k). emit64 (number (f ! i) (f ! j) (f ! k)) 4) sha512_groups)
      = concat (map (\<lambda>(i, j, k). emit64 (number (g ! i) (g ! j) (g ! k)) 4) sha512_groups)
    \<and> f ! 63 = g ! 63"
    using assms(3) tail_inject [of "f ! 63" "g ! 63"] unfolding sha512_encode_def b64From24bit_def
    by (subst (asm) append_eq_append_conv) (simp_all add: length_groups)
  then show "f ! n = g ! n" if "n < length f" for n
    using groups_eq [of f sha512_groups g n] that assms(1)
    by (cases "n = 63") (simp_all add: sha512_cover)
qed (simp add: assms)

section \<open>Formats\<close>

lemma crypt_no_dollar: "list_all crypt_char s \<Longrightarrow> CHR ''$'' \<notin> set s"
  by (auto simp: list_all_iff crypt_char_def)

lemma has_prefix_append [simp]: "has_prefix p (p @ s)"
  by (simp add: has_prefix_iff)

lemma crypt_body_Some:
  "crypt_body magic lo hi dlen s = Some salt \<longleftrightarrow>
    (\<exists>dig. s = magic @ salt @ ''$'' @ dig \<and> lo \<le> length salt \<and> length salt \<le> hi \<and> list_all crypt_char salt
       \<and> length dig = dlen \<and> list_all crypt_char dig)"
proof
  assume "crypt_body magic lo hi dlen s = Some salt"
  then obtain dig where "has_prefix magic s" "cut_at (CHR ''$'') (drop (length magic) s) = Some (salt, dig)"
    and d: "lo \<le> length salt" "length salt \<le> hi" "list_all crypt_char salt" "length dig = dlen" "list_all crypt_char dig"
    by (auto simp: crypt_body_def split: if_splits option.splits)
  then have "s = magic @ salt @ ''$'' @ dig" by (auto simp: has_prefix_iff cut_at_Some)
  with d show "\<exists>dig. s = magic @ salt @ ''$'' @ dig \<and> lo \<le> length salt \<and> length salt \<le> hi
      \<and> list_all crypt_char salt \<and> length dig = dlen \<and> list_all crypt_char dig" by blast
next
  assume "\<exists>dig. s = magic @ salt @ ''$'' @ dig \<and> lo \<le> length salt \<and> length salt \<le> hi
      \<and> list_all crypt_char salt \<and> length dig = dlen \<and> list_all crypt_char dig"
  then obtain dig where d: "s = magic @ salt @ ''$'' @ dig" "lo \<le> length salt" "length salt \<le> hi"
      "list_all crypt_char salt" "length dig = dlen" "list_all crypt_char dig" by blast
  have "cut_at (CHR ''$'') (salt @ ''$'' @ dig) = Some (salt, dig)"
    using crypt_no_dollar [OF d(4)] by (simp add: cut_at_Some)
  with d show "crypt_body magic lo hi dlen s = Some salt" by (simp add: crypt_body_def)
qed

text \<open>The interface: the magic, the salt and the digest text of a stored hash, written and read.\<close>

definition crypt_text :: "string \<Rightarrow> string \<times> string \<Rightarrow> string" where
  "crypt_text magic sd = magic @ fst sd @ ''$'' @ snd sd"

definition read_crypt :: "string \<Rightarrow> nat \<Rightarrow> nat \<Rightarrow> nat \<Rightarrow> string \<Rightarrow> (string \<times> string) option" where
  "read_crypt magic lo hi dlen s = (case crypt_body magic lo hi dlen s of
     None \<Rightarrow> None | Some salt \<Rightarrow> Some (salt, drop (length magic + length salt + 1) s))"

definition crypt_ok :: "nat \<Rightarrow> nat \<Rightarrow> nat \<Rightarrow> string \<times> string \<Rightarrow> bool" where
  "crypt_ok lo hi dlen sd \<longleftrightarrow> lo \<le> length (fst sd) \<and> length (fst sd) \<le> hi \<and> list_all crypt_char (fst sd)
     \<and> length (snd sd) = dlen \<and> list_all crypt_char (snd sd)"

lemma read_crypt_text: "crypt_ok lo hi dlen sd \<Longrightarrow> read_crypt magic lo hi dlen (crypt_text magic sd) = Some sd"
proof -
  assume ok: "crypt_ok lo hi dlen sd"
  then have "crypt_body magic lo hi dlen (crypt_text magic sd) = Some (fst sd)"
    unfolding crypt_body_Some crypt_text_def crypt_ok_def by blast
  then show ?thesis by (simp add: read_crypt_def crypt_text_def)
qed

interpretation md5_hash: codec "crypt_text ''$1$''" "read_crypt ''$1$'' 8 8 22" "crypt_ok 8 8 22"
  by unfold_locales (rule read_crypt_text)

interpretation sha512_hash: codec "crypt_text ''$6$''" "read_crypt ''$6$'' 1 16 86" "crypt_ok 1 16 86"
  by unfold_locales (rule read_crypt_text)

section \<open>Properties\<close>

definition rand_ok :: "(nat \<Rightarrow> bytes option) \<Rightarrow> bool" where
  "rand_ok rnd \<longleftrightarrow> (\<forall>n b. rnd n = Some b \<longrightarrow> length b = n)"

lemma md5Crypt_shape:
  assumes "rand_ok rnd" "md5Crypt H rnd pw = Some h"
  obtains salt where "h = crypt_text ''$1$'' (salt, md5_encode (md5_final H (bytes_of pw) (bytes_of salt)))"
    "list_all crypt_char salt" "length salt = 8"
proof -
  from assms(2) obtain b where b: "rnd 8 = Some b"
    and h: "h = crypt_text ''$1$'' (map (\<lambda>b. letters ! (unat b mod length letters)) b,
        md5CryptRaw H (bytes_of pw) (bytes_of (map (\<lambda>b. letters ! (unat b mod length letters)) b)))"
    by (auto simp: md5Crypt_def randAlphaSaltLive_def crypt_text_def split: option.splits)
  have "list_all crypt_char (map (\<lambda>b. letters ! (unat b mod length letters)) b)"
    using letters_chars by (auto simp: list_all_iff)
  moreover have "length b = 8" using assms(1) b by (simp add: rand_ok_def)
  ultimately show thesis using h that by (simp add: md5CryptRaw_def)
qed

lemma sha512Crypt_shape:
  assumes "rand_ok rnd" "sha512Crypt H rnd pw = Some h"
  obtains salt where "h = crypt_text ''$6$'' (salt, sha512_encode (sha512_final H (bytes_of pw) (bytes_of salt)))"
    "list_all crypt_char salt" "length salt = 8"
proof -
  let ?s = "map (\<lambda>b. b64cryptAlphabet ! (unat b mod length b64cryptAlphabet))"
  from assms(2) obtain b where b: "rnd 8 = Some b" and h: "h = sha512CryptRaw H (bytes_of pw) (bytes_of (?s b))"
    by (auto simp: sha512Crypt_def randSaltLive_def split: option.splits)
  have "list_all crypt_char (?s b)" by (auto simp: list_all_iff alphabet_nth)
  moreover have l: "length (?s b) = 8" using assms(1) b by (simp add: rand_ok_def)
  moreover have "h = crypt_text ''$6$'' (?s b, sha512_encode (sha512_final H (bytes_of pw) (bytes_of (?s b))))"
  proof -
    have "bytes_of (?s b) \<noteq> []" using l by (metis length_bytes_of list.size(3) zero_neq_numeral)
    moreover have "take 16 (bytes_of (?s b)) = bytes_of (?s b)" using l by simp
    ultimately show ?thesis by (simp add: h sha512CryptRaw_def crypt_text_def del: length_map)
  qed
  ultimately show thesis using that by blast
qed

lemma bytes_of_Nil_iff [simp]: "bytes_of s = [] \<longleftrightarrow> s = []"
  by (simp add: bytes_of_def)

lemma md5CryptMatches_text:
  assumes "CHR ''$'' \<notin> set salt" "salt \<noteq> []" "length salt \<le> 8"
  shows "md5CryptMatches H pw (crypt_text ''$1$'' (salt, dig)) \<longleftrightarrow> md5CryptRaw H (bytes_of pw) (bytes_of salt) = dig"
proof -
  have "cut_at (CHR ''$'') (salt @ CHR ''$'' # dig) = Some (salt, dig)"
    using assms(1) by (simp add: cut_at_Some)
  then show ?thesis using assms by (simp add: md5CryptMatches_def crypt_text_def)
qed

lemma sha512CryptMatches_text:
  assumes "crypt_ok 1 16 86 (salt, dig)"
  shows "sha512CryptMatches H pw (crypt_text ''$6$'' (salt, dig))
    \<longleftrightarrow> sha512CryptRaw H (bytes_of pw) (bytes_of salt) = crypt_text ''$6$'' (salt, dig)"
proof -
  have "sha512BodyRx (crypt_text ''$6$'' (salt, dig)) = Some salt"
    unfolding sha512BodyRx_def crypt_body_Some using assms by (simp add: crypt_ok_def crypt_text_def)
  then show ?thesis by (simp add: sha512CryptMatches_def)
qed

lemma cache_formats:
  "length salt = 8 \<Longrightarrow> list_all crypt_char salt \<Longrightarrow> md5CacheFormatRx (crypt_text ''$1$'' (salt, md5_encode d))"
  "length salt = 8 \<Longrightarrow> list_all crypt_char salt \<Longrightarrow> sha512CacheFormatRx (crypt_text ''$6$'' (salt, sha512_encode d))"
  using md5_hash.dec_enc [of "(salt, md5_encode d)"]
    read_crypt_text [of 8 8 86 "(salt, sha512_encode d)" "''$6$''"]
  by (auto simp: md5CacheFormatRx_def sha512CacheFormatRx_def read_crypt_def crypt_ok_def
      md5_encode_shape sha512_encode_shape split: option.splits)

lemma cache_families: "\<not> (md5CacheFormatRx h \<and> sha512CacheFormatRx h)"
  by (auto simp: md5CacheFormatRx_def sha512CacheFormatRx_def crypt_body_def has_prefix_iff split: if_splits)

text \<open>A fresh hash has the cache format of its family and matches the password it was made from.\<close>

lemma fresh_hash_ok:
  assumes "rand_ok rnd"
  shows "md5Crypt H rnd pw = Some h \<Longrightarrow>
      md5CacheFormatRx h \<and> md5CryptMatches H pw h \<and> \<not> sha512CacheFormatRx h"
    and "sha512Crypt H rnd pw = Some h \<Longrightarrow>
      sha512CacheFormatRx h \<and> sha512CryptMatches H pw h \<and> \<not> md5CacheFormatRx h"
proof -
  assume m: "md5Crypt H rnd pw = Some h"
  from md5Crypt_shape [OF assms m] obtain salt
    where h: "h = crypt_text ''$1$'' (salt, md5_encode (md5_final H (bytes_of pw) (bytes_of salt)))"
      and s: "list_all crypt_char salt" "length salt = 8" .
  then have "md5CacheFormatRx h" by (simp add: cache_formats)
  moreover have "md5CryptMatches H pw h"
    unfolding h by (subst md5CryptMatches_text) (use s crypt_no_dollar in \<open>auto simp: md5CryptRaw_def\<close>)
  ultimately show "md5CacheFormatRx h \<and> md5CryptMatches H pw h \<and> \<not> sha512CacheFormatRx h"
    using cache_families by auto
next
  assume m: "sha512Crypt H rnd pw = Some h"
  from sha512Crypt_shape [OF assms m] obtain salt
    where h: "h = crypt_text ''$6$'' (salt, sha512_encode (sha512_final H (bytes_of pw) (bytes_of salt)))"
      and s: "list_all crypt_char salt" "length salt = 8" .
  then have "sha512CacheFormatRx h" by (simp add: cache_formats)
  moreover have "sha512CryptMatches H pw h"
    unfolding h by (subst sha512CryptMatches_text)
      (use s in \<open>auto simp: crypt_ok_def sha512_encode_shape sha512CryptRaw_def crypt_text_def Let_def\<close>)
  ultimately show "sha512CacheFormatRx h \<and> sha512CryptMatches H pw h \<and> \<not> md5CacheFormatRx h"
    using cache_families by auto
qed

lemma fresh_hash_total: "rnd 8 = Some b \<Longrightarrow> md5Crypt H rnd pw \<noteq> None \<and> sha512Crypt H' rnd pw \<noteq> None"
  by (auto simp: md5Crypt_def sha512Crypt_def randAlphaSaltLive_def randSaltLive_def)

text \<open>
  The check of a stored SHA-512 hash loses nothing of the digest: a hash made from one password
  matches another password only when the two final digests under its salt are equal, byte for byte.
\<close>

theorem stored_hash_exact:
  assumes "rand_ok rnd" "\<And>m. length (H m) = 64" "sha512Crypt H rnd pw = Some h"
  shows "\<exists>salt. length salt = 8 \<and> (sha512CryptMatches H pw' h \<longleftrightarrow>
     sha512_final H (bytes_of pw') salt = sha512_final H (bytes_of pw) salt)"
proof -
  from sha512Crypt_shape [OF assms(1,3)] obtain salt
    where h: "h = crypt_text ''$6$'' (salt, sha512_encode (sha512_final H (bytes_of pw) (bytes_of salt)))"
      and s: "list_all crypt_char salt" "length salt = 8" .
  have l: "length (sha512_final H k (bytes_of salt)) = 64" for k
  proof -
    have "length (fold (\<lambda>i d. H (round_input p q i d)) [0..<Suc n] a) = 64" for p q n a
      by (simp add: assms(2))
    from this [of _ _ 4999] show ?thesis by (simp add: sha512_final_def Let_def)
  qed
  have "sha512CryptMatches H pw' h \<longleftrightarrow>
      sha512_encode (sha512_final H (bytes_of pw') (bytes_of salt))
      = sha512_encode (sha512_final H (bytes_of pw) (bytes_of salt))"
    unfolding h by (subst sha512CryptMatches_text)
      (use s in \<open>auto simp: crypt_ok_def sha512_encode_shape sha512CryptRaw_def crypt_text_def Let_def\<close>)
  also have "\<dots> \<longleftrightarrow> sha512_final H (bytes_of pw') (bytes_of salt) = sha512_final H (bytes_of pw) (bytes_of salt)"
    by (auto dest: sha512_encode_inject [OF l l])
  finally show ?thesis using s by (intro exI [of _ "bytes_of salt"]) simp
qed

lemma stored_hash_exact_witness:
  "\<exists>h salt. sha512Crypt (\<lambda>_. replicate 64 0) (\<lambda>n. Some (replicate n 7)) ''ubnt'' = Some h
     \<and> length salt = 8 \<and> (sha512CryptMatches (\<lambda>_. replicate 64 0) ''other'' h \<longleftrightarrow>
     sha512_final (\<lambda>_. replicate 64 0) (bytes_of ''other'') salt = sha512_final (\<lambda>_. replicate 64 0) (bytes_of ''ubnt'') salt)"
proof -
  have r: "rand_ok (\<lambda>n. Some (replicate n 7))" by (simp add: rand_ok_def)
  obtain h where "sha512Crypt (\<lambda>_. replicate 64 0) (\<lambda>n. Some (replicate n 7)) ''ubnt'' = Some h"
    by (simp add: sha512Crypt_def randSaltLive_def)
  with stored_hash_exact [OF r _ this, of "''other''"] show ?thesis by auto
qed

end
