(* ===== verification/System_Cfg.thy ===== *)
theory System_Cfg
  imports Cfg_Wireless Ssh_Keys Password_Crypt
begin

text \<open>
  The system_cfg renderer \<^verbatim>\<open>internal/server/systemcfg/render.go\<close>, the diagnostic of a rendered text
  (\<^verbatim>\<open>diagnostic.go\<close>) and the server's call of both (\<^verbatim>\<open>renderSystemCfg\<close>, \<^verbatim>\<open>ValidateConfig\<close> in
  \<^verbatim>\<open>internal/server/server.go\<close>). The digests, the random source and the URL parser are parameters; the
  random source is what the one draw of a render returns.
\<close>

unbundle bit_operations_syntax

section \<open>The password row\<close>

record hasher =
  hs_md5 :: "bytes \<Rightarrow> bytes"
  hs_sha512 :: "bytes \<Rightarrow> bytes"
  hs_rand :: "nat \<Rightarrow> bytes option"

datatype render_error = BadKey key_error | SaltFailed | EmptyHash | BadConfig

type_synonym credential_deltas = "(string \<times> string) list"

definition defaultSSHPassword :: string where "defaultSSHPassword = ''ubnt''"

definition supportsSha512Password :: "device \<Rightarrow> bool" where
  "supportsSha512Password d = (let (ok, caps) = NumFromExtra (ext d) ''fw_caps'' in ok \<and> caps AND 0x400 = 0x400)"

text \<open>A fresh hash and the delta that caches it under \<open>k\<close>.\<close>

definition fresh_password :: "string \<Rightarrow> string option \<Rightarrow> render_error + string \<times> credential_deltas" where
  "fresh_password k h = (case h of None \<Rightarrow> Inl SaltFailed
     | Some fresh \<Rightarrow> if fresh = [] then Inl EmptyHash else Inr (fresh, [(k, fresh)]))"

definition usersPasswordHash :: "hasher \<Rightarrow> device \<Rightarrow> render_error + string \<times> credential_deltas" where
  "usersPasswordHash hs d =
    (if \<not> supportsSha512Password d
     then let cached = opt_or [] (get_str (ext d) SSHMd5PasswdKey)
       in if dev_ssh_password d = []
          then if md5CacheFormatRx cached then Inr (cached, [])
            else fresh_password SSHMd5PasswdKey (md5Crypt (hs_md5 hs) (hs_rand hs) defaultSSHPassword)
          else if cached \<noteq> [] \<and> md5CryptMatches (hs_md5 hs) (dev_ssh_password d) cached then Inr (cached, [])
            else fresh_password SSHMd5PasswdKey (md5Crypt (hs_md5 hs) (hs_rand hs) (dev_ssh_password d))
     else let cached = opt_or [] (get_str (ext d) SSHSha512PasswdKey)
       in if dev_ssh_password d = []
          then if sha512CacheFormatRx cached then Inr (cached, [])
            else fresh_password SSHSha512PasswdKey (sha512Crypt (hs_sha512 hs) (hs_rand hs) defaultSSHPassword)
          else if cached \<noteq> [] \<and> sha512CryptMatches (hs_sha512 hs) (dev_ssh_password d) cached then Inr (cached, [])
            else fresh_password SSHSha512PasswdKey (sha512Crypt (hs_sha512 hs) (hs_rand hs) (dev_ssh_password d)))"

section \<open>The sections of the text\<close>

definition DefaultRegulatoryCountryCode :: int where "DefaultRegulatoryCountryCode = 840"

definition country_of :: "device \<Rightarrow> int" where
  "country_of d = (if dev_country_code d = 0 then DefaultRegulatoryCountryCode else dev_country_code d)"

text \<open>A row that is only written for a non-empty string of the record.\<close>

definition opt_row :: "string \<Rightarrow> string option \<Rightarrow> (string \<times> string) list" where
  "opt_row k v = (if opt_or [] v \<noteq> [] then [(k, opt_or [] v)] else [])"

definition unifi_rows :: "device \<Rightarrow> (string \<times> string) list" where
  "unifi_rows d =
    [(''unifi.version'', ''0.1.0-dev'')]
    @ opt_row ''unifi.anonymous_controller_id'' (get_str (ext d) AnonymousControllerIDKey)
    @ opt_row ''unifi.anonymous_site_id'' (get_str (ext d) AnonymousSiteIDKey)
    @ opt_row ''unifi.reporterid'' (get_str (ext d) AnonymousControllerIDKey)
    @ [(''unifi.siteid'', SiteRef d), (''unifi.idp'', ''disabled''), (''unifi.cfgcap_info'', ''0x7'')]"

definition users_rows :: "string \<Rightarrow> (string \<times> string) list" where
  "users_rows users1pw =
    [(''users.status'', ''enabled''),
     (''users.1.name'', ''ubnt''),
     (''users.1.password'', users1pw),
     (''users.1.status'', ''enabled''),
     (''users.2.name'', ''nobody''),
     (''users.2.password'', ''x''),
     (''users.2.shell'', ''/bin/false''),
     (''users.2.status'', ''enabled'')]"

definition connectivity_rows :: "device \<Rightarrow> (string \<times> string) list" where
  "connectivity_rows d =
    [(''connectivity.status'', ''enabled''),
     (''connectivity.uplink_bridge'', mgmtDevOf d),
     (''connectivity.uplink_eth'', fst (ethPortNames d) ! 0),
     (''connectivity.uplink_wds'', ''ath'' @ itoa (int (length (StoredRadios d)) - 1))]"

definition syslog_rows :: "(string \<times> string) list" where
  "syslog_rows =
    [(''syslog.status'', ''enabled''),
     (''syslog.file'', ''/var/log/messages''),
     (''syslog.level'', ''8''),
     (''syslog.remote.status'', ''disabled''),
     (''syslog.remote.ip'', ''192.168.1.1''),
     (''syslog.remote.port'', ''514''),
     (''syslog.rotate'', ''1''),
     (''syslog.size'', ''200'')]"

definition sshd_rows :: "device \<Rightarrow> (string \<times> string) list" where
  "sshd_rows d =
    [(''sshd.status'', ''enabled''),
     (''sshd.auth.passwd'', ''enabled''),
     (''sshd.1.status'', ''enabled''),
     (''sshd.1.ifname'', mgmtDevOf d)]"

definition key_rows :: "public_key \<Rightarrow> (string \<times> string) list" where
  "key_rows k =
    [(''status'', ''enabled''), (''value'', pk_value k), (''type'', pk_type k)]
    @ (if pk_comment k \<noteq> [] then [(''comment'', pk_comment k)] else [])"

definition route_rows :: "device \<Rightarrow> (string \<times> string) list" where
  "route_rows d =
    [(''route.status'', ''enabled''),
     (''route.1.status'', ''enabled''),
     (''route.1.devname'', mgmtDevOf d),
     (''route.1.ip'', ''224.0.0.0''),
     (''route.1.netmask'', ''3'')]"

definition ntpclient_rows :: "(string \<times> string) list" where
  "ntpclient_rows =
    [(''ntpclient.status'', ''enabled''),
     (''ntpclient.1.status'', ''enabled''),
     (''ntpclient.1.server'', ''0.ubnt.pool.ntp.org'')]"

definition echo_rows :: "(string \<times> string) list" where
  "echo_rows =
    [(''ebtables.status'', ''enabled''),
     (''ebtables.1.cmd'', ''-t broute -A BROUTING -p 0x888e -i ath0 -j DROP''),
     (''mgmt.discovery.status'', ''enabled''),
     (''mgmt.flavor'', ''ace''),
     (''dhcpd.status'', ''disabled''),
     (''dhcpd.1.status'', ''disabled''),
     (''httpd.status'', ''disabled'')]"

definition raw_lines :: "device \<Rightarrow> string list" where
  "raw_lines d = concat (map (\<lambda>v. case v of GStr l \<Rightarrow> [l] | _ \<Rightarrow> [])
     (opt_or [] (get_arr (ext d) SystemCfgExtraLinesKey)))"

text \<open>Everything the builder is given, in order.\<close>

definition system_emissions :: "device \<Rightarrow> provisioning_plan \<Rightarrow> public_key list \<Rightarrow> string \<Rightarrow> emission list" where
  "system_emissions d plan keys users1pw =
    (let line = rows ''system_cfg'' []
     in [Head ''# unifi''] @ line (unifi_rows d)
        @ [Head ''# users''] @ line (users_rows users1pw)
        @ emitLedBar d
        @ emitWirelessCfg (country_of d) plan d
        @ [Head ''# connectivity''] @ line (connectivity_rows d)
        @ [Head ''# syslog''] @ line syslog_rows
        @ line (sshd_rows d)
        @ blocks ''system_cfg'' ''sshd.auth.key.'' (map key_rows keys)
        @ [Head ''# route''] @ line (route_rows d)
        @ [Head ''# ntpclient''] @ line ntpclient_rows
        @ [Head ''# ebtables''] @ line echo_rows
        @ map Raw (raw_lines d))"

section \<open>The renderer\<close>

record site_facts =
  sf_controller_url :: string
  sf_wlans :: "wlan list option"

record render_result =
  rs_text :: string
  rs_warnings :: "string list"
  rs_alerts :: "alert list"
  rs_deltas :: credential_deltas

definition RenderWithPlan :: "hasher \<Rightarrow> device \<Rightarrow> site_facts \<Rightarrow> provisioning_plan \<Rightarrow> render_error + render_result" where
  "RenderWithPlan hs d facts plan = (case parseDeviceSSHPublicKeys (dev_ssh_keys d) of
     Inl e \<Rightarrow> Inl (BadKey e)
   | Inr keys \<Rightarrow> and_then (usersPasswordHash hs d) (\<lambda>(users1pw, ds).
       let (text, alerts) = run_emissions (system_emissions d plan keys users1pw)
       in Inr \<lparr>rs_text = text, rs_warnings = wireless_warnings d, rs_alerts = alerts, rs_deltas = ds\<rparr>))"

definition Render :: "json_text \<Rightarrow> hasher \<Rightarrow> device \<Rightarrow> site_facts \<Rightarrow> render_error + render_result" where
  "Render jt hs d facts = RenderWithPlan hs d facts (PlanProvisioning jt d (opt_or [] (sf_wlans facts)))"

section \<open>The diagnostic\<close>

text \<open>The loop's state: the section, the section and key lists, and the keys seen per section.\<close>

record diag =
  dg_section :: string
  dg_sections :: "string list"
  dg_keys :: "string list"
  dg_seen :: "string list"

definition trim_cr :: "string \<Rightarrow> string" where
  "trim_cr l = opt_or l (cut_suffix [CHR 0x0D] l)"

definition duplicate_id :: "string \<Rightarrow> string \<Rightarrow> string" where
  "duplicate_id sec key = sec @ [CHR 0x00] @ key"

definition diag_key :: "string \<Rightarrow> diag \<Rightarrow> string + diag" where
  "diag_key key g =
    (if key = [] \<or> \<not> safeDiagnosticName key then Inr g
     else if duplicate_id (dg_section g) key \<in> set (dg_seen g) then Inl key
     else Inr (g\<lparr>dg_seen := duplicate_id (dg_section g) key # dg_seen g, dg_keys := dg_keys g @ [key]\<rparr>))"

definition diag_line :: "string \<Rightarrow> diag \<Rightarrow> string + diag" where
  "diag_line raw g =
    (let line = trim_cr raw
     in if line = [] then Inr g
        else if has_prefix ''# '' line
        then let sec = trim_space (drop 2 line)
          in Inr (g\<lparr>dg_section := sec,
               dg_sections := (if sec \<noteq> [] \<and> sec \<notin> set (dg_sections g) then dg_sections g @ [sec] else dg_sections g)\<rparr>)
        else case index_of (CHR ''='') line of
          None \<Rightarrow> Inr g
        | Some eq \<Rightarrow> if eq < 1 then Inr g else diag_key (trim_space (take eq line)) g)"

fun diag_lines :: "string list \<Rightarrow> diag \<Rightarrow> string + diag" where
  "diag_lines [] g = Inr g"
| "diag_lines (l # ls) g = and_then (diag_line l g) (diag_lines ls)"

definition diag_start :: diag where
  "diag_start = \<lparr>dg_section = [], dg_sections = [], dg_keys = [], dg_seen = []\<rparr>"

text \<open>\<open>sha\<close> is the SHA-256 digest in lower-case hexadecimal; an error carries the repeated key.\<close>

definition Diagnostic :: "(string \<Rightarrow> string) \<Rightarrow> string \<Rightarrow> string + string" where
  "Diagnostic sha cfg = and_then (diag_lines (split_on nl cfg) diag_start)
     (\<lambda>g. Inr (''system_cfg diagnostic sha256='' @ sha cfg @ '' sections=['' @ join_with '','' (dg_sections g)
        @ ''] keys=['' @ join_with '','' (dg_keys g) @ '']''))"

section \<open>The server's call\<close>

text \<open>\<^verbatim>\<open>url.ParseRequestURI\<close>'s result, as far as \<^verbatim>\<open>validateBaseURL\<close> reads it.\<close>

record request_uri =
  ru_abs :: bool
  ru_scheme :: string
  ru_host :: string
  ru_user :: bool
  ru_raw_query :: string
  ru_fragment :: string

datatype url_error = NotAbsolute | HasUserinfo | HasQueryOrFragment

definition validateBaseURL :: "(string \<Rightarrow> request_uri option) \<Rightarrow> string \<Rightarrow> url_error option" where
  "validateBaseURL parse raw = (case parse raw of
     None \<Rightarrow> Some NotAbsolute
   | Some u \<Rightarrow>
       if \<not> ru_abs u \<or> ru_scheme u \<noteq> ''http'' \<and> ru_scheme u \<noteq> ''https'' \<or> ru_host u = [] then Some NotAbsolute
       else if ru_user u then Some HasUserinfo
       else if ru_raw_query u \<noteq> [] \<or> ru_fragment u \<noteq> [] then Some HasQueryOrFragment
       else None)"

definition ValidateConfig :: "(string \<Rightarrow> request_uri option) \<Rightarrow> string \<Rightarrow> url_error option" where
  "ValidateConfig parse controllerURL =
    (if controllerURL \<noteq> [] then validateBaseURL parse controllerURL else None)"

text \<open>The log lines of one render, in order, and what the engine gets.\<close>

datatype log_line = LogDebug string | LogWarn string | LogWarnRow string string string

definition alert_log :: "alert \<Rightarrow> log_line" where
  "alert_log a = (if at_where a \<noteq> [] then LogWarnRow (at_msg a) (at_where a) (at_key a) else LogWarn (at_msg a))"

definition render_log :: "(string \<Rightarrow> string) \<Rightarrow> render_result \<Rightarrow> log_line list" where
  "render_log sha res = map LogDebug (rs_warnings res) @ map alert_log (rs_alerts res)
     @ [LogDebug (case Diagnostic sha (rs_text res) of
          Inr diagnostic \<Rightarrow> diagnostic | Inl _ \<Rightarrow> ''system_cfg diagnostic unavailable'')]"

definition renderSystemCfg :: "(string \<Rightarrow> request_uri option) \<Rightarrow> string \<Rightarrow> (string \<Rightarrow> string) \<Rightarrow> hasher \<Rightarrow>
    device \<Rightarrow> wlan list option \<Rightarrow> provisioning_plan \<Rightarrow> (string \<times> credential_deltas) option \<times> log_line list" where
  "renderSystemCfg parse url sha hs d wls plan =
    (if ValidateConfig parse url \<noteq> None then (None, [])
     else case RenderWithPlan hs d \<lparr>sf_controller_url = url, sf_wlans = wls\<rparr> plan of
       Inl e \<Rightarrow> (None, [])
     | Inr res \<Rightarrow> (Some (rs_text res, rs_deltas res), render_log sha res))"

section \<open>The rendered lines\<close>

lemma named_system:
  "named (unifi_rows d)" "named (users_rows pw)" "named (connectivity_rows d)" "named syslog_rows"
  "named (sshd_rows d)" "named (key_rows k)" "named (route_rows d)" "named ntpclient_rows" "named echo_rows"
proof -
  have "list_all safeDiagnosticName
    [''unifi.version'', ''unifi.anonymous_controller_id'', ''unifi.anonymous_site_id'', ''unifi.reporterid'',
     ''unifi.siteid'', ''unifi.idp'', ''unifi.cfgcap_info'', ''users.status'', ''users.1.name'', ''users.1.password'',
     ''users.1.status'', ''users.2.name'', ''users.2.password'', ''users.2.shell'', ''users.2.status'',
     ''connectivity.status'', ''connectivity.uplink_bridge'', ''connectivity.uplink_eth'', ''connectivity.uplink_wds'',
     ''sshd.status'', ''sshd.auth.passwd'', ''sshd.1.status'', ''sshd.1.ifname'', ''status'', ''value'', ''type'', ''comment'',
     ''route.status'', ''route.1.status'', ''route.1.devname'', ''route.1.ip'', ''route.1.netmask'']" by code_simp
  then show "named (unifi_rows d)" "named (users_rows pw)" "named (connectivity_rows d)"
      "named (sshd_rows d)" "named (key_rows k)" "named (route_rows d)"
    by (simp_all add: unifi_rows_def opt_row_def users_rows_def connectivity_rows_def sshd_rows_def key_rows_def route_rows_def)
  show "named syslog_rows" "named ntpclient_rows" "named echo_rows" by code_simp+
qed

lemma tidy_system: "list_all unbroken (system_emissions d plan keys pw)"
proof -
  have lit: "list_all (\<lambda>h. nl \<notin> set h)
     [''# unifi'', ''# users'', ''# connectivity'', ''# syslog'', ''# route'', ''# ntpclient'', ''# ebtables'']"
    "list_all safe_char ''sshd.auth.key.''" by code_simp+
  have "list_all named (map key_rows keys)" "list_all unbroken (map Raw ls)" for ls
    by (simp_all add: list_all_iff named_system)
  with lit show ?thesis
    by (simp add: system_emissions_def Let_def tidy_rows_named tidy_blocks_named named_system tidy_ledbar tidy_wireless)
qed

lemma RenderWithPlan_Inr:
  assumes "RenderWithPlan hs d facts plan = Inr res"
  obtains keys pw where "parseDeviceSSHPublicKeys (dev_ssh_keys d) = Inr keys"
    "usersPasswordHash hs d = Inr (pw, rs_deltas res)"
    "run_emissions (system_emissions d plan keys pw) = (rs_text res, rs_alerts res)"
    "rs_warnings res = wireless_warnings d"
  using assms by (auto simp: RenderWithPlan_def and_then_Inr case_prod_beta split: sum.splits)

text \<open>Where a literal or raw line may come from.\<close>

definition section_heads :: "string list" where
  "section_heads = [''# unifi'', ''# users'', ''# no wlan provisioned as no radio found'', ''radio.status=disabled'',
     ''# wlans (radio)'', ''# vlan'', ''# bridge'', ''# netconf'', ''# dhcpc'', ''# connectivity'', ''# syslog'',
     ''# route'', ''# ntpclient'', ''# ebtables'']"

fun sourced :: "device \<Rightarrow> emission \<Rightarrow> bool" where
  "sourced d (Head h) \<longleftrightarrow> h \<in> set section_heads"
| "sourced d (Row w k v) \<longleftrightarrow> safeDiagnosticName k"
| "sourced d (Raw l) \<longleftrightarrow> l \<in> set (raw_lines d)"
| "sourced d (Alerted a) \<longleftrightarrow> True"

fun is_row :: "emission \<Rightarrow> bool" where
  "is_row (Head h) \<longleftrightarrow> False"
| "is_row (Raw l) \<longleftrightarrow> False"
| "is_row _ \<longleftrightarrow> True"

lemma is_row_rows [simp]: "list_all is_row (rows w p kvs)" "list_all is_row (blocks w p kvss)"
  by (auto simp: rows_def blocks_def list_all_iff)

lemma is_row_alerts [simp]: "list_all is_row (map Alerted al)"
  by (simp add: list_all_iff)

lemma is_row_vaps [simp]: "list_all is_row (emit_vaps n vs oh das bga dn)"
  by (induction vs arbitrary: n dn) (simp_all add: case_prod_beta Let_def emitAaaRows_def emitWirelessRows_def)

lemma sourced_row: "is_row e \<Longrightarrow> unbroken e \<Longrightarrow> sourced d e"
  by (cases e) simp_all

definition headed :: "device \<Rightarrow> emission list \<Rightarrow> bool" where
  "headed d es \<longleftrightarrow> list_all (\<lambda>e. is_row e \<or> sourced d e) es"

lemma headed_simps [simp]:
  "headed d []" "headed d (e # es) \<longleftrightarrow> (is_row e \<or> sourced d e) \<and> headed d es"
  "headed d (es @ fs) \<longleftrightarrow> headed d es \<and> headed d fs"
  "headed d (rows w p kvs)" "headed d (blocks w p kvss)" "headed d (emit_vaps n vs oh das bga dn)"
  "headed d (map Raw (raw_lines d))"
  using is_row_rows is_row_vaps by (auto simp: headed_def list_all_iff)

lemma headed_wireless: "headed d (emitWirelessCfg cc plan d')"
proof -
  have "list_all (\<lambda>h. h \<in> set section_heads)
    [''# no wlan provisioned as no radio found'', ''radio.status=disabled'', ''# wlans (radio)'', ''# vlan'', ''# bridge'',
     ''# netconf'', ''# dhcpc'']" by code_simp
  then show ?thesis
    by (simp add: emitWirelessCfg_def emitVlanBlocks_def emitNetconfSection_def case_prod_beta Let_def)
qed

lemma sourced_system: "list_all (sourced d) (system_emissions d plan keys pw)"
proof -
  have "list_all (\<lambda>h. h \<in> set section_heads)
    [''# unifi'', ''# users'', ''# connectivity'', ''# syslog'', ''# route'', ''# ntpclient'', ''# ebtables'']" by code_simp
  then have "headed d (system_emissions d plan keys pw)"
    by (simp add: system_emissions_def Let_def emitLedBar_def headed_wireless)
  with tidy_system [of d plan keys pw] show ?thesis
    by (auto simp: headed_def list_all_iff intro: sourced_row)
qed

section \<open>Properties\<close>

text \<open>
  C23: no value can inject a configuration line. The lines of a rendered text are, in order, the lines
  of the program's own emissions: a section head from a fixed list, a row \<^verbatim>\<open>key=value\<close> whose key the
  program built from plain characters and whose value holds no line break (a row with one is left out
  and reported as an alert), or a line of the administrator's raw passthrough; nothing else.
\<close>

theorem no_row_injection:
  assumes "RenderWithPlan hs d facts plan = Inr res"
  shows "\<exists>keys pw. parseDeviceSSHPublicKeys (dev_ssh_keys d) = Inr keys
     \<and> usersPasswordHash hs d = Inr (pw, rs_deltas res)
     \<and> split_on nl (rs_text res) = concat (map lines_of (system_emissions d plan keys pw)) @ [[]]
     \<and> rs_alerts res = concat (map alerts_of (system_emissions d plan keys pw))
     \<and> list_all (sourced d) (system_emissions d plan keys pw)"
proof -
  from RenderWithPlan_Inr [OF assms] obtain keys pw where r: "parseDeviceSSHPublicKeys (dev_ssh_keys d) = Inr keys"
    "usersPasswordHash hs d = Inr (pw, rs_deltas res)"
    "run_emissions (system_emissions d plan keys pw) = (rs_text res, rs_alerts res)" by metis
  then have "split_on nl (rs_text res) = concat (map lines_of (system_emissions d plan keys pw)) @ [[]]"
    using run_lines [OF tidy_system, of d plan keys pw] by simp
  moreover have "rs_alerts res = concat (map alerts_of (system_emissions d plan keys pw))"
    using r(3) by (simp add: run_emissions_eq)
  ultimately show ?thesis using r sourced_system by blast
qed

section \<open>The diagnostic of a rendered text\<close>

lemma diag_append: "diag_lines (xs @ ys) g = and_then (diag_lines xs g) (diag_lines ys)"
proof (induction xs arbitrary: g)
  case (Cons x xs)
  then show ?case by (cases "diag_line x g") simp_all
qed simp

lemma strip_id: "list_all (\<lambda>p. p \<noteq> [] \<longrightarrow> \<not> has_prefix p s) ps \<Longrightarrow> strip ps s = s"
proof -
  assume "list_all (\<lambda>p. p \<noteq> [] \<longrightarrow> \<not> has_prefix p s) ps"
  then have "find (\<lambda>p. p \<noteq> [] \<and> has_prefix p s) ps = None" by (auto simp: find_None_iff list_all_iff)
  then show ?thesis by (simp add: strip.simps [of ps s])
qed

lemma safe_not_space:
  assumes "list_all safe_char s" "list_all (\<lambda>p. case p of [] \<Rightarrow> True | c # _ \<Rightarrow> \<not> safe_char c) ps"
  shows "list_all (\<lambda>p. p \<noteq> [] \<longrightarrow> \<not> has_prefix p s) ps"
proof -
  have "\<not> has_prefix p s" if "p \<in> set ps" "p \<noteq> []" for p
    using assms that by (cases p; cases s) (auto simp: list_all_iff split: list.splits)
  then show ?thesis by (simp add: list_all_iff)
qed

lemma trim_space_safe: "list_all safe_char s \<Longrightarrow> trim_space s = s"
proof -
  assume s: "list_all safe_char s"
  have "list_all (\<lambda>p. case p of [] \<Rightarrow> True | c # _ \<Rightarrow> \<not> safe_char c) space_runes"
    "list_all (\<lambda>p. case p of [] \<Rightarrow> True | c # _ \<Rightarrow> \<not> safe_char c) (map rev space_runes)" by code_simp+
  from safe_not_space [OF s this(1)] safe_not_space [of "rev s", OF _ this(2)] s
  show ?thesis by (simp add: trim_space_def trim_left_def trim_right_def strip_id list_all_iff)
qed

lemma index_of_sep: "c \<notin> set a \<Longrightarrow> index_of c (a @ c # b) = Some (length a)"
  by (induction a) auto

lemma trim_cr_id: "CHR 0x0D \<notin> set l \<Longrightarrow> trim_cr l = l"
  by (cases l rule: rev_cases) (auto simp: trim_cr_def cut_suffix_def)

lemma diag_row:
  assumes "safeDiagnosticName k" "\<not> has_newline v"
  shows "diag_line (k @ ''='' @ v) g = diag_key k g"
proof -
  have safe: "list_all safe_char k" "k \<noteq> []" using assms(1) by (auto simp: safeDiagnosticName_def)
  have "\<not> safe_char (CHR 0x0D)" "\<not> safe_char (CHR ''#'')" by code_simp+
  with safe have "CHR 0x0D \<notin> set k" "\<not> has_prefix ''# '' (k @ ''='' @ v)"
    by (cases k; auto simp: list_all_iff)+
  moreover have "CHR 0x0D \<notin> set v" using assms(2) by (simp add: has_newline_def)
  ultimately have "trim_cr (k @ ''='' @ v) = k @ ''='' @ v" by (intro trim_cr_id) auto
  moreover have "index_of (CHR ''='') (k @ ''='' @ v) = Some (length k)"
    using safe_name_no_eq [OF assms(1)] by (simp add: index_of_sep)
  ultimately show ?thesis
    using safe \<open>\<not> has_prefix ''# '' (k @ ''='' @ v)\<close> by (simp add: diag_line_def trim_space_safe)
qed

lemma diag_key_section: "diag_key k g = Inr g' \<Longrightarrow> dg_section g' = dg_section g \<and> set (dg_seen g) \<subseteq> set (dg_seen g')"
  by (auto simp: diag_key_def split: if_splits)

text \<open>A key written twice in one section, with only rows between, is an error.\<close>

lemma diag_repeated:
  assumes "safeDiagnosticName k" "safeDiagnosticName m" "\<not> has_newline v" "\<not> has_newline u" "\<not> has_newline v'"
  shows "\<exists>e. diag_lines (xs @ [k @ ''='' @ v, m @ ''='' @ u, k @ ''='' @ v'] @ ys) g = Inl e"
proof (cases "diag_lines xs g")
  case (Inr g1)
  show ?thesis
  proof (cases "diag_key k g1")
    case k1: (Inr g2)
    then have seen: "duplicate_id (dg_section g1) k \<in> set (dg_seen g2)"
      using assms(1) by (auto simp: diag_key_def safeDiagnosticName_def split: if_splits)
    show ?thesis
    proof (cases "diag_key m g2")
      case m1: (Inr g3)
      have "duplicate_id (dg_section g3) k \<in> set (dg_seen g3)"
        using seen diag_key_section [OF k1] diag_key_section [OF m1] by auto
      then have "diag_key k g3 = Inl k" using assms(1) by (auto simp: diag_key_def safeDiagnosticName_def)
      then show ?thesis using Inr k1 m1 assms by (simp add: diag_append diag_row [simplified])
    qed (use Inr k1 assms in \<open>simp add: diag_append diag_row [simplified]\<close>)
  qed (use Inr assms in \<open>simp add: diag_append diag_row [simplified]\<close>)
qed (simp add: diag_append)

section \<open>Reading a record whose password cache changed\<close>

text \<open>The server applies a credential delta as a row of the record's extra map.\<close>

definition cache_deltas :: "credential_deltas \<Rightarrow> device \<Rightarrow> device" where
  "cache_deltas ds d = fold (\<lambda>(k, v). ext_set k (GStr v)) ds d"

definition cache_keys :: "string set" where
  "cache_keys = {SSHMd5PasswdKey, SSHSha512PasswdKey}"

lemma device_columns [simp]:
  "dev_model (ext_set k v d) = dev_model d" "dev_led_override (ext_set k v d) = dev_led_override d"
  "dev_disabled (ext_set k v d) = dev_disabled d" "dev_led_brightness (ext_set k v d) = dev_led_brightness d"
  "dev_led_color (ext_set k v d) = dev_led_color d" "dev_country_code (ext_set k v d) = dev_country_code d"
  "dev_ssh_keys (ext_set k v d) = dev_ssh_keys d" "dev_ssh_password (ext_set k v d) = dev_ssh_password d"
  "dev_site_id (ext_set k v d) = dev_site_id d"
  by (simp_all add: ext_set_def)

lemma other_rows:
  assumes "k' \<noteq> k"
  shows "get_str (jset k v m) k' = get_str m k'" "get_arr (jset k v m) k' = get_arr m k'"
    "get_obj (jset k v m) k' = get_obj m k'"
    "NumFromExtra (jset k v m) k' = NumFromExtra m k'"
  using assms by (simp_all add: typed_reads NumFromExtra_def row_simps)

lemma cache_only:
  assumes "k \<in> cache_keys"
  shows "get_str (jset k v m) MgmtDevKey = get_str m MgmtDevKey"
    "get_str (jset k v m) AnonymousControllerIDKey = get_str m AnonymousControllerIDKey"
    "get_str (jset k v m) AnonymousSiteIDKey = get_str m AnonymousSiteIDKey"
    "get_str (jset k v m) ''uplink'' = get_str m ''uplink''"
    "get_arr (jset k v m) ''ethernet_table'' = get_arr m ''ethernet_table''"
    "get_arr (jset k v m) ''if_table'' = get_arr m ''if_table''"
    "get_arr (jset k v m) ''radio_table'' = get_arr m ''radio_table''"
    "get_arr (jset k v m) SystemCfgExtraLinesKey = get_arr m SystemCfgExtraLinesKey"
    "get_obj (jset k v m) RadioIntentExtraKey = get_obj m RadioIntentExtraKey"
    "NumFromExtra (jset k v m) ''wifi_caps'' = NumFromExtra m ''wifi_caps''"
    "NumFromExtra (jset k v m) ''fw_caps'' = NumFromExtra m ''fw_caps''"
  using assms by (auto simp: cache_keys_def SSHMd5PasswdKey_def SSHSha512PasswdKey_def MgmtDevKey_def
      AnonymousControllerIDKey_def AnonymousSiteIDKey_def SystemCfgExtraLinesKey_def RadioIntentExtraKey_def
      intro!: other_rows)

lemma cache_radios:
  assumes "k \<in> cache_keys"
  shows "StoredRadios (ext_set k v d) = StoredRadios d" "RadioIntents (ext_set k v d) = RadioIntents d"
  unfolding StoredRadios_def RadioIntents_def by (simp_all only: ext_ext_set cache_only [OF assms])

lemma cache_ports:
  assumes "k \<in> cache_keys"
  shows "ethPortNames (ext_set k v d) = ethPortNames d" "mgmtDevOf (ext_set k v d) = mgmtDevOf d"
  unfolding ethPortNames_def ethPortNamesFromEthernetTable_def ethPortNamesFromIfTable_def mgmtDevOf_def
  by (simp_all only: ext_ext_set cache_only [OF assms])

lemma cache_wireless:
  assumes "k \<in> cache_keys"
  shows "emitWirelessCfg cc plan (ext_set k v d) = emitWirelessCfg cc plan d"
    "wireless_warnings (ext_set k v d) = wireless_warnings d"
  unfolding emitWirelessCfg_def emitVlanBlocks_def emitNetconfSection_def netconf_instances_def netconf_mgmt_def
    wifi_cap_def supportsDasDad_def wireless_warnings_def UnknownBandRadios_def
  by (simp_all only: ext_ext_set cache_only [OF assms] cache_radios [OF assms] cache_ports [OF assms])

lemma cache_emissions:
  assumes "k \<in> cache_keys"
  shows "system_emissions (ext_set k v d) plan keys pw = system_emissions d plan keys pw"
proof -
  have "emitLedBar (ext_set k v d) = emitLedBar d"
    unfolding emitLedBar_def ledbar_rows_def device_columns ..
  then show ?thesis
    by (simp add: system_emissions_def unifi_rows_def connectivity_rows_def sshd_rows_def route_rows_def raw_lines_def
        SiteRef_def country_of_def cache_only [OF assms] cache_radios [OF assms] cache_ports [OF assms]
        cache_wireless [OF assms])
qed

lemma fresh_password_Inr: "fresh_password k h = Inr (pw, ds) \<longleftrightarrow> h = Some pw \<and> pw \<noteq> [] \<and> ds = [(k, pw)]"
  by (auto simp: fresh_password_def split: option.splits)

lemma cached_row: "get_str (jset k (GStr v) m) k = Some v"
  by (simp add: get_str_def row_simps)

text \<open>Once the delta is stored, the next render takes the same password row from the cache.\<close>

lemma password_settles:
  assumes "usersPasswordHash hs d = Inr (pw, ds)" "rand_ok (hs_rand hs)"
  shows "usersPasswordHash (hs\<lparr>hs_rand := r\<rparr>) (cache_deltas ds d) = Inr (pw, [])
    \<and> (ds = [] \<or> (\<exists>k \<in> cache_keys. cache_deltas ds d = ext_set k (GStr pw) d))"
proof (cases "ds = []")
  case True
  with assms(1) show ?thesis
    by (auto simp: usersPasswordHash_def cache_deltas_def Let_def fresh_password_Inr split: if_splits)
next
  case ds: False
  show ?thesis
  proof (cases "supportsSha512Password d")
    case True
    let ?pw = "if dev_ssh_password d = [] then defaultSSHPassword else dev_ssh_password d"
    have h: "sha512Crypt (hs_sha512 hs) (hs_rand hs) ?pw = Some pw" "pw \<noteq> []" "ds = [(SSHSha512PasswdKey, pw)]"
      using assms(1) ds True by (auto simp: usersPasswordHash_def Let_def fresh_password_Inr split: if_splits)
    have k: "SSHSha512PasswdKey \<in> cache_keys" by (simp add: cache_keys_def)
    have s: "supportsSha512Password (ext_set SSHSha512PasswdKey (GStr pw) d)"
      using True by (simp add: supportsSha512Password_def cache_only [OF k])
    have "sha512CacheFormatRx pw \<and> sha512CryptMatches (hs_sha512 hs) ?pw pw"
      using fresh_hash_ok(2) [OF assms(2) h(1)] by simp
    then show ?thesis
      using h s k by (auto simp: usersPasswordHash_def cache_deltas_def Let_def cached_row split: if_splits)
  next
    case False
    let ?pw = "if dev_ssh_password d = [] then defaultSSHPassword else dev_ssh_password d"
    have h: "md5Crypt (hs_md5 hs) (hs_rand hs) ?pw = Some pw" "pw \<noteq> []" "ds = [(SSHMd5PasswdKey, pw)]"
      using assms(1) ds False by (auto simp: usersPasswordHash_def Let_def fresh_password_Inr split: if_splits)
    have k: "SSHMd5PasswdKey \<in> cache_keys" by (simp add: cache_keys_def)
    have s: "\<not> supportsSha512Password (ext_set SSHMd5PasswdKey (GStr pw) d)"
      using False by (simp add: supportsSha512Password_def cache_only [OF k])
    have "md5CacheFormatRx pw \<and> md5CryptMatches (hs_md5 hs) ?pw pw"
      using fresh_hash_ok(1) [OF assms(2) h(1)] by simp
    then show ?thesis
      using h s k by (auto simp: usersPasswordHash_def cache_deltas_def Let_def cached_row split: if_splits)
  qed
qed

text \<open>
  C24: repeated pushes are byte-identical: once the credential deltas of a render are in the record,
  every later render of the same plan returns the same text, warnings and alerts, draws no
  randomness (the random source may even fail), and returns no further delta, whatever the other
  site facts are.
\<close>

theorem render_stable:
  assumes "RenderWithPlan hs d facts plan = Inr res" "rand_ok (hs_rand hs)"
  shows "RenderWithPlan (hs\<lparr>hs_rand := r\<rparr>) (cache_deltas (rs_deltas res) d) facts' plan = Inr (res\<lparr>rs_deltas := []\<rparr>)"
proof -
  from RenderWithPlan_Inr [OF assms(1)] obtain keys pw where p: "parseDeviceSSHPublicKeys (dev_ssh_keys d) = Inr keys"
    "usersPasswordHash hs d = Inr (pw, rs_deltas res)"
    "run_emissions (system_emissions d plan keys pw) = (rs_text res, rs_alerts res)"
    "rs_warnings res = wireless_warnings d" by metis
  let ?d = "cache_deltas (rs_deltas res) d"
  have u: "usersPasswordHash (hs\<lparr>hs_rand := r\<rparr>) ?d = Inr (pw, [])"
    and "rs_deltas res = [] \<or> (\<exists>k \<in> cache_keys. ?d = ext_set k (GStr pw) d)"
    using password_settles [OF p(2) assms(2)] by blast+
  then have "dev_ssh_keys ?d = dev_ssh_keys d \<and> wireless_warnings ?d = wireless_warnings d
      \<and> system_emissions ?d plan keys pw = system_emissions d plan keys pw"
    by (auto simp: cache_deltas_def cache_emissions cache_wireless)
  with u p show ?thesis by (simp add: RenderWithPlan_def)
qed

end
