(* ===== verification/Cfg_Laws.thy ===== *)
theory Cfg_Laws
  imports System_Cfg
begin

text \<open>
  The laws of the rendered configuration that span its sections: equal drift hashes render equal, every
  vap is wired to its bridge, what the diagnostic can and cannot show, the inventory bounds and the
  ledbar block.
\<close>

section \<open>The drift hash decides the rendered text\<close>

lemma hash_fields_distinct: "distinct (map fst (hash_fields w))"
  by (simp add: hash_fields_def Let_def)

lemma hash_entry_fields: "hash_entry w = hash_entry w' \<Longrightarrow> jget (hash_fields w) k = jget (hash_fields w') k"
proof -
  have "map_of (sort_key fst (hash_fields w)) = map_of (hash_fields w)" for w
    using hash_fields_distinct [of w] by (subst map_of_inject_set) (simp_all add: distinct_map)
  moreover assume "hash_entry w = hash_entry w'"
  then have "sort_key fst (hash_fields w) = sort_key fst (hash_fields w')" by (simp add: hash_entry_def)
  ultimately show ?thesis by (metis jget_def)
qed

lemma hash_reads:
  "jget (hash_fields w) ''name'' = Some (GStr (w_name w))"
  "jget (hash_fields w) ''ssid'' = Some (GStr (w_ssid w))"
  "jget (hash_fields w) ''security'' = Some (GStr (w_security w))"
  "jget (hash_fields w) ''passphrase'' = Some (GStr (w_passphrase w))"
  "jget (hash_fields w) ''vlan'' = Some (GInt (w_vlan w))"
  "jget (hash_fields w) ''enabled'' = Some (GBool (w_enabled w))"
  "jget (hash_fields w) ''id'' = Some (GStr (w_id w))"
  "jget (hash_fields w) ''band'' = Some (GStr (effective_band w))"
  by (simp_all add: hash_fields_def Let_def)

lemma hash_profile_reads:
  "jget (hash_fields w) ''radius_secret'' = (if has_radius w then Some (GStr (w_radius_secret w)) else None)"
  "jget (hash_fields w) ''radius_vlan_mode'' = (if has_radius w then Some (GStr (effective_mode w)) else None)"
  "jget (hash_fields w) ''radius_servers'' = (if has_radius w then Some (hash_servers 1812 (w_radius_servers w)) else None)"
  "jget (hash_fields w) ''accounting_enabled'' = (if w_accounting w then Some (GBool True) else None)"
  "jget (hash_fields w) ''acct_servers'' = (if w_accounting w then Some (hash_servers 1813 (w_acct_servers w)) else None)"
  "jget (hash_fields w) ''interim_update_enabled'' = (if w_accounting w then Some (GBool (w_interim_update w)) else None)"
  "jget (hash_fields w) ''radius_das_enabled'' = (if w_accounting w then Some (GBool (w_das w)) else None)"
  by (simp_all add: hash_fields_def Let_def)

lemma map_kernel:
  assumes "map f xs = map f ys" "\<And>x y. f x = f y \<Longrightarrow> g x = g y"
  shows "map g xs = map g ys"
proof (rule nth_equalityI)
  have l: "length xs = length ys" using assms(1) by (rule map_eq_imp_length_eq)
  then show "length (map g xs) = length (map g ys)" by simp
  fix i assume "i < length (map g xs)"
  then have i: "i < length xs" "i < length ys" using l by simp_all
  have "map f xs ! i = map f ys ! i" by (rule arg_cong [OF assms(1)])
  then have "g (xs ! i) = g (ys ! i)" unfolding nth_map [OF i(1)] nth_map [OF i(2)] by (rule assms(2))
  then show "map g xs ! i = map g ys ! i" unfolding nth_map [OF i(1)] nth_map [OF i(2)] .
qed

lemma hash_servers_inject: "hash_servers p xs = hash_servers p ys \<Longrightarrow> norm_ports p xs = norm_ports p ys"
proof -
  assume "hash_servers p xs = hash_servers p ys"
  then have "map (\<lambda>s. GObj [(''ip'', GStr (rs_ip s)), (''port'', GInt (port_or p (rs_port s)))]) (opt_or [] xs)
      = map (\<lambda>s. GObj [(''ip'', GStr (rs_ip s)), (''port'', GInt (port_or p (rs_port s)))]) (opt_or [] ys)"
    by (simp add: hash_servers_def)
  then have "map (\<lambda>s. s\<lparr>rs_port := port_or p (rs_port s)\<rparr>) (opt_or [] xs)
      = map (\<lambda>s. s\<lparr>rs_port := port_or p (rs_port s)\<rparr>) (opt_or [] ys)"
    by (rule map_kernel) (simp add: radius_server.equality)
  then show ?thesis by (simp add: norm_ports_def)
qed

lemma hash_entry_normal_inject:
  assumes "hash_entry w = hash_entry w'"
  shows "normal_wlan w = normal_wlan w'"
proof -
  note same = hash_entry_fields [OF assms]
  have plain: "w_name w = w_name w'" "w_ssid w = w_ssid w'" "w_security w = w_security w'"
    "w_passphrase w = w_passphrase w'" "w_vlan w = w_vlan w'" "w_enabled w = w_enabled w'" "w_id w = w_id w'"
    "effective_band w = effective_band w'"
    using same [of "''name''"] same [of "''ssid''"] same [of "''security''"] same [of "''passphrase''"]
      same [of "''vlan''"] same [of "''enabled''"] same [of "''id''"] same [of "''band''"]
    by (simp_all add: hash_reads)
  have rad: "has_radius w = has_radius w'" "has_radius w \<Longrightarrow> w_radius_secret w = w_radius_secret w'"
    "has_radius w \<Longrightarrow> effective_mode w = effective_mode w'"
    "has_radius w \<Longrightarrow> norm_ports 1812 (w_radius_servers w) = norm_ports 1812 (w_radius_servers w')"
    using same [of "''radius_secret''"] same [of "''radius_vlan_mode''"] same [of "''radius_servers''"]
    by (auto simp: hash_profile_reads intro: hash_servers_inject split: if_splits)
  have none: "w_radius_secret x = [] \<and> norm_ports 1812 (w_radius_servers x) = Some []" if "\<not> has_radius x" for x
    using that by (simp add: has_radius_def norm_ports_def)
  have acc: "w_accounting w = w_accounting w'" "w_accounting w \<Longrightarrow> w_interim_update w = w_interim_update w'"
    "w_accounting w \<Longrightarrow> w_das w = w_das w'"
    "w_accounting w \<Longrightarrow> norm_ports 1813 (w_acct_servers w) = norm_ports 1813 (w_acct_servers w')"
    using same [of "''accounting_enabled''"] same [of "''acct_servers''"] same [of "''interim_update_enabled''"]
      same [of "''radius_das_enabled''"]
    by (auto simp: hash_profile_reads intro: hash_servers_inject split: if_splits)
  show ?thesis
    by (rule wlan.equality)
      (use plain rad acc none [of w] none [of w'] in \<open>cases "has_radius w"; cases "w_accounting w"; auto simp: normal_wlan_def Let_def\<close>)+
qed

text \<open>The renderer does not see the difference between a WLAN and its normal spelling.\<close>

lemma port_text_or:
  "port_text ''1812'' (port_or 1812 p) = port_text ''1812'' p" "port_text ''1813'' (port_or 1813 p) = port_text ''1813'' p"
proof -
  have "itoa 1812 = ''1812''" "itoa 1813 = ''1813''" by code_simp+
  then show "port_text ''1812'' (port_or 1812 p) = port_text ''1812'' p" "port_text ''1813'' (port_or 1813 p) = port_text ''1813'' p"
    by (simp_all add: port_text_def port_or_def)
qed

lemma auth_rows_norm: "radius_auth_rows i s (opt_or [] (norm_ports 1812 xs)) = radius_auth_rows i s (opt_or [] xs)"
proof -
  have "radius_auth_rows i s (map (\<lambda>s. s\<lparr>rs_port := port_or 1812 (rs_port s)\<rparr>) ys) = radius_auth_rows i s ys" for ys
    by (induction ys arbitrary: i) (simp_all add: port_text_or)
  then show ?thesis by (simp add: norm_ports_def)
qed

lemma acct_rows_norm: "radius_acct_rows i s g c (opt_or [] (norm_ports 1813 xs)) = radius_acct_rows i s g c (opt_or [] xs)"
proof -
  have "radius_acct_rows i s g c (map (\<lambda>s. s\<lparr>rs_port := port_or 1813 (rs_port s)\<rparr>) ys) = radius_acct_rows i s g c ys" for ys
    by (induction ys arbitrary: i c) (simp_all add: port_text_or Let_def)
  then show ?thesis by (simp add: norm_ports_def)
qed

lemma has_server_norm: "has_server i (opt_or [] (norm_ports p xs)) = has_server i (opt_or [] xs)"
proof -
  have "has_server i (map (\<lambda>s. s\<lparr>rs_port := port_or p (rs_port s)\<rparr>) ys) = has_server i ys" for ys
    by (induction ys arbitrary: i) simp_all
  then show ?thesis by (simp add: norm_ports_def)
qed

lemma normal_fields [simp]:
  "w_name (normal_wlan w) = w_name w" "w_ssid (normal_wlan w) = w_ssid w" "w_security (normal_wlan w) = w_security w"
  "w_passphrase (normal_wlan w) = w_passphrase w" "w_radius_secret (normal_wlan w) = w_radius_secret w"
  "w_accounting (normal_wlan w) = w_accounting w"
  "w_radius_servers (normal_wlan w) = norm_ports 1812 (w_radius_servers w)"
  "w_accounting w \<Longrightarrow> w_acct_servers (normal_wlan w) = norm_ports 1813 (w_acct_servers w)"
  "w_accounting w \<Longrightarrow> w_interim_update (normal_wlan w) = w_interim_update w"
  "w_accounting w \<Longrightarrow> w_das (normal_wlan w) = w_das w"
  by (simp_all add: normal_wlan_def Let_def)

lemma dynamic_vlan_normal: "dynamicVlanOf (w_radius_vlan_mode (normal_wlan w)) = dynamicVlanOf (w_radius_vlan_mode w)"
  by (auto simp: normal_wlan_def Let_def dynamicVlanOf_def has_radius_def effective_mode_def)

lemma aaa_eap_normal: "aaa_eap n (normal_wlan w) das dn = aaa_eap n w das dn"
proof -
  have "accounting_rows n (normal_wlan w) das dn = accounting_rows n w das dn"
    "interim_rows (normal_wlan w) = interim_rows w"
    by (auto simp: accounting_rows_def interim_rows_def Let_def acct_rows_norm)
  then show ?thesis by (simp add: aaa_eap_def auth_rows_norm dynamic_vlan_normal)
qed

definition normal_vap :: "vap_plan \<Rightarrow> vap_plan" where
  "normal_vap v = v\<lparr>vp_wlan := normal_wlan (vp_wlan v)\<rparr>"

lemma normal_vap_fields [simp]:
  "vp_wlan (normal_vap v) = normal_wlan (vp_wlan v)" "vp_id (normal_vap v) = vp_id v" "vp_radio (normal_vap v) = vp_radio v"
  "vp_phy (normal_vap v) = vp_phy v" "vp_ath (normal_vap v) = vp_ath v" "vp_vid (normal_vap v) = vp_vid v"
  by (simp_all add: normal_vap_def)

lemma emit_normal:
  "emitAaaRows n (normal_vap v) oh das dn = emitAaaRows n v oh das dn"
  "emitWirelessRows n (normal_vap v) bga = emitWirelessRows n v bga"
proof -
  have "eap_alerts (normal_wlan (vp_wlan v)) = eap_alerts (vp_wlan v)"
    by (simp add: eap_alerts_def wlanHasRadiusProfile_def has_server_norm)
  then show "emitAaaRows n (normal_vap v) oh das dn = emitAaaRows n v oh das dn"
    by (simp add: emitAaaRows_def aaa_head_def aaa_open_def aaa_fixed_def aaa_sae_def aaa_mgmt_def aaaBridge_def
        is_wpa3_def is_transition_def effective_psk_def SSIDOf_def aaa_eap_normal Let_def cong: if_cong)
  show "emitWirelessRows n (normal_vap v) bga = emitWirelessRows n v bga"
    by (simp add: emitWirelessRows_def wireless_rows_def SSIDOf_def)
qed

lemma emit_vaps_normal: "emit_vaps n (map normal_vap vs) oh das bga dn = emit_vaps n vs oh das bga dn"
  by (induction vs arbitrary: n dn) (simp_all add: emit_normal)

lemma wiring_normal:
  "radio_blocks cc it (map normal_vap vs) rs = radio_blocks cc it vs rs"
  "emitVlanBlocks d (map normal_vap vs) = emitVlanBlocks d vs"
proof -
  have "radio_vap_rows n (map normal_vap vs) = radio_vap_rows n vs" for n
    by (simp add: radio_vap_rows_def filter_map comp_def enumerate_eq_zip zip_map2 Let_def case_prod_unfold cong: if_cong)
  then show "radio_blocks cc it (map normal_vap vs) rs = radio_blocks cc it vs rs" by (simp add: radio_blocks_def)
  have "tagged_vids (map normal_vap vs) = tagged_vids vs" by (simp add: tagged_vids_def filter_map comp_def)
  moreover have "vid_aths (map normal_vap vs) = vid_aths vs"
    by (rule ext) (simp add: vid_aths_def filter_map comp_def)
  ultimately show "emitVlanBlocks d (map normal_vap vs) = emitVlanBlocks d vs"
    by (simp add: emitVlanBlocks_def bridge_blocks_def untagged_ports_def tagged_ports_def)
qed

lemma wireless_normal:
  "emitWirelessCfg cc (plan\<lparr>pp_vaps := map normal_vap (pp_vaps plan)\<rparr>) d = emitWirelessCfg cc plan d"
  by (simp add: emitWirelessCfg_def emit_vaps_normal wiring_normal Let_def)

lemma plan_vaps_normal: "pp_vaps (PlanProvisioning jt d (map normal_wlan ws)) = map normal_vap (pp_vaps (PlanProvisioning jt d ws))"
  by (simp add: PlanProvisioning_def PlanVaps_eq placement_pairs_normal number_vaps_normal normal_vap_def)

lemma plan_radios_same: "pp_radios (PlanProvisioning jt d ws) = StoredRadios d"
  by (simp add: PlanProvisioning_def PlanVaps_eq)

lemma emitWirelessCfg_cong:
  "pp_vaps p = pp_vaps q \<Longrightarrow> pp_radios p = pp_radios q \<Longrightarrow> emitWirelessCfg cc p d = emitWirelessCfg cc q d"
  by (simp add: emitWirelessCfg_def)

lemma wireless_plan_normal:
  "emitWirelessCfg cc (PlanProvisioning jt d (map normal_wlan ws)) d = emitWirelessCfg cc (PlanProvisioning jt d ws) d"
proof -
  let ?p = "PlanProvisioning jt d ws"
  have "emitWirelessCfg cc (PlanProvisioning jt d (map normal_wlan ws)) d
      = emitWirelessCfg cc (?p\<lparr>pp_vaps := map normal_vap (pp_vaps ?p)\<rparr>) d"
    by (rule emitWirelessCfg_cong) (simp_all add: plan_vaps_normal plan_radios_same)
  then show ?thesis by (simp add: wireless_normal)
qed

text \<open>
  C25: the drift hash covers everything the configuration depends on: two WLAN lists whose hashed
  documents are equal render to the same result for every device, text, alerts and deltas, whatever
  spelling of defaults each of them uses. A change that alters the rendered configuration therefore
  alters the document the hash is taken of.
\<close>

theorem same_hash_same_render:
  assumes "map hash_entry ws = map hash_entry ws'"
  shows "Render jt hs d \<lparr>sf_controller_url = url, sf_wlans = Some ws\<rparr>
    = Render jt hs d \<lparr>sf_controller_url = url', sf_wlans = Some ws'\<rparr>"
proof -
  have "map normal_wlan ws = map normal_wlan ws'"
    using assms hash_entry_normal_inject by (rule map_kernel)
  then have "emitWirelessCfg cc (PlanProvisioning jt d ws) d = emitWirelessCfg cc (PlanProvisioning jt d ws') d" for cc
    by (metis wireless_plan_normal)
  then have "system_emissions d (PlanProvisioning jt d ws) = system_emissions d (PlanProvisioning jt d ws')"
    by (intro HOL.ext) (simp add: system_emissions_def)
  then show ?thesis
    unfolding Render_def RenderWithPlan_def site_facts.simps opt_or_simps by (rule arg_cong)
qed

definition demo_hasher :: hasher where
  "demo_hasher = \<lparr>hs_md5 = (\<lambda>_. replicate 16 0), hs_sha512 = (\<lambda>_. replicate 64 0), hs_rand = (\<lambda>n. Some (replicate n 7))\<rparr>"

lemma same_hash_same_render_witness:
  "Render (one_document GNil) demo_hasher (new_device ''aabbcc001122'') \<lparr>sf_controller_url = [], sf_wlans = Some [zero_wlan]\<rparr>
    = Render (one_document GNil) demo_hasher (new_device ''aabbcc001122'') \<lparr>sf_controller_url = ''http://c'', sf_wlans = Some [zero_wlan\<lparr>w_band := ''both'', w_das := True\<rparr>]\<rparr>"
proof -
  have "map hash_entry [zero_wlan] = map hash_entry [zero_wlan\<lparr>w_band := ''both'', w_das := True\<rparr>]"
    by (simp add: hash_entry_def hash_fields_def has_radius_def effective_band_def wlanBandDefault_def zero_wlan_def)
  from same_hash_same_render [OF this] show ?thesis .
qed

section \<open>Every vap is wired\<close>

lemma row_in_rows: "(k, v) \<in> set kvs \<Longrightarrow> Row w (p @ k) v \<in> set (rows w p kvs)"
  by (force simp: rows_def)

lemma row_in_blocks:
  assumes "i < length kvss" "(k, v) \<in> set (kvss ! i)"
  shows "Row w (indexed p (i + 1) @ k) v \<in> set (blocks w p kvss)"
proof -
  have "(i + 1, kvss ! i) \<in> set (enumerate 1 kvss)"
    using assms(1) by (auto simp: in_set_conv_nth nth_enumerate_eq intro!: exI [of _ i])
  with row_in_rows [OF assms(2), of w "indexed p (i + 1)"] show ?thesis
    unfolding blocks_def by force
qed

lemma block_in_blocks:
  "kvs \<in> set kvss \<Longrightarrow> \<exists>i. \<forall>k v. (k, v) \<in> set kvs \<longrightarrow> Row w (indexed p i @ k) v \<in> set (blocks w p kvss)"
  using row_in_blocks by (metis in_set_conv_nth)

lemma port_in_bridge: "q \<in> set ports \<Longrightarrow> \<exists>k. (indexed ''port.'' k @ ''devname'', q) \<in> set (bridge_rows name ports)"
proof -
  assume "q \<in> set ports"
  then obtain i where "i < length ports" "ports ! i = q" by (metis in_set_conv_nth)
  then have "(i + 1, q) \<in> set (enumerate 1 ports)"
    by (auto simp: in_set_conv_nth nth_enumerate_eq intro!: exI [of _ i])
  then show ?thesis unfolding bridge_rows_def by force
qed

definition bridged :: "emission list \<Rightarrow> nat \<Rightarrow> string \<Rightarrow> bool" where
  "bridged es j port \<longleftrightarrow> (\<exists>k. Row ''vlan-blocks'' (indexed ''bridge.'' j @ indexed ''port.'' k @ ''devname'') port \<in> set es)"

definition vid_suffix :: "vap_plan \<Rightarrow> string" where
  "vid_suffix v = (if vp_vid v = 0 then [] else ''.'' @ itoa (vp_vid v))"

definition vlan_of :: "emission list \<Rightarrow> string \<Rightarrow> int \<Rightarrow> bool" where
  "vlan_of es p vid \<longleftrightarrow> (\<exists>i. Row ''vlan-blocks'' (indexed ''vlan.'' i @ ''devname'') p \<in> set es
     \<and> Row ''vlan-blocks'' (indexed ''vlan.'' i @ ''id'') (itoa vid) \<in> set es)"

lemma vid_tagged: "v \<in> set vaps \<Longrightarrow> vp_vid v \<noteq> 0 \<Longrightarrow> vp_vid v \<in> set (tagged_vids vaps)"
  by (auto simp: tagged_vids_def)

lemma ath_member: "v \<in> set vaps \<Longrightarrow> devname (vp_ath v) \<in> set (vid_aths vaps (vp_vid v))"
  by (auto simp: vid_aths_def)

lemma bridge_of_vap:
  assumes "v \<in> set vaps"
  shows "\<exists>ports. bridge_rows (aaaBridge v) ports \<in> set (bridge_blocks eths vaps (tagged_vids vaps))
    \<and> devname (vp_ath v) \<in> set ports \<and> (\<forall>p \<in> set eths. p @ vid_suffix v \<in> set ports)"
proof (cases "vp_vid v = 0")
  case True
  with ath_member [OF assms] show ?thesis
    by (intro exI [of _ "untagged_ports eths vaps"])
      (auto simp: bridge_blocks_def aaaBridge_def untagged_ports_def vid_suffix_def)
next
  case False
  with ath_member [OF assms] vid_tagged [OF assms] show ?thesis
    by (intro exI [of _ "tagged_ports eths vaps (vp_vid v)"])
      (auto simp: bridge_blocks_def aaaBridge_def tagged_ports_def vid_suffix_def)
qed

lemma vlan_emissions_wire:
  assumes "v \<in> set vaps" and es: "es = emitVlanBlocks d vaps"
  shows "\<exists>j. Row ''vlan-blocks'' (indexed ''bridge.'' j @ ''devname'') (aaaBridge v) \<in> set es
    \<and> bridged es j (devname (vp_ath v)) \<and> (\<forall>p \<in> set (fst (ethPortNames d)). bridged es j (p @ vid_suffix v))"
proof -
  let ?bs = "bridge_blocks (fst (ethPortNames d)) vaps (tagged_vids vaps)"
  have sub: "set (blocks ''vlan-blocks'' ''bridge.'' ?bs) \<subseteq> set es"
    by (auto simp: es emitVlanBlocks_def case_prod_beta Let_def)
  from bridge_of_vap [OF assms(1)] obtain ports where p: "bridge_rows (aaaBridge v) ports \<in> set ?bs"
    "devname (vp_ath v) \<in> set ports" "\<forall>p \<in> set (fst (ethPortNames d)). p @ vid_suffix v \<in> set ports" by blast
  from block_in_blocks [OF p(1)] obtain j where j: "\<And>k u. (k, u) \<in> set (bridge_rows (aaaBridge v) ports) \<Longrightarrow>
      Row ''vlan-blocks'' (indexed ''bridge.'' j @ k) u \<in> set (blocks ''vlan-blocks'' ''bridge.'' ?bs)" by blast
  have "bridged es j q" if "q \<in> set ports" for q
    using port_in_bridge [OF that] j sub unfolding bridged_def by blast
  moreover have "Row ''vlan-blocks'' (indexed ''bridge.'' j @ ''devname'') (aaaBridge v) \<in> set es"
    using j sub by (force simp: bridge_rows_def)
  ultimately show ?thesis using p by blast
qed

lemma vlan_emissions_tag:
  assumes "v \<in> set vaps" "vp_vid v \<noteq> 0" and es: "es = emitVlanBlocks d vaps"
  shows "\<forall>p \<in> set (fst (ethPortNames d)). vlan_of es p (vp_vid v)"
    "\<exists>m. Row ''netconf'' (indexed ''netconf.'' m @ ''devname'') (aaaBridge v) \<in> set es
       \<and> Row ''netconf'' (indexed ''netconf.'' m @ ''up'') ''enabled'' \<in> set es"
proof -
  have t: "vp_vid v \<in> set (tagged_vids vaps)" using vid_tagged assms by blast
  let ?vs = "vlan_blocks (fst (ethPortNames d)) (tagged_vids vaps)"
  have sub: "set (blocks ''vlan-blocks'' ''vlan.'' ?vs) \<subseteq> set es"
    using t by (auto simp: es emitVlanBlocks_def case_prod_beta Let_def)
  show "\<forall>p \<in> set (fst (ethPortNames d)). vlan_of es p (vp_vid v)"
  proof
    fix p assume "p \<in> set (fst (ethPortNames d))"
    with t have "[(''devname'', p), (''id'', itoa (vp_vid v))] \<in> set ?vs" by (auto simp: vlan_blocks_def)
    from block_in_blocks [OF this, of "''vlan-blocks''" "''vlan.''"] obtain i
      where i: "\<And>k u. (k, u) \<in> set [(''devname'', p), (''id'', itoa (vp_vid v))] \<Longrightarrow>
        Row ''vlan-blocks'' (indexed ''vlan.'' i @ k) u \<in> set (blocks ''vlan-blocks'' ''vlan.'' ?vs)" by blast
    show "vlan_of es p (vp_vid v)"
      unfolding vlan_of_def using i [of "''devname''" p] i [of "''id''" "itoa (vp_vid v)"] sub
      by (intro exI [of _ i]) auto
  qed
  have "netconf_vid (vp_vid v) \<in> set (netconf_instances d (tagged_vids vaps))"
    using t by (simp add: netconf_instances_def)
  from block_in_blocks [OF this, of "''netconf''" "''netconf.''"] obtain m where m: "\<And>k u. (k, u) \<in> set (netconf_vid (vp_vid v)) \<Longrightarrow>
      Row ''netconf'' (indexed ''netconf.'' m @ k) u \<in> set (emitNetconfSection d (tagged_vids vaps))"
    by (auto simp: emitNetconfSection_def)
  have "set (emitNetconfSection d (tagged_vids vaps)) \<subseteq> set es"
    by (auto simp: es emitVlanBlocks_def case_prod_beta Let_def)
  then show "\<exists>m. Row ''netconf'' (indexed ''netconf.'' m @ ''devname'') (aaaBridge v) \<in> set es
       \<and> Row ''netconf'' (indexed ''netconf.'' m @ ''up'') ''enabled'' \<in> set es"
    using m [of "''devname''"] m [of "''up''"] assms(2) by (auto simp: netconf_vid_def aaaBridge_def intro!: exI [of _ m])
qed

lemma vap_in_emissions:
  "v \<in> set vs \<Longrightarrow> \<exists>n dn' A B. emit_vaps k vs oh das bga dn = A @ fst (emitAaaRows n v oh das dn') @ B"
proof (induction vs arbitrary: k dn)
  case (Cons u us)
  show ?case
  proof (cases "v = u")
    case True
    then show ?thesis
      by (intro exI [of _ "k + 1"] exI [of _ dn] exI [of _ "[]"]
          exI [of _ "emitWirelessRows (k + 1) u bga @ emit_vaps (k + 1) us oh das bga (snd (emitAaaRows (k + 1) u oh das dn))"])
        (simp add: case_prod_beta)
  next
    case False
    with Cons obtain n dn' A B where "emit_vaps (k + 1) us oh das bga (snd (emitAaaRows (k + 1) u oh das dn))
        = A @ fst (emitAaaRows n v oh das dn') @ B" by (metis set_ConsD)
    then show ?thesis
      by (intro exI [of _ n] exI [of _ dn']
          exI [of _ "fst (emitAaaRows (k + 1) u oh das dn) @ emitWirelessRows (k + 1) u bga @ A"] exI [of _ B])
        (simp add: case_prod_beta)
  qed
qed simp

definition wired_keys :: "string set" where
  "wired_keys = {''br.devname'', ''devname''}"

lemma radius_not_wired:
  "fst kv \<in> wired_keys \<Longrightarrow> kv \<notin> set (radius_auth_rows i s srvs)"
  "fst kv \<in> wired_keys \<Longrightarrow> kv \<notin> set (radius_acct_rows i s g d srvs)"
  by (induction srvs arbitrary: i d) (auto simp: wired_keys_def indexed_def Let_def)

lemma eap_not_wired: "fst kv \<in> wired_keys \<Longrightarrow> kv \<notin> set (fst (aaa_eap n w das dn))"
  by (auto simp: aaa_eap_def accounting_rows_def interim_rows_def Let_def case_prod_beta radius_not_wired)
    (auto simp: wired_keys_def)

lemma aaa_wired:
  assumes "Row w x u \<in> set (fst (emitAaaRows n v oh das dn))"
  obtains k where "x = indexed ''aaa.'' n @ k" "k = ''br.devname'' \<Longrightarrow> u = aaaBridge v" "k = ''devname'' \<Longrightarrow> u = devname (vp_ath v)"
proof -
  let ?rest = "aaa_open v oh @ aaa_tail @ aaa_fixed v @ aaa_sae (vp_wlan v) @ aaa_mgmt (vp_wlan v)
    @ fst (aaa_eap n (vp_wlan v) das dn) @ [(''wpa.1.pairwise'', ''CCMP''), (''pmf.cipher'', ''AES-128-CMAC'')]"
  from assms obtain k where k: "x = indexed ''aaa.'' n @ k" "(k, u) \<in> set (aaa_head v @ ?rest)"
    by (fastforce simp: emitAaaRows_def Let_def case_prod_beta rows_def split: if_splits)
  have "(k, u) \<notin> set ?rest" if "k \<in> wired_keys"
    using that eap_not_wired [of "(k, u)" n "vp_wlan v" das dn]
    by (auto simp: wired_keys_def aaa_open_def aaa_tail_def aaa_fixed_def aaa_sae_def aaa_mgmt_def split: if_splits)
  with k(2) have "k \<in> wired_keys \<Longrightarrow> (k, u) \<in> set (aaa_head v)" by auto
  with k(1) show ?thesis by (intro that [of k]) (auto simp: wired_keys_def aaa_head_def Let_def)
qed

lemma aaa_wired_rows:
  "Row ''aaa-rows'' (indexed ''aaa.'' n @ ''br.devname'') (aaaBridge v) \<in> set (fst (emitAaaRows n v oh das dn))"
  "Row ''aaa-rows'' (indexed ''aaa.'' n @ ''devname'') (devname (vp_ath v)) \<in> set (fst (emitAaaRows n v oh das dn))"
  by (auto simp: emitAaaRows_def Let_def case_prod_beta aaa_head_def rows_def)

lemma wireless_wired_rows:
  "Row ''wireless-rows'' (indexed ''wireless.'' n @ ''devname'') (devname (vp_ath v)) \<in> set (emitWirelessRows n v bga)"
  "Row ''wireless-rows'' (indexed ''wireless.'' n @ ''ssid'') (SSIDOf (vp_wlan v)) \<in> set (emitWirelessRows n v bga)"
  by (auto simp: emitWirelessRows_def wireless_rows_def rows_def)

lemma takeWhile_digits: "takeWhile is_digit (dec_nat n @ CHR ''.'' # k) = dec_nat n"
  using dec_nat_digits [of n] by (simp add: list_all_iff is_digit_def takeWhile_append)

lemma indexed_inject: "indexed p m @ k = indexed p n @ k' \<longleftrightarrow> m = n \<and> k = k'"
proof -
  have "m = n" if "dec_nat m @ CHR ''.'' # k = dec_nat n @ CHR ''.'' # k'"
    using arg_cong [OF that, of "takeWhile is_digit"] by (simp only: takeWhile_digits dec_nat_inject)
  then show ?thesis by (auto simp: indexed_def)
qed

lemma vap_block:
  "i < length vs \<Longrightarrow> \<exists>dn'. set (fst (emitAaaRows (k + i + 1) (vs ! i) oh das dn')) \<union> set (emitWirelessRows (k + i + 1) (vs ! i) bga)
     \<subseteq> set (emit_vaps k vs oh das bga dn)"
proof (induction vs arbitrary: k dn i)
  case (Cons u us)
  show ?case
  proof (cases i)
    case 0
    then show ?thesis by (intro exI [of _ dn]) (auto simp: case_prod_beta)
  next
    case (Suc i')
    with Cons.prems Cons.IH [of i' "k + 1" "snd (emitAaaRows (k + 1) u oh das dn)"] show ?thesis by (force simp: case_prod_beta)
  qed
qed simp

lemma vap_blocks_only:
  assumes "Row ''aaa-rows'' x u \<in> set (emit_vaps k vs oh das bga dn)"
  shows "\<exists>i dn'. i < length vs \<and> Row ''aaa-rows'' x u \<in> set (fst (emitAaaRows (k + i + 1) (vs ! i) oh das dn'))"
  using assms
proof (induction vs arbitrary: k dn)
  case (Cons v vs)
  have "Row ''aaa-rows'' x u \<notin> set (emitWirelessRows (k + 1) v bga)" by (auto simp: emitWirelessRows_def rows_def)
  with Cons.prems consider "Row ''aaa-rows'' x u \<in> set (fst (emitAaaRows (k + 1) v oh das dn))"
    | "Row ''aaa-rows'' x u \<in> set (emit_vaps (k + 1) vs oh das bga (snd (emitAaaRows (k + 1) v oh das dn)))"
    by (auto simp: case_prod_beta)
  then show ?case
  proof cases
    case 1
    then show ?thesis by (intro exI [of _ 0] exI [of _ dn]) simp
  next
    case 2
    from Cons.IH [OF this] obtain i dn' where "i < length vs"
      "Row ''aaa-rows'' x u \<in> set (fst (emitAaaRows (k + 1 + i + 1) (vs ! i) oh das dn'))" by blast
    then show ?thesis by (intro exI [of _ "Suc i"] exI [of _ dn']) simp
  qed
qed simp

text \<open>What names a bridge or an interface in the \<open>aaa\<close> blocks of a whole render.\<close>

lemma aaa_rows_vaps:
  assumes "Row ''aaa-rows'' x u \<in> set (emitWirelessCfg cc plan d)"
  shows "Row ''aaa-rows'' x u \<in> set (emit_vaps 0 (pp_vaps plan) (wifi_cap d 0x2000) (supportsDasDad d) (wifi_cap d 0x40) False)"
  using assms by (auto simp: emitWirelessCfg_def emitVlanBlocks_def emitNetconfSection_def Let_def rows_def blocks_def
      case_prod_beta split: if_splits)

lemma aaa_names:
  assumes "i < length (pp_vaps plan)" "pp_radios plan \<noteq> []"
  shows "Row ''aaa-rows'' (indexed ''aaa.'' (i + 1) @ ''br.devname'') b \<in> set (emitWirelessCfg cc plan d) \<longleftrightarrow> b = aaaBridge (pp_vaps plan ! i)"
    "Row ''aaa-rows'' (indexed ''aaa.'' (i + 1) @ ''devname'') b \<in> set (emitWirelessCfg cc plan d) \<longleftrightarrow> b = devname (vp_ath (pp_vaps plan ! i))"
proof -
  let ?vs = "emit_vaps 0 (pp_vaps plan) (wifi_cap d 0x2000) (supportsDasDad d) (wifi_cap d 0x40) False"
  have sub: "set ?vs \<subseteq> set (emitWirelessCfg cc plan d)" using assms(2) by (auto simp: emitWirelessCfg_def Let_def)
  have block: "\<exists>dn. set (fst (emitAaaRows (i + 1) (pp_vaps plan ! i) (wifi_cap d 0x2000) (supportsDasDad d) dn)) \<subseteq> set ?vs"
    using vap_block [OF assms(1), of 0] by fastforce
  have only: "(k = ''br.devname'' \<longrightarrow> b = aaaBridge (pp_vaps plan ! i)) \<and> (k = ''devname'' \<longrightarrow> b = devname (vp_ath (pp_vaps plan ! i)))"
    if r: "Row ''aaa-rows'' (indexed ''aaa.'' (i + 1) @ k) b \<in> set (emitWirelessCfg cc plan d)" for k
  proof -
    from vap_blocks_only [OF aaa_rows_vaps [OF r]] obtain j dn where
      j: "Row ''aaa-rows'' (indexed ''aaa.'' (i + 1) @ k) b \<in> set (fst (emitAaaRows (0 + j + 1) (pp_vaps plan ! j) (wifi_cap d 0x2000) (supportsDasDad d) dn))"
      by blast
    from aaa_wired [OF j] show ?thesis by (metis (no_types) add_0 add_right_cancel indexed_inject)
  qed
  show "Row ''aaa-rows'' (indexed ''aaa.'' (i + 1) @ ''br.devname'') b \<in> set (emitWirelessCfg cc plan d) \<longleftrightarrow> b = aaaBridge (pp_vaps plan ! i)"
    using only sub block aaa_wired_rows(1) by blast
  show "Row ''aaa-rows'' (indexed ''aaa.'' (i + 1) @ ''devname'') b \<in> set (emitWirelessCfg cc plan d) \<longleftrightarrow> b = devname (vp_ath (pp_vaps plan ! i))"
    using only sub block aaa_wired_rows(2) by blast
qed

text \<open>
  C26: every vap of a plan is wired, each in its own numbered block: the \<open>i\<close>-th vap's \<^verbatim>\<open>aaa\<close> block
  names the vap's own interface and the bridge of its VLAN, and nothing else in those two rows, its
  \<^verbatim>\<open>wireless\<close> block names the same interface with the WLAN's SSID, the \<^verbatim>\<open># bridge\<close> section has a bridge of
  that name, and that bridge's ports include the vap's own interface and every ethernet port of the device
  (as the VLAN sub-interface when the WLAN is tagged). For a tagged WLAN the \<^verbatim>\<open># vlan\<close> section also tags
  every ethernet port with its VID and a netconf instance brings the bridge up.
\<close>

theorem vap_wired:
  assumes "i < length (pp_vaps plan)" "v = pp_vaps plan ! i" "pp_radios plan \<noteq> []" "es = emitWirelessCfg cc plan d"
  shows "(\<forall>b. Row ''aaa-rows'' (indexed ''aaa.'' (i + 1) @ ''br.devname'') b \<in> set es
       \<longleftrightarrow> b = (if vp_vid v = 0 then ''br0'' else ''br0.'' @ itoa (vp_vid v)))
   \<and> (\<forall>p. Row ''aaa-rows'' (indexed ''aaa.'' (i + 1) @ ''devname'') p \<in> set es \<longleftrightarrow> p = devname (vp_ath v))
   \<and> Row ''wireless-rows'' (indexed ''wireless.'' (i + 1) @ ''devname'') (devname (vp_ath v)) \<in> set es
   \<and> Row ''wireless-rows'' (indexed ''wireless.'' (i + 1) @ ''ssid'') (SSIDOf (vp_wlan v)) \<in> set es
   \<and> (\<exists>j. Row ''vlan-blocks'' (indexed ''bridge.'' j @ ''devname'') (aaaBridge v) \<in> set es
       \<and> bridged es j (devname (vp_ath v))
       \<and> (\<forall>p \<in> set (fst (ethPortNames d)). bridged es j (p @ vid_suffix v)))
   \<and> (vp_vid v \<noteq> 0 \<longrightarrow> (\<forall>p \<in> set (fst (ethPortNames d)). vlan_of es p (vp_vid v))
       \<and> (\<exists>m. Row ''netconf'' (indexed ''netconf.'' m @ ''devname'') (aaaBridge v) \<in> set es
            \<and> Row ''netconf'' (indexed ''netconf.'' m @ ''up'') ''enabled'' \<in> set es))"
proof -
  let ?vl = "emitVlanBlocks d (pp_vaps plan)"
  have v: "v \<in> set (pp_vaps plan)" using assms(1,2) by simp
  have sub: "set ?vl \<subseteq> set es" using assms(3,4) by (auto simp: emitWirelessCfg_def Let_def)
  have "bridged es j q" if "bridged ?vl j q" for j q
    using that sub by (auto simp: bridged_def)
  then have bridge: "\<exists>j. Row ''vlan-blocks'' (indexed ''bridge.'' j @ ''devname'') (aaaBridge v) \<in> set es
       \<and> bridged es j (devname (vp_ath v))
       \<and> (\<forall>p \<in> set (fst (ethPortNames d)). bridged es j (p @ vid_suffix v))"
    using vlan_emissions_wire [OF v refl, of d] sub by (meson subsetD)
  have "vlan_of es p n" if "vlan_of ?vl p n" for p n
    using that sub by (auto simp: vlan_of_def)
  then have tag: "vp_vid v \<noteq> 0 \<longrightarrow> (\<forall>p \<in> set (fst (ethPortNames d)). vlan_of es p (vp_vid v))
       \<and> (\<exists>m. Row ''netconf'' (indexed ''netconf.'' m @ ''devname'') (aaaBridge v) \<in> set es
            \<and> Row ''netconf'' (indexed ''netconf.'' m @ ''up'') ''enabled'' \<in> set es)"
    using vlan_emissions_tag [OF v _ refl, of d] sub by (meson subsetD)
  have w: "set (emitWirelessRows (i + 1) v (wifi_cap d 0x40)) \<subseteq> set es"
    using vap_block [OF assms(1), of 0] assms(2-4) by (fastforce simp: emitWirelessCfg_def Let_def)
  note own = aaa_names [OF assms(1,3), of _ cc d, folded assms(2,4)]
  show ?thesis
    unfolding aaaBridge_def [symmetric]
    by (intro conjI allI own subsetD [OF w] wireless_wired_rows bridge tag)
qed

definition demo_vap :: vap_plan where
  "demo_vap = \<lparr>vp_wlan = zero_wlan\<lparr>w_ssid := ''lab'', w_security := ''wpa2-wpa3'', w_passphrase := ''secret-one''\<rparr>,
     vp_id = ''id1'', vp_radio = 1, vp_phy = ''wifi0'', vp_ath = 0, vp_vid = 30\<rparr>"

definition demo_plan :: provisioning_plan where
  "demo_plan = \<lparr>pp_drift = [], pp_vaps = [demo_vap],
     pp_radios = [\<lparr>rr_name = ''wifi0'', rr_band = ''ng'', rr_known = True, rr_raw = []\<rparr>], pp_placements = []\<rparr>"

lemma vap_wired_witness:
  "\<exists>j. Row ''vlan-blocks'' (indexed ''bridge.'' j @ ''devname'') ''br0.30'' \<in> set (emitWirelessCfg 840 demo_plan (new_device ''aabbcc001122''))
     \<and> bridged (emitWirelessCfg 840 demo_plan (new_device ''aabbcc001122'')) j ''ath0''"
proof -
  have "0 < length (pp_vaps demo_plan)" "demo_vap = pp_vaps demo_plan ! 0" "pp_radios demo_plan \<noteq> []" by (simp_all add: demo_plan_def)
  moreover have "aaaBridge demo_vap = ''br0.30''" "devname (vp_ath demo_vap) = ''ath0''" by code_simp+
  ultimately show ?thesis using vap_wired [of 0 demo_plan demo_vap _ 840 "new_device ''aabbcc001122''", OF _ _ _ refl] by metis
qed

section \<open>What the diagnostic shows\<close>

text \<open>The part of a line the diagnostic can see: a section head as it is, of any other line what precedes the first equals sign.\<close>

definition name_part :: "string \<Rightarrow> string" where
  "name_part raw = (let line = trim_cr raw
     in if has_prefix ''# '' line then line
        else case index_of (CHR ''='') line of None \<Rightarrow> [] | Some eq \<Rightarrow> take eq line)"

definition diag_name :: "string \<Rightarrow> diag \<Rightarrow> string + diag" where
  "diag_name n g =
    (if n = [] then Inr g
     else if has_prefix ''# '' n
     then let sec = trim_space (drop 2 n)
       in Inr (g\<lparr>dg_section := sec,
            dg_sections := (if sec \<noteq> [] \<and> sec \<notin> set (dg_sections g) then dg_sections g @ [sec] else dg_sections g)\<rparr>)
     else diag_key (trim_space n) g)"

lemma index_of_Nil: "index_of c l = Some i \<Longrightarrow> i < length l"
  by (induction l arbitrary: i) (auto split: if_splits)

lemma prefix_take: "has_prefix p (take n l) \<Longrightarrow> has_prefix p l"
  unfolding has_prefix_iff by (metis append_assoc append_take_drop_id)

lemma diag_line_name: "diag_line raw g = diag_name (name_part raw) g"
proof -
  let ?l = "trim_cr raw"
  have "take i ?l \<noteq> []" if "index_of (CHR ''='') ?l = Some i" "\<not> i < 1" for i
    using index_of_Nil [OF that(1)] that(2) by auto
  then show ?thesis
    using prefix_take [of "''# ''" _ ?l]
    by (auto simp: diag_line_def name_part_def diag_name_def Let_def split: option.splits)
qed

lemma diag_lines_names: "map name_part xs = map name_part ys \<Longrightarrow> diag_lines xs g = diag_lines ys g"
proof (induction xs arbitrary: ys g)
  case (Cons x xs)
  then obtain y zs where ys: "ys = y # zs" "name_part x = name_part y" "map name_part xs = map name_part zs" by auto
  have "diag_lines xs = diag_lines zs" by (rule HOL.ext) (rule Cons.IH [OF ys(3)])
  then show ?case by (simp add: ys diag_line_name)
qed simp

text \<open>
  The diagnostic never carries a value: for two texts with the same digest it is the same, error
  included, as soon as their lines agree on the section heads and on what stands before the equals
  sign; nothing after an equals sign, such as a passphrase, can influence it otherwise.
\<close>

theorem diagnostic_value_free:
  assumes "map name_part (split_on nl cfg) = map name_part (split_on nl cfg')" "sha cfg = sha cfg'"
  shows "Diagnostic sha cfg = Diagnostic sha cfg'"
  using diag_lines_names [OF assms(1)] assms(2) by (simp add: Diagnostic_def)

lemma diagnostic_value_free_witness:
  "Diagnostic (\<lambda>_. ''00'') (''wpa.psk=one'' @ [nl] @ ''x=1'') = Diagnostic (\<lambda>_. ''00'') (''wpa.psk=two'' @ [nl] @ ''x=2'')"
  by (rule diagnostic_value_free; code_simp)

lemma transition_rows:
  assumes "is_transition (vp_wlan v)"
  shows "\<exists>A B. fst (emitAaaRows n v oh das dn) = A @ rows ''aaa-rows'' (indexed ''aaa.'' n)
     [(''wpa.psk'', effective_psk (vp_wlan v)), (''wpa.key.1.mgmt'', ''SAE''), (''wpa.psk'', effective_psk (vp_wlan v))] @ B"
proof -
  let ?r = "rows ''aaa-rows'' (indexed ''aaa.'' n)"
  have r: "rows w p (xs @ ys) = rows w p xs @ rows w p ys" for w p xs ys by (simp add: rows_def)
  have "is_wpa3 (vp_wlan v)" "w_security (vp_wlan v) \<noteq> ''open''" "w_security (vp_wlan v) \<noteq> ''wpa-eap''"
    using assms by (simp_all add: is_transition_def is_wpa3_def)
  moreover from this have "aaa_sae (vp_wlan v) @ aaa_mgmt (vp_wlan v)
      = [(''wpa3.support'', ''enabled''), (''wpa3.transition'', boolStr True), (''wpa3.ft.status'', ''disabled'')]
        @ [(''wpa.psk'', effective_psk (vp_wlan v)), (''wpa.key.1.mgmt'', ''SAE''), (''wpa.psk'', effective_psk (vp_wlan v))]"
    using assms by (simp add: aaa_sae_def aaa_mgmt_def)
  ultimately have "fst (emitAaaRows n v oh das dn)
      = (?r (aaa_head v) @ map Alerted (eap_alerts (vp_wlan v)) @ ?r (aaa_fixed v)
         @ ?r [(''wpa3.support'', ''enabled''), (''wpa3.transition'', boolStr True), (''wpa3.ft.status'', ''disabled'')])
        @ ?r [(''wpa.psk'', effective_psk (vp_wlan v)), (''wpa.key.1.mgmt'', ''SAE''), (''wpa.psk'', effective_psk (vp_wlan v))]
        @ ?r ([(''wpa.1.pairwise'', ''CCMP''), (''pmf.cipher'', ''AES-128-CMAC'')] @ aaa_tail)"
    unfolding emitAaaRows_def Let_def aaa_eap_def by (simp add: r flip: append_assoc) (simp add: rows_def)
  then show ?thesis by blast
qed

text \<open>
  One WPA2/WPA3 transition WLAN silences the diagnostic: its \<^verbatim>\<open>aaa\<close> block writes \<^verbatim>\<open>wpa.psk\<close> twice,
  which \<open>Diagnostic\<close> takes for a malformed text, so for every render whose plan has such a vap the one
  record of the push in the log is the line that says it is unavailable.
\<close>

theorem transition_silences_diagnostic:
  assumes "RenderWithPlan hs d facts plan = Inr res" "v \<in> set (pp_vaps plan)" "pp_radios plan \<noteq> []"
    "is_transition (vp_wlan v)" "\<not> has_newline (effective_psk (vp_wlan v))"
  shows "last (render_log sha res) = LogDebug ''system_cfg diagnostic unavailable''"
proof -
  from RenderWithPlan_Inr [OF assms(1)] obtain keys pw where r:
    "run_emissions (system_emissions d plan keys pw) = (rs_text res, rs_alerts res)" by metis
  let ?psk = "effective_psk (vp_wlan v)"
  obtain n dn' A B where 1: "emit_vaps 0 (pp_vaps plan) (wifi_cap d 0x2000) (supportsDasDad d) (wifi_cap d 0x40) False
      = A @ fst (emitAaaRows n v (wifi_cap d 0x2000) (supportsDasDad d) dn') @ B"
    using vap_in_emissions [OF assms(2)] by blast
  obtain C D where 2: "fst (emitAaaRows n v (wifi_cap d 0x2000) (supportsDasDad d) dn') = C @ rows ''aaa-rows'' (indexed ''aaa.'' n)
      [(''wpa.psk'', ?psk), (''wpa.key.1.mgmt'', ''SAE''), (''wpa.psk'', ?psk)] @ D"
    using transition_rows [OF assms(4)] by blast
  have "\<exists>E F. emitWirelessCfg (country_of d) plan d = E @ rows ''aaa-rows'' (indexed ''aaa.'' n)
      [(''wpa.psk'', ?psk), (''wpa.key.1.mgmt'', ''SAE''), (''wpa.psk'', ?psk)] @ F"
    using assms(3) unfolding emitWirelessCfg_def Let_def 1 2 by (simp, metis append.assoc append_Cons)
  then have "\<exists>E F. system_emissions d plan keys pw = E @ rows ''aaa-rows'' (indexed ''aaa.'' n)
      [(''wpa.psk'', ?psk), (''wpa.key.1.mgmt'', ''SAE''), (''wpa.psk'', ?psk)] @ F"
    unfolding system_emissions_def Let_def by (metis append.assoc)
  then obtain E F where "system_emissions d plan keys pw = E @ rows ''aaa-rows'' (indexed ''aaa.'' n)
      [(''wpa.psk'', ?psk), (''wpa.key.1.mgmt'', ''SAE''), (''wpa.psk'', ?psk)] @ F" by blast
  then have lines: "split_on nl (rs_text res) = concat (map lines_of E)
      @ [(indexed ''aaa.'' n @ ''wpa.psk'') @ ''='' @ ?psk, (indexed ''aaa.'' n @ ''wpa.key.1.mgmt'') @ ''='' @ ''SAE'',
         (indexed ''aaa.'' n @ ''wpa.psk'') @ ''='' @ ?psk] @ concat (map lines_of F) @ [[]]"
    using run_lines [OF tidy_system, of d plan keys pw] assms(5) r by (simp add: rows_def has_newline_def)
  have keys: "safeDiagnosticName (indexed ''aaa.'' n @ ''wpa.psk'')" "safeDiagnosticName (indexed ''aaa.'' n @ ''wpa.key.1.mgmt'')"
    "\<not> has_newline ''SAE''"
  proof -
    have "list_all safe_char ''aaa.''" "safeDiagnosticName ''wpa.psk''" "safeDiagnosticName ''wpa.key.1.mgmt''"
      by code_simp+
    then show "safeDiagnosticName (indexed ''aaa.'' n @ ''wpa.psk'')" "safeDiagnosticName (indexed ''aaa.'' n @ ''wpa.key.1.mgmt'')"
      by simp_all
  qed code_simp
  have "\<exists>e. diag_lines (split_on nl (rs_text res)) diag_start = Inl e"
    unfolding lines by (rule diag_repeated) (rule keys assms(5))+
  then obtain e where "Diagnostic sha (rs_text res) = Inl e" by (auto simp: Diagnostic_def)
  then show ?thesis by (simp add: render_log_def)
qed

section \<open>The ledbar block and the ethernet inventory\<close>

text \<open>
  The two blocks that tell a device about its LED agree: for a ledbar model \<^verbatim>\<open>ledbar.status\<close> is
  enabled exactly when mgmt_cfg's \<^verbatim>\<open>led_enabled\<close> is true, for any other model the block is absent; and
  whatever text the colour field holds, the three components are numbers from 0 to 255.
\<close>

theorem ledbar_agrees_with_mgmt:
  "((''ledbar.status'', s) \<in> set (ledbar_rows d) \<longleftrightarrow>
      dev_model d \<in> ledbarModels \<and> s = boolStr (ledEnabledValue d = ''true''))
   \<and> (ledbar_rows d = [] \<longleftrightarrow> dev_model d \<notin> ledbarModels)
   \<and> (\<exists>r g b. decodeLedColor c = (r, g, b) \<and> {r, g, b} \<subseteq> {0..255})"
proof -
  have "\<exists>r g b. decodeLedColor c = (r, g, b) \<and> {r, g, b} \<subseteq> {0..255}"
    by (metis color_range prod_cases3)
  then show ?thesis
    by (auto simp: ledbar_rows_def ledEnabledValue_def Let_def case_prod_beta)
qed

text \<open>
  What a device reports cannot blow up its configuration: the ethernet inventory the renderer
  derives is never empty (so the first port exists), has distinct names of the form \<^verbatim>\<open>ethN\<close>, and is
  bounded by 64 ports or by the number of interfaces the device listed, whatever port counts it claims.
\<close>

theorem eth_inventory_bounded:
  "fst (ethPortNames d) \<noteq> [] \<and> distinct (fst (ethPortNames d)) \<and> list_all isEthIfaceName (fst (ethPortNames d))
   \<and> length (fst (ethPortNames d)) \<le> max 64 (length (opt_or [] (get_arr (ext d) ''if_table'')))"
proof -
  have "length (fst (ethPortNames d)) \<le> max 64 (length (opt_or [] (get_arr (ext d) ''if_table'')))"
  proof (cases rule: ethPortNames_cases [of d])
    case (ethernet names)
    with ethernet_table_names(4) [OF ethernet(2)] show ?thesis by simp
  next
    case (if_table names)
    with if_table_names(4) [OF if_table(3)] show ?thesis by auto
  qed simp
  with ethPortNames_ok [of d] show ?thesis by simp
qed

text \<open>
  Without a radio table the uplink row of the connectivity section names the interface \<^verbatim>\<open>ath-1\<close>.
\<close>

theorem no_radio_uplink: "StoredRadios d = [] \<Longrightarrow> (''connectivity.uplink_wds'', ''ath-1'') \<in> set (connectivity_rows d)"
proof -
  have "itoa (- 1) = ''-1''" by code_simp
  then show "StoredRadios d = [] \<Longrightarrow> (''connectivity.uplink_wds'', ''ath-1'') \<in> set (connectivity_rows d)"
    by (simp add: connectivity_rows_def)
qed

section \<open>When a render fails\<close>

lemma keys_accepted: "(\<exists>ks. parse_keys_from i lines = Inr ks) \<longleftrightarrow> list_all (\<lambda>l. \<exists>k. ParsePublicKey l = Inr k) lines"
  by (induction i lines rule: parse_keys_from.induct) (auto simp: and_then_Inr split: sum.splits)

lemma crypt_nonempty:
  "md5Crypt H rnd pw = Some h \<Longrightarrow> h \<noteq> []"
  "rand_ok rnd \<Longrightarrow> sha512Crypt H rnd pw = Some h \<Longrightarrow> h \<noteq> []"
  by (auto simp: md5Crypt_def split: option.splits) (metis append_is_Nil_conv crypt_text_def list.distinct(1) sha512Crypt_shape)

lemma password_total:
  assumes "rand_ok (hs_rand hs)" "hs_rand hs 8 = Some b"
  shows "\<exists>pw ds. usersPasswordHash hs d = Inr (pw, ds)"
proof -
  have "\<exists>p ds. fresh_password k (md5Crypt (hs_md5 hs) (hs_rand hs) pw) = Inr (p, ds)"
    "\<exists>p ds. fresh_password k (sha512Crypt (hs_sha512 hs) (hs_rand hs) pw) = Inr (p, ds)" for k pw
    using fresh_hash_total [where rnd = "hs_rand hs", OF assms(2), of "hs_md5 hs" pw "hs_sha512 hs"]
      crypt_nonempty(1) [of "hs_md5 hs" "hs_rand hs" pw] crypt_nonempty(2) [OF assms(1), of "hs_sha512 hs" pw]
    by (auto simp: fresh_password_def split: option.splits)
  then show ?thesis unfolding usersPasswordHash_def Let_def by (simp split: if_split)
qed

text \<open>
  With a working random source a render fails for one reason only: one of the record's authorized
  keys is not a line the key parser accepts, the check the admin API makes before it stores a key. So
  whatever a device reports, its provisioning cannot be made to fail.
\<close>

theorem render_fails_only_on_keys:
  assumes "rand_ok (hs_rand hs)" "hs_rand hs 8 = Some b"
  shows "(\<exists>res. RenderWithPlan hs d facts plan = Inr res)
    \<longleftrightarrow> list_all (\<lambda>l. \<exists>k. ParsePublicKey l = Inr k) (dev_ssh_keys d)"
proof -
  obtain pw ds where "usersPasswordHash hs d = Inr (pw, ds)" using password_total [OF assms] by blast
  then have "(\<exists>res. RenderWithPlan hs d facts plan = Inr res) \<longleftrightarrow> (\<exists>ks. parseDeviceSSHPublicKeys (dev_ssh_keys d) = Inr ks)"
    by (auto simp: RenderWithPlan_def case_prod_beta split: sum.splits)
  then show ?thesis by (simp add: parseDeviceSSHPublicKeys_def keys_accepted)
qed

section \<open>A concrete render\<close>

lemma demo_hasher_ok: "rand_ok (hs_rand demo_hasher)" "hs_rand demo_hasher 8 = Some (replicate 8 7)"
  by (simp_all add: demo_hasher_def rand_ok_def)

definition demo_site :: site_facts where
  "demo_site = \<lparr>sf_controller_url = [], sf_wlans = None\<rparr>"

lemma render_fails_only_on_keys_witness:
  "\<exists>res. RenderWithPlan demo_hasher (new_device ''aabbcc001122'') demo_site demo_plan = Inr res"
  using render_fails_only_on_keys [OF demo_hasher_ok, of "new_device ''aabbcc001122''" demo_site demo_plan]
  by (simp add: new_device_def)

lemma demo_renders: "\<exists>res. RenderWithPlan demo_hasher (new_device m) demo_site plan = Inr res"
proof -
  obtain pw ds where "usersPasswordHash demo_hasher (new_device m) = Inr (pw, ds)"
    using password_total [OF demo_hasher_ok] by blast
  then show ?thesis
    by (auto simp: RenderWithPlan_def parseDeviceSSHPublicKeys_def new_device_def case_prod_beta)
qed

lemma no_row_injection_witness:
  "\<exists>res pw. RenderWithPlan demo_hasher (new_device ''aabbcc001122'') demo_site demo_plan = Inr res
     \<and> split_on nl (rs_text res)
       = concat (map lines_of (system_emissions (new_device ''aabbcc001122'') demo_plan [] pw)) @ [[]]"
proof -
  obtain res where r: "RenderWithPlan demo_hasher (new_device ''aabbcc001122'') demo_site demo_plan = Inr res"
    using demo_renders by blast
  have "parseDeviceSSHPublicKeys (dev_ssh_keys (new_device ''aabbcc001122'')) = Inr []"
    by (simp add: new_device_def parseDeviceSSHPublicKeys_def)
  with no_row_injection [OF r] r show ?thesis by auto
qed

lemma render_stable_witness:
  "\<exists>res. RenderWithPlan demo_hasher (new_device ''aabbcc001122'') demo_site demo_plan = Inr res
     \<and> RenderWithPlan (demo_hasher\<lparr>hs_rand := (\<lambda>_. None)\<rparr>) (cache_deltas (rs_deltas res) (new_device ''aabbcc001122''))
         demo_site demo_plan = Inr (res\<lparr>rs_deltas := []\<rparr>)"
proof -
  obtain res where r: "RenderWithPlan demo_hasher (new_device ''aabbcc001122'') demo_site demo_plan = Inr res"
    using demo_renders by blast
  with render_stable [OF r demo_hasher_ok(1)] show ?thesis by blast
qed

lemma transition_silences_diagnostic_witness:
  "\<exists>res. RenderWithPlan demo_hasher (new_device ''aabbcc001122'') demo_site demo_plan = Inr res
     \<and> last (render_log (\<lambda>_. ''00'') res) = LogDebug ''system_cfg diagnostic unavailable''"
proof -
  obtain res where r: "RenderWithPlan demo_hasher (new_device ''aabbcc001122'') demo_site demo_plan = Inr res"
    using demo_renders by blast
  have "demo_vap \<in> set (pp_vaps demo_plan)" "pp_radios demo_plan \<noteq> []" by (simp_all add: demo_plan_def)
  moreover have "is_transition (vp_wlan demo_vap)" "\<not> has_newline (effective_psk (vp_wlan demo_vap))" by code_simp+
  ultimately show ?thesis using transition_silences_diagnostic [OF r] r by blast
qed

end
