(* ===== verification/App_Laws.thy ===== *)
theory App_Laws
  imports App_Wlans Set_Inform Inform_Lane Cfg_Laws
begin

text \<open>
  Where the admin's verbs meet the inform lane: what the console shows as the pending command is what the
  device is told next, a saved change is delivered by the next inform on the assigned key, and what an
  admin save may and may not touch over a whole history of verbs.
\<close>

section \<open>The record an inform decides on\<close>

lemma refresh_other_rows:
  "k \<noteq> SessionsExtraKey \<Longrightarrow> k \<noteq> SessionDisconnectEventExtraKey \<Longrightarrow>
   jget (ext (fst (refreshClientSessions d body now))) k = jget (ext d) k"
proof -
  assume k: "k \<noteq> SessionsExtraKey" "k \<noteq> SessionDisconnectEventExtraKey"
  obtain st b where s: "Stations body = (st, b)" by fastforce
  obtain d' ts where r: "RefreshSessionStations d (map station_info_of st) now = (d', ts)" by fastforce
  show ?thesis
    using RefreshSessionStations_parts(3) [OF r k] by (simp add: refreshClientSessions_def s r)
qed

text \<open>The refresh writes rows of the \<^verbatim>\<open>Extra\<close> map and no column.\<close>

lemma ext_set_columns [simp]: "admin_columns (ext_set k v d) = admin_columns d" "admin_columns (ext_del k d) = admin_columns d"
    "dev_applied_cfg (ext_set k v d) = dev_applied_cfg d" "dev_applied_cfg (ext_del k d) = dev_applied_cfg d"
  by (simp_all add: admin_columns_def ext_set_def ext_del_def)

lemma refresh_columns: "admin_columns (fst (refreshClientSessions d body now)) = admin_columns d"
    "dev_applied_cfg (fst (refreshClientSessions d body now)) = dev_applied_cfg d"
  by (simp_all add: refreshClientSessions_def RefreshSessionStations_def writeSessionRows_def Let_def split: prod.split)

text \<open>The decided record: the stored one after absorption and the session refresh.\<close>

definition decided_record :: "lane \<Rightarrow> jmap \<Rightarrow> int \<Rightarrow> device \<Rightarrow> device" where
  "decided_record la jm now rec = fst (let rec = Absorb jm now (ln_gcm la) rec in refreshClientSessions rec (ext rec) now)"

definition decided_request :: "lane \<Rightarrow> jmap \<Rightarrow> int \<Rightarrow> int \<Rightarrow> device \<Rightarrow> request" where
  "decided_request la jm now prev rec = (let r = decided_record la jm now rec in
     \<lparr>rq_transport = ln_transport la, rq_device = r, rq_body = ext r, rq_used_key = ln_used_key la, rq_now = now,
      rq_prev_target = prev\<rparr>)"

lemma inform_mutation_decides:
  "inform_mutation e now prev la jm rec = (case Decide e (decided_request la jm now prev rec) of
     Inl x \<Rightarrow> Inl x
   | Inr out \<Rightarrow> Inr (apply_deltas out (decided_record la jm now rec), out,
       snd (let rec = Absorb jm now (ln_gcm la) rec in refreshClientSessions rec (ext rec) now)))"
  by (simp add: inform_mutation_def decided_request_def decided_record_def Let_def case_prod_beta split: sum.split)

lemma decided_columns:
  "admin_columns (decided_record la jm now rec) = admin_columns rec"
  "dev_applied_cfg (decided_record la jm now rec) = (case get_str jm ''cfgversion'' of
     Some c \<Rightarrow> if c \<noteq> [] then c else dev_applied_cfg rec | None \<Rightarrow> dev_applied_cfg rec)"
  by (simp_all add: decided_record_def Let_def refresh_columns Absorb_columns)

lemma decided_row:
  "k \<noteq> SessionsExtraKey \<Longrightarrow> k \<noteq> SessionDisconnectEventExtraKey \<Longrightarrow>
   jget (ext (decided_record la jm now rec)) k = policy_row (ext rec) jm k"
  by (simp add: decided_record_def Let_def refresh_other_rows Absorb_row)

lemma command_keys: "list_all (\<lambda>k. k \<in> set adminOwnedKeys \<and> k \<noteq> SessionsExtraKey \<and> k \<noteq> SessionDisconnectEventExtraKey)
    [FlagSetdefaultArmed, FlagRebootOnConnect, CmdTaskKey]"
    "''_type'' \<noteq> SessionsExtraKey \<and> ''_type'' \<noteq> SessionDisconnectEventExtraKey"
  by code_simp+

lemma decided_type: "get_str (ext (decided_record la jm now rec)) ''_type'' = get_str jm ''_type''"
  using command_keys(2) by (simp add: get_str_def decided_row unclassed_row)

section \<open>The pending command\<close>

text \<open>The console and the engine read the arming flags alike.\<close>

lemma flagArmed_truthy: "flagArmed m k = truthy (jget m k)"
  by (simp add: flagArmed_def truthy_def split: option.split gval.split)

lemma armedCommand_cong:
  "(\<And>k. k \<in> {FlagSetdefaultArmed, FlagRebootOnConnect, CmdTaskKey} \<Longrightarrow> jget (ext a) k = jget (ext b) k) \<Longrightarrow>
   armedCommand a = armedCommand b"
  by (simp add: armedCommand_def flagArmed_def ArmedCmdTask_def)

lemma decided_command: "armedCommand (decided_record la jm now rec) = armedCommand rec"
  using command_keys(1) by (intro armedCommand_cong) (auto simp: decided_row policy_row_def)

fun command_name :: "kind \<Rightarrow> string" where
  "command_name KindSetdefault = ''factory-reset''"
| "command_name KindReboot = ''reboot''"
| "command_name KindCmd = ''cmd''"
| "command_name _ = []"

lemma armed_names: "case armedLifecycle d of Some (out, d') \<Rightarrow> command_name (out_kind out) = armedCommand d \<and> armedCommand d \<noteq> []
    | None \<Rightarrow> armedCommand d = []"
  by (simp add: armedLifecycle_def armedCommand_def flagArmed_truthy outcome_of_def Let_def split: option.split)

lemma not_command_name: "k \<notin> command_kinds \<Longrightarrow> command_name k = []"
  by (cases k) (simp_all add: command_kinds_def)

text \<open>
  C11: what the console shows is what happens: on an encrypted inform of a known type, the response the
  device gets is the pending command the device view names (a factory reset before a reboot before a
  stored command), and none of the three when the view names none, whatever the inform reports.
\<close>

theorem view_names_next_command:
  assumes "inform_mutation e now prev la jm rec = Inr (rec', out, ts)" "ln_transport la = TransportEncrypted"
    and "\<not> informTypeGentleNoop (opt_or [] (get_str jm ''_type''))"
  shows "command_name (out_kind out) = dv_pending_command (view jt rec)"
proof -
  let ?req = "decided_request la jm now prev rec" and ?d = "cloneDevice (decided_record la jm now rec)"
  have d: "Decide e ?req = Inr out"
    using assms(1) by (auto simp: inform_mutation_decides split: sum.splits)
  have r: "rq_transport ?req = TransportEncrypted" "rq_device ?req = decided_record la jm now rec"
    "rq_body ?req = ext (decided_record la jm now rec)"
    using assms(2) by (simp_all add: decided_request_def Let_def)
  from d obtain o' w n where w: "decide_work e ?req = Inr (o', w, n)" "out_kind out = out_kind o'"
    by (cases rule: Decide_Inr) simp
  have c: "armedCommand ?d = armedCommand rec"
    using decided_command [of la jm now rec] by (simp add: armedCommand_cong [of ?d "decided_record la jm now rec"])
  have "command_name (out_kind o') = armedCommand ?d"
  proof (cases "armedLifecycle ?d")
    case (Some x)
    then have "x = (o', w)"
      using w(1) assms(3) r by (cases x) (auto simp: decide_work_def decideEncrypted_def Let_def decided_type split: if_splits)
    then show ?thesis using armed_names [of ?d] Some by auto
  next
    case None
    then have "out_kind o' \<notin> command_kinds" using command_armed [OF w(1)] r(2) by auto
    then show ?thesis using armed_names [of ?d] None not_command_name by simp
  qed
  then show ?thesis using w(2) c by (simp add: view_scalars)
qed

section \<open>A saved change is delivered\<close>

lemma stage_mints:
  "wlan_drift_stage e plan st (d, n) = Inr (x, d', n') \<Longrightarrow> \<exists>v. d' = d\<lparr>dev_cfg_version := v\<rparr>"
  "blocked_drift_stage e (d, n) = Inr (x, d', n') \<Longrightarrow> \<exists>v. d' = d\<lparr>dev_cfg_version := v\<rparr>"
  by (auto simp: wlan_drift_stage_def blocked_drift_stage_def mint_cfg_def mint_def split: if_splits option.splits;
      rule exI [of _ "dev_cfg_version d"]; simp)+

lemma provisioned_simps [simp]:
  "provisioned_fields (d\<lparr>dev_cfg_version := v\<rparr>) = provisioned_fields d"
  "provisioned_fields (d\<lparr>dev_state := st\<rparr>) = provisioned_fields d"
  "provisioned_fields (d\<lparr>dev_extra := x\<rparr>) = provisioned_fields d"
  "provisioned_fields (sync t d) = provisioned_fields d"
  "provisioned_fields (cloneDevice d) = provisioned_fields d"
  by (simp_all add: provisioned_fields_def sync_def cloneDevice_def CloneDevice_def)

lemma columns_provisioned: "admin_columns a = admin_columns b \<Longrightarrow> provisioned_fields a = provisioned_fields b"
  by (simp add: admin_columns_def provisioned_fields_def)

lemma Settle_pending:
  "ds_pending_present (Settle cv st) \<Longrightarrow> ds_pending_present st \<and> ds_pending_sha (Settle cv st) = ds_pending_sha st
     \<and> ds_offered (Settle cv st) = ds_offered st"
  by (auto simp: Settle_def promote_def Let_def split: prod.splits option.splits if_splits)

text \<open>A delivery the record already waits for does not hold back a version it was not offered.\<close>

lemma fresh_version_dispatches:
  assumes "drift_and_dispatch e req wls plan d = Inr (out, d', n')"
    and fresh: "get_str (ext d) WlanCfgPendingShaKey \<noteq> None \<Longrightarrow>
      \<exists>off. get_str (ext d) WlanCfgOfferedCfgversionKey = Some off \<and> off \<noteq> dev_cfg_version d"
  obtains drift st d1 n1 where "dispatch e req wls plan drift st (d1, n1) = Inr (out, d', n')" "same_assignment d1 d"
    "provisioned_fields d1 = provisioned_fields d" "drift \<or> dev_cfg_version d1 = dev_cfg_version d"
proof -
  define st where "st = Settle (dev_cfg_version d) (LoadDeliveryState (en_json e) (ext d))"
  obtain wd dw nw where w: "wlan_drift_stage e plan st (sync st d, 0) = Inr (wd, dw, nw)"
    using assms(1) by (auto simp: drift_and_dispatch_def Let_def and_then_Inr st_def)
  obtain bd db nb where b: "blocked_drift_stage e (dw, nw) = Inr (bd, db, nb)"
    using assms(1) w by (auto simp: drift_and_dispatch_def Let_def and_then_Inr st_def)
  obtain st' hold wd' where p: "pending_stage (rq_now req) plan wd bd db st = (st', hold, wd')"
    by (metis prod_cases3)
  note W = wlan_drift_stage_Inr [OF w] and B = blocked_drift_stage_Inr [OF b]
  have "\<not> hold"
  proof
    assume hold
    then have h: "ds_pending_present st" "ds_pending_sha st \<noteq> []" "\<not> bd" "ds_pending_sha st = pp_drift plan"
      "case ds_offered st of None \<Rightarrow> True | Some off \<Rightarrow> dev_cfg_version db = off"
      using p by (auto simp: pending_stage_def Let_def split: if_splits option.splits)
    note S = Settle_pending [OF h(1) [unfolded st_def], folded st_def]
    have "dev_cfg_version db = dev_cfg_version d"
      using w h(1,4) B(4) [OF h(3)] by (auto simp: wlan_drift_stage_def sync_def split: if_splits)
    moreover have "get_str (ext d) WlanCfgPendingShaKey \<noteq> None" "ds_offered st = get_str (ext d) WlanCfgOfferedCfgversionKey"
      using S h(2) by (auto simp: LoadDeliveryState_def opt_or_def split: option.splits)
    ultimately show False using fresh h(5) by auto
  qed
  then have "dispatch e req wls plan (wd' \<or> bd) st' (sync st' db, nb) = Inr (out, d', n')"
    using assms(1) w b p by (simp add: drift_and_dispatch_def Let_def st_def)
  moreover have "same_assignment (sync st' db) d" using W(1) B(1) by (auto simp: same_assignment_def)
  moreover have "provisioned_fields (sync st' db) = provisioned_fields d" using stage_mints(1) [OF w] stage_mints(2) [OF b] by auto
  moreover have "(wd' \<or> bd) \<or> dev_cfg_version (sync st' db) = dev_cfg_version d"
    using W(3,4) B(4) p by (auto simp: pending_stage_def sync_def Let_def split: if_splits prod.splits)
  ultimately show thesis using that by blast
qed

lemma assignedKeyFlow_renders:
  assumes "assignedKeyFlow e now wls plan (d, n) = Inr (out, d', n')"
  shows "\<exists>x deltas. en_system_cfg e x wls plan = Some (out_system_cfg out, deltas) \<and> provisioned_fields x = provisioned_fields d"
proof -
  obtain dm nm where m: "(if dev_cfg_version d = [] then mint_cfg e (d, n) else Inr (d, n)) = Inr (dm, nm)"
    using assms by (auto simp: assignedKeyFlow_def and_then_Inr)
  then have f: "provisioned_fields dm = provisioned_fields d"
    by (auto simp: mint_cfg_def mint_def and_then_Inr split: if_splits option.splits)
  obtain sys deltas where c: "en_system_cfg e (dm\<lparr>dev_state := StateAdopting\<rparr>) wls plan = Some (sys, deltas)"
    using assms m by (auto simp: assignedKeyFlow_def Let_def split: option.splits)
  then have "out_system_cfg out = sys" using assms m by (auto simp: assignedKeyFlow_def Let_def)
  with c f show ?thesis by (intro exI [of _ "dm\<lparr>dev_state := StateAdopting\<rparr>"]) auto
qed

text \<open>The record a patch stores.\<close>

lemma PatchDevice_stores:
  assumes "db_inv (js_db s)" "CanonicalMAC mac = Inr c" "devices_of (js_db s) c = Some d"
    and "PatchDevice env mac p s = (s', Inr v)"
  shows "\<exists>rec. devices_of (js_db s') = (devices_of (js_db s))(c \<mapsto> rec) \<and> dv_cfg_version v = dev_cfg_version rec
    \<and> (\<exists>x. patch_change p d = Inr x)
    \<and> (if provisioned_fields (patched p d) \<noteq> provisioned_fields d
       then \<exists>nv. mintCfgVersion env = Inr nv \<and> rec = (patched p d)\<lparr>dev_cfg_version := nv\<rparr>
       else rec = patched p d)"
proof -
  have cc: "canonicalMAC c = c" using CanonicalMAC_D [OF assms(2)] by (simp add: mac_simps)
  then have sd: "seeded c s = d" using assms(3) by (simp add: seeded_def db_Get_devices)
  obtain rec where run: "saveIntent env mac SaveExisting (patch_change p) (\<lambda>_. scalars_of) s = (s', Inr rec)"
      "v = view (ae_json env) rec"
    using assms(4) by (cases "saveIntent env mac SaveExisting (patch_change p) (\<lambda>_. scalars_of) s")
      (auto simp: PatchDevice_def viewed_def split: sum.splits)
  from assms(1) run(1) show ?thesis
  proof (cases rule: patch_verb.save_cases)
    case refused
    then show ?thesis by simp
  next
    case (stored c' d' out)
    then have c: "c' = c" "intent_cycle env (patch_change p) (\<lambda>_. scalars_of) d = Inr (d', out)"
      using assms(2) sd by auto
    obtain eff d1 u where i: "patch_change p d = Inr (eff, d1, u)" "out = scalars_of d'"
      "if eff then \<exists>nv. mintCfgVersion env = Inr nv \<and> d' = d1\<lparr>dev_cfg_version := nv\<rparr> else d' = d1"
      using c(2) by (rule patch_verb.cycle_Inr)
    have "out = rec" using stored by (auto split: if_splits)
    moreover have "dev_cfg_version (scalars_of d') = dev_cfg_version d'" by (simp add: scalars_of_def)
    ultimately show ?thesis using i patch_result [OF i(1)] stored(4) c(1) run(2) by (auto simp: view_scalars)
  qed
qed

text \<open>
  C7: a saved change reaches the device: a patch changed what a provisioning carries of an adopted
  record (one with an assigned key other than the factory key, and no command pending), and the device then
  sends an encrypted inform on that key, of no or a known \<^verbatim>\<open>_type\<close>, that names a configuration other than the newly
  minted one and reports no pending delivery row of its own. Then the answer is a full provisioning
  rendered from the patched settings. A delivery still waiting for its evidence does not hold it back, as long as
  the record says under which version it was offered and that is not the new one. The key source and the producer
  of the configuration text are taken not to fail (\<open>engine_total\<close>).
\<close>

theorem operator_save_delivered:
  assumes "db_inv (js_db s)" "CanonicalMAC mac = Inr c" "devices_of (js_db s) c = Some d"
    and "PatchDevice env mac p s = (s', Inr v)" "provisioned_fields (patched p d) \<noteq> provisioned_fields d"
    and "armedCommand d = []" "dev_x_authkey d \<noteq> []" "\<not> equal_fold (dev_x_authkey d) DefaultKeyHex"
    and "jget (ext d) WlanCfgPendingShaKey \<noteq> None \<Longrightarrow>
      \<exists>off. get_str (ext d) WlanCfgOfferedCfgversionKey = Some off \<and> off \<noteq> dv_cfg_version v"
    and "engine_total e" "ln_transport la = TransportEncrypted" "ln_used_key la = dev_x_authkey d"
    and "\<not> informTypeGentleNoop (opt_or [] (get_str jm ''_type''))" "jget jm WlanCfgPendingShaKey = None"
    and "get_str jm ''cfgversion'' = Some echo" "echo \<noteq> []" "echo \<noteq> dv_cfg_version v"
  shows "\<exists>rec rec' out ts. devices_of (js_db s') c = Some rec \<and> inform_mutation e now prev la jm rec = Inr (rec', out, ts)
    \<and> out_kind out = KindSetparam \<and> out_full out
    \<and> (\<exists>x wls plan deltas. en_system_cfg e x wls plan = Some (out_system_cfg out, deltas)
        \<and> provisioned_fields x = provisioned_fields (patched p d))"
proof -
  obtain rec nv where rec: "devices_of (js_db s') c = Some rec" "rec = (patched p d)\<lparr>dev_cfg_version := nv\<rparr>" "dv_cfg_version v = nv"
    using PatchDevice_stores [OF assms(1-4)] assms(5) by auto
  let ?req = "decided_request la jm now prev rec" and ?r = "decided_record la jm now rec"
  let ?d = "cloneDevice ?r"
  have rows: "ext rec = ext d" using patched_keeps(2) [of p d] by (simp add: rec(2) ext_def)
  have key: "dev_x_authkey rec = dev_x_authkey d" using patched_keeps(1) [of p d] by (simp add: rec(2) fixed_fields_def)
  have cols: "dev_x_authkey ?r = dev_x_authkey d" "dev_cfg_version ?r = nv" "provisioned_fields ?r = provisioned_fields (patched p d)"
    "dev_applied_cfg ?r = echo"
    using decided_columns [of la jm now rec] columns_provisioned [of ?r rec] key assms(15,16)
    by (simp_all add: admin_columns_def rec(2))
  have q: "rq_transport ?req = TransportEncrypted" "rq_device ?req = ?r" "rq_body ?req = ext ?r" "rq_used_key ?req = dev_x_authkey d"
    using assms(11,12) by (simp_all add: decided_request_def Let_def)
  have "armedCommand ?d = []"
    using assms(6) decided_command [of la jm now rec] armedCommand_cong [of rec d] armedCommand_cong [of ?d ?r] by (simp add: rows)
  then have none: "armedLifecycle ?d = None" using armed_names [of ?d] by (auto split: option.splits prod.splits)
  have ok: "\<not> key_rejected (rq_used_key ?req) ?d" using assms(8) by (simp add: key_rejected_def q)
  have "Decide e ?req \<noteq> Inl ErrDefaultKeyRejected" using ok q by (simp add: Decide_rejects)
  then obtain out where o: "Decide e ?req = Inr out" using Decide_succeeds [OF assms(10)] succeedsD by blast
  then obtain o' w n where w: "decide_work e ?req = Inr (o', w, n)" "out = deltas (rq_device ?req) (confirm_key (rq_used_key ?req) w) o'"
    by (rule Decide_Inr)
  have dd: "drift_and_dispatch e ?req (wirelessForDevice e ?d) (request_plan e ?req) ?d = Inr (o', w, n)"
    using w(1) none ok q assms(13) by (simp add: decide_work_def decideEncrypted_def Let_def request_plan_def decided_type)
  have keys: "WlanCfgPendingShaKey \<noteq> SessionsExtraKey \<and> WlanCfgPendingShaKey \<noteq> SessionDisconnectEventExtraKey
      \<and> WlanCfgOfferedCfgversionKey \<noteq> SessionsExtraKey \<and> WlanCfgOfferedCfgversionKey \<noteq> SessionDisconnectEventExtraKey
      \<and> WlanCfgPendingShaKey \<notin> set adminOwnedKeys \<and> WlanCfgPendingShaKey \<in> set controllerOwnedKeys
      \<and> WlanCfgOfferedCfgversionKey \<notin> set adminOwnedKeys \<and> WlanCfgOfferedCfgversionKey \<in> set controllerOwnedKeys"
    by code_simp
  have "\<exists>off. get_str (ext ?d) WlanCfgOfferedCfgversionKey = Some off \<and> off \<noteq> dev_cfg_version ?d"
    if "get_str (ext ?d) WlanCfgPendingShaKey \<noteq> None"
  proof -
    have "jget (ext d) WlanCfgPendingShaKey \<noteq> None"
      using that keys assms(14) by (auto simp: get_str_def decided_row policy_row_def rows split: option.splits)
    then obtain off where "get_str (ext d) WlanCfgOfferedCfgversionKey = Some off" "off \<noteq> nv" using assms(9) rec(3) by auto
    then show ?thesis using keys cols(2) by (auto simp: get_str_def decided_row policy_row_def rows split: option.splits)
  qed
  from dd this obtain drift st d1 n1 where g: "dispatch e ?req (wirelessForDevice e ?d) (request_plan e ?req) drift st (d1, n1) = Inr (o', w, n)"
    "same_assignment d1 ?d" "provisioned_fields d1 = provisioned_fields ?d" "drift \<or> dev_cfg_version d1 = dev_cfg_version ?d"
    by (rule fresh_version_dispatches) blast
  have a: "dev_x_authkey d1 = dev_x_authkey d" "dev_applied_cfg d1 = echo" using g(2) cols by (simp_all add: same_assignment_def keys_of_def)
  have "out_kind o' = KindSetparam \<and> out_full o' \<and> (\<exists>x wls plan deltas. en_system_cfg e x wls plan = Some (out_system_cfg o', deltas)
      \<and> provisioned_fields x = provisioned_fields (patched p d))"
    using g(1)
  proof (cases rule: dispatch_cases)
    case provision
    with assignedKeyFlow_result(3,4) [OF provision(3)] assignedKeyFlow_renders [OF provision(3)] g(3) cols(3) show ?thesis by auto
  qed (use a assms(7,8,17) q g(4) cols(2) rec(3) in \<open>auto simp: equal_fold_def\<close>)
  then have "out_kind out = KindSetparam \<and> out_full out \<and> (\<exists>x wls plan deltas. en_system_cfg e x wls plan = Some (out_system_cfg out, deltas)
      \<and> provisioned_fields x = provisioned_fields (patched p d))"
    using w(2) by (simp add: deltas_def Let_def)
  then show ?thesis using rec(1) o by - (rule exI [of _ rec], simp add: inform_mutation_decides)
qed

definition led_off :: device_patch where
  "led_off = \<lparr>pa_name = None, pa_site_id = None, pa_led_override = Some ''off'', pa_led_brightness = None, pa_led_color = None,
     pa_ssh_password = None, pa_country_code = None, pa_ssh_keys = None\<rparr>"

lemma led_off_saved:
  "\<exists>s' v. PatchDevice (demo_env GNil) ''aa-bb-cc-00-11-22'' led_off (demo_store (keyed_device StateAdopted [])) = (s', Inr v)
    \<and> dv_cfg_version v = ''0707070707070707''"
proof -
  let ?d = "keyed_device StateAdopted []" and ?e = "demo_env GNil" and ?mac = "''aa-bb-cc-00-11-22''"
  have m: "dev_mac ?d = ''aabbcc001122''" by (simp add: keyed_device_def new_device_def demo_mac_def)
  note s = demo_store_facts [OF m]
  have cv: "mintCfgVersion ?e = Inr ''0707070707070707''" by code_simp
  obtain d' where i: "intent_cycle ?e (patch_change led_off) (\<lambda>_. scalars_of) ?d = Inr (d', scalars_of d')" "dev_cfg_version d' = ''0707070707070707''"
    by (auto simp: intent_cycle_def cv patch_change_def led_off_def supplied_def patch_led_def ValidateLEDOverride_def
        fenced_def keyed_device_def new_device_def Let_def)
  have io: "ae_io ?e" by (simp add: demo_env_def)
  obtain s' where run: "saveIntent ?e ?mac SaveExisting (patch_change led_off) (\<lambda>_. scalars_of) (demo_store ?d) = (s', Inr (scalars_of d'))"
    using patch_verb.save_existing(2) [OF s [THEN conjunct1] demo_device_mac(1) s [THEN conjunct2] i(1) io] by blast
  then show ?thesis using i(2) by (simp add: PatchDevice_def viewed_def view_scalars scalars_of_def)
qed

theorem operator_save_delivered_witness:
  "\<exists>rec rec' out ts. inform_mutation demo_engine 1000 0 \<lparr>ln_transport = TransportEncrypted, ln_used_key = demo_key, ln_gcm = True\<rparr>
      [(''cfgversion'', GStr ''c1'')] rec = Inr (rec', out, ts) \<and> dev_led_override rec = ''off'' \<and> out_kind out = KindSetparam \<and> out_full out"
proof -
  let ?d = "keyed_device StateAdopted []"
  have m: "dev_mac ?d = ''aabbcc001122''" by (simp add: keyed_device_def new_device_def demo_mac_def)
  note s = demo_store_facts [OF m]
  obtain s' v where run: "PatchDevice (demo_env GNil) ''aa-bb-cc-00-11-22'' led_off (demo_store ?d) = (s', Inr v)"
    "dv_cfg_version v = ''0707070707070707''"
    using led_off_saved by blast
  have f: "provisioned_fields (patched led_off ?d) \<noteq> provisioned_fields ?d" "armedCommand ?d = []" "dev_x_authkey ?d \<noteq> []"
    "\<not> equal_fold (dev_x_authkey ?d) DefaultKeyHex" "jget (ext ?d) WlanCfgPendingShaKey = None" "dev_x_authkey ?d = demo_key"
    by code_simp+
  have j: "\<not> informTypeGentleNoop (opt_or [] (get_str [(''cfgversion'', GStr ''c1'')] ''_type''))"
    "jget [(''cfgversion'', GStr ''c1'')] WlanCfgPendingShaKey = None" "get_str [(''cfgversion'', GStr ''c1'')] ''cfgversion'' = Some ''c1''"
    by code_simp+
  have led: "dev_led_override rec = ''off''" if "devices_of (js_db s') ''aabbcc001122'' = Some rec" for rec
    using PatchDevice_stores [OF s [THEN conjunct1] demo_device_mac(1) s [THEN conjunct2] run(1)] that f(1)
    by (auto simp: patched_def led_off_def taken_def normal_led_def)
  show ?thesis
    using operator_save_delivered [OF s [THEN conjunct1] demo_device_mac(1) s [THEN conjunct2] run(1) f(1-4) _ demo_engine_total
        _ _ j(1-3), of "\<lparr>ln_transport = TransportEncrypted, ln_used_key = demo_key, ln_gcm = True\<rparr>" 1000 0] f(5,6) run(2) led
    by auto
qed

theorem view_names_next_command_witness:
  "\<exists>rec' out ts. inform_mutation demo_engine 1000 0 \<lparr>ln_transport = TransportEncrypted, ln_used_key = demo_key, ln_gcm = True\<rparr>
      [] (keyed_device StateAdopted [(FlagRebootOnConnect, GBool True)]) = Inr (rec', out, ts) \<and> command_name (out_kind out) = ''reboot''"
proof -
  let ?la = "\<lparr>ln_transport = TransportEncrypted, ln_used_key = demo_key, ln_gcm = True\<rparr>"
  let ?d = "keyed_device StateAdopted [(FlagRebootOnConnect, GBool True)]"
  have "\<not> key_rejected demo_key (cloneDevice (decided_record ?la [] 1000 ?d))" by code_simp
  then obtain out where "Decide demo_engine (decided_request ?la [] 1000 0 ?d) = Inr out"
    using demo_decides [of "decided_request ?la [] 1000 0 ?d"] by (auto simp: decided_request_def Let_def)
  then obtain rec' ts where i: "inform_mutation demo_engine 1000 0 ?la [] ?d = Inr (rec', out, ts)"
    by (simp add: inform_mutation_decides)
  have "\<not> informTypeGentleNoop (opt_or [] (get_str [] ''_type''))" "armedCommand ?d = ''reboot''" by code_simp+
  with view_names_next_command [OF i] i show ?thesis by (simp add: view_scalars)
qed

end
