(* ===== verification/Client_Events.thy ===== *)
theory Client_Events
  imports Sessions Go_Text
begin

text \<open>
  Client events, \<^verbatim>\<open>internal/clientevents/event.go\<close> and \<^verbatim>\<open>tracker.go\<close>: the event document with its
  human-readable message, and the tracker that turns the session transitions of single access
  points into connects, disconnects, roams and radio changes. Sinks are the list of events an
  operation emits; the clock is an argument (nanoseconds for deadlines, unix seconds for informs).
\<close>

section \<open>Events\<close>

definition KeyConnected :: string where "KeyConnected = ''EVT_WU_Connected''"
definition KeyDisconnected :: string where "KeyDisconnected = ''EVT_WU_Disconnected''"
definition KeyRoam :: string where "KeyRoam = ''EVT_WU_Roam''"
definition KeyRoamRadio :: string where "KeyRoamRadio = ''EVT_WU_RoamRadio''"

lemmas event_keys = KeyConnected_def KeyDisconnected_def KeyRoam_def KeyRoamRadio_def

record client_event =
  ce_key :: string
  ce_time :: int
  ce_datetime :: string
  ce_client :: string
  ce_hostname :: string
  ce_ip :: string
  ce_ap :: string
  ce_ap_name :: string
  ce_ap_from :: string
  ce_ap_from_name :: string
  ce_ap_to :: string
  ce_ap_to_name :: string
  ce_ssid :: string
  ce_radio :: string
  ce_radio_from :: string
  ce_radio_to :: string
  ce_channel :: int
  ce_channel_from :: int
  ce_channel_to :: int
  ce_duration :: int
  ce_bytes :: int
  ce_msg :: string

definition blank_event :: client_event where
  "blank_event = \<lparr>ce_key = [], ce_time = 0, ce_datetime = [], ce_client = [], ce_hostname = [], ce_ip = [],
     ce_ap = [], ce_ap_name = [], ce_ap_from = [], ce_ap_from_name = [], ce_ap_to = [], ce_ap_to_name = [],
     ce_ssid = [], ce_radio = [], ce_radio_from = [], ce_radio_to = [], ce_channel = 0, ce_channel_from = 0,
     ce_channel_to = 0, ce_duration = 0, ce_bytes = 0, ce_msg = []\<rparr>"

text \<open>
  \<^verbatim>\<open>time.UnixMilli(ms).UTC()\<close> in the layout \<^verbatim>\<open>2006-01-02T15:04:05Z\<close>: the proleptic Gregorian date of
  a day number (day 0 is 1970-01-01), fields padded with zeros.
\<close>

definition civil_date :: "int \<Rightarrow> int \<times> int \<times> int" where
  "civil_date days = (let z = days + 719468; era = z div 146097; doe = z mod 146097;
       yoe = (doe - doe div 1460 + doe div 36524 - doe div 146096) div 365;
       doy = doe - (365 * yoe + yoe div 4 - yoe div 100);
       mp = (5 * doy + 2) div 153; d = doy - (153 * mp + 2) div 5 + 1;
       m = (if mp < 10 then mp + 3 else mp - 9)
     in (yoe + era * 400 + (if m \<le> 2 then 1 else 0), m, d))"

definition pad_int :: "nat \<Rightarrow> int \<Rightarrow> string" where
  "pad_int w n = (let ds = dec_nat (nat \<bar>n\<bar>) in
     (if n < 0 then ''-'' else []) @ replicate (w - length ds) (CHR ''0'') @ ds)"

definition utc_text :: "int \<Rightarrow> string" where
  "utc_text ms = (let secs = ms div 1000; (y, m, d) = civil_date (secs div 86400); t = secs mod 86400 in
     pad_int 4 y @ ''-'' @ pad_int 2 m @ ''-'' @ pad_int 2 d @ ''T'' @ pad_int 2 (t div 3600) @ '':''
     @ pad_int 2 (t mod 3600 div 60) @ '':'' @ pad_int 2 (t mod 60) @ ''Z'')"

definition setTime :: "int \<Rightarrow> client_event \<Rightarrow> client_event" where
  "setTime unixSec e = (let t = wrap64 (unixSec * 1000) in e\<lparr>ce_time := t, ce_datetime := utc_text t\<rparr>)"

definition clientLabel :: "string \<Rightarrow> string \<Rightarrow> string" where
  "clientLabel hostname mac = (if hostname \<noteq> [] then hostname else mac)"

definition apLabel :: "string \<Rightarrow> string \<Rightarrow> string" where
  "apLabel name mac = (if name \<noteq> [] then name else mac)"

definition channelLabel :: "int \<Rightarrow> string \<Rightarrow> string" where
  "channelLabel channel radio = (if channel = 0 then ''unknown channel''
     else if radio = [] then ''channel '' @ itoa channel
     else ''channel '' @ itoa channel @ '' ('' @ radio @ '')'')"

definition FormatDuration :: "int \<Rightarrow> string" where
  "FormatDuration sec = (let sec = max 0 sec; d = sec div 86400; h = sec mod 86400 div 3600;
       m = sec mod 3600 div 60; s = sec mod 60 in
     if d > 0 then itoa d @ ''d '' @ itoa h @ ''h''
     else if h > 0 then itoa h @ ''h '' @ itoa m @ ''m''
     else if m > 0 then itoa m @ ''m '' @ itoa s @ ''s''
     else itoa s @ ''s'')"

text \<open>The unit loop of \<open>FormatBytes\<close>: from \<open>v\<close>, the divisor and the exponent.\<close>

function byte_unit :: "int \<Rightarrow> int \<Rightarrow> nat \<Rightarrow> int \<times> nat" where
  "byte_unit v d ex = (if v \<ge> 1000 then byte_unit (v div 1000) (d * 1000) (Suc ex) else (d, ex))"
  by pat_completeness auto
termination by (relation "measure (\<lambda>(v, _, _). nat v)") auto

declare byte_unit.simps [simp del]

definition fixed1 :: "rat \<Rightarrow> string" where
  "fixed1 x = (let t = rne (x * 10) in itoa (t div 10) @ ''.'' @ itoa (t mod 10))"

definition FormatBytes :: "int \<Rightarrow> string" where
  "FormatBytes n = (if n < 1000 then itoa n @ '' B''
     else let (d, ex) = byte_unit (n div 1000) 1000 0 in
       fixed1 (f64_round (f64_of_int n / f64_of_int d)) @ '' '' @ [''kMGTPE'' ! ex] @ ''B'')"

definition buildMsg :: "client_event \<Rightarrow> client_event" where
  "buildMsg e = (let who = clientLabel (ce_hostname e) (ce_client e) in
     if ce_key e = KeyConnected then e\<lparr>ce_msg := who @ '' connected''
       @ (if ce_ssid e \<noteq> [] then '' to '' @ ce_ssid e else [])
       @ '' on '' @ apLabel (ce_ap_name e) (ce_ap e) @ ''.''\<rparr>
     else if ce_key e = KeyDisconnected then e\<lparr>ce_msg := who @ '' disconnected''
       @ (if ce_ssid e \<noteq> [] then '' from '' @ ce_ssid e else []) @ ''.''
       @ (if ce_duration e > 0 then '' Time Connected: '' @ FormatDuration (ce_duration e) @ ''.'' else [])
       @ (if ce_bytes e > 0 then '' Data Used: '' @ FormatBytes (ce_bytes e) @ ''.'' else [])
       @ '' Last AP: '' @ apLabel (ce_ap_name e) (ce_ap e) @ ''.''\<rparr>
     else if ce_key e = KeyRoam then e\<lparr>ce_msg := who @ '' roamed from ''
       @ apLabel (ce_ap_from_name e) (ce_ap_from e) @ '' to '' @ apLabel (ce_ap_to_name e) (ce_ap_to e) @ ''.''\<rparr>
     else if ce_key e = KeyRoamRadio then e\<lparr>ce_msg := who @ '' changed from ''
       @ channelLabel (ce_channel_from e) (ce_radio_from e) @ '' to ''
       @ channelLabel (ce_channel_to e) (ce_radio_to e) @ '' on '' @ apLabel (ce_ap_name e) (ce_ap e) @ ''.''\<rparr>
     else e)"

section \<open>The tracker\<close>

record presence =
  pr_ap :: string
  pr_session :: client_session

record pending_disconnect =
  pd_ap :: string
  pd_session :: client_session
  pd_at :: int
  pd_deadline :: int

record tracker_config =
  tc_grace :: int
  tc_ap_name :: "string \<Rightarrow> string"

record tracker =
  trk_current :: "(string \<times> presence) list"
  trk_pending :: "(string \<times> pending_disconnect) list"

definition DefaultGrace :: int where "DefaultGrace = 30 * 10 ^ 9"

definition NewTracker :: "tracker_config \<Rightarrow> tracker_config \<times> tracker" where
  "NewTracker cfg = ((if tc_grace cfg \<le> 0 then cfg\<lparr>tc_grace := DefaultGrace\<rparr> else cfg),
     \<lparr>trk_current = [], trk_pending = []\<rparr>)"

definition firstNonEmpty :: "string \<Rightarrow> string \<Rightarrow> string" where
  "firstNonEmpty a b = (if a \<noteq> [] then a else b)"

definition connectEvent :: "tracker_config \<Rightarrow> string \<Rightarrow> transition \<Rightarrow> client_event" where
  "connectEvent cfg ap tr = (let r = cs_row (t_session tr) in
     buildMsg (setTime (t_at tr) (blank_event\<lparr>ce_key := KeyConnected, ce_client := ColonMAC (t_mac tr),
       ce_hostname := sr_hostname r, ce_ip := sr_ip r, ce_ap := ap, ce_ap_name := tc_ap_name cfg ap,
       ce_ssid := sr_essid r, ce_radio := sr_radio r, ce_channel := sr_channel r\<rparr>)))"

definition disconnectEvent :: "tracker_config \<Rightarrow> pending_disconnect \<Rightarrow> client_event" where
  "disconnectEvent cfg p = (let s = pd_session p; r = cs_row s;
       e = blank_event\<lparr>ce_key := KeyDisconnected, ce_client := ColonMAC (cs_mac s),
         ce_hostname := sr_hostname r, ce_ip := sr_ip r, ce_ap := pd_ap p, ce_ap_name := tc_ap_name cfg (pd_ap p),
         ce_ssid := sr_essid r, ce_radio := sr_radio r, ce_channel := sr_channel r, ce_bytes := sr_bytes r\<rparr>;
       e = (if sr_since r > 0 \<and> sr_last_seen r \<ge> sr_since r
            then e\<lparr>ce_duration := sr_last_seen r - sr_since r\<rparr> else e)
     in buildMsg (setTime (pd_at p) e))"

definition roamEvent :: "tracker_config \<Rightarrow> string \<Rightarrow> client_session \<Rightarrow> string \<Rightarrow> transition \<Rightarrow> client_event" where
  "roamEvent cfg fromAP from_s toAP tr = (let to = cs_row (t_session tr); fr = cs_row from_s in
     buildMsg (setTime (t_at tr) (blank_event\<lparr>ce_key := KeyRoam, ce_client := ColonMAC (t_mac tr),
       ce_hostname := firstNonEmpty (sr_hostname to) (sr_hostname fr), ce_ip := firstNonEmpty (sr_ip to) (sr_ip fr),
       ce_ap_from := fromAP, ce_ap_from_name := tc_ap_name cfg fromAP,
       ce_ap_to := toAP, ce_ap_to_name := tc_ap_name cfg toAP,
       ce_ssid := firstNonEmpty (sr_essid to) (sr_essid fr), ce_radio := sr_radio to,
       ce_radio_from := sr_radio fr, ce_radio_to := sr_radio to, ce_channel := sr_channel to,
       ce_channel_from := sr_channel fr, ce_channel_to := sr_channel to\<rparr>)))"

definition radioEvent :: "tracker_config \<Rightarrow> string \<Rightarrow> transition \<Rightarrow> client_event" where
  "radioEvent cfg ap tr = (let r = cs_row (t_session tr); old = cs_row (t_prev tr) in
     buildMsg (setTime (t_at tr) (blank_event\<lparr>ce_key := KeyRoamRadio, ce_client := ColonMAC (t_mac tr),
       ce_hostname := sr_hostname r, ce_ip := sr_ip r, ce_ap := ap, ce_ap_name := tc_ap_name cfg ap,
       ce_ssid := sr_essid r, ce_radio := sr_radio r, ce_radio_from := sr_radio old, ce_radio_to := sr_radio r,
       ce_channel := sr_channel r, ce_channel_from := sr_channel old, ce_channel_to := sr_channel r\<rparr>)))"

definition seed_session :: "string \<Rightarrow> client_session \<Rightarrow> tracker \<Rightarrow> tracker" where
  "seed_session ap s t = (if \<not> sr_connected (cs_row s) then t
     else case jget (trk_current t) (cs_mac s) of
       Some cur \<Rightarrow> if sr_last_seen (cs_row (pr_session cur)) \<ge> sr_last_seen (cs_row s) then t
         else t\<lparr>trk_current := jset (cs_mac s) \<lparr>pr_ap = ap, pr_session = s\<rparr> (trk_current t)\<rparr>
     | None \<Rightarrow> t\<lparr>trk_current := jset (cs_mac s) \<lparr>pr_ap = ap, pr_session = s\<rparr> (trk_current t)\<rparr>)"

definition Seed :: "device list \<Rightarrow> tracker \<Rightarrow> tracker" where
  "Seed ds t = fold (\<lambda>d t. fold (seed_session (ColonMAC (dev_mac d))) (ClientSessions d) t) ds t"

text \<open>The three transition handlers: the new state and the events, in emission order.\<close>

definition tracker_connect :: "tracker_config \<Rightarrow> string \<Rightarrow> transition \<Rightarrow> tracker \<Rightarrow> tracker \<times> client_event list" where
  "tracker_connect cfg ap tr t = (let c = t_mac tr; here = \<lparr>pr_ap = ap, pr_session = t_session tr\<rparr> in
     case jget (trk_pending t) c of
       Some pend \<Rightarrow>
         (t\<lparr>trk_pending := jdel c (trk_pending t), trk_current := jset c here (trk_current t)\<rparr>,
          if pd_ap pend = ap then [disconnectEvent cfg pend, connectEvent cfg ap tr]
          else [roamEvent cfg (pd_ap pend) (pd_session pend) ap tr])
     | None \<Rightarrow> (case jget (trk_current t) c of
         Some cur \<Rightarrow> (t\<lparr>trk_current := jset c here (trk_current t)\<rparr>,
           if pr_ap cur = ap then [] else [roamEvent cfg (pr_ap cur) (pr_session cur) ap tr])
       | None \<Rightarrow> (t\<lparr>trk_current := jset c here (trk_current t)\<rparr>, [connectEvent cfg ap tr])))"

definition tracker_disconnect :: "tracker_config \<Rightarrow> int \<Rightarrow> string \<Rightarrow> transition \<Rightarrow> tracker \<Rightarrow> tracker \<times> client_event list" where
  "tracker_disconnect cfg now ap tr t = (let c = t_mac tr in
     case jget (trk_current t) c of
       None \<Rightarrow> (t, [])
     | Some cur \<Rightarrow>
         if pr_ap cur \<noteq> ap then (t, [])
         else if jget (trk_pending t) c \<noteq> None then (t, [])
         else (t\<lparr>trk_pending := jset c \<lparr>pd_ap = ap, pd_session = t_session tr, pd_at = t_at tr,
                   pd_deadline = now + tc_grace cfg\<rparr> (trk_pending t)\<rparr>, []))"

definition tracker_radioChange :: "tracker_config \<Rightarrow> string \<Rightarrow> transition \<Rightarrow> tracker \<Rightarrow> tracker \<times> client_event list" where
  "tracker_radioChange cfg ap tr t = (let c = t_mac tr in
     case jget (trk_current t) c of
       None \<Rightarrow> (t, [])
     | Some cur \<Rightarrow>
         if pr_ap cur \<noteq> ap then (t, [])
         else if jget (trk_pending t) c \<noteq> None then (t, [])
         else (t\<lparr>trk_current := jset c \<lparr>pr_ap = ap, pr_session = t_session tr\<rparr> (trk_current t)\<rparr>,
               [radioEvent cfg ap tr]))"

definition observe_one :: "tracker_config \<Rightarrow> int \<Rightarrow> string \<Rightarrow> transition \<Rightarrow> tracker \<Rightarrow> tracker \<times> client_event list" where
  "observe_one cfg now ap tr t = (case t_kind tr of
     TransitionConnect \<Rightarrow> tracker_connect cfg ap tr t
   | TransitionDisconnect \<Rightarrow> tracker_disconnect cfg now ap tr t
   | TransitionRadioChange \<Rightarrow> tracker_radioChange cfg ap tr t)"

fun Observe :: "tracker_config \<Rightarrow> int \<Rightarrow> string \<Rightarrow> transition list \<Rightarrow> tracker \<Rightarrow> tracker \<times> client_event list" where
  "Observe cfg now ap [] t = (t, [])"
| "Observe cfg now ap (tr # ts) t = (let (t, es) = observe_one cfg now ap tr t; (t, es') = Observe cfg now ap ts t
     in (t, es @ es'))"

definition due_disconnects :: "int \<Rightarrow> tracker \<Rightarrow> (string \<times> pending_disconnect) list" where
  "due_disconnects now t = sort_key (\<lambda>(c, p). (pd_at p, c)) (filter (\<lambda>(_, p). \<not> now < pd_deadline p) (trk_pending t))"

definition flush_one :: "tracker_config \<Rightarrow> string \<times> pending_disconnect \<Rightarrow> tracker \<Rightarrow> tracker \<times> client_event list" where
  "flush_one cfg cp t = (case cp of (c, p) \<Rightarrow>
     (t\<lparr>trk_pending := jdel c (trk_pending t),
        trk_current := (case jget (trk_current t) c of
            Some cur \<Rightarrow> if pr_ap cur = pd_ap p then jdel c (trk_current t) else trk_current t
          | None \<Rightarrow> trk_current t)\<rparr>,
      [disconnectEvent cfg p]))"

fun flush_all :: "tracker_config \<Rightarrow> (string \<times> pending_disconnect) list \<Rightarrow> tracker \<Rightarrow> tracker \<times> client_event list" where
  "flush_all cfg [] t = (t, [])"
| "flush_all cfg (cp # r) t = (let (t, es) = flush_one cfg cp t; (t, es') = flush_all cfg r t in (t, es @ es'))"

definition tracker_flush :: "tracker_config \<Rightarrow> int \<Rightarrow> tracker \<Rightarrow> tracker \<times> client_event list" where
  "tracker_flush cfg now t = flush_all cfg (due_disconnects now t) t"

section \<open>Units\<close>

lemma byte_unit_spec:
  "d = 1000 ^ Suc ex \<Longrightarrow> v = n div d \<Longrightarrow> d \<le> n \<Longrightarrow> byte_unit v d ex = (d', ex') \<Longrightarrow>
     d' = 1000 ^ Suc ex' \<and> d' \<le> n \<and> n < 1000 * d'"
proof (induction v d ex rule: byte_unit.induct)
  case (1 v d ex)
  have d: "0 < d" using 1(2) by simp
  show ?case
  proof (cases "v \<ge> 1000")
    case True
    then have q: "1000 \<le> n div d" using 1(3) by simp
    have "d * 1000 \<le> d * (n div d)" using d q by simp
    also have "\<dots> \<le> n" using d pos_mod_sign [OF d, of n] mult_div_mod_eq [of d n] by linarith
    finally have "d * 1000 \<le> n" .
    moreover have "v div 1000 = n div (d * 1000)" using 1(3) by (simp add: zdiv_zmult2_eq)
    ultimately show ?thesis
      using 1(1) [OF True, of] 1(2,5) True by (simp add: byte_unit.simps [of v])
  next
    case False
    then have "n div d < 1000" using 1(3) by simp
    then have "d * (n div d) \<le> d * 999" using d by (intro mult_left_mono) auto
    then have "n < 1000 * d" using d pos_mod_bound [OF d, of n] mult_div_mod_eq [of d n] by linarith
    have "byte_unit v d ex = (d, ex)" using False by (simp add: byte_unit.simps [of v])
    then have "d' = d" "ex' = ex" using 1(5) by simp_all
    with 1(2,4) \<open>n < 1000 * d\<close> show ?thesis by blast
  qed
qed

text \<open>
  The byte formatter picks the decimal unit that fits and never runs off its six unit letters:
  the scaled value of a 64-bit count from 1000 up lies between 1 and 1000.
\<close>

theorem FormatBytes_unit:
  assumes "1000 \<le> n" "n < 2 ^ 63" "byte_unit (n div 1000) 1000 0 = (d, ex)"
  shows "d = 1000 ^ Suc ex \<and> d \<le> n \<and> n < 1000 * d \<and> ex < length ''kMGTPE''"
proof -
  have s: "d = 1000 ^ Suc ex \<and> d \<le> n \<and> n < 1000 * d"
    using byte_unit_spec [of 1000 0 "n div 1000" n d ex] assms by simp
  have "ex < 6"
  proof (rule ccontr)
    assume "\<not> ex < 6"
    then have "(1000::int) ^ 7 \<le> 1000 ^ Suc ex" by (intro power_increasing) auto
    with s assms(2) show False by simp
  qed
  with s show ?thesis by simp
qed

lemma FormatBytes_unit_witness: "byte_unit (1234567 div 1000) 1000 0 = (1000000, 1) \<and> (1::nat) < length ''kMGTPE''"
proof -
  have b: "byte_unit (1234567 div 1000) 1000 0 = (1000000, 1)" by code_simp
  from FormatBytes_unit [OF _ _ b] b show ?thesis by simp
qed

section \<open>Whereabouts\<close>

text \<open>
  What the event stream says: where each client is. An event is legal when it fits: a connect of an
  absent client, a disconnect or radio change where the client is, a roam from there to elsewhere.
\<close>

type_synonym whereabouts = "string \<Rightarrow> string option"

definition legal_event :: "whereabouts \<Rightarrow> client_event \<Rightarrow> whereabouts option" where
  "legal_event loc e = (let c = ce_client e in
     if ce_key e = KeyConnected then (if loc c = None then Some (loc(c \<mapsto> ce_ap e)) else None)
     else if ce_key e = KeyDisconnected then (if loc c = Some (ce_ap e) then Some (loc(c := None)) else None)
     else if ce_key e = KeyRoam
       then (if loc c = Some (ce_ap_from e) \<and> ce_ap_from e \<noteq> ce_ap_to e then Some (loc(c \<mapsto> ce_ap_to e)) else None)
     else if ce_key e = KeyRoamRadio then (if loc c = Some (ce_ap e) then Some loc else None)
     else None)"

fun legal_run :: "whereabouts \<Rightarrow> client_event list \<Rightarrow> whereabouts option" where
  "legal_run loc [] = Some loc"
| "legal_run loc (e # es) = (case legal_event loc e of None \<Rightarrow> None | Some l \<Rightarrow> legal_run l es)"

lemma legal_run_append:
  "legal_run loc (xs @ ys) = (case legal_run loc xs of None \<Rightarrow> None | Some l \<Rightarrow> legal_run l ys)"
  by (induction xs arbitrary: loc) (auto split: option.splits)

lemma setTime_fields [simp]:
  "ce_key (setTime n e) = ce_key e" "ce_client (setTime n e) = ce_client e" "ce_ap (setTime n e) = ce_ap e"
  "ce_ap_from (setTime n e) = ce_ap_from e" "ce_ap_to (setTime n e) = ce_ap_to e"
  by (simp_all add: setTime_def Let_def)

lemma buildMsg_fields [simp]:
  "ce_key (buildMsg e) = ce_key e" "ce_client (buildMsg e) = ce_client e" "ce_ap (buildMsg e) = ce_ap e"
  "ce_ap_from (buildMsg e) = ce_ap_from e" "ce_ap_to (buildMsg e) = ce_ap_to e" "ce_time (buildMsg e) = ce_time e"
  by (simp_all add: buildMsg_def Let_def)

lemma event_fields [simp]:
  "ce_key (connectEvent cfg ap tr) = KeyConnected" "ce_client (connectEvent cfg ap tr) = ColonMAC (t_mac tr)"
  "ce_ap (connectEvent cfg ap tr) = ap"
  "ce_key (disconnectEvent cfg p) = KeyDisconnected" "ce_client (disconnectEvent cfg p) = ColonMAC (cs_mac (pd_session p))"
  "ce_ap (disconnectEvent cfg p) = pd_ap p"
  "ce_key (roamEvent cfg a s b tr) = KeyRoam" "ce_client (roamEvent cfg a s b tr) = ColonMAC (t_mac tr)"
  "ce_ap_from (roamEvent cfg a s b tr) = a" "ce_ap_to (roamEvent cfg a s b tr) = b"
  "ce_key (radioEvent cfg ap tr) = KeyRoamRadio" "ce_client (radioEvent cfg ap tr) = ColonMAC (t_mac tr)"
  "ce_ap (radioEvent cfg ap tr) = ap"
  by (simp_all add: connectEvent_def disconnectEvent_def roamEvent_def radioEvent_def Let_def)

lemma key_distinct [simp]:
  "KeyConnected \<noteq> KeyDisconnected" "KeyConnected \<noteq> KeyRoam" "KeyConnected \<noteq> KeyRoamRadio"
  "KeyDisconnected \<noteq> KeyConnected" "KeyDisconnected \<noteq> KeyRoam" "KeyDisconnected \<noteq> KeyRoamRadio"
  "KeyRoam \<noteq> KeyConnected" "KeyRoam \<noteq> KeyDisconnected" "KeyRoam \<noteq> KeyRoamRadio"
  "KeyRoamRadio \<noteq> KeyConnected" "KeyRoamRadio \<noteq> KeyDisconnected" "KeyRoamRadio \<noteq> KeyRoam"
  by (simp_all add: event_keys)

definition wf_transition :: "transition \<Rightarrow> bool" where
  "wf_transition tr \<longleftrightarrow> canonical (t_mac tr) \<and> cs_mac (t_session tr) = t_mac tr"

definition tracker_inv :: "tracker \<Rightarrow> bool" where
  "tracker_inv t \<longleftrightarrow> distinct (map fst (trk_pending t)) \<and>
     (\<forall>c p. jget (trk_pending t) c = Some p \<longrightarrow> canonical c \<and> cs_mac (pd_session p) = c \<and>
        map_option pr_ap (jget (trk_current t) c) = Some (pd_ap p))"

definition located :: "tracker \<Rightarrow> whereabouts \<Rightarrow> bool" where
  "located t loc \<longleftrightarrow> (\<forall>c. canonical c \<longrightarrow> loc (ColonMAC c) = map_option pr_ap (jget (trk_current t) c))"

lemma locatedD: "located t loc \<Longrightarrow> canonical c \<Longrightarrow> loc (ColonMAC c) = map_option pr_ap (jget (trk_current t) c)"
  by (simp add: located_def)

lemma located_set:
  "located t loc \<Longrightarrow> canonical c \<Longrightarrow> trk_current t' = jset c q (trk_current t) \<Longrightarrow> located t' (loc(ColonMAC c \<mapsto> pr_ap q))"
  by (auto simp: located_def row_simps ColonMAC_inject)

lemma located_del:
  "located t loc \<Longrightarrow> canonical c \<Longrightarrow> trk_current t' = jdel c (trk_current t) \<Longrightarrow> located t' (loc(ColonMAC c := None))"
  by (auto simp: located_def row_simps ColonMAC_inject)

lemma located_same:
  "located t loc \<Longrightarrow> canonical c \<Longrightarrow> trk_current t' = jset c q (trk_current t) \<Longrightarrow>
     map_option pr_ap (jget (trk_current t) c) = Some (pr_ap q) \<Longrightarrow> located t' loc"
  by (auto simp: located_def row_simps)

text \<open>One operation does well: its events are legal from where the clients are, and lead to where they then are.\<close>

definition follows :: "tracker \<Rightarrow> whereabouts \<Rightarrow> tracker \<times> client_event list \<Rightarrow> bool" where
  "follows t loc r \<longleftrightarrow> tracker_inv (fst r) \<and> (\<exists>loc'. legal_run loc (snd r) = Some loc' \<and> located (fst r) loc')"

lemma follows_then:
  assumes "follows t loc (t1, es)" "\<And>loc'. located t1 loc' \<Longrightarrow> tracker_inv t1 \<Longrightarrow> follows t1 loc' (t2, es')"
  shows "follows t loc (t2, es @ es')"
  using assms by (fastforce simp: follows_def legal_run_append)

lemma connect_follows:
  assumes i: "tracker_inv t" and l: "located t loc" and w: "wf_transition tr"
  shows "follows t loc (tracker_connect cfg ap tr t)"
proof -
  let ?c = "t_mac tr" and ?here = "\<lparr>pr_ap = ap, pr_session = t_session tr\<rparr>"
  have c: "canonical ?c" using w by (simp add: wf_transition_def)
  note here = locatedD [OF l c]
  show ?thesis
  proof (cases "jget (trk_pending t) ?c")
    case (Some pend)
    then have p: "cs_mac (pd_session pend) = ?c" "map_option pr_ap (jget (trk_current t) ?c) = Some (pd_ap pend)"
      using i by (auto simp: tracker_inv_def)
    let ?t = "t\<lparr>trk_pending := jdel ?c (trk_pending t), trk_current := jset ?c ?here (trk_current t)\<rparr>"
    have "tracker_inv ?t" using i by (auto simp: tracker_inv_def row_simps)
    moreover have "located ?t (loc(ColonMAC ?c \<mapsto> ap))" using located_set [OF l c, of ?t ?here] by simp
    ultimately show ?thesis
      using Some p here by (auto simp: follows_def tracker_connect_def legal_event_def Let_def)
  next
    case None
    let ?t = "t\<lparr>trk_current := jset ?c ?here (trk_current t)\<rparr>"
    have "tracker_inv ?t" using i None by (auto simp: tracker_inv_def row_simps)
    moreover have "located ?t (loc(ColonMAC ?c \<mapsto> ap))" using located_set [OF l c, of ?t ?here] by simp
    moreover have "located ?t loc" if "jget (trk_current t) ?c = Some cur" "pr_ap cur = ap" for cur
      using located_same [OF l c, of ?t ?here] that by simp
    ultimately show ?thesis
      using None here
      by (auto simp: follows_def tracker_connect_def legal_event_def Let_def split: option.splits)
  qed
qed

lemma disconnect_follows:
  assumes "tracker_inv t" "located t loc" "wf_transition tr"
  shows "follows t loc (tracker_disconnect cfg now ap tr t)"
  using assms
  by (auto simp: follows_def tracker_disconnect_def tracker_inv_def located_def wf_transition_def row_simps Let_def
      split: option.splits)

lemma radio_follows:
  assumes i: "tracker_inv t" and l: "located t loc" and w: "wf_transition tr"
  shows "follows t loc (tracker_radioChange cfg ap tr t)"
proof -
  let ?c = "t_mac tr" and ?here = "\<lparr>pr_ap = ap, pr_session = t_session tr\<rparr>"
  let ?t = "t\<lparr>trk_current := jset ?c ?here (trk_current t)\<rparr>"
  have c: "canonical ?c" using w by (simp add: wf_transition_def)
  have "tracker_inv ?t \<and> located ?t loc"
    if "jget (trk_current t) ?c = Some cur" "pr_ap cur = ap" "jget (trk_pending t) ?c = None" for cur
    using i that located_same [OF l c, of ?t ?here] by (auto simp: tracker_inv_def row_simps)
  then show ?thesis
    using i l locatedD [OF l c]
    by (auto simp: follows_def tracker_radioChange_def legal_event_def Let_def split: option.splits)
qed

lemma Observe_follows:
  "tracker_inv t \<Longrightarrow> located t loc \<Longrightarrow> list_all wf_transition ts \<Longrightarrow> follows t loc (Observe cfg now ap ts t)"
proof (induction ts arbitrary: t loc)
  case Nil
  then show ?case by (simp add: follows_def)
next
  case (Cons tr ts)
  obtain t1 es where o: "observe_one cfg now ap tr t = (t1, es)" by fastforce
  obtain t2 es' where r: "Observe cfg now ap ts t1 = (t2, es')" by fastforce
  have "follows t loc (observe_one cfg now ap tr t)"
    using Cons.prems connect_follows disconnect_follows radio_follows
    by (cases "t_kind tr") (simp_all add: observe_one_def)
  then have "follows t loc (t1, es)" by (simp add: o)
  moreover have "follows t1 loc' (t2, es')" if "located t1 loc'" "tracker_inv t1" for loc'
    using Cons.IH [OF that(2,1)] Cons.prems(3) by (simp add: r)
  ultimately show ?case using follows_then by (simp add: o r)
qed

lemma flush_one_follows:
  assumes i: "tracker_inv t" and l: "located t loc" and p: "jget (trk_pending t) c = Some p"
  shows "follows t loc (flush_one cfg (c, p) t)"
proof -
  have c: "canonical c" "cs_mac (pd_session p) = c" "map_option pr_ap (jget (trk_current t) c) = Some (pd_ap p)"
    using i p by (auto simp: tracker_inv_def)
  then obtain cur where cur: "jget (trk_current t) c = Some cur" "pr_ap cur = pd_ap p" by auto
  let ?t = "t\<lparr>trk_pending := jdel c (trk_pending t), trk_current := jdel c (trk_current t)\<rparr>"
  have "tracker_inv ?t" using i by (auto simp: tracker_inv_def row_simps)
  moreover have "located ?t (loc(ColonMAC c := None))" using located_del [OF l c(1), of ?t] by simp
  ultimately show ?thesis
    using cur locatedD [OF l c(1)] c by (simp add: follows_def flush_one_def legal_event_def)
qed

lemma flush_pending: "trk_pending (fst (flush_all cfg cps t)) = fold (\<lambda>cp. jdel (fst cp)) cps (trk_pending t)"
  by (induction cps arbitrary: t) (simp_all add: flush_one_def case_prod_beta Let_def)

lemma flush_events: "snd (flush_all cfg cps t) = map (\<lambda>cp. disconnectEvent cfg (snd cp)) cps"
  by (induction cps arbitrary: t) (simp_all add: flush_one_def case_prod_beta Let_def)

lemma flush_all_follows:
  "tracker_inv t \<Longrightarrow> located t loc \<Longrightarrow> distinct (map fst cps) \<Longrightarrow>
     \<forall>cp \<in> set cps. jget (trk_pending t) (fst cp) = Some (snd cp) \<Longrightarrow> follows t loc (flush_all cfg cps t)"
proof (induction cps arbitrary: t loc)
  case Nil
  then show ?case by (simp add: follows_def)
next
  case (Cons cp r)
  obtain t1 es where o: "flush_one cfg cp t = (t1, es)" by fastforce
  obtain t2 es' where f: "flush_all cfg r t1 = (t2, es')" by fastforce
  have "follows t loc (t1, es)"
    using flush_one_follows [OF Cons.prems(1,2), of "fst cp" "snd cp" cfg] Cons.prems(4) by (simp add: o)
  moreover have "follows t1 loc' (t2, es')" if "located t1 loc'" "tracker_inv t1" for loc'
  proof -
    have "\<forall>x \<in> set r. jget (trk_pending t1) (fst x) = Some (snd x)"
    proof
      fix x assume x: "x \<in> set r"
      then have "fst x \<noteq> fst cp" using Cons.prems(3) by (metis distinct.simps(2) image_eqI list.map(2) set_map)
      with x o Cons.prems(4) show "jget (trk_pending t1) (fst x) = Some (snd x)"
        by (auto simp: flush_one_def row_simps split: prod.splits)
    qed
    with Cons.IH [OF that(2,1)] Cons.prems(3) f show ?thesis by simp
  qed
  ultimately show ?case using follows_then by (simp add: o f)
qed

lemma due_facts:
  assumes "tracker_inv t"
  shows "distinct (map fst (due_disconnects now t))"
    "cp \<in> set (due_disconnects now t) \<longleftrightarrow> jget (trk_pending t) (fst cp) = Some (snd cp) \<and> pd_deadline (snd cp) \<le> now"
proof -
  have d: "distinct (map fst (trk_pending t))" using assms by (simp add: tracker_inv_def)
  show "distinct (map fst (due_disconnects now t))"
    unfolding due_disconnects_def distinct_map_sort by (rule distinct_map_filter [OF d])
  show "cp \<in> set (due_disconnects now t) \<longleftrightarrow> jget (trk_pending t) (fst cp) = Some (snd cp) \<and> pd_deadline (snd cp) \<le> now"
    by (auto simp: due_disconnects_def jget_set [OF d])
qed

lemma flush_follows: "tracker_inv t \<Longrightarrow> located t loc \<Longrightarrow> follows t loc (tracker_flush cfg now t)"
  unfolding tracker_flush_def by (rule flush_all_follows) (simp_all add: due_facts)

text \<open>Histories of the tracker's operations.\<close>

datatype tracker_op = ObserveOp int string "transition list" | FlushOp int

fun op_ok :: "tracker_op \<Rightarrow> bool" where
  "op_ok (ObserveOp now ap ts) = list_all wf_transition ts"
| "op_ok (FlushOp now) = True"

fun track_one :: "tracker_config \<Rightarrow> tracker_op \<Rightarrow> tracker \<Rightarrow> tracker \<times> client_event list" where
  "track_one cfg (ObserveOp now ap ts) t = Observe cfg now ap ts t"
| "track_one cfg (FlushOp now) t = tracker_flush cfg now t"

fun track :: "tracker_config \<Rightarrow> tracker_op list \<Rightarrow> tracker \<Rightarrow> tracker \<times> client_event list" where
  "track cfg [] t = (t, [])"
| "track cfg (x # xs) t = (let (t, es) = track_one cfg x t; (t, es') = track cfg xs t in (t, es @ es'))"

lemma track_one_follows:
  "tracker_inv t \<Longrightarrow> located t loc \<Longrightarrow> op_ok x \<Longrightarrow> follows t loc (track_one cfg x t)"
  by (cases x) (simp_all add: Observe_follows flush_follows)

lemma track_follows:
  "tracker_inv t \<Longrightarrow> located t loc \<Longrightarrow> list_all op_ok xs \<Longrightarrow> follows t loc (track cfg xs t)"
proof (induction xs arbitrary: t loc)
  case Nil
  then show ?case by (simp add: follows_def)
next
  case (Cons x xs)
  obtain t1 es where o: "track_one cfg x t = (t1, es)" by fastforce
  obtain t2 es' where r: "track cfg xs t1 = (t2, es')" by fastforce
  have "follows t loc (t1, es)"
    using track_one_follows [OF Cons.prems(1,2), of x cfg] Cons.prems(3) o by simp
  moreover have "follows t1 loc' (t2, es')" if "located t1 loc'" "tracker_inv t1" for loc'
    using Cons.IH [OF that(2,1)] Cons.prems(3) by (simp add: r)
  ultimately show ?case using follows_then by (simp add: o r)
qed

definition whereabouts_of :: "tracker \<Rightarrow> whereabouts" where
  "whereabouts_of t m = (case CanonicalMAC m of Inl _ \<Rightarrow> None | Inr c \<Rightarrow> map_option pr_ap (jget (trk_current t) c))"

lemma located_whereabouts: "located t (whereabouts_of t)"
  by (simp add: located_def whereabouts_of_def CanonicalMAC_ColonMAC)

lemma seed_pending: "trk_pending (Seed ds t) = trk_pending t"
proof -
  have s: "trk_pending (seed_session ap s t) = trk_pending t" for ap s t
    by (simp add: seed_session_def split: option.splits)
  then have f: "trk_pending (fold (seed_session ap) ss t) = trk_pending t" for ap ss t
    by (induction ss arbitrary: t) simp_all
  show ?thesis unfolding Seed_def
    by (induction ds arbitrary: t) (simp_all add: f)
qed

text \<open>
  C27: the event stream tells one consistent story: from the seeded state, whatever transitions the
  access points report in whatever order and whenever the held disconnects are flushed, every
  event fits where its client was last said to be, and the story ends where the tracker believes
  each client is.
\<close>

theorem event_stream_legal:
  assumes "list_all op_ok ops"
  shows "\<exists>loc. legal_run (whereabouts_of (Seed ds (snd (NewTracker cfg))))
        (snd (track cfg ops (Seed ds (snd (NewTracker cfg))))) = Some loc
    \<and> (\<forall>c. canonical c \<longrightarrow> loc (ColonMAC c)
        = map_option pr_ap (jget (trk_current (fst (track cfg ops (Seed ds (snd (NewTracker cfg)))))) c))"
proof -
  let ?t = "Seed ds (snd (NewTracker cfg))"
  have "trk_pending ?t = []" by (simp add: seed_pending NewTracker_def)
  then have "tracker_inv ?t" by (simp add: tracker_inv_def)
  from track_follows [OF this located_whereabouts assms, of cfg]
  show ?thesis by (auto simp: follows_def located_def)
qed

definition demo_tracker_config :: tracker_config where
  "demo_tracker_config = \<lparr>tc_grace = DefaultGrace, tc_ap_name = (\<lambda>_. [])\<rparr>"

definition demo_transition :: "transition_kind \<Rightarrow> int \<Rightarrow> transition" where
  "demo_transition k time = \<lparr>t_mac = ''aabbcc001122'', t_kind = k, t_at = time,
     t_session = session empty_row ''aabbcc001122'', t_prev = session empty_row ''aabbcc001122''\<rparr>"

definition demo_ops :: "tracker_op list" where
  "demo_ops = [ObserveOp 0 ''ap1'' [demo_transition TransitionConnect 100],
     ObserveOp 1 ''ap1'' [demo_transition TransitionDisconnect 110],
     ObserveOp 2 ''ap2'' [demo_transition TransitionConnect 111],
     ObserveOp 3 ''ap2'' [demo_transition TransitionDisconnect 120], FlushOp (10 ^ 12)]"

lemmas demo_run_defs = demo_ops_def demo_transition_def demo_tracker_config_def NewTracker_def Seed_def
  observe_one_def tracker_connect_def tracker_disconnect_def tracker_flush_def due_disconnects_def
  flush_one_def DefaultGrace_def session_def Let_def

lemma event_stream_legal_witness:
  "map ce_key (snd (track demo_tracker_config demo_ops (Seed [] (snd (NewTracker demo_tracker_config)))))
      = [KeyConnected, KeyRoam, KeyDisconnected]
   \<and> (\<exists>loc. legal_run (whereabouts_of (Seed [] (snd (NewTracker demo_tracker_config))))
        (snd (track demo_tracker_config demo_ops (Seed [] (snd (NewTracker demo_tracker_config))))) = Some loc)"
proof
  show "map ce_key (snd (track demo_tracker_config demo_ops (Seed [] (snd (NewTracker demo_tracker_config)))))
      = [KeyConnected, KeyRoam, KeyDisconnected]"
    by (simp add: demo_run_defs)
  have "canonical ''aabbcc001122''" by code_simp
  then have "list_all op_ok demo_ops" by (simp add: demo_run_defs wf_transition_def)
  from event_stream_legal [OF this, of "[]" demo_tracker_config]
  show "\<exists>loc. legal_run (whereabouts_of (Seed [] (snd (NewTracker demo_tracker_config))))
        (snd (track demo_tracker_config demo_ops (Seed [] (snd (NewTracker demo_tracker_config))))) = Some loc"
    by blast
qed

lemma jget_del_list: "jget (fold (\<lambda>cp. jdel (fst cp)) cps m) c = (if c \<in> fst ` set cps then None else jget m c)"
  by (induction cps arbitrary: m) (auto simp: row_simps)

text \<open>
  A held disconnect is released exactly when its grace window is over: a flush emits one
  disconnect for every held one that is due, oldest first, forgets it, and keeps the others.
\<close>

theorem flush_exact:
  assumes "tracker_inv t"
  shows "snd (tracker_flush cfg now t) = map (\<lambda>cp. disconnectEvent cfg (snd cp)) (due_disconnects now t)
    \<and> set (due_disconnects now t) = {(c, p). jget (trk_pending t) c = Some p \<and> pd_deadline p \<le> now}
    \<and> sorted (map (\<lambda>cp. pd_at (snd cp)) (due_disconnects now t))
    \<and> (\<forall>c. jget (trk_pending (fst (tracker_flush cfg now t))) c
          = (case jget (trk_pending t) c of Some p \<Rightarrow> if pd_deadline p \<le> now then None else Some p | None \<Rightarrow> None))"
proof -
  have s: "set (due_disconnects now t) = {(c, p). jget (trk_pending t) c = Some p \<and> pd_deadline p \<le> now}"
    using due_facts(2) [OF assms] by auto
  have "sorted (map (\<lambda>(c, p). (pd_at p, c)) (due_disconnects now t))"
    by (simp add: due_disconnects_def)
  then have "sorted (map fst (map (\<lambda>(c, p). (pd_at p, c)) (due_disconnects now t)))"
    unfolding sorted_map [of fst] by (rule sorted_wrt_mono_rel [rotated]) (auto simp: less_eq_prod_def)
  then have o: "sorted (map (\<lambda>cp. pd_at (snd cp)) (due_disconnects now t))"
    by (simp add: comp_def case_prod_beta)
  have "jget (trk_pending (fst (tracker_flush cfg now t))) c
      = (case jget (trk_pending t) c of Some p \<Rightarrow> if pd_deadline p \<le> now then None else Some p | None \<Rightarrow> None)" for c
    by (auto simp: tracker_flush_def flush_pending jget_del_list s image_iff split: option.splits)
  with s o show ?thesis by (simp add: tracker_flush_def flush_events)
qed

lemma flush_exact_witness:
  "map ce_key (snd (tracker_flush demo_tracker_config (10 ^ 12) (fst (track demo_tracker_config (take 2 demo_ops)
      (snd (NewTracker demo_tracker_config)))))) = [KeyDisconnected]"
proof -
  let ?t = "fst (track demo_tracker_config (take 2 demo_ops) (snd (NewTracker demo_tracker_config)))"
  have "canonical ''aabbcc001122''" by code_simp
  then have "list_all op_ok (take 2 demo_ops)" by (simp add: demo_run_defs wf_transition_def)
  moreover have "tracker_inv (snd (NewTracker demo_tracker_config))" by (simp add: tracker_inv_def NewTracker_def)
  ultimately have "tracker_inv ?t"
    using track_follows [OF _ located_whereabouts] by (auto simp: follows_def)
  from flush_exact [OF this, of demo_tracker_config "10 ^ 12"]
  have "map ce_key (snd (tracker_flush demo_tracker_config (10 ^ 12) ?t))
      = map (\<lambda>_. KeyDisconnected) (due_disconnects (10 ^ 12) ?t)" by simp
  moreover have "length (due_disconnects (10 ^ 12) ?t) = 1" by (simp add: demo_run_defs)
  ultimately show ?thesis by (cases "due_disconnects (10 ^ 12) ?t") auto
qed

end
