(* ===== verification/Event_History.thy ===== *)
theory Event_History
  imports Client_Events "HOL-Library.Multiset"
begin

text \<open>
  The persisted client history, \<^verbatim>\<open>internal/clientevents/filesink.go\<close>: retention parsing, the
  append-only file with its in-memory copy, compaction, queries, and the fold of one client's
  events into the intervals it spent on access points. The JSON text of an event is a parameter
  (record \<open>event_json\<close>); the file system is the text of one file and the outcome of each call.
\<close>

section \<open>Retention\<close>

text \<open>
  \<open>ParseRetention\<close>: a whole number of days with the suffix \<^verbatim>\<open>d\<close>, else what \<^verbatim>\<open>time.ParseDuration\<close>
  (a parameter) accepts. \<^verbatim>\<open>time.Duration\<close> counts nanoseconds in 64 bits, and the product wraps.
\<close>

definition ParseRetention :: "(string \<Rightarrow> int option) \<Rightarrow> string \<Rightarrow> string + int" where
  "ParseRetention pd raw = (let s = trim_space raw;
       positive = (\<lambda>d. if d \<le> 0 then Inl ''must be positive'' else Inr d) in
     if s = [] then Inl ''empty duration''
     else case cut_suffix ''d'' s of
       Some days \<Rightarrow> (case parse_uint 32 days of
           None \<Rightarrow> Inl ''invalid duration''
         | Some n \<Rightarrow> positive (wrap64 (wrap64 (int n * 24) * (3600 * 10 ^ 9))))
     | None \<Rightarrow> (case pd s of None \<Rightarrow> Inl ''invalid duration'' | Some d \<Rightarrow> positive d))"

section \<open>The sink\<close>

definition DefaultRetention :: int where "DefaultRetention = 30 * 24 * 3600 * 10 ^ 9"
definition DefaultMaxEvents :: int where "DefaultMaxEvents = 200000"
definition scan_limit :: nat where "scan_limit = 2 ^ 20"

record event_json =
  ej_enc :: "client_event \<Rightarrow> string"
  ej_dec :: "string \<Rightarrow> client_event option"

record sink_options =
  so_retention :: int
  so_max :: int

record file_sink =
  fs_opts :: sink_options
  fs_events :: "client_event list"
  fs_open :: bool

type_synonym disk = "string option"

definition newline :: char where "newline = CHR 0x0A"

text \<open>\<open>opens\<close> is the outcome of opening an existing file. \<^verbatim>\<open>bufio.ScanLines\<close>: the lines without their end markers, a final unterminated one included.\<close>

definition drop_cr :: "string \<Rightarrow> string" where
  "drop_cr l = (if l \<noteq> [] \<and> last l = CHR 0x0D then butlast l else l)"

definition scan_lines :: "string \<Rightarrow> string list" where
  "scan_lines txt = (let ls = split_on newline txt in if last ls = [] then butlast ls else ls)"

definition loaded_event :: "event_json \<Rightarrow> string \<Rightarrow> client_event option" where
  "loaded_event J line = (if line = [] then None
     else case ej_dec J line of None \<Rightarrow> None
       | Some e \<Rightarrow> if ce_key e = [] \<or> ce_time e = 0 then None else Some e)"

definition sink_load :: "event_json \<Rightarrow> bool \<Rightarrow> disk \<Rightarrow> string + client_event list" where
  "sink_load J opens f = (case f of None \<Rightarrow> Inr []
     | Some txt \<Rightarrow> if \<not> opens then Inl ''open'' else if list_ex (\<lambda>l. length l \<ge> scan_limit) (scan_lines txt) then Inl ''read''
         else Inr (sort_key ce_time (List.map_filter (loaded_event J) (map drop_cr (scan_lines txt)))))"

text \<open>
  The insertion loop of \<open>Emit\<close>: the new last event moves left past every event with a later time.
  The list is the events from the right end.
\<close>

fun sift :: "client_event \<Rightarrow> client_event list \<Rightarrow> client_event list" where
  "sift e [] = [e]"
| "sift e (x # xs) = (if ce_time x > ce_time e then x # sift e xs else e # x # xs)"

definition emit_events :: "sink_options \<Rightarrow> client_event \<Rightarrow> client_event list \<Rightarrow> client_event list" where
  "emit_events opts e es = (let es = rev (sift e (rev es)) in
     if int (length es) > so_max opts + so_max opts div 10
     then drop (nat (int (length es) - so_max opts)) es else es)"

definition append_text :: "string \<Rightarrow> disk \<Rightarrow> disk" where
  "append_text t f = Some (opt_or [] f @ t)"

text \<open>\<open>Emit\<close>: \<open>io\<close> tells whether the open (when the handle is closed) and the write succeed.\<close>

definition sink_Emit :: "event_json \<Rightarrow> bool \<times> bool \<Rightarrow> client_event \<Rightarrow> file_sink \<Rightarrow> disk \<Rightarrow> file_sink \<times> disk" where
  "sink_Emit J io e s f = (let s = s\<lparr>fs_events := emit_events (fs_opts s) e (fs_events s)\<rparr> in
     if \<not> fs_open s \<and> \<not> fst io then (s, f)
     else let f = (if fs_open s then f else append_text [] f); s = s\<lparr>fs_open := True\<rparr> in
       (s, if snd io then append_text (ej_enc J e @ [newline]) f else f))"

text \<open>\<^verbatim>\<open>sort.Search\<close>: the binary search between \<open>i\<close> and \<open>j\<close>.\<close>

function bsearch :: "(nat \<Rightarrow> bool) \<Rightarrow> nat \<Rightarrow> nat \<Rightarrow> nat" where
  "bsearch p i j = (if i < j then let h = (i + j) div 2 in if \<not> p h then bsearch p (h + 1) j else bsearch p i h else i)"
  by pat_completeness auto
termination by (relation "measure (\<lambda>(_, i, j). j - i)") auto

declare bsearch.simps [simp del]

definition prune_events :: "sink_options \<Rightarrow> int \<Rightarrow> client_event list \<Rightarrow> client_event list" where
  "prune_events opts now es = (let cutoff = (now - so_retention opts) div 10 ^ 6;
       i = bsearch (\<lambda>i. ce_time (es ! i) \<ge> cutoff) 0 (length es); es = drop i es;
       over = int (length es) - so_max opts in
     if over > 0 then drop (nat over) es else es)"

definition sink_lines :: "event_json \<Rightarrow> client_event list \<Rightarrow> string" where
  "sink_lines J es = concat (map (\<lambda>e. ej_enc J e @ [newline]) es)"

text \<open>
  \<open>Compact\<close>: prune, write the events to a temporary file, rename it over the history. \<open>wrote\<close>,
  \<open>renamed\<close>, \<open>reopened\<close> are the outcomes; before the rename nothing of the old file is lost.
\<close>

record compact_io =
  ci_wrote :: bool
  ci_renamed :: bool
  ci_reopened :: bool

definition sink_Compact :: "event_json \<Rightarrow> compact_io \<Rightarrow> int \<Rightarrow> file_sink \<Rightarrow> disk \<Rightarrow> file_sink \<times> disk \<times> string option" where
  "sink_Compact J io now s f = (let s = s\<lparr>fs_events := prune_events (fs_opts s) now (fs_events s)\<rparr> in
     if \<not> ci_wrote io then (s, f, Some ''write'')
     else let s = s\<lparr>fs_open := False\<rparr> in
       if \<not> ci_renamed io then (s, f, Some ''rename'')
       else let f = Some (sink_lines J (fs_events s)) in
         if \<not> ci_reopened io then (s, f, Some ''open'') else (s\<lparr>fs_open := True\<rparr>, f, None))"

definition NewFileSink :: "event_json \<Rightarrow> bool \<Rightarrow> compact_io \<Rightarrow> int \<Rightarrow> sink_options \<Rightarrow> disk \<Rightarrow> disk \<times> (string + file_sink)" where
  "NewFileSink J opens io now opts f = (
     let opts = (if so_retention opts \<le> 0 then opts\<lparr>so_retention := DefaultRetention\<rparr> else opts);
         opts = (if so_max opts \<le> 0 then opts\<lparr>so_max := DefaultMaxEvents\<rparr> else opts) in
     case sink_load J opens f of Inl e \<Rightarrow> (f, Inl e)
     | Inr es \<Rightarrow> (case sink_Compact J io now \<lparr>fs_opts = opts, fs_events = es, fs_open = False\<rparr> f of
         (s, f, Some e) \<Rightarrow> (f, Inl e) | (s, f, None) \<Rightarrow> (f, Inr s)))"

definition sink_Close :: "file_sink \<Rightarrow> file_sink" where
  "sink_Close s = s\<lparr>fs_open := False\<rparr>"

section \<open>Queries\<close>

record event_filter =
  ef_client :: string
  ef_ap :: string
  ef_key :: string
  ef_since :: "int option"
  ef_until :: "int option"
  ef_limit :: int

definition canonOrRaw :: "string \<Rightarrow> string" where
  "canonOrRaw mac = (if mac = [] then [] else case CanonicalMAC mac of Inr c \<Rightarrow> c | Inl _ \<Rightarrow> to_lower mac)"

definition filter_match :: "event_filter \<Rightarrow> client_event \<Rightarrow> string \<Rightarrow> string \<Rightarrow> bool" where
  "filter_match f e client ap = (
     if client \<noteq> [] \<and> canonOrRaw (ce_client e) \<noteq> client then False
     else if ap \<noteq> [] \<and> canonOrRaw (ce_ap e) \<noteq> ap \<and> canonOrRaw (ce_ap_from e) \<noteq> ap \<and> canonOrRaw (ce_ap_to e) \<noteq> ap then False
     else if ef_key f \<noteq> [] \<and> ce_key e \<noteq> ef_key f then False
     else if (case ef_since f of None \<Rightarrow> False | Some t \<Rightarrow> ce_time e < t) then False
     else if (case ef_until f of None \<Rightarrow> False | Some t \<Rightarrow> ce_time e > t) then False
     else True)"

text \<open>The query loop over the events from the newest; \<open>out\<close> is what it has collected.\<close>

fun query_loop :: "event_filter \<Rightarrow> string \<Rightarrow> string \<Rightarrow> client_event list \<Rightarrow> client_event list \<Rightarrow> client_event list" where
  "query_loop f client ap [] out = out"
| "query_loop f client ap (e # es) out = (if \<not> filter_match f e client ap then query_loop f client ap es out
     else let out = out @ [e] in
       if ef_limit f > 0 \<and> int (length out) \<ge> ef_limit f then out else query_loop f client ap es out)"

definition sink_Query :: "event_filter \<Rightarrow> file_sink \<Rightarrow> client_event list" where
  "sink_Query f s = query_loop f (canonOrRaw (ef_client f)) (canonOrRaw (ef_ap f)) (rev (fs_events s)) []"

definition sink_Len :: "file_sink \<Rightarrow> nat" where
  "sink_Len s = length (fs_events s)"

section \<open>Intervals\<close>

record interval =
  iv_ap :: string
  iv_ap_name :: string
  iv_ssid :: string
  iv_channel :: int
  iv_from :: int
  iv_to :: int

text \<open>The fold's state: the intervals so far and the index of the open one, if any.\<close>

definition close_open :: "int \<Rightarrow> interval list \<times> nat option \<Rightarrow> interval list \<times> nat option" where
  "close_open time s = (case s of (out, Some i) \<Rightarrow> (out[i := (out ! i)\<lparr>iv_to := time\<rparr>], None) | (out, None) \<Rightarrow> (out, None))"

definition open_at :: "string \<Rightarrow> string \<Rightarrow> client_event \<Rightarrow> interval list \<times> nat option \<Rightarrow> interval list \<times> nat option" where
  "open_at ap name e s = (fst s @ [\<lparr>iv_ap = ap, iv_ap_name = name, iv_ssid = ce_ssid e, iv_channel = ce_channel e,
     iv_from = ce_time e, iv_to = 0\<rparr>], Some (length (fst s)))"

definition fold_event :: "interval list \<times> nat option \<Rightarrow> client_event \<Rightarrow> interval list \<times> nat option" where
  "fold_event s e = (
     if ce_key e = KeyConnected then open_at (ce_ap e) (ce_ap_name e) e (close_open (ce_time e) s)
     else if ce_key e = KeyRoam then open_at (ce_ap_to e) (ce_ap_to_name e) e (close_open (ce_time e) s)
     else if ce_key e = KeyRoamRadio then (case s of
         (out, Some i) \<Rightarrow> if iv_ap (out ! i) = ce_ap e then (out[i := (out ! i)\<lparr>iv_channel := ce_channel e\<rparr>], Some i) else s
       | (out, None) \<Rightarrow> s)
     else if ce_key e = KeyDisconnected then close_open (ce_time e) s
     else s)"

definition FoldHistory :: "client_event list \<Rightarrow> interval list" where
  "FoldHistory es = fst (foldl fold_event ([], None) es)"

definition sink_History :: "string \<Rightarrow> file_sink \<Rightarrow> interval list" where
  "sink_History client s = FoldHistory (filter (\<lambda>e. canonOrRaw (ce_client e) = canonOrRaw client) (fs_events s))"

section \<open>The sorted list\<close>

lemma bsearch_spec:
  "i \<le> j \<Longrightarrow> (\<And>a b. a \<le> b \<Longrightarrow> b < j \<Longrightarrow> p a \<Longrightarrow> p b) \<Longrightarrow>
     i \<le> bsearch p i j \<and> bsearch p i j \<le> j \<and> (\<forall>k. i \<le> k \<longrightarrow> k < bsearch p i j \<longrightarrow> \<not> p k)
     \<and> (\<forall>k. bsearch p i j \<le> k \<longrightarrow> k < j \<longrightarrow> p k)"
proof (induction p i j rule: bsearch.induct)
  case (1 p i j)
  let ?h = "(i + j) div 2"
  show ?case
  proof (cases "i < j")
    case True
    have h: "i \<le> ?h" "?h < j" using True by auto
    show ?thesis
    proof (cases "p ?h")
      case p: True
      have "bsearch p i j = bsearch p i ?h" using True p by (simp add: bsearch.simps [of p i j] Let_def)
      moreover have "i \<le> bsearch p i ?h \<and> bsearch p i ?h \<le> ?h \<and> (\<forall>k. i \<le> k \<longrightarrow> k < bsearch p i ?h \<longrightarrow> \<not> p k)
          \<and> (\<forall>k. bsearch p i ?h \<le> k \<longrightarrow> k < ?h \<longrightarrow> p k)"
        using 1(2) [OF True refl _ h(1)] p 1(4) h by auto
      moreover have "p k" if "?h \<le> k" "k < j" for k using 1(4) that p by blast
      ultimately show ?thesis using h by (metis dual_order.strict_trans2 leI less_imp_le_nat order_trans)
    next
      case p: False
      have "bsearch p i j = bsearch p (?h + 1) j" using True p by (simp add: bsearch.simps [of p i j] Let_def)
      moreover have "?h + 1 \<le> bsearch p (?h + 1) j \<and> bsearch p (?h + 1) j \<le> j
          \<and> (\<forall>k. ?h + 1 \<le> k \<longrightarrow> k < bsearch p (?h + 1) j \<longrightarrow> \<not> p k)
          \<and> (\<forall>k. bsearch p (?h + 1) j \<le> k \<longrightarrow> k < j \<longrightarrow> p k)"
        using 1(1) [OF True refl p] 1(4) h by auto
      moreover have "\<not> p k" if "k \<le> ?h" for k using 1(4) [of k ?h] that p h by blast
      ultimately show ?thesis using h by (metis Suc_eq_plus1 Suc_leD not_less_eq_eq order_trans)
    qed
  next
    case False
    then have "i = j" using 1(3) by simp
    then show ?thesis by (simp add: bsearch.simps [of p j j])
  qed
qed

abbreviation times_sorted :: "client_event list \<Rightarrow> bool" where
  "times_sorted es \<equiv> sorted (map ce_time es)"

lemma filter_late:
  assumes "times_sorted es"
  shows "drop (bsearch (\<lambda>i. ce_time (es ! i) \<ge> c) 0 (length es)) es = filter (\<lambda>e. ce_time e \<ge> c) es"
proof -
  define r where "r = bsearch (\<lambda>i. ce_time (es ! i) \<ge> c) 0 (length es)"
  have m: "ce_time (es ! b) \<ge> c" if "a \<le> b" "b < length es" "ce_time (es ! a) \<ge> c" for a b
  proof -
    have "map ce_time es ! a \<le> map ce_time es ! b" using sorted_nth_mono [OF assms that(1)] that(2) by simp
    then show ?thesis using that by simp
  qed
  have sp: "0 \<le> r \<and> r \<le> length es \<and> (\<forall>k. 0 \<le> k \<longrightarrow> k < r \<longrightarrow> \<not> ce_time (es ! k) \<ge> c)
      \<and> (\<forall>k. r \<le> k \<longrightarrow> k < length es \<longrightarrow> ce_time (es ! k) \<ge> c)"
    unfolding r_def using m by (intro bsearch_spec) blast+
  have "\<not> ce_time x \<ge> c" if x: "x \<in> set (take r es)" for x
  proof -
    obtain k where "k < r" "x = es ! k" using x sp by (auto simp: in_set_conv_nth)
    then show ?thesis using sp by blast
  qed
  then have a: "filter (\<lambda>e. ce_time e \<ge> c) (take r es) = []" by (simp add: filter_empty_conv)
  have "ce_time x \<ge> c" if x: "x \<in> set (drop r es)" for x
  proof -
    obtain k where k: "k < length es - r" "x = es ! (r + k)" using x sp by (auto simp: in_set_conv_nth)
    then have "r + k < length es" "r \<le> r + k" by simp_all
    then show ?thesis using sp k(2) by blast
  qed
  then have b: "filter (\<lambda>e. ce_time e \<ge> c) (drop r es) = drop r es" by (simp add: filter_id_conv)
  have "filter (\<lambda>e. ce_time e \<ge> c) (take r es @ drop r es) = drop r es"
    unfolding filter_append a b by simp
  then show ?thesis by (simp add: r_def [symmetric])
qed

text \<open>
  Pruning keeps exactly what retention and the cap allow: on a history in time order, the
  events at or after the cutoff, and of those the newest up to the cap.
\<close>

theorem prune_exact:
  assumes "times_sorted es" "0 \<le> so_max opts"
  shows "prune_events opts now es =
    (let kept = filter (\<lambda>e. ce_time e \<ge> (now - so_retention opts) div 10 ^ 6) es
     in drop (length kept - nat (so_max opts)) kept)"
proof -
  let ?kept = "filter (\<lambda>e. ce_time e \<ge> (now - so_retention opts) div 10 ^ 6) es"
  have "nat (int (length ?kept) - so_max opts) = length ?kept - nat (so_max opts)" using assms(2) by simp
  moreover have "length ?kept - nat (so_max opts) = 0" if "\<not> int (length ?kept) - so_max opts > 0" using that by simp
  ultimately show ?thesis unfolding prune_events_def Let_def filter_late [OF assms(1)] by simp
qed

lemma sift_split:
  "sorted (rev (map ce_time xs)) \<Longrightarrow>
     sift e xs = filter (\<lambda>x. ce_time x > ce_time e) xs @ e # filter (\<lambda>x. ce_time x \<le> ce_time e) xs"
proof (induction xs)
  case (Cons x xs)
  have le: "\<forall>y \<in> set xs. ce_time y \<le> ce_time x" using Cons.prems by (auto simp: sorted_append)
  show ?case
  proof (cases "ce_time x > ce_time e")
    case True
    with Cons show ?thesis by (simp add: sorted_append)
  next
    case False
    with le have "filter (\<lambda>x. ce_time x > ce_time e) xs = []" "filter (\<lambda>x. ce_time x \<le> ce_time e) xs = xs"
      by (auto simp: filter_empty_conv filter_id_conv)
    with False show ?thesis by simp
  qed
qed simp

lemma rev_sift:
  assumes "times_sorted es"
  shows "rev (sift e (rev es)) = filter (\<lambda>x. ce_time x \<le> ce_time e) es @ e # filter (\<lambda>x. ce_time x > ce_time e) es"
  using sift_split [of "rev es" e] assms by (simp add: rev_map rev_filter)

lemma sorted_inserted:
  assumes "times_sorted es"
  shows "times_sorted (filter (\<lambda>x. ce_time x \<le> ce_time e) es @ e # filter (\<lambda>x. ce_time x > ce_time e) es)"
  using assms by (auto simp: sorted_append sorted_filter)

lemma sort_snoc:
  fixes L :: "client_event list"
  assumes "sort_key ce_time L = es"
  shows "sort_key ce_time (L @ [e]) = filter (\<lambda>x. ce_time x \<le> ce_time e) es @ e # filter (\<lambda>x. ce_time x > ce_time e) es"
proof (rule properties_for_sort_key)
  have s: "times_sorted es" unfolding assms [symmetric] by simp
  have "mset es = filter_mset (\<lambda>x. ce_time x \<le> ce_time e) (mset es) + filter_mset (\<lambda>x. ce_time x > ce_time e) (mset es)"
    using multiset_partition [of "mset es" "\<lambda>x. ce_time x \<le> ce_time e"] by (simp add: not_le)
  moreover have "mset es = mset L" unfolding assms [symmetric] by simp
  ultimately have split: "filter_mset (\<lambda>x. ce_time x \<le> ce_time e) (mset es)
      + filter_mset (\<lambda>x. ce_time x > ce_time e) (mset es) = mset L" by argo
  show "mset (filter (\<lambda>x. ce_time x \<le> ce_time e) es @ e # filter (\<lambda>x. ce_time x > ce_time e) es) = mset (L @ [e])"
    using split by simp
  show "times_sorted (filter (\<lambda>x. ce_time x \<le> ce_time e) es @ e # filter (\<lambda>x. ce_time x > ce_time e) es)"
    by (rule sorted_inserted [OF s])
  fix k assume "k \<in> set (filter (\<lambda>x. ce_time x \<le> ce_time e) es @ e # filter (\<lambda>x. ce_time x > ce_time e) es)"
  have st: "filter (\<lambda>x. ce_time k = ce_time x) es = filter (\<lambda>x. ce_time k = ce_time x) L"
    using sort_key_stable [of ce_time "ce_time k" L] assms by (simp add: eq_commute)
  have "filter (\<lambda>x. ce_time k = ce_time x) (filter (\<lambda>x. ce_time x \<le> ce_time e) es @ e # filter (\<lambda>x. ce_time x > ce_time e) es)
      = filter (\<lambda>x. ce_time k = ce_time x) es @ filter (\<lambda>x. ce_time k = ce_time x) [e]"
    by (cases "ce_time k \<le> ce_time e") (auto simp: filter_filter intro!: filter_cong)
  with st show "filter (\<lambda>x. ce_time k = ce_time x) (filter (\<lambda>x. ce_time x \<le> ce_time e) es @ e # filter (\<lambda>x. ce_time x > ce_time e) es)
      = filter (\<lambda>x. ce_time k = ce_time x) (L @ [e])" by simp
qed

section \<open>The file mirrors the memory\<close>

definition line_ok :: "event_json \<Rightarrow> client_event \<Rightarrow> bool" where
  "line_ok J e \<longleftrightarrow> newline \<notin> set (ej_enc J e) \<and> ej_enc J e \<noteq> [] \<and> last (ej_enc J e) \<noteq> CHR 0x0D
     \<and> length (ej_enc J e) < scan_limit \<and> loaded_event J (ej_enc J e) = Some e"

lemma split_sink_lines:
  "list_all (line_ok J) es \<Longrightarrow> newline \<notin> set torn \<Longrightarrow> split_on newline (sink_lines J es @ torn) = map (ej_enc J) es @ [torn]"
  by (induction es) (auto simp: sink_lines_def line_ok_def split_on_no_sep split_on_sep)

lemma scan_sink_lines:
  "list_all (line_ok J) es \<Longrightarrow> newline \<notin> set torn \<Longrightarrow>
     scan_lines (sink_lines J es @ torn) = map (ej_enc J) es @ (if torn = [] then [] else [torn])"
  by (simp add: scan_lines_def split_sink_lines butlast_append)

lemma decode_lines: "list_all (line_ok J) es \<Longrightarrow> List.map_filter (loaded_event J) (map (drop_cr \<circ> ej_enc J) es) = es"
  by (induction es) (auto simp: List.map_filter_simps line_ok_def drop_cr_def)

lemma map_filter_append: "List.map_filter f (xs @ ys) = List.map_filter f xs @ List.map_filter f ys"
  by (simp add: List.map_filter_def)

lemma load_lines:
  assumes "list_all (line_ok J) es" "newline \<notin> set torn" "length torn < scan_limit"
    and "torn = [] \<or> loaded_event J (drop_cr torn) = None"
  shows "sink_load J True (Some (sink_lines J es @ torn)) = Inr (sort_key ce_time es)"
proof -
  have "\<not> list_ex (\<lambda>l. length l \<ge> scan_limit) (map (ej_enc J) es @ (if torn = [] then [] else [torn]))"
    using assms(1,3) by (auto simp: list_ex_iff list_all_iff line_ok_def)
  moreover have "List.map_filter (loaded_event J) (map drop_cr (map (ej_enc J) es @ (if torn = [] then [] else [torn]))) = es"
    using assms(4) decode_lines [OF assms(1)]
    by (auto simp: map_filter_append List.map_filter_simps comp_def)
  ultimately show ?thesis
    by (simp add: sink_load_def scan_sink_lines [OF assms(1,2)] del: map_append)
qed

text \<open>
  A torn last line never blocks a start or costs an event: whatever undecodable fragment a crash
  left behind the complete lines, loading gives those events in time order.
\<close>

theorem torn_tail_harmless:
  assumes "list_all (line_ok J) es" "newline \<notin> set torn" "length torn < scan_limit"
    and "loaded_event J (drop_cr torn) = None"
  shows "sink_load J True (Some (sink_lines J es @ torn)) = Inr (sort_key ce_time es)"
  using assms by (intro load_lines) simp_all

text \<open>The file and the memory agree: the file is the lines of events whose time order is the memory.\<close>

definition mirrored :: "event_json \<Rightarrow> file_sink \<Rightarrow> disk \<Rightarrow> bool" where
  "mirrored J s f \<longleftrightarrow> (\<exists>L. list_all (line_ok J) L \<and> opt_or [] f = sink_lines J L \<and> sort_key ce_time L = fs_events s)"

lemma mirrored_load: "mirrored J s f \<Longrightarrow> sink_load J True f = Inr (fs_events s)"
proof -
  assume "mirrored J s f"
  then obtain L where L: "list_all (line_ok J) L" "opt_or [] f = sink_lines J L" "sort_key ce_time L = fs_events s"
    by (auto simp: mirrored_def)
  show ?thesis
  proof (cases f)
    case None
    have "L = []"
    proof (cases L)
      case (Cons a l)
      then show ?thesis using L(2) None by (simp add: sink_lines_def)
    qed simp
    with L None show ?thesis by (simp add: sink_load_def)
  next
    case (Some t)
    with L(2) load_lines [OF L(1), of "[]"] L(3) show ?thesis by (simp add: scan_limit_def)
  qed
qed

text \<open>
  History survives a restart: an event emitted while the writes succeed and the cap is not
  exceeded leaves a file from which a new start reads exactly the events in memory, in time order.
\<close>

theorem emitted_event_durable:
  assumes "mirrored J s f" "line_ok J e" "int (length (fs_events s)) < so_max (fs_opts s)"
    and "sink_Emit J (True, True) e s f = (s', f')"
  shows "sink_load J True f' = Inr (fs_events s') \<and> mirrored J s' f' \<and> e \<in> set (fs_events s')"
proof -
  obtain L where L: "list_all (line_ok J) L" "opt_or [] f = sink_lines J L" "sort_key ce_time L = fs_events s"
    using assms(1) by (auto simp: mirrored_def)
  have srt: "times_sorted (fs_events s)" unfolding L(3) [symmetric] by simp
  let ?es = "filter (\<lambda>x. ce_time x \<le> ce_time e) (fs_events s) @ e # filter (\<lambda>x. ce_time x > ce_time e) (fs_events s)"
  have "length ?es = Suc (length (fs_events s))"
    using sum_length_filter_compl [of "\<lambda>x. ce_time x \<le> ce_time e" "fs_events s"] by (simp add: not_le)
  then have "emit_events (fs_opts s) e (fs_events s) = ?es"
    using assms(3) by (simp add: emit_events_def rev_sift [OF srt] Let_def)
  then have r: "fs_events s' = ?es" "opt_or [] f' = sink_lines J (L @ [e])"
    using L(2) assms(4) by (auto simp: sink_Emit_def append_text_def sink_lines_def Let_def)
  then have "mirrored J s' f'"
    unfolding mirrored_def using L assms(2) sort_snoc [OF L(3), of e] by (intro exI [of _ "L @ [e]"]) simp
  with mirrored_load r(1) show ?thesis by auto
qed

text \<open>
  A completed compaction loses nothing it did not mean to: the file then reads back as the
  pruned events, and one that fails before its rename leaves the file as it was.
\<close>

theorem compaction_durable:
  assumes "mirrored J s f" "sink_Compact J io now s f = (s', f', err)"
  shows "fs_events s' = prune_events (fs_opts s) now (fs_events s)
    \<and> (if ci_wrote io \<and> ci_renamed io then sink_load J True f' = Inr (fs_events s') \<and> mirrored J s' f' else f' = f)"
proof -
  obtain L where L: "list_all (line_ok J) L" "sort_key ce_time L = fs_events s"
    using assms(1) by (auto simp: mirrored_def)
  have srt: "times_sorted (fs_events s)" unfolding L(2) [symmetric] by simp
  have c: "fs_events s' = prune_events (fs_opts s) now (fs_events s)"
    "if ci_wrote io \<and> ci_renamed io then f' = Some (sink_lines J (fs_events s')) else f' = f"
    using assms(2) by (auto simp: sink_Compact_def Let_def split: if_splits)
  have "\<exists>k n. prune_events (fs_opts s) now (fs_events s) = drop n (drop k (fs_events s))"
    unfolding prune_events_def Let_def by (metis drop0)
  then obtain k n where p: "fs_events s' = drop n (drop k (fs_events s))" using c(1) by auto
  then have "times_sorted (fs_events s')" using srt by (simp add: sorted_wrt_drop flip: drop_map)
  moreover have "list_all (line_ok J) (fs_events s')"
    using L p by (metis list_all_iff set_drop_subset set_sort subset_iff)
  ultimately have "mirrored J s' (Some (sink_lines J (fs_events s')))"
    by (auto simp: mirrored_def sort_key_id_if_sorted intro!: exI [of _ "fs_events s'"])
  with mirrored_load c show ?thesis by auto
qed

section \<open>Demonstration values\<close>

definition demo_event_at :: "int \<Rightarrow> client_event" where
  "demo_event_at t = blank_event\<lparr>ce_key := KeyConnected, ce_time := t\<rparr>"

definition demo_json :: event_json where
  "demo_json = \<lparr>ej_enc = (\<lambda>e. itoa (ce_time e)), ej_dec = (\<lambda>l. if list_all is_digit l
     then Some (demo_event_at (int (undec l))) else None)\<rparr>"

definition demo_sink :: file_sink where
  "demo_sink = \<lparr>fs_opts = \<lparr>so_retention = 10 ^ 9, so_max = 10\<rparr>, fs_events = [demo_event_at 5], fs_open = True\<rparr>"

lemma demo_texts: "ej_enc demo_json (demo_event_at 5) = ''5''" "ej_enc demo_json (demo_event_at 7) = ''7''"
  by code_simp+

lemma demo_decoded: "ej_dec demo_json ''5'' = Some (demo_event_at 5)" "ej_dec demo_json ''7'' = Some (demo_event_at 7)"
  by (simp_all add: demo_json_def is_digit_def undec_def digit_val_def)

lemma demo_lines: "line_ok demo_json (demo_event_at 5)" "line_ok demo_json (demo_event_at 7)"
  by (simp_all add: line_ok_def demo_texts demo_decoded loaded_event_def newline_def scan_limit_def)
    (simp_all add: demo_event_at_def KeyConnected_def)

lemma demo_mirrored: "mirrored demo_json demo_sink (Some (sink_lines demo_json [demo_event_at 5]))"
  unfolding mirrored_def
  by (intro exI [of _ "[demo_event_at 5]"]) (simp add: demo_lines demo_sink_def)

lemma prune_exact_witness:
  "prune_events \<lparr>so_retention = 10 ^ 9, so_max = 1\<rparr> (3 * 10 ^ 9) [demo_event_at 5, demo_event_at 2500, demo_event_at 2600]
     = [demo_event_at 2600]"
  using prune_exact [of "[demo_event_at 5, demo_event_at 2500, demo_event_at 2600]" "\<lparr>so_retention = 10 ^ 9, so_max = 1\<rparr>" "3 * 10 ^ 9"]
  by (simp add: demo_event_at_def)

lemma torn_tail_harmless_witness:
  "sink_load demo_json True (Some (sink_lines demo_json [demo_event_at 7, demo_event_at 5] @ ''{x''))
     = Inr [demo_event_at 5, demo_event_at 7]"
proof -
  have "list_all (line_ok demo_json) [demo_event_at 7, demo_event_at 5]" by (simp add: demo_lines)
  moreover have "newline \<notin> set ''{x''" "length ''{x'' < scan_limit" "loaded_event demo_json (drop_cr ''{x'') = None"
    by (simp_all add: newline_def scan_limit_def loaded_event_def drop_cr_def demo_json_def is_digit_def)
  ultimately have "sink_load demo_json True (Some (sink_lines demo_json [demo_event_at 7, demo_event_at 5] @ ''{x''))
      = Inr (sort_key ce_time [demo_event_at 7, demo_event_at 5])"
    by (rule torn_tail_harmless)
  then show ?thesis by (simp add: demo_event_at_def)
qed

lemma emitted_event_durable_witness:
  "sink_load demo_json True (snd (sink_Emit demo_json (True, True) (demo_event_at 7) demo_sink
      (Some (sink_lines demo_json [demo_event_at 5])))) = Inr [demo_event_at 5, demo_event_at 7]"
proof -
  obtain s' f' where r: "sink_Emit demo_json (True, True) (demo_event_at 7) demo_sink
      (Some (sink_lines demo_json [demo_event_at 5])) = (s', f')" by fastforce
  have "fs_events s' = [demo_event_at 5, demo_event_at 7]"
    using r by (auto simp: sink_Emit_def emit_events_def demo_sink_def demo_event_at_def Let_def)
  with emitted_event_durable [OF demo_mirrored demo_lines(2) _ r] r show ?thesis by (simp add: demo_sink_def)
qed

lemma compaction_durable_witness:
  "snd (sink_Compact demo_json \<lparr>ci_wrote = True, ci_renamed = False, ci_reopened = True\<rparr> 0 demo_sink
      (Some (sink_lines demo_json [demo_event_at 5]))) = (Some (sink_lines demo_json [demo_event_at 5]), Some ''rename'')"
proof -
  obtain s' f' err where r: "sink_Compact demo_json \<lparr>ci_wrote = True, ci_renamed = False, ci_reopened = True\<rparr> 0 demo_sink
      (Some (sink_lines demo_json [demo_event_at 5])) = (s', f', err)" by (metis prod_cases3)
  have "err = Some ''rename''" using r by (auto simp: sink_Compact_def Let_def)
  with compaction_durable [OF demo_mirrored r] r show ?thesis by simp
qed

section \<open>Order and size of the memory\<close>

definition sink_inv :: "file_sink \<Rightarrow> bool" where
  "sink_inv s \<longleftrightarrow> times_sorted (fs_events s) \<and> 0 < so_max (fs_opts s)
     \<and> int (length (fs_events s)) \<le> so_max (fs_opts s) + so_max (fs_opts s) div 10"

lemma sorted_drop_times: "times_sorted es \<Longrightarrow> times_sorted (drop n es)"
  by (simp add: sorted_wrt_drop flip: drop_map)

lemma emit_sorted:
  assumes "times_sorted es"
  shows "times_sorted (emit_events opts e es)"
proof -
  have "times_sorted (rev (sift e (rev es)))"
    unfolding rev_sift [OF assms] by (rule sorted_inserted [OF assms])
  then show ?thesis by (auto simp: emit_events_def Let_def intro: sorted_drop_times)
qed

lemma emit_length:
  assumes "0 < so_max opts" "int (length es) \<le> so_max opts + so_max opts div 10"
  shows "int (length (emit_events opts e es)) \<le> so_max opts + so_max opts div 10"
proof -
  have "0 \<le> so_max opts div 10" using assms(1) by simp
  then show ?thesis by (auto simp: emit_events_def Let_def)
qed

lemma prune_inv:
  assumes "times_sorted es" "0 < so_max opts"
  shows "times_sorted (prune_events opts now es) \<and> int (length (prune_events opts now es)) \<le> so_max opts"
proof -
  have "\<exists>k n. prune_events opts now es = drop n (drop k es)"
    unfolding prune_events_def Let_def by (metis drop0)
  then have "times_sorted (prune_events opts now es)" using sorted_drop_times [OF assms(1)] sorted_drop_times by metis
  moreover have "int (length (prune_events opts now es)) \<le> so_max opts"
    using assms(2) by (auto simp: prune_events_def Let_def)
  ultimately show ?thesis by simp
qed

datatype sink_op = EmitOp "bool \<times> bool" client_event | CompactOp compact_io int | CloseOp

fun sink_step :: "event_json \<Rightarrow> file_sink \<times> disk \<Rightarrow> sink_op \<Rightarrow> file_sink \<times> disk" where
  "sink_step J (s, f) (EmitOp io e) = sink_Emit J io e s f"
| "sink_step J (s, f) (CompactOp io now) = (let (s, f, _) = sink_Compact J io now s f in (s, f))"
| "sink_step J (s, f) CloseOp = (sink_Close s, f)"

lemma sink_step_inv: "sink_inv (fst sf) \<Longrightarrow> sink_inv (fst (sink_step J sf op))"
proof (cases op)
  case (EmitOp io e)
  assume "sink_inv (fst sf)"
  moreover obtain s f where "sf = (s, f)" by fastforce
  ultimately show ?thesis
    using emit_sorted [of "fs_events s" "fs_opts s" e] emit_length [of "fs_opts s" "fs_events s" e]
    by (auto simp: EmitOp sink_inv_def sink_Emit_def Let_def)
next
  case (CompactOp io now)
  assume i: "sink_inv (fst sf)"
  obtain s f where sf: "sf = (s, f)" by fastforce
  have "0 \<le> so_max (fs_opts s) div 10" using i by (simp add: sf sink_inv_def pos_imp_zdiv_nonneg_iff)
  then show ?thesis
    using prune_inv [of "fs_events s" "fs_opts s" now] i
    by (auto simp: CompactOp sf sink_inv_def sink_Compact_def Let_def split: if_splits)
next
  case CloseOp
  assume "sink_inv (fst sf)"
  then show ?thesis by (cases sf) (simp add: CloseOp sink_inv_def sink_Close_def)
qed

interpretation sink_machine: machine "sink_step J" "\<lambda>sf. sink_inv (fst sf)" for J
  by unfold_locales (rule sink_step_inv)

lemma new_sink_inv: "NewFileSink J opens io now opts f = (f', Inr s) \<Longrightarrow> sink_inv s"
proof -
  assume n: "NewFileSink J opens io now opts f = (f', Inr s)"
  define o1 where "o1 = (if so_retention opts \<le> 0 then opts\<lparr>so_retention := DefaultRetention\<rparr> else opts)"
  define o2 where "o2 = (if so_max o1 \<le> 0 then o1\<lparr>so_max := DefaultMaxEvents\<rparr> else o1)"
  have m: "0 < so_max o2" by (auto simp: o2_def DefaultMaxEvents_def)
  obtain es where l: "sink_load J opens f = Inr es"
    using n by (auto simp: NewFileSink_def Let_def split: sum.splits)
  then have "times_sorted es" by (auto simp: sink_load_def split: option.splits if_splits)
  have "fs_opts s = o2 \<and> fs_events s = prune_events o2 now es"
    using n l unfolding NewFileSink_def Let_def o1_def [symmetric] o2_def [symmetric]
    by (auto simp: sink_Compact_def Let_def split: if_splits)
  with prune_inv [OF \<open>times_sorted es\<close> m, of now] m show ?thesis
    by (simp add: sink_inv_def) (smt (verit) pos_imp_zdiv_nonneg_iff)
qed

text \<open>
  The history in memory is ordered and bounded: from any start on, through any events (held
  disconnects with earlier times included), compactions and write failures, it stays in time order
  and never exceeds the cap by more than a tenth.
\<close>

theorem history_ordered_bounded:
  assumes "NewFileSink J opens io now opts f = (f', Inr s)"
  shows "times_sorted (fs_events (fst (foldl (sink_step J) (s, f') ops)))
    \<and> int (length (fs_events (fst (foldl (sink_step J) (s, f') ops))))
        \<le> so_max (fs_opts (fst (foldl (sink_step J) (s, f') ops)))
          + so_max (fs_opts (fst (foldl (sink_step J) (s, f') ops))) div 10"
  using sink_machine.run_inv [of "(s, f')" J ops] new_sink_inv [OF assms] by (simp add: sink_inv_def)

definition good_io :: compact_io where
  "good_io = \<lparr>ci_wrote = True, ci_renamed = True, ci_reopened = True\<rparr>"

lemma history_ordered_bounded_witness:
  "\<exists>s f'. NewFileSink demo_json True good_io 0 \<lparr>so_retention = 0, so_max = 0\<rparr> None = (f', Inr s)
     \<and> times_sorted (fs_events (fst (foldl (sink_step demo_json) (s, f') [EmitOp (True, True) (demo_event_at 7), EmitOp (True, False) (demo_event_at 5)])))"
proof -
  have "case NewFileSink demo_json True good_io 0 \<lparr>so_retention = 0, so_max = 0\<rparr> None of (f', Inr s) \<Rightarrow> True | _ \<Rightarrow> False"
    by code_simp
  then obtain f' s where n: "NewFileSink demo_json True good_io 0 \<lparr>so_retention = 0, so_max = 0\<rparr> None = (f', Inr s)"
    by (auto split: prod.splits sum.splits)
  from history_ordered_bounded [OF n] n show ?thesis by blast
qed

section \<open>Queries and intervals\<close>

lemma query_loop_spec:
  "0 < ef_limit f \<Longrightarrow> int (length out) < ef_limit f \<Longrightarrow>
     query_loop f c a es out = take (nat (ef_limit f)) (out @ filter (\<lambda>e. filter_match f e c a) es)"
  "\<not> 0 < ef_limit f \<Longrightarrow> query_loop f c a es out = out @ filter (\<lambda>e. filter_match f e c a) es"
proof -
  assume l: "0 < ef_limit f"
  show "int (length out) < ef_limit f \<Longrightarrow>
      query_loop f c a es out = take (nat (ef_limit f)) (out @ filter (\<lambda>e. filter_match f e c a) es)"
  proof (induction es arbitrary: out)
    case Nil
    then show ?case by simp
  next
    case (Cons e es)
    show ?case
    proof (cases "filter_match f e c a \<and> int (length (out @ [e])) \<ge> ef_limit f")
      case True
      then have "ef_limit f = 1 + int (length out)" using Cons.prems by auto
      then have "nat (ef_limit f) = length (out @ [e])" by simp
      with True l show ?thesis by simp
    next
      case False
      show ?thesis
      proof (cases "filter_match f e c a")
        case m: True
        with False Cons.prems have "nat (ef_limit f) - length out = Suc (nat (ef_limit f) - Suc (length out))" by auto
        with Cons False m show ?thesis by auto
      next
        case False
        with Cons show ?thesis by simp
      qed
    qed
  qed
next
  assume "\<not> 0 < ef_limit f"
  then show "query_loop f c a es out = out @ filter (\<lambda>e. filter_match f e c a) es"
    by (induction es arbitrary: out) auto
qed

text \<open>
  A query returns the matching events newest first, all of them or the first \<open>Limit\<close>.
\<close>

theorem query_newest_first:
  "sink_Query f s = (let ms = filter (\<lambda>e. filter_match f e (canonOrRaw (ef_client f)) (canonOrRaw (ef_ap f))) (rev (fs_events s))
     in if 0 < ef_limit f then take (nat (ef_limit f)) ms else ms)"
  by (simp add: sink_Query_def query_loop_spec Let_def)

text \<open>
  A day count too large for 64 bits of nanoseconds is not refused: it wraps around, and
  \<open>213504d\<close> becomes a retention of about 25 minutes, after which everything older is pruned.
\<close>

theorem retention_wraps: "ParseRetention pd ''213504d'' = Inr 1526290448384"
proof -
  have "trim_space ''213504d'' = ''213504d''" "cut_suffix ''d'' ''213504d'' = Some ''213504''"
    by code_simp+
  moreover have "parse_uint 32 ''213504'' = Some 213504"
    by (simp add: parse_uint_def undec_def digit_val_def is_digit_def)
  ultimately show ?thesis by (simp add: ParseRetention_def wrap64_def Let_def)
qed

section \<open>The intervals of one client\<close>

text \<open>
  The reference: an arrival (a connect or a roam) starts a stay that lasts to the next event that ends one
  (a connect, a roam or a disconnect); its channel is the last one a radio event on its access point told.
\<close>

definition ends_stay :: "client_event \<Rightarrow> bool" where
  "ends_stay e \<longleftrightarrow> ce_key e \<in> {KeyConnected, KeyRoam, KeyDisconnected}"

definition leave_time :: "client_event list \<Rightarrow> int" where
  "leave_time es = (case List.find ends_stay es of None \<Rightarrow> 0 | Some e \<Rightarrow> ce_time e)"

definition channel_in :: "string \<Rightarrow> int \<Rightarrow> client_event list \<Rightarrow> int" where
  "channel_in ap ch es = last (ch # map ce_channel
     (filter (\<lambda>e. ce_key e = KeyRoamRadio \<and> ce_ap e = ap) (takeWhile (\<lambda>e. \<not> ends_stay e) es)))"

definition stay_at :: "string \<Rightarrow> string \<Rightarrow> client_event \<Rightarrow> client_event list \<Rightarrow> interval" where
  "stay_at ap name e es = \<lparr>iv_ap = ap, iv_ap_name = name, iv_ssid = ce_ssid e,
     iv_channel = channel_in ap (ce_channel e) es, iv_from = ce_time e, iv_to = leave_time es\<rparr>"

fun stays :: "client_event list \<Rightarrow> interval list" where
  "stays [] = []"
| "stays (e # es) =
    (if ce_key e = KeyConnected then stay_at (ce_ap e) (ce_ap_name e) e es # stays es
     else if ce_key e = KeyRoam then stay_at (ce_ap_to e) (ce_ap_to_name e) e es # stays es
     else stays es)"

lemma event_keys_distinct [simp]: "KeyConnected \<noteq> KeyRoam" "KeyConnected \<noteq> KeyDisconnected" "KeyRoam \<noteq> KeyDisconnected"
    "KeyRoamRadio \<noteq> KeyConnected" "KeyRoamRadio \<noteq> KeyRoam" "KeyRoamRadio \<noteq> KeyDisconnected"
    "KeyRoam \<noteq> KeyConnected" "KeyDisconnected \<noteq> KeyConnected" "KeyDisconnected \<noteq> KeyRoam"
    "KeyConnected \<noteq> KeyRoamRadio" "KeyRoam \<noteq> KeyRoamRadio" "KeyDisconnected \<noteq> KeyRoamRadio"
  by code_simp+

lemma leave_simps: "leave_time [] = 0" "ends_stay e \<Longrightarrow> leave_time (e # es) = ce_time e"
    "\<not> ends_stay e \<Longrightarrow> leave_time (e # es) = leave_time es"
  by (simp_all add: leave_time_def)

lemma channel_simps: "channel_in ap ch [] = ch" "ends_stay e \<Longrightarrow> channel_in ap ch (e # es) = ch"
    "\<not> ends_stay e \<Longrightarrow> ce_key e = KeyRoamRadio \<and> ce_ap e = ap \<Longrightarrow> channel_in ap ch (e # es) = channel_in ap (ce_channel e) es"
    "\<not> ends_stay e \<Longrightarrow> \<not> (ce_key e = KeyRoamRadio \<and> ce_ap e = ap) \<Longrightarrow> channel_in ap ch (e # es) = channel_in ap ch es"
  by (auto simp: channel_in_def)

text \<open>The fold from a state without an open interval, and from one whose last interval is open.\<close>

lemma fold_stays:
  "fst (foldl fold_event (out, None) es) = out @ stays es"
  "iv_to iv = 0 \<Longrightarrow> fst (foldl fold_event (out @ [iv], Some (length out)) es) =
     out @ [iv\<lparr>iv_channel := channel_in (iv_ap iv) (iv_channel iv) es, iv_to := leave_time es\<rparr>] @ stays es"
proof (induction es arbitrary: out iv)
  case Nil
  {
    case 1
    then show ?case by simp
  next
    case 2
    then show ?case by (simp add: leave_simps channel_simps)
  }
next
  case (Cons e es)
  have opened: "fst (foldl fold_event (open_at ap name e (o1, None)) es) = o1 @ stay_at ap name e es # stays es" for o1 ap name
    by (simp add: open_at_def Cons.IH(2) stay_at_def)
  {
    case 1
    show ?case
      using opened by (simp add: fold_event_def [of _ e] close_open_def Cons.IH(1))
  next
    case 2
    have shut: "close_open t (out @ [iv], Some (length out)) = (out @ [iv\<lparr>iv_to := t\<rparr>], None)" for t
      by (simp add: close_open_def)
    consider "ce_key e = KeyConnected" | "ce_key e = KeyRoam" | "ce_key e = KeyDisconnected"
      | "ce_key e = KeyRoamRadio" "ce_ap e = iv_ap iv" | "\<not> ends_stay e" "\<not> (ce_key e = KeyRoamRadio \<and> ce_ap e = iv_ap iv)"
      by (auto simp: ends_stay_def)
    then show ?case
    proof cases
      case 4
      then show ?thesis using Cons.IH(2) [of "iv\<lparr>iv_channel := ce_channel e\<rparr>"] 2
        by (simp add: fold_event_def [of _ e] ends_stay_def leave_simps channel_simps)
    next
      case 5
      then show ?thesis using Cons.IH(2) [OF 2]
        by (auto simp: fold_event_def [of _ e] ends_stay_def leave_simps channel_simps)
    qed (simp_all add: fold_event_def [of _ e] shut opened Cons.IH(1) ends_stay_def leave_simps channel_simps)
  }
qed

lemma FoldHistory_stays: "FoldHistory es = stays es"
  using fold_stays(1) [of "[]" es] by (simp add: FoldHistory_def)

lemma stays_none: "\<not> list_ex ends_stay es \<Longrightarrow> stays es = []"
  by (induction es) (auto simp: ends_stay_def)

lemma stays_skip: "\<not> ends_stay e \<Longrightarrow> stays (e # es) = stays es"
  by (simp add: ends_stay_def)

definition span_times :: "interval list \<Rightarrow> int list" where
  "span_times ivs = concat (map (\<lambda>i. [iv_from i, iv_to i]) ivs)"

lemma span_times_simps [simp]:
  "span_times [] = []" "span_times (xs @ ys) = span_times xs @ span_times ys" "span_times [i] = [iv_from i, iv_to i]"
  by (simp_all add: span_times_def)

text \<open>\<open>tidy here ivs\<close>: the intervals are closed and in time order, but for the last one, open at \<open>here\<close>.\<close>

definition tidy :: "string option \<Rightarrow> interval list \<Rightarrow> bool" where
  "tidy here ivs \<longleftrightarrow> (case here of
     None \<Rightarrow> sorted (span_times ivs) \<and> (\<forall>i \<in> set ivs. 0 < iv_to i)
   | Some ap \<Rightarrow> (\<exists>out iv. ivs = out @ [iv] \<and> iv_ap iv = ap \<and> iv_to iv = 0
       \<and> sorted (span_times out @ [iv_from iv]) \<and> (\<forall>i \<in> set out. 0 < iv_to i)))"

definition fold_inv :: "string option \<Rightarrow> int \<Rightarrow> interval list \<times> nat option \<Rightarrow> bool" where
  "fold_inv here t st \<longleftrightarrow> tidy here (fst st) \<and> (case here of
     None \<Rightarrow> snd st = None \<and> (\<forall>x \<in> set (span_times (fst st)). x \<le> t)
   | Some ap \<Rightarrow> snd st = Some (length (fst st) - 1)
       \<and> (\<forall>x \<in> set (span_times (butlast (fst st)) @ [iv_from (last (fst st))]). x \<le> t))"

lemma fold_inv_close:
  assumes "fold_inv here t st" "t \<le> t'" "0 < t'"
  shows "fold_inv None t' (close_open t' st)"
proof (cases here)
  case None
  with assms show ?thesis by (cases st) (force simp: fold_inv_def tidy_def close_open_def)
next
  case (Some ap)
  then obtain out iv where st: "fst st = out @ [iv]" "snd st = Some (length out)"
      "sorted (span_times out @ [iv_from iv])" "\<forall>i \<in> set out. 0 < iv_to i"
      "\<forall>x \<in> set (span_times out @ [iv_from iv]). x \<le> t"
    using assms(1) by (auto simp: fold_inv_def tidy_def)
  have "close_open t' st = (out @ [iv\<lparr>iv_to := t'\<rparr>], None)"
    using st(1,2) by (cases st) (simp add: close_open_def)
  moreover have "\<forall>x \<in> set (span_times out @ [iv_from iv]). x \<le> t'" using st(5) assms(2) by fastforce
  ultimately show ?thesis
    using st(3,4) assms(3) by (auto simp: fold_inv_def tidy_def sorted_append)
qed

lemma fold_inv_open:
  assumes "fold_inv None (ce_time e) st"
  shows "fold_inv (Some ap) (ce_time e) (open_at ap name e st)"
  using assms by (auto simp: fold_inv_def tidy_def open_at_def sorted_append)

lemma legal_no_end:
  assumes "legal_event loc e = Some loc'" "\<not> ends_stay e"
  shows "loc' = loc"
  using assms by (auto simp: legal_event_def ends_stay_def Let_def split: if_splits)

lemma fold_inv_end:
  assumes i: "fold_inv here t st" and l: "legal_event loc e = Some loc'" and c: "ce_client e = c"
    and t: "t \<le> ce_time e" "0 < ce_time e" and e: "ends_stay e"
  shows "fold_inv (loc' c) (ce_time e) (fold_event st e)"
proof -
  note closed = fold_inv_close [OF i t]
  consider "ce_key e = KeyConnected" | "ce_key e = KeyDisconnected" | "ce_key e = KeyRoam"
    using e by (auto simp: ends_stay_def)
  then show ?thesis
  proof cases
    case 1
    then have "loc' c = Some (ce_ap e)" using l c by (auto simp: legal_event_def Let_def split: if_splits)
    with 1 fold_inv_open [OF closed] show ?thesis by (simp add: fold_event_def)
  next
    case 2
    then have "loc' c = None" using l c by (auto simp: legal_event_def Let_def split: if_splits)
    with 2 closed show ?thesis by (simp add: fold_event_def)
  next
    case 3
    then have "loc' c = Some (ce_ap_to e)" using l c by (auto simp: legal_event_def Let_def split: if_splits)
    with 3 fold_inv_open [OF closed] show ?thesis by (simp add: fold_event_def)
  qed
qed

lemma fold_inv_step:
  assumes i: "fold_inv (loc c) t st" and l: "legal_event loc e = Some loc'" and c: "ce_client e = c"
    and t: "t \<le> ce_time e" "0 < ce_time e"
  shows "fold_inv (loc' c) (ce_time e) (fold_event st e)"
proof (cases "ends_stay e")
  case True
  then show ?thesis by (rule fold_inv_end [OF i l c t])
next
  case False
  then have k: "ce_key e = KeyRoamRadio" and h: "loc' = loc" "loc c = Some (ce_ap e)"
    using l c by (auto simp: legal_event_def ends_stay_def Let_def split: if_splits)
  then obtain out iv where st: "fst st = out @ [iv]" "snd st = Some (length out)" "iv_ap iv = ce_ap e" "iv_to iv = 0"
      "sorted (span_times out @ [iv_from iv])" "\<forall>i \<in> set out. 0 < iv_to i"
      "\<forall>x \<in> set (span_times out @ [iv_from iv]). x \<le> t"
    using i by (auto simp: fold_inv_def tidy_def)
  have "fold_event st e = (out @ [iv\<lparr>iv_channel := ce_channel e\<rparr>], Some (length out))"
    using k st(1-3) by (cases st) (simp add: fold_event_def)
  moreover have "\<forall>x \<in> set (span_times out @ [iv_from iv]). x \<le> ce_time e" using st(7) t(1) by fastforce
  ultimately show ?thesis using st(3-6) h by (auto simp: fold_inv_def tidy_def)
qed

lemma fold_inv_run:
  "fold_inv (loc c) t st \<Longrightarrow> legal_run loc es = Some loc' \<Longrightarrow> \<forall>e \<in> set es. ce_client e = c \<and> 0 < ce_time e \<and> t \<le> ce_time e \<Longrightarrow>
     times_sorted es \<Longrightarrow> \<exists>t'. fold_inv (loc' c) t' (foldl fold_event st es)"
proof (induction es arbitrary: loc t st)
  case (Cons e es)
  obtain l1 where l1: "legal_event loc e = Some l1" "legal_run l1 es = Some loc'"
    using Cons.prems(2) by (auto split: option.splits)
  have "fold_inv (l1 c) (ce_time e) (fold_event st e)"
    using fold_inv_step [OF Cons.prems(1) l1(1)] Cons.prems(3) by simp
  from Cons.IH [OF this l1(2)] Cons.prems(3,4) show ?case by simp
qed auto

text \<open>A history that starts with the client present: nothing is known of it before its first stay ends.\<close>

lemma tidy_stays:
  assumes "legal_run loc es = Some loc'" "times_sorted es" "\<forall>e \<in> set es. ce_client e = c \<and> 0 < ce_time e"
    and "loc c = None \<or> list_ex ends_stay es"
  shows "tidy (loc' c) (stays es)"
  using assms
proof (induction es arbitrary: loc)
  case Nil
  then show ?case by (simp add: tidy_def)
next
  case (Cons e r)
  obtain l1 where l1: "legal_event loc e = Some l1" "legal_run l1 r = Some loc'"
    using Cons.prems(1) by (auto split: option.splits)
  show ?case
  proof (cases "ends_stay e")
    case True
    have "fold_inv None (ce_time e) ([], None)" by (simp add: fold_inv_def tidy_def)
    from fold_inv_end [OF this l1(1) _ _ _ True] Cons.prems(3)
    have i: "fold_inv (l1 c) (ce_time e) (fold_event ([], None) e)" by simp
    have "\<forall>x \<in> set r. ce_client x = c \<and> 0 < ce_time x \<and> ce_time e \<le> ce_time x" using Cons.prems(2,3) by auto
    with fold_inv_run [OF i l1(2)] Cons.prems(2) obtain t' where "fold_inv (loc' c) t' (foldl fold_event ([], None) (e # r))" by auto
    then show ?thesis using FoldHistory_stays [of "e # r"] by (simp add: fold_inv_def FoldHistory_def)
  next
    case False
    have "l1 = loc" using legal_no_end [OF l1(1) False] .
    with Cons.IH [OF l1(2)] Cons.prems False have "tidy (loc' c) (stays r)" by auto
    then show ?thesis by (simp only: stays_skip [OF False])
  qed
qed


definition demo_story :: "client_event list" where
  "demo_story = [blank_event\<lparr>ce_key := KeyConnected, ce_time := 10, ce_ap := ''a''\<rparr>,
     blank_event\<lparr>ce_key := KeyRoam, ce_time := 20, ce_ap_from := ''a'', ce_ap_to := ''b''\<rparr>]"


end
