(* ===== verification/App_Clients.thy ===== *)
theory App_Clients
  imports App_Ops Event_History
begin

text \<open>
  The client views of the application layer (\<^verbatim>\<open>internal/app/clients.go\<close>, and \<^verbatim>\<open>ListDeviceClients\<close> of
  \<^verbatim>\<open>app.go\<close>): the sessions of one device, the session rows of every device folded into one entry
  per client, the persisted event log and a client's assignment history.
\<close>

section \<open>The sessions of one device\<close>

record client_view =
  cv_mac :: string
  cv_connected :: bool
  cv_last_seen :: int

definition ListDeviceClients :: "string \<Rightarrow> json_store \<Rightarrow> app_error + client_view list" where
  "ListDeviceClients mac s = and_then (getRecord mac s) (\<lambda>d. Inr (map (\<lambda>c.
     \<lparr>cv_mac = ColonMAC (cs_mac c), cv_connected = sr_connected (cs_row c), cv_last_seen = sr_last_seen (cs_row c)\<rparr>)
     (ClientSessions d)))"

section \<open>All clients of the site\<close>

record site_client_view =
  scv_mac :: string
  scv_hostname :: string
  scv_ip :: string
  scv_connected :: bool
  scv_ap :: string
  scv_ap_name :: string
  scv_ssid :: string
  scv_radio :: string
  scv_channel :: int
  scv_since :: int
  scv_last_seen :: int

record pick =
  pk_session :: client_session
  pk_ap :: string
  pk_ap_name :: string

definition pick_of :: "device \<Rightarrow> client_session \<Rightarrow> pick" where
  "pick_of d s = \<lparr>pk_session = s, pk_ap = ColonMAC (dev_mac d), pk_ap_name = dev_name d\<rparr>"

lemma pk_session_pick_of [simp]: "pk_session (pick_of d s) = s"
  by (simp add: pick_of_def)

text \<open>One step of the inner loop, with its two \<^verbatim>\<open>continue\<close>s.\<close>

definition offer_pick :: "device \<Rightarrow> client_session \<Rightarrow> (string \<times> pick) list \<Rightarrow> (string \<times> pick) list" where
  "offer_pick d s best =
    (let put = jset (cs_mac s) (pick_of d s) best
     in case jget best (cs_mac s) of
          None \<Rightarrow> put
        | Some p \<Rightarrow>
            (let cur = cs_row (pk_session p); row = cs_row s
             in if sr_connected cur \<noteq> sr_connected row
                then (if sr_connected cur then best else put)
                else if sr_last_seen cur \<ge> sr_last_seen row then best
                else put))"

definition site_view :: "string \<times> pick \<Rightarrow> site_client_view" where
  "site_view mp = (let p = snd mp; row = cs_row (pk_session p)
    in \<lparr>scv_mac = ColonMAC (fst mp), scv_hostname = sr_hostname row, scv_ip = sr_ip row,
        scv_connected = sr_connected row, scv_ap = pk_ap p, scv_ap_name = pk_ap_name p,
        scv_ssid = sr_essid row, scv_radio = sr_radio row, scv_channel = sr_channel row,
        scv_since = sr_since row, scv_last_seen = sr_last_seen row\<rparr>)"

text \<open>The sort: connected clients first, then by MAC.\<close>

definition client_order :: "site_client_view \<Rightarrow> bool \<times> string" where
  "client_order v = (\<not> scv_connected v, scv_mac v)"

definition ListClients :: "json_store \<Rightarrow> site_client_view list" where
  "ListClients s =
    (let best = fold (\<lambda>d. fold (offer_pick d) (ClientSessions d)) (db_List (js_db s)) []
     in sort_key client_order (map site_view best))"

section \<open>The event log\<close>

record event_view =
  ev_key :: string
  ev_time :: int
  ev_datetime :: string
  ev_client :: string
  ev_hostname :: string
  ev_ip :: string
  ev_ap :: string
  ev_ap_name :: string
  ev_ap_from :: string
  ev_ap_from_name :: string
  ev_ap_to :: string
  ev_ap_to_name :: string
  ev_ssid :: string
  ev_radio :: string
  ev_radio_from :: string
  ev_radio_to :: string
  ev_channel :: int
  ev_channel_from :: int
  ev_channel_to :: int
  ev_duration :: int
  ev_bytes :: int
  ev_msg :: string

definition eventView :: "client_event \<Rightarrow> event_view" where
  "eventView e = \<lparr>ev_key = ce_key e, ev_time = ce_time e, ev_datetime = ce_datetime e, ev_client = ce_client e,
     ev_hostname = ce_hostname e, ev_ip = ce_ip e, ev_ap = ce_ap e, ev_ap_name = ce_ap_name e,
     ev_ap_from = ce_ap_from e, ev_ap_from_name = ce_ap_from_name e, ev_ap_to = ce_ap_to e,
     ev_ap_to_name = ce_ap_to_name e, ev_ssid = ce_ssid e, ev_radio = ce_radio e,
     ev_radio_from = ce_radio_from e, ev_radio_to = ce_radio_to e, ev_channel = ce_channel e,
     ev_channel_from = ce_channel_from e, ev_channel_to = ce_channel_to e, ev_duration = ce_duration e,
     ev_bytes = ce_bytes e, ev_msg = ce_msg e\<rparr>"

record events_view =
  evs_enabled :: bool
  evs_events :: "event_view list"

text \<open>The query of the admin route has the fields of the log's filter; no log means history is off.\<close>

definition ListEvents :: "file_sink option \<Rightarrow> event_filter \<Rightarrow> events_view" where
  "ListEvents history q = (case history of
     None \<Rightarrow> \<lparr>evs_enabled = False, evs_events = []\<rparr>
   | Some h \<Rightarrow> \<lparr>evs_enabled = True, evs_events = map eventView (sink_Query q h)\<rparr>)"

record client_history_view =
  chv_enabled :: bool
  chv_client :: string
  chv_intervals :: "interval list"

definition GetClientHistory :: "file_sink option \<Rightarrow> string \<Rightarrow> client_history_view" where
  "GetClientHistory history mac =
    (let v = \<lparr>chv_enabled = False, chv_client = mac, chv_intervals = []\<rparr>
     in case history of None \<Rightarrow> v
        | Some h \<Rightarrow> v\<lparr>chv_enabled := True, chv_intervals := map (\<lambda>iv.
            \<lparr>iv_ap = iv_ap iv, iv_ap_name = iv_ap_name iv, iv_ssid = iv_ssid iv, iv_channel = iv_channel iv,
             iv_from = iv_from iv, iv_to = iv_to iv\<rparr>) (sink_History mac h)\<rparr>)"

section \<open>The freshest row wins\<close>

text \<open>The rows the loops visit, in their order, and what ranks them: connected first, then freshness.\<close>

definition site_rows :: "json_store \<Rightarrow> (device \<times> client_session) list" where
  "site_rows s = concat (map (\<lambda>d. map (Pair d) (ClientSessions d)) (db_List (js_db s)))"

definition row_rank :: "client_session \<Rightarrow> bool \<times> int" where
  "row_rank s = (sr_connected (cs_row s), sr_last_seen (cs_row s))"

lemma offer_row_rank: "offer_pick d s best = (case jget best (cs_mac s) of
     Some p \<Rightarrow> if row_rank s \<le> row_rank (pk_session p) then best else jset (cs_mac s) (pick_of d s) best
   | None \<Rightarrow> jset (cs_mac s) (pick_of d s) best)"
  by (auto simp: offer_pick_def row_rank_def Let_def split: option.splits)

lemma fold_devices: "fold (\<lambda>d. fold (f d) (g d)) ds = fold (\<lambda>(d, s). f d s) (concat (map (\<lambda>d. map (Pair d) (g d)) ds))"
  by (rule HOL.ext) (induction ds; simp add: fold_map comp_def)

text \<open>What the table holds for a client: the fold over that client's rows alone.\<close>

fun keep_pick :: "device \<times> client_session \<Rightarrow> pick option \<Rightarrow> pick option" where
  "keep_pick (d, s) None = Some (pick_of d s)"
| "keep_pick (d, s) (Some p) = Some (if row_rank s \<le> row_rank (pk_session p) then p else pick_of d s)"

definition rows_of :: "string \<Rightarrow> (device \<times> client_session) list \<Rightarrow> (device \<times> client_session) list" where
  "rows_of m rows = filter (\<lambda>r. cs_mac (snd r) = m) rows"

lemma jget_offer: "jget (offer_pick d s best) m = (if cs_mac s = m then keep_pick (d, s) (jget best m) else jget best m)"
  by (auto simp: offer_row_rank jget_jset split: option.splits)

lemma jget_offers:
  "jget (fold (\<lambda>(d, s). offer_pick d s) rows best) m = fold keep_pick (rows_of m rows) (jget best m)"
  by (induction rows arbitrary: best) (auto simp: rows_of_def jget_offer)

lemma distinct_offers: "distinct (map fst best) \<Longrightarrow> distinct (map fst (fold (\<lambda>(d, s). offer_pick d s) rows best))"
  by (induction rows arbitrary: best) (auto simp: offer_row_rank distinct_jset split: option.splits)

lemma keep_pick_Some: "\<exists>q. keep_pick r cur = Some q"
  by (cases r; cases cur) simp_all

lemma keep_pick_greatest:
  "fold keep_pick rows None = (if rows = [] then None else Some p) \<Longrightarrow> rows \<noteq> [] \<Longrightarrow>
    \<exists>(d, s) \<in> set rows. p = pick_of d s \<and> (\<forall>(d', s') \<in> set rows. row_rank s' \<le> row_rank s)"
proof (induction rows arbitrary: p rule: rev_induct)
  case (snoc r rows)
  obtain d s where r: "r = (d, s)" by fastforce
  show ?case
  proof (cases "rows = []")
    case True
    with snoc.prems r show ?thesis by simp
  next
    case False
    then obtain q where q: "fold keep_pick rows None = Some q"
      using keep_pick_Some by (cases rows rule: rev_cases) (simp, fastforce simp del: keep_pick.simps)
    with snoc.IH [of q] False obtain d0 s0 where i: "(d0, s0) \<in> set rows" "q = pick_of d0 s0"
      "\<forall>(d', s') \<in> set rows. row_rank s' \<le> row_rank s0" by auto
    have p: "p = (if row_rank s \<le> row_rank s0 then pick_of d0 s0 else pick_of d s)"
      using snoc.prems q i(2) r by (auto split: if_splits)
    show ?thesis
    proof (cases "row_rank s \<le> row_rank s0")
      case True
      with i p r show ?thesis by fastforce
    next
      case False
      with i(3) have "\<forall>(d', s') \<in> set (rows @ [r]). row_rank s' \<le> row_rank s" by (fastforce simp: r)
      with False p r show ?thesis by fastforce
    qed
  qed
qed simp

lemma fold_keep_None: "fold keep_pick rows None = None \<longleftrightarrow> rows = []"
  using keep_pick_Some by (cases rows rule: rev_cases) (auto simp del: keep_pick.simps)

lemma site_view_fields: "scv_mac (site_view (m, p)) = ColonMAC m"
    "client_order (site_view (m, p)) = (\<not> sr_connected (cs_row (pk_session p)), ColonMAC m)"
  by (simp_all add: site_view_def client_order_def Let_def)

definition site_picks :: "json_store \<Rightarrow> (string \<times> pick) list" where
  "site_picks s = fold (\<lambda>(d, c). offer_pick d c) (site_rows s) []"

lemma ListClients_picks: "ListClients s = sort_key client_order (map site_view (site_picks s))"
  by (simp add: ListClients_def site_picks_def site_rows_def fold_devices Let_def)

lemma site_picks_keys: "fst ` set (site_picks s) = (\<lambda>r. cs_mac (snd r)) ` set (site_rows s)"
proof -
  have "m \<notin> fst ` set (site_picks s) \<longleftrightarrow> m \<notin> (\<lambda>r. cs_mac (snd r)) ` set (site_rows s)" for m
    by (auto simp: jget_None_iff [symmetric] site_picks_def jget_offers fold_keep_None rows_of_def filter_empty_conv)
  then show ?thesis by blast
qed

text \<open>
  C16: the site-wide client list: when the stored rows are keyed by canonical MACs, every client that has a
  session row on some device is listed exactly once, the connected ones first and then by MAC, and each
  entry shows a row of that client which no other of its rows beats, where a connected row beats a
  disconnected one and a later sighting beats an earlier one: the access point it names is the one the
  client is on now, whatever stale rows other access points still hold.
\<close>

theorem site_clients_freshest:
  assumes "list_all (\<lambda>(d, c). canonical (cs_mac c)) (site_rows s)"
  shows "sorted (map client_order (ListClients s)) \<and> distinct (map scv_mac (ListClients s))
    \<and> scv_mac ` set (ListClients s) = (\<lambda>(d, c). ColonMAC (cs_mac c)) ` set (site_rows s)
    \<and> (\<forall>v \<in> set (ListClients s). \<exists>(d, c) \<in> set (site_rows s). v = site_view (cs_mac c, pick_of d c)
        \<and> (\<forall>(d', c') \<in> set (site_rows s). cs_mac c' = cs_mac c \<longrightarrow> row_rank c' \<le> row_rank c))"
proof (intro conjI ballI)
  have keys: "m \<in> fst ` set (site_picks s) \<Longrightarrow> canonical m" for m using assms by (auto simp: site_picks_keys list_all_iff)
  have d: "distinct (map fst (site_picks s))" by (simp add: site_picks_def distinct_offers)
  show "sorted (map client_order (ListClients s))" by (simp add: ListClients_picks)
  have "inj_on ColonMAC (fst ` set (site_picks s))"
    using keys ColonMAC_inject by (intro inj_onI) blast
  with d have "distinct (map ColonMAC (map fst (site_picks s)))" by (metis distinct_map list.set_map)
  moreover have m: "map (scv_mac \<circ> site_view) (site_picks s) = map ColonMAC (map fst (site_picks s))"
    by (simp add: site_view_def Let_def)
  ultimately have "distinct (map scv_mac (map site_view (site_picks s)))" unfolding map_map by argo
  then show "distinct (map scv_mac (ListClients s))"
    unfolding ListClients_picks by (metis mset_map mset_sort mset_eq_imp_distinct_iff)
  have "scv_mac ` set (ListClients s) = ColonMAC ` fst ` set (site_picks s)"
    unfolding ListClients_picks by (simp add: image_image site_view_def Let_def)
  then show "scv_mac ` set (ListClients s) = (\<lambda>(d, c). ColonMAC (cs_mac c)) ` set (site_rows s)"
    by (simp add: site_picks_keys image_image case_prod_beta)
next
  fix v
  assume "v \<in> set (ListClients s)"
  then obtain m p where v: "v = site_view (m, p)" "(m, p) \<in> set (site_picks s)" by (auto simp: ListClients_picks)
  then have "jget (site_picks s) m = Some p" by (simp add: jget_set site_picks_def distinct_offers)
  then have f: "fold keep_pick (rows_of m (site_rows s)) None = Some p" by (simp add: site_picks_def jget_offers)
  then have "rows_of m (site_rows s) \<noteq> []" using fold_keep_None [of "rows_of m (site_rows s)"] by auto
  with keep_pick_greatest [of "rows_of m (site_rows s)" p] f v(1)
  show "\<exists>(d, c) \<in> set (site_rows s). v = site_view (cs_mac c, pick_of d c)
      \<and> (\<forall>(d', c') \<in> set (site_rows s). cs_mac c' = cs_mac c \<longrightarrow> row_rank c' \<le> row_rank c)"
    by (fastforce simp: rows_of_def)
qed

text \<open>A client that roamed: the old access point still lists it with the later timestamp.\<close>

definition session_of :: "bool \<Rightarrow> rat \<Rightarrow> jmap" where
  "session_of conn seen = [(SessionsExtraKey, GObj [(''0a1b2c3d4e5f'', GObj [(''connected'', GBool conn), (''last_seen'', GFloat seen)])])]"

definition access_point :: "string \<Rightarrow> jmap \<Rightarrow> device" where
  "access_point mac extra = (new_device mac)\<lparr>dev_extra := Some extra\<rparr>"

definition roaming_store :: json_store where
  "roaming_store = \<lparr>js_db = \<lparr>db_devices =
      [(''aabbcc001122'', access_point ''aabbcc001122'' (session_of False 900)),
       (''aabbcc003344'', access_point ''aabbcc003344'' (session_of True 700))], db_pending = []\<rparr>,
     js_file = None\<rparr>"

definition seen_session :: "bool \<Rightarrow> rat \<Rightarrow> client_session" where
  "seen_session conn seen = session (empty_row\<lparr>sr_connected := conn, sr_last_seen := int64_of_f64 seen\<rparr>) ''0a1b2c3d4e5f''"

lemma access_point_sessions: "ClientSessions (access_point mac (session_of conn seen)) = [seen_session conn seen]"
  by (simp add: ClientSessions_def readSessionRows_def session_of_def access_point_def ext_def get_obj_def
      read_row_def empty_row_def get_bool_def get_float_def get_str_def opt_or_def seen_session_def)

lemma access_point_mac [simp]: "dev_mac (access_point mac extra) = mac"
  by (simp add: access_point_def new_device_def)

lemma seen_session_simps [simp]: "cs_mac (seen_session conn seen) = ''0a1b2c3d4e5f''"
    "row_rank (seen_session conn seen) = (conn, int64_of_f64 seen)"
  by (simp_all add: seen_session_def session_def row_rank_def)

lemma roaming_rows: "site_rows roaming_store =
    [(access_point ''aabbcc001122'' (session_of False 900), seen_session False 900),
     (access_point ''aabbcc003344'' (session_of True 700), seen_session True 700)]"
proof -
  have "db_List (js_db roaming_store) =
      [access_point ''aabbcc001122'' (session_of False 900), access_point ''aabbcc003344'' (session_of True 700)]"
    by (simp add: db_List_def roaming_store_def CloneDevice_def)
  then show ?thesis by (simp add: site_rows_def access_point_sessions)
qed

lemma roaming_macs: "canonical ''0a1b2c3d4e5f''" "ColonMAC ''0a1b2c3d4e5f'' = ''0a:1b:2c:3d:4e:5f''"
    "ColonMAC ''aabbcc003344'' = ''aa:bb:cc:00:33:44''"
  by code_simp+

theorem site_clients_freshest_witness:
  "\<exists>v \<in> set (ListClients roaming_store). scv_mac v = ''0a:1b:2c:3d:4e:5f'' \<and> scv_connected v \<and> scv_ap v = ''aa:bb:cc:00:33:44''"
proof -
  note c = roaming_macs
  have "list_all (\<lambda>(d, c). canonical (cs_mac c)) (site_rows roaming_store)" using c(1) by (simp add: roaming_rows)
  note fresh = site_clients_freshest [OF this]
  have "scv_mac ` set (ListClients roaming_store) = {''0a:1b:2c:3d:4e:5f''}"
    using fresh [THEN conjunct2, THEN conjunct2, THEN conjunct1] c(2) by (simp add: roaming_rows)
  then have "''0a:1b:2c:3d:4e:5f'' \<in> scv_mac ` set (ListClients roaming_store)" by simp
  then obtain v where v: "v \<in> set (ListClients roaming_store)" "scv_mac v = ''0a:1b:2c:3d:4e:5f''"
    by (elim imageE) (rule that, assumption, rule sym)
  from fresh [THEN conjunct2, THEN conjunct2, THEN conjunct2, THEN bspec, OF v(1)]
  obtain x where x: "x \<in> set (site_rows roaming_store)" "case x of (d, c) \<Rightarrow> v = site_view (cs_mac c, pick_of d c)
    \<and> (\<forall>(d', c') \<in> set (site_rows roaming_store). cs_mac c' = cs_mac c \<longrightarrow> row_rank c' \<le> row_rank c)"
    by (rule bexE)
  obtain d c where dc': "x = (d, c)" by (rule prod.exhaust)
  note r = x [unfolded dc' prod.case]
  have "(d, c) \<noteq> (access_point ''aabbcc001122'' (session_of False 900), seen_session False 900)"
  proof
    assume "(d, c) = (access_point ''aabbcc001122'' (session_of False 900), seen_session False 900)"
    with r(2) [THEN conjunct2] have "row_rank (seen_session True 700) \<le> row_rank (seen_session False 900)"
      unfolding roaming_rows by (simp only: list.set ball_simps prod.case prod.inject seen_session_simps(1))
    then show False by simp
  qed
  with r(1) have dc: "d = access_point ''aabbcc003344'' (session_of True 700)" "c = seen_session True 700"
    unfolding roaming_rows list.set by blast+
  from v r(2) [THEN conjunct1] c(3) show ?thesis unfolding dc by (intro bexI [of _ v]) (simp_all add: site_view_def pick_of_def seen_session_def session_def)
qed

end
