(* ===== verification/App_Poll.thy ===== *)
theory App_Poll
  imports Device_Store
begin

text \<open>
  The metrics poller of \<^verbatim>\<open>internal/app/app.go\<close>: the sweep that marks stale devices lost, and the pass that
  counts adoptions. Its two counters are here; the gauges it pushes are in \<open>Metrics\<close>.
  Other goroutines run between the cycles of a sweep: what they do to the store is an argument.
\<close>

section \<open>The poller\<close>

record poller =
  po_store :: json_store
  po_prev :: "(string \<times> int) list"
  po_adopts :: nat
  po_fails :: nat

definition lostAfterSeconds :: int where "lostAfterSeconds = 75"

text \<open>The closure of a sweep cycle, which checks the record again.\<close>

definition sweep_fn :: "int \<Rightarrow> device \<Rightarrow> string + device" where
  "sweep_fn now u =
    (if dev_state u \<noteq> StateAdopted \<or> dev_last_seen u \<le> 0 \<or> now - dev_last_seen u \<le> lostAfterSeconds
     then Inl ''lost sweep: device changed under us''
     else Inr (u\<lparr>dev_state := StateLost\<rparr>))"

definition sweep_one :: "int \<Rightarrow> bool \<Rightarrow> device \<Rightarrow> poller \<Rightarrow> poller" where
  "sweep_one now io d p =
    (if dev_state d \<noteq> StateAdopted \<or> dev_last_seen d \<le> 0 then p
     else if now - dev_last_seen d \<le> lostAfterSeconds then p
     else let (s, err) = js_Update now io (dev_mac d) (sweep_fn now) (po_store p)
       in if err = None
          then p\<lparr>po_store := s, po_fails := po_fails p + 1, po_prev := jset (dev_mac d) StateLost (po_prev p)\<rparr>
          else p\<lparr>po_store := s\<rparr>)"

text \<open>\<open>others i\<close> is what the rest of the program does to the store before the cycle of the \<open>i\<close>-th record.\<close>

definition sweepLost :: "int \<Rightarrow> bool \<Rightarrow> (nat \<Rightarrow> json_store \<Rightarrow> json_store) \<Rightarrow> poller \<Rightarrow> poller" where
  "sweepLost now io others p = foldl (\<lambda>p (i, d). sweep_one now io d (p\<lparr>po_store := others i (po_store p)\<rparr>)) p
     (enumerate 0 (db_List (js_db (po_store p))))"

definition observe :: "device \<Rightarrow> poller \<Rightarrow> poller" where
  "observe d p =
    (let p' = (case jget (po_prev p) (dev_mac d) of
         None \<Rightarrow> p
       | Some prev \<Rightarrow>
           if prev \<noteq> dev_state d
           then if dev_state d = StateAdopted then p\<lparr>po_adopts := po_adopts p + 1\<rparr>
             else if prev = StateAdopted then p\<lparr>po_fails := po_fails p + 1\<rparr>
             else p
           else p)
     in p'\<lparr>po_prev := jset (dev_mac d) (dev_state d) (po_prev p')\<rparr>)"

definition prune_prev :: "string list \<Rightarrow> poller \<Rightarrow> poller" where
  "prune_prev macs p = p\<lparr>po_prev := filter (\<lambda>(m, _). m \<in> set macs) (po_prev p)\<rparr>"

definition PollOnce :: "int \<Rightarrow> bool \<Rightarrow> (nat \<Rightarrow> json_store \<Rightarrow> json_store) \<Rightarrow> poller \<Rightarrow> poller" where
  "PollOnce now io others p =
    (let p = sweepLost now io others p; ds = db_List (js_db (po_store p))
     in prune_prev (map dev_mac ds) (foldl (\<lambda>p d. observe d p) p ds))"

section \<open>One sweep cycle\<close>

definition stale :: "int \<Rightarrow> device \<Rightarrow> bool" where
  "stale now d \<longleftrightarrow> dev_state d = StateAdopted \<and> 0 < dev_last_seen d \<and> lostAfterSeconds < now - dev_last_seen d"

lemma sweep_fn_stale: "sweep_fn now u = (if stale now u then Inr (u\<lparr>dev_state := StateLost\<rparr>)
    else Inl ''lost sweep: device changed under us'')"
  by (auto simp: sweep_fn_def stale_def not_less)

lemma sweep_one_eq: "sweep_one now io d p = (if stale now d
    then let (s, err) = js_Update now io (dev_mac d) (sweep_fn now) (po_store p)
      in if err = None
         then p\<lparr>po_store := s, po_fails := po_fails p + 1, po_prev := jset (dev_mac d) StateLost (po_prev p)\<rparr>
         else p\<lparr>po_store := s\<rparr>
    else p)"
  by (auto simp: sweep_one_def stale_def not_less)

lemma listed_device:
  assumes "db_inv m" "d \<in> set (db_List m)"
  shows "devices_of m (dev_mac d) = Some d" "canonicalMAC (dev_mac d) = dev_mac d" "dev_mac d \<noteq> []"
  using assms by (auto simp: db_List_set db_inv_def devices_of_def jget_def)

lemma devices_map: "devices_of m = map_of (db_devices m)"
  by (simp add: fun_eq_iff devices_of_def jget_def)

lemma listed_macs:
  assumes "db_inv m"
  shows "distinct (map dev_mac (db_List m))" "set (map dev_mac (db_List m)) = dom (devices_of m)"
proof -
  let ?l = "map (\<lambda>(_, d). CloneDevice d) (db_devices m)"
  have k: "map dev_mac ?l = map fst (db_devices m)"
    using assms by (auto simp: db_inv_def)
  then have "distinct (map dev_mac ?l)" unfolding k using assms by (simp add: db_inv_def)
  then have "distinct ?l" "inj_on dev_mac (set ?l)" unfolding distinct_map by blast+
  then show "distinct (map dev_mac (db_List m))" unfolding db_List_def distinct_map distinct_sort set_sort by blast
  have "set (map dev_mac (db_List m)) = set (map dev_mac ?l)" by (simp add: db_List_def image_image)
  then show "set (map dev_mac (db_List m)) = dom (devices_of m)"
    unfolding k devices_map by (simp add: dom_map_of_conv_image_fst)
qed

lemma new_device_not_stale: "\<not> stale now (new_device m)"
  by (simp add: stale_def new_device_def device_states)

lemma same_mac: "dev_mac d = c \<Longrightarrow> d\<lparr>dev_mac := c\<rparr> = d"
  by (metis device.surjective device.update_convs(1))

text \<open>
  Whatever happened in between, a cycle of the sweep either leaves the records alone or marks one lost
  that the store then holds as adopted and stale; it never creates a record, although it runs as an upsert.
\<close>

lemma sweep_cycle:
  assumes "db_inv (js_db s)" "js_Update now io mac (sweep_fn now) s = (s', err)"
  obtains (none) "devices_of (js_db s') = devices_of (js_db s)" "err \<noteq> None" "db_inv (js_db s')"
  | (lost) u where "devices_of (js_db s) (canonicalMAC mac) = Some u" "stale now u" "db_inv (js_db s')"
      "devices_of (js_db s') = (devices_of (js_db s))(canonicalMAC mac \<mapsto> u\<lparr>dev_state := StateLost\<rparr>)"
      "err = None \<longleftrightarrow> io"
proof (cases "db_update mac (sweep_fn now) True (js_db s)")
  case (Inl e)
  with assms none show ?thesis by (auto simp: js_Update_def db_Update_def js_after_def)
next
  case (Inr m)
  then obtain u u' where u: "(case devices_of (js_db s) (canonicalMAC mac) of
      None \<Rightarrow> True \<and> u = new_device (canonicalMAC mac) | Some d0 \<Rightarrow> u = d0)"
    "sweep_fn now u = Inr u'" "db_Put u' (js_db s) = Inr m"
    unfolding db_update_cases by blast
  have st: "stale now u" "u' = u\<lparr>dev_state := StateLost\<rparr>" using u(2) by (auto simp: sweep_fn_stale split: if_splits)
  have d: "devices_of (js_db s) (canonicalMAC mac) = Some u"
    using u(1) st(1) new_device_not_stale by (auto split: option.splits)
  then have "dev_mac u = canonicalMAC mac"
    using assms(1) by (auto simp: db_inv_def devices_of_def jget_def dest!: map_of_SomeD)
  then have p: "devices_of m = (devices_of (js_db s))(canonicalMAC mac \<mapsto> u\<lparr>dev_state := StateLost\<rparr>)"
    using db_Put_devices [OF u(3)] st(2) same_mac [of "u\<lparr>dev_state := StateLost\<rparr>" "canonicalMAC mac"] by simp
  have "js_db s' = m" "err = None \<longleftrightarrow> io"
    using assms(2) Inr by (auto simp: js_Update_def db_Update_def js_after_def js_save_def split: if_splits)
  with lost d st p db_update_inv [OF assms(1) Inr] show ?thesis by blast
qed

section \<open>A poll nobody interferes with\<close>

definition swept :: "int \<Rightarrow> device \<Rightarrow> device" where
  "swept now d = (if stale now d then d\<lparr>dev_state := StateLost\<rparr> else d)"

lemma swept_mac [simp]: "dev_mac (swept now d) = dev_mac d"
  by (simp add: swept_def)

lemma sweep_one_stored:
  assumes "db_inv (js_db (po_store p))" "devices_of (js_db (po_store p)) (dev_mac d) = Some d" "canonicalMAC (dev_mac d) = dev_mac d"
  shows "db_inv (js_db (po_store (sweep_one now True d p)))"
    "devices_of (js_db (po_store (sweep_one now True d p))) = (devices_of (js_db (po_store p)))(dev_mac d \<mapsto> swept now d)"
    "po_fails (sweep_one now True d p) = po_fails p + (if stale now d then 1 else 0)"
    "po_adopts (sweep_one now True d p) = po_adopts p"
    "jget (po_prev (sweep_one now True d p)) = (if stale now d then (jget (po_prev p))(dev_mac d \<mapsto> StateLost) else jget (po_prev p))"
proof -
  obtain s err where u: "js_Update now True (dev_mac d) (sweep_fn now) (po_store p) = (s, err)" by fastforce
  have "db_inv (js_db s) \<and> err = None \<and> devices_of (js_db s) = (devices_of (js_db (po_store p)))(dev_mac d \<mapsto> swept now d)"
    if "stale now d"
    using assms(1) u
  proof (cases rule: sweep_cycle)
    case none
    have "\<exists>m. db_update (dev_mac d) (sweep_fn now) True (js_db (po_store p)) = Inr m"
      using assms that by (auto simp: db_update_def Let_def db_Get_devices sweep_fn_stale db_Put_def db_inv_def
          devices_of_def jget_def dest!: map_of_SomeD)
    with none u show ?thesis by (auto simp: js_Update_def db_Update_def js_after_def js_save_def)
  next
    case lost
    with assms(2,3) that show ?thesis by (auto simp: swept_def)
  qed
  then show "db_inv (js_db (po_store (sweep_one now True d p)))"
    "devices_of (js_db (po_store (sweep_one now True d p))) = (devices_of (js_db (po_store p)))(dev_mac d \<mapsto> swept now d)"
    "po_fails (sweep_one now True d p) = po_fails p + (if stale now d then 1 else 0)"
    "po_adopts (sweep_one now True d p) = po_adopts p"
    "jget (po_prev (sweep_one now True d p)) = (if stale now d then (jget (po_prev p))(dev_mac d \<mapsto> StateLost) else jget (po_prev p))"
    using assms u by (auto simp: sweep_one_eq swept_def row_simps fun_eq_iff)
qed

definition quiet :: "nat \<Rightarrow> json_store \<Rightarrow> json_store" where
  "quiet i s = s"

definition in_store :: "db \<Rightarrow> device list \<Rightarrow> bool" where
  "in_store m ds \<longleftrightarrow> distinct (map dev_mac ds)
     \<and> (\<forall>d \<in> set ds. devices_of m (dev_mac d) = Some d \<and> canonicalMAC (dev_mac d) = dev_mac d)"

definition sweep_run :: "int \<Rightarrow> device list \<Rightarrow> poller \<Rightarrow> poller" where
  "sweep_run now ds p = foldl (\<lambda>p d. sweep_one now True d p) p ds"

lemma sweep_run_result:
  assumes "db_inv (js_db (po_store p))" "in_store (js_db (po_store p)) ds"
  shows "db_inv (js_db (po_store (sweep_run now ds p)))
    \<and> (\<forall>m. devices_of (js_db (po_store (sweep_run now ds p))) m = (if m \<in> dev_mac ` set ds
        then map_option (swept now) (devices_of (js_db (po_store p)) m) else devices_of (js_db (po_store p)) m))
    \<and> po_fails (sweep_run now ds p) = po_fails p + length (filter (stale now) ds)
    \<and> po_adopts (sweep_run now ds p) = po_adopts p
    \<and> (\<forall>m. jget (po_prev (sweep_run now ds p)) m =
        (if \<exists>d \<in> set ds. dev_mac d = m \<and> stale now d then Some StateLost else jget (po_prev p) m))"
  using assms
proof (induction ds arbitrary: p)
  case Nil
  then show ?case by (simp add: sweep_run_def)
next
  case (Cons d ds)
  have d: "devices_of (js_db (po_store p)) (dev_mac d) = Some d" "canonicalMAC (dev_mac d) = dev_mac d"
    "dev_mac d \<notin> dev_mac ` set ds" using Cons.prems(2) by (simp_all add: in_store_def)
  note one = sweep_one_stored [OF Cons.prems(1) d(1,2), of now]
  have i: "in_store (js_db (po_store (sweep_one now True d p))) ds"
    unfolding in_store_def
  proof (intro conjI ballI)
    show "distinct (map dev_mac ds)" using Cons.prems(2) by (simp add: in_store_def)
    fix x
    assume x: "x \<in> set ds"
    then have "dev_mac x \<noteq> dev_mac d" using d(3) by (metis image_eqI)
    then show "devices_of (js_db (po_store (sweep_one now True d p))) (dev_mac x) = Some x" "canonicalMAC (dev_mac x) = dev_mac x"
      using Cons.prems(2) x by (simp_all add: in_store_def one(2))
  qed
  have r: "sweep_run now (d # ds) p = sweep_run now ds (sweep_one now True d p)" by (simp add: sweep_run_def)
  note ih = Cons.IH [OF one(1) i]
  note ih1 = ih [THEN conjunct2, THEN conjunct1, rule_format]
    and ih2 = ih [THEN conjunct2, THEN conjunct2, THEN conjunct2, THEN conjunct2, rule_format]
  have "devices_of (js_db (po_store (sweep_run now (d # ds) p))) m = (if m \<in> dev_mac ` set (d # ds)
        then map_option (swept now) (devices_of (js_db (po_store p)) m) else devices_of (js_db (po_store p)) m)" for m
    unfolding r ih1 one(2) using d(3) by (cases "m = dev_mac d") (simp_all add: d(1))
  moreover have "jget (po_prev (sweep_run now (d # ds) p)) m =
        (if \<exists>x \<in> set (d # ds). dev_mac x = m \<and> stale now x then Some StateLost else jget (po_prev p) m)" for m
    unfolding r ih2 one(5) using d(3) by (cases "m = dev_mac d") auto
  ultimately show ?case using ih by (simp add: r one(3,4))
qed

definition entered :: "(string \<times> int) list \<Rightarrow> device \<Rightarrow> bool" where
  "entered prev d \<longleftrightarrow> dev_state d = StateAdopted \<and> (\<exists>x. jget prev (dev_mac d) = Some x \<and> x \<noteq> StateAdopted)"

definition departed :: "(string \<times> int) list \<Rightarrow> device \<Rightarrow> bool" where
  "departed prev d \<longleftrightarrow> dev_state d \<noteq> StateAdopted \<and> jget prev (dev_mac d) = Some StateAdopted"

lemma observe_parts:
  "po_store (observe d p) = po_store p"
  "jget (po_prev (observe d p)) m = (if m = dev_mac d then Some (dev_state d) else jget (po_prev p) m)"
  "po_adopts (observe d p) = po_adopts p + (if entered (po_prev p) d then 1 else 0)"
  "po_fails (observe d p) = po_fails p + (if departed (po_prev p) d then 1 else 0)"
  by (auto simp: observe_def Let_def entered_def departed_def row_simps split: option.splits)

definition observe_run :: "device list \<Rightarrow> poller \<Rightarrow> poller" where
  "observe_run ds p = foldl (\<lambda>p d. observe d p) p ds"

lemma observe_run_result:
  assumes "distinct (map dev_mac ds)"
  shows "po_store (observe_run ds p) = po_store p
    \<and> (\<forall>m. jget (po_prev (observe_run ds p)) m =
        (case find (\<lambda>d. dev_mac d = m) ds of Some d \<Rightarrow> Some (dev_state d) | None \<Rightarrow> jget (po_prev p) m))
    \<and> po_adopts (observe_run ds p) = po_adopts p + length (filter (entered (po_prev p)) ds)
    \<and> po_fails (observe_run ds p) = po_fails p + length (filter (departed (po_prev p)) ds)"
  using assms
proof (induction ds arbitrary: p)
  case Nil
  then show ?case by (simp add: observe_run_def)
next
  case (Cons d ds)
  have d: "dev_mac d \<notin> dev_mac ` set ds" "distinct (map dev_mac ds)" using Cons.prems by simp_all
  have "dev_mac x \<noteq> dev_mac d" if "x \<in> set ds" for x using d(1) that by (metis image_eqI)
  then have "entered (po_prev (observe d p)) x = entered (po_prev p) x"
    "departed (po_prev (observe d p)) x = departed (po_prev p) x" if "x \<in> set ds" for x
    using that by (simp_all add: entered_def departed_def observe_parts)
  then have f: "filter (entered (po_prev (observe d p))) ds = filter (entered (po_prev p)) ds"
    "filter (departed (po_prev (observe d p))) ds = filter (departed (po_prev p)) ds"
    by (auto intro: filter_cong)
  have n: "find (\<lambda>x. dev_mac x = dev_mac d) ds = None" using d(1) by (auto simp: find_None_iff image_iff)
  have r: "observe_run (d # ds) p = observe_run ds (observe d p)" by (simp add: observe_run_def)
  note ih = Cons.IH [OF d(2), of "observe d p"]
  have "jget (po_prev (observe_run (d # ds) p)) m =
      (case find (\<lambda>d. dev_mac d = m) (d # ds) of Some d \<Rightarrow> Some (dev_state d) | None \<Rightarrow> jget (po_prev p) m)" for m
    unfolding r using ih n by (auto simp: observe_parts split: option.splits)
  then show ?case using ih by (simp add: r observe_parts f)
qed

lemma db_List_mem: "db_inv m \<Longrightarrow> d \<in> set (db_List m) \<longleftrightarrow> devices_of m (dev_mac d) = Some d"
  by (auto simp: db_List_set devices_map db_inv_def dest!: map_of_SomeD intro: rev_image_eqI)

lemma db_List_swept:
  assumes "db_inv m" "db_inv m'" "\<And>k. devices_of m' k = map_option (swept now) (devices_of m k)"
  shows "db_List m' = map (swept now) (db_List m)"
proof (rule map_sorted_distinct_set_unique [where f = dev_mac])
  have e: "map dev_mac (map (swept now) (db_List m)) = map dev_mac (db_List m)" by (simp add: comp_def)
  show "sorted (map dev_mac (map (swept now) (db_List m)))" "distinct (map dev_mac (map (swept now) (db_List m)))"
    unfolding e by (rule db_List_sorted, rule listed_macs [OF assms(1)])
  show "sorted (map dev_mac (db_List m'))" "distinct (map dev_mac (db_List m'))"
    by (rule db_List_sorted, rule listed_macs [OF assms(2)])
  have "d \<in> set (db_List m') \<longleftrightarrow> d \<in> swept now ` set (db_List m)" for d
  proof
    assume "d \<in> set (db_List m')"
    then obtain d0 where d0: "devices_of m (dev_mac d) = Some d0" "d = swept now d0"
      by (auto simp: db_List_mem [OF assms(2)] assms(3))
    then have "d0 \<in> set (db_List m)" by (simp add: db_List_mem [OF assms(1)])
    with d0(2) show "d \<in> swept now ` set (db_List m)" by blast
  next
    assume "d \<in> swept now ` set (db_List m)"
    then show "d \<in> set (db_List m')"
      by (auto simp: db_List_mem [OF assms(1)] db_List_mem [OF assms(2)] assms(3))
  qed
  then show s: "set (db_List m') = set (map (swept now) (db_List m))" by auto
  show "inj_on dev_mac (set (db_List m') \<union> set (map (swept now) (db_List m)))"
    using listed_macs(1) [OF assms(2)] unfolding s [symmetric] distinct_map by simp
qed

lemma foldl_enumerate: "foldl (\<lambda>p (i, d). f d p) p (enumerate n ds) = foldl (\<lambda>p d. f d p) p ds"
  by (induction ds arbitrary: n p) simp_all

lemma sweepLost_quiet: "sweepLost now True quiet p = sweep_run now (db_List (js_db (po_store p))) p"
proof -
  have "p\<lparr>po_store := po_store p\<rparr> = p" for p by (cases p) simp
  then show ?thesis by (simp add: sweepLost_def sweep_run_def foldl_enumerate quiet_def)
qed

lemma prune_parts:
  "po_store (prune_prev macs p) = po_store p" "po_adopts (prune_prev macs p) = po_adopts p"
  "po_fails (prune_prev macs p) = po_fails p"
  "jget (po_prev (prune_prev macs p)) m = (if m \<in> set macs then jget (po_prev p) m else None)"
proof -
  have "jget (filter (\<lambda>(m, _). m \<in> set macs) xs) m = (if m \<in> set macs then jget xs m else None)" for xs :: "(string \<times> int) list"
    by (induction xs) auto
  then show "jget (po_prev (prune_prev macs p)) m = (if m \<in> set macs then jget (po_prev p) m else None)"
    by (simp add: prune_prev_def)
qed (simp_all add: prune_prev_def)

lemma in_store_list: "db_inv m \<Longrightarrow> in_store m (db_List m)"
  using listed_macs(1) listed_device by (auto simp: in_store_def)

lemma find_listed:
  assumes "db_inv m"
  shows "find (\<lambda>d. dev_mac d = k) (db_List m) = devices_of m k"
proof (cases "devices_of m k")
  case None
  then show ?thesis using listed_device(1) [OF assms] by (auto simp: find_None_iff)
next
  case (Some d)
  then have "dev_mac d = k" using assms by (auto simp: db_inv_def devices_map dest!: map_of_SomeD)
  with Some have "d \<in> set (db_List m)" by (simp add: db_List_mem [OF assms])
  then obtain x where x: "find (\<lambda>d. dev_mac d = k) (db_List m) = Some x"
    using \<open>dev_mac d = k\<close> by (cases "find (\<lambda>d. dev_mac d = k) (db_List m)") (auto simp: find_None_iff)
  then have "x \<in> set (db_List m)" "dev_mac x = k" by (auto simp: find_Some_iff)
  then show ?thesis using x Some listed_device(1) [OF assms] by auto
qed


definition gone_quiet :: poller where
  "gone_quiet = \<lparr>po_store = \<lparr>js_db = \<lparr>db_devices =
       [(''aabbcc001122'', (new_device ''aabbcc001122'')\<lparr>dev_state := StateAdopted, dev_last_seen := 900\<rparr>)],
     db_pending = []\<rparr>, js_file = None\<rparr>,
     po_prev = [(''aabbcc001122'', StateAdopted)], po_adopts = 0, po_fails = 0\<rparr>"


text \<open>
  A sweep cycle acts on what the store holds, not on the snapshot it was started from: whatever other
  goroutines did in between, it leaves every record alone or marks lost one that is adopted and stale at
  that moment, and it never creates a record.
\<close>

theorem lost_only_when_stale:
  assumes "db_inv (js_db (po_store p))"
  shows "devices_of (js_db (po_store (sweep_one now io d p))) = devices_of (js_db (po_store p))
   \<or> (\<exists>u. devices_of (js_db (po_store p)) (canonicalMAC (dev_mac d)) = Some u \<and> stale now u
       \<and> devices_of (js_db (po_store (sweep_one now io d p)))
         = (devices_of (js_db (po_store p)))(canonicalMAC (dev_mac d) \<mapsto> u\<lparr>dev_state := StateLost\<rparr>))"
proof (cases "stale now d")
  case True
  obtain s err where u: "js_Update now io (dev_mac d) (sweep_fn now) (po_store p) = (s, err)" by fastforce
  have "po_store (sweep_one now io d p) = s" using True u by (simp add: sweep_one_eq)
  moreover from assms u have "devices_of (js_db s) = devices_of (js_db (po_store p))
      \<or> (\<exists>u. devices_of (js_db (po_store p)) (canonicalMAC (dev_mac d)) = Some u \<and> stale now u
        \<and> devices_of (js_db s) = (devices_of (js_db (po_store p)))(canonicalMAC (dev_mac d) \<mapsto> u\<lparr>dev_state := StateLost\<rparr>))"
    by (cases rule: sweep_cycle) blast+
  ultimately show ?thesis by simp
next
  case False
  then show ?thesis by (simp add: sweep_one_eq)
qed

lemma lost_only_when_stale_witness:
  "devices_of (js_db (po_store (sweep_one 950 True (new_device ''aabbcc001122'') gone_quiet)))
     = devices_of (js_db (po_store gone_quiet))"
proof -
  have m: "canonicalMAC ''aabbcc001122'' = ''aabbcc001122''" by code_simp
  have i: "db_inv (js_db (po_store gone_quiet))"
    by (simp add: gone_quiet_def db_inv_def m new_device_def)
  show ?thesis
    using lost_only_when_stale [OF i, of 950 True "new_device ''aabbcc001122''"] m
    by (auto simp: gone_quiet_def devices_of_def stale_def lostAfterSeconds_def new_device_def)
qed

end
