(* ===== verification/Metrics.thy ===== *)
theory Metrics
  imports App_Poll App_Ops Inform_Lane "HOL-Library.AList"
begin

text \<open>
  The metrics of \<^verbatim>\<open>internal/metrics\<close>: the vectors of labelled series, the helpers the lanes call, the
  snapshot the poll reports for every device, and the removal of a deleted device's series. The two
  adoption counters are the poller's own (\<open>po_adopts\<close>, \<open>po_fails\<close>). A float is a rational, NaN \<open>None\<close>;
  a value pushed as an integer is kept exact.
\<close>

section \<open>The registry\<close>

record metrics =
  mx_informs :: int
  mx_api :: "((string \<times> string) \<times> int) list"
  mx_events :: "((string \<times> string) \<times> int) list"
  mx_state :: "((string \<times> string) \<times> int) list"
  mx_last_model :: "(string \<times> string) list"
  mx_last_inform :: "(string \<times> int) list"
  mx_uptime :: "(string \<times> rat) list"
  mx_sta :: "(string \<times> rat) list"
  mx_tx :: "(string \<times> rat) list"
  mx_rx :: "(string \<times> rat) list"

definition no_metrics :: metrics where
  "no_metrics = \<lparr>mx_informs = 0, mx_api = [], mx_events = [], mx_state = [], mx_last_model = [], mx_last_inform = [],
     mx_uptime = [], mx_sta = [], mx_tx = [], mx_rx = []\<rparr>"

definition counter_add :: "'k \<Rightarrow> int \<Rightarrow> ('k \<times> int) list \<Rightarrow> ('k \<times> int) list" where
  "counter_add k n m = AList.update k (opt_or 0 (map_of m k) + n) m"

definition IncInform :: "metrics \<Rightarrow> metrics" where
  "IncInform x = x\<lparr>mx_informs := mx_informs x + 1\<rparr>"

definition ObserveAPIRequest :: "int \<Rightarrow> string \<Rightarrow> metrics \<Rightarrow> metrics" where
  "ObserveAPIRequest code route x = x\<lparr>mx_api := counter_add (itoa code, route) 1 (mx_api x)\<rparr>"

definition IncClientSessionEvents :: "string \<Rightarrow> int \<Rightarrow> int \<Rightarrow> metrics \<Rightarrow> metrics" where
  "IncClientSessionEvents mac connects disconnects x =
    (let x = (if connects > 0 then x\<lparr>mx_events := counter_add (mac, ''connect'') connects (mx_events x)\<rparr> else x)
     in if disconnects > 0 then x\<lparr>mx_events := counter_add (mac, ''disconnect'') disconnects (mx_events x)\<rparr> else x)"

definition SetDeviceState :: "string \<Rightarrow> string \<Rightarrow> int \<Rightarrow> metrics \<Rightarrow> metrics" where
  "SetDeviceState mac model state x =
    (let x = (case map_of (mx_last_model x) mac of
           None \<Rightarrow> x
         | Some prev \<Rightarrow> if prev \<noteq> model then x\<lparr>mx_state := AList.delete (mac, prev) (mx_state x)\<rparr> else x)
     in x\<lparr>mx_last_model := AList.update mac model (mx_last_model x),
          mx_state := AList.update (mac, model) state (mx_state x)\<rparr>)"

definition SetLastInform :: "string \<Rightarrow> int \<Rightarrow> metrics \<Rightarrow> metrics" where
  "SetLastInform mac t x = x\<lparr>mx_last_inform := AList.update mac t (mx_last_inform x)\<rparr>"

definition set_gauge :: "string \<Rightarrow> rat option \<Rightarrow> (string \<times> rat) list \<Rightarrow> (string \<times> rat) list" where
  "set_gauge mac v m = (case v of None \<Rightarrow> m | Some n \<Rightarrow> AList.update mac n m)"

definition SetUptime :: "string \<Rightarrow> rat option \<Rightarrow> metrics \<Rightarrow> metrics" where
  "SetUptime mac v x = x\<lparr>mx_uptime := set_gauge mac v (mx_uptime x)\<rparr>"

definition SetStaCount :: "string \<Rightarrow> rat option \<Rightarrow> metrics \<Rightarrow> metrics" where
  "SetStaCount mac v x = x\<lparr>mx_sta := set_gauge mac v (mx_sta x)\<rparr>"

definition SetUserBytes :: "string \<Rightarrow> rat option \<Rightarrow> rat option \<Rightarrow> metrics \<Rightarrow> metrics" where
  "SetUserBytes mac tx rx x = x\<lparr>mx_tx := set_gauge mac tx (mx_tx x), mx_rx := set_gauge mac rx (mx_rx x)\<rparr>"

definition UpdateFromDevice :: "string \<Rightarrow> string \<Rightarrow> int \<Rightarrow> int \<Rightarrow> rat option \<Rightarrow> rat option \<Rightarrow> rat option \<Rightarrow> rat option
    \<Rightarrow> metrics \<Rightarrow> metrics" where
  "UpdateFromDevice mac model state lastSeen uptime sta tx rx x =
     SetUserBytes mac tx rx (SetStaCount mac sta (SetUptime mac uptime (SetLastInform mac lastSeen
       (SetDeviceState mac model state x))))"

definition ForgetDevice :: "string \<Rightarrow> metrics \<Rightarrow> metrics" where
  "ForgetDevice mac x = x\<lparr>
     mx_state := filter (\<lambda>((m, _), _). m \<noteq> mac) (mx_state x),
     mx_last_model := AList.delete mac (mx_last_model x),
     mx_last_inform := AList.delete mac (mx_last_inform x),
     mx_uptime := AList.delete mac (mx_uptime x),
     mx_sta := AList.delete mac (mx_sta x),
     mx_tx := AList.delete mac (mx_tx x),
     mx_rx := AList.delete mac (mx_rx x),
     mx_events := filter (\<lambda>((m, _), _). m \<noteq> mac) (mx_events x)\<rparr>"

section \<open>The callers\<close>

definition numFloat :: "jmap option \<Rightarrow> string \<Rightarrow> rat option" where
  "numFloat m key = (case m of None \<Rightarrow> None
   | Some m \<Rightarrow> (case jget m key of Some (GFloat v) \<Rightarrow> Some v | _ \<Rightarrow> None))"

text \<open>What the poll pushes for one record of its list; the counting of transitions is \<open>observe\<close>.\<close>

definition report_device :: "device \<Rightarrow> metrics \<Rightarrow> metrics" where
  "report_device d = UpdateFromDevice (ColonMAC (dev_mac d)) (dev_model d) (dev_state d) (dev_last_seen d)
     (numFloat (dev_extra d) ''uptime'') (numFloat (dev_last_ups d) ''user-num_sta'')
     (numFloat (dev_last_ups d) ''user-tx_bytes'') (numFloat (dev_last_ups d) ''user-rx_bytes'')"

definition poll_reports :: "int \<Rightarrow> bool \<Rightarrow> (nat \<Rightarrow> json_store \<Rightarrow> json_store) \<Rightarrow> poller \<times> metrics \<Rightarrow> poller \<times> metrics" where
  "poll_reports now io others pm = (case pm of (p, x) \<Rightarrow>
     (PollOnce now io others p,
      foldl (\<lambda>x d. report_device d x) x (db_List (js_db (po_store (sweepLost now io others p))))))"

text \<open>A successful delete also forgets the device's series.\<close>

definition delete_and_forget :: "admin_env \<Rightarrow> string \<Rightarrow> json_store \<times> metrics \<Rightarrow> (json_store \<times> metrics) \<times> (app_error + unit)" where
  "delete_and_forget env mac sx = (case DeleteDevice env mac (fst sx) of
     (s', Inl e) \<Rightarrow> ((s', snd sx), Inl e)
   | (s', Inr u) \<Rightarrow> ((s', ForgetDevice (ColonMAC (canonicalMAC mac)) (snd sx)), Inr u))"

text \<open>After a committed inform: the hook runs only for a cycle with transitions.\<close>

definition countSessionEvents :: "string \<Rightarrow> transition list \<Rightarrow> metrics \<Rightarrow> metrics" where
  "countSessionEvents mac ts x =
    (if ts = [] then x
     else let (connects, disconnects) = countTransitions ts
       in if connects > 0 \<or> disconnects > 0
          then IncClientSessionEvents (ColonMAC mac) (int connects) (int disconnects) x else x)"

section \<open>One series per device\<close>

text \<open>The state gauge has the series of a MAC's last model and no other.\<close>

definition metrics_inv :: "metrics \<Rightarrow> bool" where
  "metrics_inv x \<longleftrightarrow> distinct (map fst (mx_state x)) \<and> distinct (map fst (mx_last_model x))
     \<and> (\<forall>mac model. (mac, model) \<in> fst ` set (mx_state x) \<longleftrightarrow> map_of (mx_last_model x) mac = Some model)"

definition state_series :: "metrics \<Rightarrow> string \<times> string \<Rightarrow> int option" where
  "state_series x = map_of (mx_state x)"

lemma series_keys: "k \<in> fst ` set (mx_state x) \<longleftrightarrow> state_series x k \<noteq> None"
  by (simp add: state_series_def map_of_eq_None_iff)

lemma metrics_inv_alt: "metrics_inv x \<longleftrightarrow> distinct (map fst (mx_state x)) \<and> distinct (map fst (mx_last_model x))
     \<and> (\<forall>mac model. state_series x (mac, model) \<noteq> None \<longleftrightarrow> map_of (mx_last_model x) mac = Some model)"
  unfolding metrics_inv_def series_keys ..

lemma inv_other_model: "metrics_inv x \<Longrightarrow> map_of (mx_last_model x) mac = Some prev \<Longrightarrow> model \<noteq> prev \<Longrightarrow>
    state_series x (mac, model) = None"
  unfolding metrics_inv_alt by (metis option.inject)

lemma inv_no_model: "metrics_inv x \<Longrightarrow> map_of (mx_last_model x) mac = None \<Longrightarrow> state_series x (mac, model) = None"
  unfolding metrics_inv_alt by (metis option.distinct(1))

lemma SetDeviceState_series:
  assumes "metrics_inv x"
  shows "state_series (SetDeviceState mac model st x) (m, mo) =
      (if m = mac then if mo = model then Some st else None else state_series x (m, mo))"
    "map_of (mx_last_model (SetDeviceState mac model st x)) m = (if m = mac then Some model else map_of (mx_last_model x) m)"
  using inv_no_model [OF assms, of mac] inv_other_model [OF assms, of mac]
  by (auto simp: SetDeviceState_def state_series_def update_conv' delete_conv' Let_def split: option.split)

lemma SetDeviceState_inv: "metrics_inv x \<Longrightarrow> metrics_inv (SetDeviceState mac model st x)"
  unfolding metrics_inv_alt [of "SetDeviceState mac model st x"]
  by (auto simp: SetDeviceState_series metrics_inv_alt)
    (auto simp: SetDeviceState_def Let_def metrics_inv_def distinct_update distinct_delete split: option.split)

lemma report_parts:
  "mx_state (report_device d x) = mx_state (SetDeviceState (ColonMAC (dev_mac d)) (dev_model d) (dev_state d) x)"
  "mx_last_model (report_device d x) = mx_last_model (SetDeviceState (ColonMAC (dev_mac d)) (dev_model d) (dev_state d) x)"
  by (simp_all add: report_device_def UpdateFromDevice_def SetLastInform_def SetUptime_def SetStaCount_def SetUserBytes_def)

lemma inv_cong: "mx_state x = mx_state y \<Longrightarrow> mx_last_model x = mx_last_model y \<Longrightarrow> metrics_inv x = metrics_inv y"
  by (simp add: metrics_inv_def)

lemma report_inv: "metrics_inv x \<Longrightarrow> metrics_inv (report_device d x)"
  using inv_cong [OF report_parts] SetDeviceState_inv by simp

lemma Forget_series:
  "state_series (ForgetDevice mac x) (m, mo) = (if m = mac then None else state_series x (m, mo))"
  "map_of (mx_last_model (ForgetDevice mac x)) m = (if m = mac then None else map_of (mx_last_model x) m)"
proof -
  have "map_of (filter (\<lambda>((a, _), _). a \<noteq> mac) xs) (m, mo) = (if m = mac then None else map_of xs (m, mo))"
    for xs :: "((string \<times> string) \<times> int) list"
    by (induction xs) auto
  then show "state_series (ForgetDevice mac x) (m, mo) = (if m = mac then None else state_series x (m, mo))"
    by (simp add: ForgetDevice_def state_series_def)
  show "map_of (mx_last_model (ForgetDevice mac x)) m = (if m = mac then None else map_of (mx_last_model x) m)"
    by (simp add: ForgetDevice_def delete_conv')
qed

lemma Forget_inv: "metrics_inv x \<Longrightarrow> metrics_inv (ForgetDevice mac x)"
  unfolding metrics_inv_alt [of "ForgetDevice mac x"]
  by (auto simp: Forget_series metrics_inv_alt) (auto simp: ForgetDevice_def metrics_inv_def distinct_map_filter distinct_delete)

text \<open>Any use of the registry, as a machine.\<close>

datatype metric_op =
    MInform
  | MRequest int string
  | MSessions string "transition list"
  | MReport device
  | MForget string

fun metric_step :: "metrics \<Rightarrow> metric_op \<Rightarrow> metrics" where
  "metric_step x MInform = IncInform x"
| "metric_step x (MRequest code route) = ObserveAPIRequest code route x"
| "metric_step x (MSessions mac ts) = countSessionEvents mac ts x"
| "metric_step x (MReport d) = report_device d x"
| "metric_step x (MForget mac) = ForgetDevice mac x"

lemma other_parts:
  "mx_state (IncInform x) = mx_state x" "mx_last_model (IncInform x) = mx_last_model x"
  "mx_state (ObserveAPIRequest c r x) = mx_state x" "mx_last_model (ObserveAPIRequest c r x) = mx_last_model x"
  "mx_state (countSessionEvents mac ts x) = mx_state x" "mx_last_model (countSessionEvents mac ts x) = mx_last_model x"
  by (simp_all add: IncInform_def ObserveAPIRequest_def countSessionEvents_def IncClientSessionEvents_def Let_def split: prod.split)

lemma metric_step_inv: "metrics_inv x \<Longrightarrow> metrics_inv (metric_step x op)"
  using inv_cong [OF other_parts(1,2)] inv_cong [OF other_parts(3,4)] inv_cong [OF other_parts(5,6)]
  by (cases op) (simp_all add: report_inv Forget_inv)

interpretation metric_machine: machine metric_step metrics_inv
  by unfold_locales (rule metric_step_inv)

lemma no_metrics_inv: "metrics_inv no_metrics"
  by (simp add: metrics_inv_def no_metrics_def)

fun reported :: "metric_op \<Rightarrow> string set" where
  "reported (MReport d) = {ColonMAC (dev_mac d)}"
| "reported _ = {}"

lemma models_reported:
  "map_of (mx_last_model (foldl metric_step no_metrics ops)) mac \<noteq> None \<Longrightarrow> mac \<in> \<Union> (reported ` set ops)"
proof (induction ops rule: rev_induct)
  case (snoc op ops)
  have i: "metrics_inv (foldl metric_step no_metrics ops)" using no_metrics_inv by (rule metric_machine.run_inv)
  show ?case using snoc
    by (cases op) (auto simp: other_parts report_parts SetDeviceState_series(2) [OF i] Forget_series split: if_splits)
qed (simp add: no_metrics_def)

text \<open>
  C15: The device-labelled series cannot outgrow the devices: whatever models a device reports over time,
  and however reports, removals, session events and requests interleave, the state gauge has at most one
  series per MAC that was ever reported, and none for a MAC forgotten last.
\<close>

theorem one_state_series_per_device:
  "card (set (map fst (mx_state (foldl metric_step no_metrics ops)))) \<le> card (\<Union> (reported ` set ops))
    \<and> (\<exists>\<^sub>\<le>\<^sub>1 model. state_series (foldl metric_step no_metrics ops) (mac, model) \<noteq> None)
    \<and> state_series (foldl metric_step no_metrics (ops @ [MForget mac])) (mac, model) = None"
proof -
  let ?x = "foldl metric_step no_metrics ops"
  have i: "metrics_inv ?x" using no_metrics_inv by (rule metric_machine.run_inv)
  have "inj_on fst (set (map fst (mx_state ?x)))"
  proof (rule inj_onI)
    fix a b assume "a \<in> set (map fst (mx_state ?x))" "b \<in> set (map fst (mx_state ?x))" "fst a = fst b"
    then have "map_of (mx_last_model ?x) (fst a) = Some (snd a)" "map_of (mx_last_model ?x) (fst a) = Some (snd b)"
      using i unfolding metrics_inv_def set_map by (metis prod.collapse)+
    then show "a = b" using \<open>fst a = fst b\<close> by (simp add: prod_eq_iff)
  qed
  moreover have "fst ` set (map fst (mx_state ?x)) \<subseteq> \<Union> (reported ` set ops)"
  proof
    fix mac assume "mac \<in> fst ` set (map fst (mx_state ?x))"
    then obtain k where "k \<in> fst ` set (mx_state ?x)" "mac = fst k" by auto
    then have "(mac, snd k) \<in> fst ` set (mx_state ?x)" by simp
    then have "map_of (mx_last_model ?x) mac \<noteq> None" using i by (simp add: metrics_inv_def)
    then show "mac \<in> \<Union> (reported ` set ops)" by (rule models_reported)
  qed
  moreover have "finite (reported op)" for op by (cases op) simp_all
  ultimately have "card (set (map fst (mx_state ?x))) \<le> card (\<Union> (reported ` set ops))"
    by (intro card_inj_on_le) auto
  moreover have "\<exists>\<^sub>\<le>\<^sub>1 model. state_series ?x (mac, model) \<noteq> None"
    using i unfolding metrics_inv_alt Uniq_def by (metis option.inject)
  ultimately show ?thesis by (simp add: Forget_series)
qed

section \<open>A poll exports the inventory\<close>

lemma colon_pairs_filter:
  "list_all (\<lambda>c. \<not> mac_separator c) s \<Longrightarrow> even (length s) \<Longrightarrow>
   filter (\<lambda>c. \<not> mac_separator c) (join_with '':'' (colon_pairs s)) = s"
proof (induction s rule: colon_pairs.induct)
  case (1 a b r)
  then show ?case by (cases "colon_pairs r") (simp_all add: mac_separator_def)
qed simp_all

lemma canonicalMAC_ColonMAC: "canonicalMAC k = k \<Longrightarrow> canonicalMAC (ColonMAC k) = k"
proof -
  assume c: "canonicalMAC k = k"
  have "length (filter (\<lambda>c. \<not> mac_separator c) k) = length k"
    using arg_cong [OF c, of length] by (simp add: canonicalMAC_def)
  then have f: "filter (\<lambda>c. \<not> mac_separator c) k = k" 
    using length_filter_less [of _ k "\<lambda>c. \<not> mac_separator c"] by (auto simp: filter_id_conv)
  then have "to_lower k = k" "list_all (\<lambda>c. \<not> mac_separator c) k"
    using c by (simp add: canonicalMAC_def, metis filter_id_conv list_all_iff)
  then show ?thesis using f by (simp add: ColonMAC_def canonicalMAC_def Let_def colon_pairs_filter)
qed

lemma report_run:
  assumes "metrics_inv x" "distinct (map (\<lambda>d. ColonMAC (dev_mac d)) ds)"
  shows "metrics_inv (foldl (\<lambda>x d. report_device d x) x ds)
    \<and> state_series (foldl (\<lambda>x d. report_device d x) x ds) (m, mo) =
      (case find (\<lambda>d. ColonMAC (dev_mac d) = m) ds of
         Some d \<Rightarrow> if mo = dev_model d then Some (dev_state d) else None
       | None \<Rightarrow> state_series x (m, mo))"
  using assms
proof (induction ds arbitrary: x)
  case (Cons d ds)
  have n: "find (\<lambda>x. ColonMAC (dev_mac x) = ColonMAC (dev_mac d)) ds = None"
    using Cons.prems(2) by (auto simp: find_None_iff image_iff)
  have one: "state_series (report_device d x) (m, mo) =
      (if m = ColonMAC (dev_mac d) then if mo = dev_model d then Some (dev_state d) else None else state_series x (m, mo))" for m mo
    using SetDeviceState_series(1) [OF Cons.prems(1)] by (simp add: state_series_def report_parts)
  from Cons.IH [OF report_inv [OF Cons.prems(1), of d]] Cons.prems(2) n show ?case
    by (auto simp: one split: option.splits)
qed simp

lemma reported_inventory:
  assumes "db_inv m" "metrics_inv x" "\<And>mac. map_of (mx_last_model x) mac \<noteq> None \<Longrightarrow> mac \<in> ColonMAC ` dom (devices_of m)"
    and "x' = foldl (\<lambda>x d. report_device d x) x (db_List m)"
  shows "metrics_inv x' \<and> (state_series x' (mac, model) = Some st \<longleftrightarrow>
    (\<exists>k d. devices_of m k = Some d \<and> mac = ColonMAC k \<and> model = dev_model d \<and> st = dev_state d))"
proof -
  let ?ds = "db_List m" and ?here = "\<lambda>d. mac = ColonMAC (dev_mac d) \<and> model = dev_model d \<and> st = dev_state d"
  have inj: "dev_mac d = dev_mac d'" if "d \<in> set ?ds" "d' \<in> set ?ds" "ColonMAC (dev_mac d) = ColonMAC (dev_mac d')" for d d'
    using that listed_device(2) [OF assms(1)] canonicalMAC_ColonMAC by metis
  then have "distinct (map (\<lambda>d. ColonMAC (dev_mac d)) ?ds)"
    using listed_macs(1) [OF assms(1)] unfolding distinct_map by (auto simp: inj_on_def)
  note run = report_run [OF assms(2) this, of mac model, folded assms(4)]
  have key: "dev_mac d = k" if "devices_of m k = Some d" for k d
    using that assms(1) by (auto simp: db_inv_def devices_of_def jget_def dest!: map_of_SomeD)
  have "state_series x' (mac, model) = Some st \<longleftrightarrow> (\<exists>d \<in> set ?ds. ?here d)"
  proof (cases "find (\<lambda>d. ColonMAC (dev_mac d) = mac) ?ds")
    case None
    then have "mac \<notin> ColonMAC ` dom (devices_of m)"
      unfolding listed_macs(2) [OF assms(1), symmetric] by (auto simp: find_None_iff)
    then have "state_series x (mac, model) = None" using assms(2,3) inv_no_model by blast
    then show ?thesis using run None by (auto simp: find_None_iff)
  next
    case (Some d)
    then have d: "d \<in> set ?ds" "ColonMAC (dev_mac d) = mac" by (auto simp: find_Some_iff)
    have u: "d' = d" if "d' \<in> set ?ds" "mac = ColonMAC (dev_mac d')" for d'
      using inj [OF that(1) d(1)] that d listed_macs(1) [OF assms(1)] unfolding distinct_map by (metis inj_onD)
    have r: "state_series x' (mac, model) = (if model = dev_model d then Some (dev_state d) else None)" using run Some by simp
    show ?thesis
    proof
      show "\<exists>d \<in> set ?ds. ?here d" if "state_series x' (mac, model) = Some st"
        using that r d by (intro bexI [of _ d]) (simp_all split: if_splits)
      show "state_series x' (mac, model) = Some st" if "\<exists>d \<in> set ?ds. ?here d" using that r u by fastforce
    qed
  qed
  also have "\<dots> \<longleftrightarrow> (\<exists>k d. devices_of m k = Some d \<and> mac = ColonMAC k \<and> model = dev_model d \<and> st = dev_state d)"
    unfolding Bex_def db_List_mem [OF assms(1)] using key by metis
  finally show ?thesis using run by simp
qed

text \<open>
  C14: A poll exports the inventory: when every tracked MAC still has a record (deletions forget theirs), the
  state gauge after a poll nobody interferes with has exactly one series per stored record, under its MAC
  and current model, and its value is the state the store holds after the sweep.
\<close>

theorem poll_exports_inventory:
  assumes "db_inv (js_db (po_store p))" "metrics_inv x"
    and "\<And>mac. map_of (mx_last_model x) mac \<noteq> None \<Longrightarrow> mac \<in> ColonMAC ` dom (devices_of (js_db (po_store p)))"
    and "poll_reports now True quiet (p, x) = (p', x')"
  shows "metrics_inv x' \<and> (state_series x' (mac, model) = Some st \<longleftrightarrow>
    (\<exists>k d. devices_of (js_db (po_store p')) k = Some d \<and> mac = ColonMAC k \<and> model = dev_model d \<and> st = dev_state d))"
proof -
  define q where "q = sweep_run now (db_List (js_db (po_store p))) p"
  note sw = sweep_run_result [OF assms(1) in_store_list [OF assms(1)], of now, folded q_def]
  have qi: "db_inv (js_db (po_store q))" using sw by blast
  have dom: "dom (devices_of (js_db (po_store q))) = dom (devices_of (js_db (po_store p)))"
    using sw listed_macs(2) [OF assms(1)] by (auto simp: dom_def split: if_splits)
  have x': "x' = foldl (\<lambda>x d. report_device d x) x (db_List (js_db (po_store q)))"
    using assms(4) by (simp add: poll_reports_def sweepLost_quiet q_def)
  have "p' = PollOnce now True quiet p" using assms(4) by (simp add: poll_reports_def)
  then have "po_store p' = po_store q"
    using observe_run_result [OF listed_macs(1) [OF qi], of q]
    by (simp add: PollOnce_def sweepLost_quiet Let_def q_def prune_parts observe_run_def)
  with reported_inventory [OF qi assms(2) _ x'] assms(3) show ?thesis by (simp add: dom)
qed

lemma poll_exports_inventory_witness:
  "state_series (snd (poll_reports 1000 True quiet (gone_quiet, no_metrics))) (''aa:bb:cc:00:11:22'', []) = Some StateLost"
proof -
  have m: "canonicalMAC ''aabbcc001122'' = ''aabbcc001122''" "ColonMAC ''aabbcc001122'' = ''aa:bb:cc:00:11:22''" by code_simp+
  have i: "db_inv (js_db (po_store gone_quiet))"
    by (simp add: gone_quiet_def db_inv_def m new_device_def)
  obtain p' x' where r: "poll_reports 1000 True quiet (gone_quiet, no_metrics) = (p', x')" by fastforce
  have "p' = PollOnce 1000 True quiet gone_quiet" using r by (simp add: poll_reports_def)
  then have "case devices_of (js_db (po_store p')) ''aabbcc001122'' of None \<Rightarrow> False
      | Some d \<Rightarrow> dev_model d = [] \<and> dev_state d = StateLost"
    by (simp only:) code_simp
  then obtain d where "devices_of (js_db (po_store p')) ''aabbcc001122'' = Some d" "dev_model d = []" "dev_state d = StateLost"
    by (auto split: option.splits)
  with poll_exports_inventory [OF i no_metrics_inv _ r] m r show ?thesis by (force simp: no_metrics_def)
qed

text \<open>
  A report that was listed before a delete brings the series back, and no later poll of a store without
  the record removes it.
\<close>

lemma deleted_series_return:
  assumes "metrics_inv x"
  shows "state_series (report_device d (ForgetDevice (ColonMAC (dev_mac d)) x)) (ColonMAC (dev_mac d), dev_model d) = Some (dev_state d)"
    and "db_devices (js_db (po_store p)) = [] \<Longrightarrow> snd (poll_reports now io quiet (p, y)) = y"
proof -
  show "state_series (report_device d (ForgetDevice (ColonMAC (dev_mac d)) x)) (ColonMAC (dev_mac d), dev_model d) = Some (dev_state d)"
    using SetDeviceState_series(1) [OF Forget_inv [OF assms]] by (simp add: state_series_def report_parts)
  show "db_devices (js_db (po_store p)) = [] \<Longrightarrow> snd (poll_reports now io quiet (p, y)) = y"
    by (simp add: poll_reports_def sweepLost_def db_List_def)
qed

end
