(* ===== verification/Admin_Api.thy ===== *)
theory Admin_Api
  imports App_Wlans App_Clients Set_Inform Metrics
begin

text \<open>
  The admin HTTP API, \<^verbatim>\<open>internal/adminapi\<close>: request bodies, the token middleware, the routes with
  their boundary checks, the mapping of backend errors to statuses, and the console's files. A request
  is a method, its path (as text and as the unescaped segments the multiplexer matches), the
  Authorization header, the query, and what decoding its body into each request type gives.
\<close>

section \<open>Bodies\<close>

text \<open>
  A body as the strict decoder (unknown fields refused, one megabyte at most) reads it: its first
  value, or the decoder's error, and what the second decode meets.
\<close>

datatype second_read = CleanEOF | MoreData

record 'a json_body =
  jb_first :: "string + 'a"
  jb_second :: second_read

definition readJSON :: "'a json_body \<Rightarrow> string + 'a" where
  "readJSON b = and_then (jb_first b) (\<lambda>v.
     if jb_second b \<noteq> CleanEOF then Inl ''unexpected trailing data after JSON value'' else Inr v)"

text \<open>The transmit power value; \<open>num\<close> is the library's decoding of a JSON number.\<close>

fun tx_String :: "tx_power \<Rightarrow> string" where
  "tx_String TxAuto = ''auto''"
| "tx_String (TxDBm n) = itoa n"

definition tx_MarshalJSON :: "tx_power \<Rightarrow> string" where
  "tx_MarshalJSON t = (case t of TxAuto \<Rightarrow> [CHR 0x22] @ ''auto'' @ [CHR 0x22] | TxDBm n \<Rightarrow> itoa n)"

definition tx_UnmarshalJSON :: "(string \<Rightarrow> rat option) \<Rightarrow> string \<Rightarrow> tx_power option" where
  "tx_UnmarshalJSON num b =
    (if b = [CHR 0x22] @ ''auto'' @ [CHR 0x22] then Some TxAuto
     else case num b of
            None \<Rightarrow> None
          | Some n \<Rightarrow> if n \<noteq> of_int (trunc n) \<or> \<bar>n\<bar> > 10 ^ 6 then None else Some (TxDBm (trunc n)))"

section \<open>Requests and responses\<close>

record admin_request =
  rq_method :: string
  rq_path :: string
  rq_segments :: "string list"
  rq_auth :: string
  rq_query :: "string \<Rightarrow> string"
  rq_upsert :: "device_upsert json_body"
  rq_patch :: "device_patch json_body"
  rq_cmd :: "string json_body"
  rq_block :: "string json_body"
  rq_intent :: "intent_upsert json_body"
  rq_wlans :: "wlan list option json_body"
  rq_wlan :: "wlan json_body"

text \<open>
  What a response carries. Error texts made of a parser's or the backend's error are kept as that error.
\<close>

datatype payload =
    PErr string
  | PErrMac string mac_error
  | PErrKey nat key_error
  | PErrBackend app_error
  | PDevices "device_view list"
  | PDevice device_view
  | PDeleted string string
  | PBlocked string "string list"
  | PClients "client_view list"
  | PSiteClients "site_client_view list"
  | PEvents events_view
  | PHistory client_history_view
  | PRadios "radio_view list"
  | PRadio radio_view
  | PPending "pending_view list"
  | PWlans "wlan list option"
  | PWlan wlan
  | PWhoAmI string string bool
  | PMetrics metrics nat nat
  | PText string
  | PFile string string

record admin_response =
  rs_status :: nat
  rs_challenge :: "string option"
  rs_body :: payload

definition writeJSON :: "nat \<Rightarrow> payload \<Rightarrow> admin_response" where
  "writeJSON code p = \<lparr>rs_status = code, rs_challenge = None, rs_body = p\<rparr>"

definition writeErr :: "nat \<Rightarrow> string \<Rightarrow> admin_response" where
  "writeErr code msg = writeJSON code (PErr msg)"

text \<open>
  The dispatch of \<^verbatim>\<open>handleBackendErr\<close>: conflicts, not-found and push failures say what happened, every
  other error is an opaque 500. The application returns no \<^verbatim>\<open>ErrInvalid\<close>.
\<close>

fun error_status :: "app_error \<Rightarrow> nat" where
  "error_status (AppConflict _) = 409"
| "error_status (AppConflictMac _ _) = 409"
| "error_status (AppConflictKey _ _) = 409"
| "error_status (AppConflictBand _ _) = 409"
| "error_status (AppNotFound _) = 404"
| "error_status (AppNotFoundMac _ _) = 404"
| "error_status (AppPushFailed _) = 502"
| "error_status (AppStore _) = 500"
| "error_status (AppPlain _) = 500"

definition handleBackendErr :: "app_error \<Rightarrow> admin_response" where
  "handleBackendErr e = (if error_status e = 500 then writeErr 500 ''internal error''
     else writeJSON (error_status e) (PErrBackend e))"

section \<open>The event query\<close>

definition defaultEventsLimit :: int where "defaultEventsLimit = 500"
definition maxEventsLimit :: int where "maxEventsLimit = 5000"

text \<open>
  An instant is its unix milliseconds, \<open>None\<close> the zero time. \<open>rfc\<close> is the library's RFC 3339 parser.
\<close>

definition parseQueryTime :: "(string \<Rightarrow> int option option) \<Rightarrow> string \<Rightarrow> string + int option" where
  "parseQueryTime rfc s =
    (if s = [] then Inr None
     else if snd (Atoi s)
     then (if fst (Atoi s) < 0 then Inl ''must not be negative'' else Inr (Some (wrap64 (fst (Atoi s) * 1000))))
     else case rfc s of None \<Rightarrow> Inl ''want RFC 3339 or unix seconds'' | Some t \<Rightarrow> Inr t)"

definition query_mac :: "string \<Rightarrow> string \<Rightarrow> payload + string" where
  "query_mac what s = (if s = [] then Inr [] else case normalizeMAC s of
     Inl e \<Rightarrow> Inl (PErrMac (''invalid '' @ what @ '': '') e) | Inr m \<Rightarrow> Inr m)"

definition query_time :: "(string \<Rightarrow> int option option) \<Rightarrow> string \<Rightarrow> string \<Rightarrow> payload + int option" where
  "query_time rfc what s = (case parseQueryTime rfc s of
     Inl e \<Rightarrow> Inl (PErr (''invalid '' @ what @ '': '' @ e)) | Inr t \<Rightarrow> Inr t)"

definition query_limit :: "string \<Rightarrow> payload + int" where
  "query_limit s = (if s = [] then Inr defaultEventsLimit
     else let (n, ok) = Atoi s
       in if \<not> ok \<or> n < 1 \<or> n > maxEventsLimit then Inl (PErr ''invalid limit: want 1..5000'') else Inr n)"

definition parseEventsQuery :: "(string \<Rightarrow> int option option) \<Rightarrow> (string \<Rightarrow> string) \<Rightarrow> payload + event_filter" where
  "parseEventsQuery rfc v =
    and_then (query_mac ''client'' (v ''client'')) (\<lambda>client.
    and_then (query_mac ''ap'' (v ''ap'')) (\<lambda>ap.
    and_then (query_time rfc ''since'' (v ''since'')) (\<lambda>since.
    and_then (query_time rfc ''until'' (v ''until'')) (\<lambda>until.
    and_then (query_limit (v ''limit'')) (\<lambda>limit.
      Inr \<lparr>ef_client = client, ef_ap = ap, ef_key = v ''key'', ef_since = since, ef_until = until, ef_limit = limit\<rparr>)))))"

section \<open>Routes\<close>

text \<open>One constructor per registered pattern, with the path values it binds; the last two are the console's.\<close>

datatype route =
    RDevices | RCreate | RDevice string | RPatch string | RDelete string
  | RReboot string | RFactoryReset string | RCmd string
  | RBlocked string | RBlock string | RUnblock string string
  | RDeviceClients string | RSiteClients | REvents | RClientHistory string
  | RRadios string | RPutRadio string string | RDeleteRadio string string
  | RPending | RAdopt string
  | RGetWireless string | RPutWireless string | RPostWlan string
  | RGetWlan string string | RPutWlan string string | RDeleteWlan string string
  | RWhoAmI | RMetrics | RHealthz | RAssets | RRoot

text \<open>The multiplexer: a GET pattern also takes HEAD, a wildcard takes one non-empty segment.\<close>

definition is_get :: "string \<Rightarrow> bool" where
  "is_get m \<longleftrightarrow> m = ''GET'' \<or> m = ''HEAD''"

definition route_device :: "string \<Rightarrow> string \<Rightarrow> string list \<Rightarrow> route option" where
  "route_device m mac rest = (case rest of
     [] \<Rightarrow> if is_get m then Some (RDevice mac) else if m = ''PATCH'' then Some (RPatch mac)
           else if m = ''DELETE'' then Some (RDelete mac) else None
   | [a] \<Rightarrow>
       if m = ''POST'' \<and> a = ''reboot'' then Some (RReboot mac)
       else if m = ''POST'' \<and> a = ''factory-reset'' then Some (RFactoryReset mac)
       else if m = ''POST'' \<and> a = ''cmd'' then Some (RCmd mac)
       else if is_get m \<and> a = ''blocked'' then Some (RBlocked mac)
       else if m = ''POST'' \<and> a = ''blocked'' then Some (RBlock mac)
       else if is_get m \<and> a = ''clients'' then Some (RDeviceClients mac)
       else if is_get m \<and> a = ''radios'' then Some (RRadios mac)
       else if is_get m \<and> a = ''wireless'' then Some (RGetWireless mac)
       else if m = ''PUT'' \<and> a = ''wireless'' then Some (RPutWireless mac)
       else if m = ''POST'' \<and> a = ''wireless'' then Some (RPostWlan mac)
       else None
   | [a, b] \<Rightarrow>
       if b = [] then None
       else if m = ''DELETE'' \<and> a = ''blocked'' then Some (RUnblock mac b)
       else if m = ''PUT'' \<and> a = ''radios'' then Some (RPutRadio mac b)
       else if m = ''DELETE'' \<and> a = ''radios'' then Some (RDeleteRadio mac b)
       else if is_get m \<and> a = ''wireless'' then Some (RGetWlan mac b)
       else if m = ''PUT'' \<and> a = ''wireless'' then Some (RPutWlan mac b)
       else if m = ''DELETE'' \<and> a = ''wireless'' then Some (RDeleteWlan mac b)
       else None
   | _ \<Rightarrow> None)"

definition route_api :: "string \<Rightarrow> string list \<Rightarrow> route option" where
  "route_api m segs = (case segs of
     [] \<Rightarrow> None
   | [a] \<Rightarrow>
       if is_get m \<and> a = ''devices'' then Some RDevices
       else if m = ''POST'' \<and> a = ''devices'' then Some RCreate
       else if is_get m \<and> a = ''clients'' then Some RSiteClients
       else if is_get m \<and> a = ''events'' then Some REvents
       else if is_get m \<and> a = ''pending'' then Some RPending
       else if is_get m \<and> a = ''whoami'' then Some RWhoAmI
       else None
   | a # b # rest \<Rightarrow>
       if b = [] then None
       else if a = ''devices'' then route_device m b rest
       else if is_get m \<and> a = ''clients'' \<and> rest = [''history''] then Some (RClientHistory b)
       else if m = ''POST'' \<and> a = ''pending'' \<and> rest = [''adopt''] then Some (RAdopt b)
       else None)"

definition route_of :: "string \<Rightarrow> string list \<Rightarrow> route" where
  "route_of m segs = opt_or RRoot (case segs of
     [] \<Rightarrow> None
   | a # rest \<Rightarrow>
       if a = ''api'' \<and> take 1 rest = [''v1''] then route_api m (drop 1 rest)
       else if is_get m \<and> a = ''metrics'' \<and> rest = [] then Some RMetrics
       else if is_get m \<and> a = ''healthz'' \<and> rest = [] then Some RHealthz
       else if is_get m \<and> a = ''assets'' \<and> rest \<noteq> [] then Some RAssets
       else None)"

text \<open>The pattern each route was registered under, the label of its metric series.\<close>

fun pattern_of :: "route \<Rightarrow> string" where
  "pattern_of RDevices = ''GET /api/v1/devices''"
| "pattern_of RCreate = ''POST /api/v1/devices''"
| "pattern_of (RDevice _) = ''GET /api/v1/devices/{mac}''"
| "pattern_of (RPatch _) = ''PATCH /api/v1/devices/{mac}''"
| "pattern_of (RDelete _) = ''DELETE /api/v1/devices/{mac}''"
| "pattern_of (RReboot _) = ''POST /api/v1/devices/{mac}/reboot''"
| "pattern_of (RFactoryReset _) = ''POST /api/v1/devices/{mac}/factory-reset''"
| "pattern_of (RCmd _) = ''POST /api/v1/devices/{mac}/cmd''"
| "pattern_of (RBlocked _) = ''GET /api/v1/devices/{mac}/blocked''"
| "pattern_of (RBlock _) = ''POST /api/v1/devices/{mac}/blocked''"
| "pattern_of (RUnblock _ _) = ''DELETE /api/v1/devices/{mac}/blocked/{client}''"
| "pattern_of (RDeviceClients _) = ''GET /api/v1/devices/{mac}/clients''"
| "pattern_of RSiteClients = ''GET /api/v1/clients''"
| "pattern_of REvents = ''GET /api/v1/events''"
| "pattern_of (RClientHistory _) = ''GET /api/v1/clients/{mac}/history''"
| "pattern_of (RRadios _) = ''GET /api/v1/devices/{mac}/radios''"
| "pattern_of (RPutRadio _ _) = ''PUT /api/v1/devices/{mac}/radios/{radio}''"
| "pattern_of (RDeleteRadio _ _) = ''DELETE /api/v1/devices/{mac}/radios/{radio}''"
| "pattern_of RPending = ''GET /api/v1/pending''"
| "pattern_of (RAdopt _) = ''POST /api/v1/pending/{mac}/adopt''"
| "pattern_of (RGetWireless _) = ''GET /api/v1/devices/{mac}/wireless''"
| "pattern_of (RPutWireless _) = ''PUT /api/v1/devices/{mac}/wireless''"
| "pattern_of (RPostWlan _) = ''POST /api/v1/devices/{mac}/wireless''"
| "pattern_of (RGetWlan _ _) = ''GET /api/v1/devices/{mac}/wireless/{name}''"
| "pattern_of (RPutWlan _ _) = ''PUT /api/v1/devices/{mac}/wireless/{name}''"
| "pattern_of (RDeleteWlan _ _) = ''DELETE /api/v1/devices/{mac}/wireless/{name}''"
| "pattern_of RWhoAmI = ''GET /api/v1/whoami''"
| "pattern_of RMetrics = ''GET /metrics''"
| "pattern_of RHealthz = ''GET /healthz''"
| "pattern_of RAssets = ''GET /assets/''"
| "pattern_of RRoot = ''/''"

definition classifyRoute :: "string \<Rightarrow> string \<Rightarrow> string \<Rightarrow> string" where
  "classifyRoute method pattern path =
    (if pattern \<noteq> [] then pattern
     else if has_prefix ''/api/'' path then method @ '' '' @ ''/api/other''
     else [])"

section \<open>The console's files\<close>

text \<open>\<^verbatim>\<open>path.Base\<close>: the last element, trailing slashes dropped.\<close>

definition path_base :: "string \<Rightarrow> string" where
  "path_base p =
    (if p = [] then ''.''
     else let q = rev (dropWhile (\<lambda>c. c = CHR ''/'') (rev p));
              q = (case last_index CHR ''/'' q of Some i \<Rightarrow> drop (i + 1) q | None \<Rightarrow> q)
       in if q = [] then ''/'' else q)"

definition assetsContentType :: "string \<Rightarrow> string option" where
  "assetsContentType name =
    (let e = to_lower (case last_index CHR ''.'' name of Some i \<Rightarrow> drop (i + 1) name | None \<Rightarrow> name)
     in if e = ''js'' then Some ''application/javascript''
        else if e = ''css'' then Some ''text/css''
        else None)"

definition assets :: "(string \<Rightarrow> string option) \<Rightarrow> string \<Rightarrow> admin_response" where
  "assets files path =
    (let name = path_base path
     in case assetsContentType name of
          None \<Rightarrow> writeErr 404 ''no such endpoint''
        | Some ct \<Rightarrow> (case files (''static/dist/assets/'' @ name) of
            None \<Rightarrow> writeErr 404 ''no such endpoint''
          | Some data \<Rightarrow> writeJSON 200 (PFile ct data)))"

definition page :: "(string \<Rightarrow> string option) \<Rightarrow> admin_response" where
  "page files = (case files ''static/dist/index.html'' of
     None \<Rightarrow> writeErr 500 ''console build output missing''
   | Some data \<Rightarrow> writeJSON 200 (PFile ''text/html; charset=utf-8'' data))"

section \<open>Handlers\<close>

text \<open>
  What a handler works on besides the request: the token, the clock and randomness of the call, the
  push lane, the event log, the metrics registry with the poller's two adoption counters, as they stand
  at the call, and the embedded files. A scrape answers with the whole registry.
\<close>

record api_ctx =
  ac_token :: string
  ac_env :: admin_env
  ac_lane :: "push_lane option"
  ac_history :: "file_sink option"
  ac_metrics :: metrics
  ac_adoptions :: "nat \<times> nat"
  ac_rfc3339 :: "string \<Rightarrow> int option option"
  ac_dist :: "string \<Rightarrow> string option"

type_synonym handler = "json_store \<Rightarrow> json_store \<times> admin_response"

definition bad :: "string \<Rightarrow> handler" where
  "bad msg s = (s, writeErr 400 msg)"

definition with_mac_at :: "string \<Rightarrow> string \<Rightarrow> (string \<Rightarrow> handler) \<Rightarrow> handler" where
  "with_mac_at what raw k s = (case normalizeMAC raw of
     Inl e \<Rightarrow> (s, writeJSON 400 (PErrMac what e)) | Inr m \<Rightarrow> k m s)"

definition with_mac :: "string \<Rightarrow> (string \<Rightarrow> handler) \<Rightarrow> handler" where
  "with_mac = with_mac_at ''invalid mac: ''"

definition with_body :: "'a json_body \<Rightarrow> ('a \<Rightarrow> handler) \<Rightarrow> handler" where
  "with_body b k s = (case readJSON b of Inl _ \<Rightarrow> bad ''invalid JSON body'' s | Inr v \<Rightarrow> k v s)"

text \<open>A boundary check: a validator's message becomes a 400.\<close>

definition checked :: "string \<Rightarrow> string \<Rightarrow> handler \<Rightarrow> handler" where
  "checked prefix msg k s = (if msg \<noteq> [] then bad (prefix @ msg) s else k s)"

definition checked_opt :: "('a \<Rightarrow> string) \<Rightarrow> 'a option \<Rightarrow> handler \<Rightarrow> handler" where
  "checked_opt f v k = (case v of None \<Rightarrow> k | Some a \<Rightarrow> checked [] (f a) k)"

definition checked_keys :: "string list option \<Rightarrow> handler \<Rightarrow> handler" where
  "checked_keys v k s = (case v of None \<Rightarrow> k s | Some ls \<Rightarrow> (case ValidateSSHPublicKeyLines ls of
     Some (i, e) \<Rightarrow> (s, writeJSON 400 (PErrKey i e)) | None \<Rightarrow> k s))"

definition answer :: "nat \<Rightarrow> ('a \<Rightarrow> payload) \<Rightarrow> app_error + 'a \<Rightarrow> admin_response" where
  "answer code f r = (case r of Inl e \<Rightarrow> handleBackendErr e | Inr v \<Rightarrow> writeJSON code (f v))"

definition asked :: "nat \<Rightarrow> ('a \<Rightarrow> payload) \<Rightarrow> (json_store \<Rightarrow> app_error + 'a) \<Rightarrow> handler" where
  "asked code f q s = (s, answer code f (q s))"

definition ran :: "nat \<Rightarrow> ('a \<Rightarrow> payload) \<Rightarrow> (json_store \<Rightarrow> json_store \<times> (app_error + 'a)) \<Rightarrow> handler" where
  "ran code f v s = (case v s of (s', r) \<Rightarrow> (s', answer code f r))"

text \<open>The first refused WLAN of a document, with its index.\<close>

fun checked_wlans :: "nat \<Rightarrow> wlan list \<Rightarrow> handler \<Rightarrow> handler" where
  "checked_wlans i [] k = k"
| "checked_wlans i (w # ws) k = (if ValidateWlan w \<noteq> [] then bad (''wlan['' @ itoa (int i) @ '']: '' @ ValidateWlan w)
     else checked_wlans (Suc i) ws k)"

definition post_device :: "api_ctx \<Rightarrow> admin_request \<Rightarrow> handler" where
  "post_device cx rq = with_body (rq_upsert rq) (\<lambda>up. with_mac (up_mac up) (\<lambda>mac.
     (let up = up\<lparr>up_mac := mac\<rparr>
      in checked [] (if up_name up \<noteq> [] then ValidateDeviceName (up_name up) else [])
           (checked [] (if up_site_id up \<noteq> [] then ValidateSiteID (up_site_id up) else [])
             (ran 201 PDevice (CreateDevice (ac_env cx) up))))))"

definition patch_device :: "api_ctx \<Rightarrow> admin_request \<Rightarrow> string \<Rightarrow> handler" where
  "patch_device cx rq raw = with_mac raw (\<lambda>mac. with_body (rq_patch rq) (\<lambda>p.
     checked_opt ValidateSiteID (pa_site_id p)
     (checked_opt ValidateDeviceName (pa_name p)
     (checked_opt ValidateLEDOverride (pa_led_override p)
     (checked_opt ValidateLEDOverrideColorBrightness (pa_led_brightness p)
     (checked_opt ValidateRegulatoryCountryCode (pa_country_code p)
     (checked_keys (pa_ssh_keys p)
       (ran 200 PDevice (PatchDevice (ac_env cx) mac p)))))))))"

definition post_cmd :: "api_ctx \<Rightarrow> admin_request \<Rightarrow> string \<Rightarrow> handler" where
  "post_cmd cx rq raw = with_mac raw (\<lambda>mac. with_body (rq_cmd rq) (\<lambda>cmd.
     checked ''invalid cmd: '' (ValidateCmdString cmd) (ran 200 PDevice (EnqueueDeviceCmd (ac_env cx) mac cmd))))"

definition post_blocked :: "api_ctx \<Rightarrow> admin_request \<Rightarrow> string \<Rightarrow> handler" where
  "post_blocked cx rq raw = with_mac raw (\<lambda>mac. with_body (rq_block rq) (\<lambda>c.
     with_mac_at ''invalid client mac: '' c (\<lambda>client.
       ran 200 (\<lambda>(m, cs). PBlocked m cs) (BlockClient (ac_env cx) mac client))))"

definition delete_blocked :: "api_ctx \<Rightarrow> string \<Rightarrow> string \<Rightarrow> handler" where
  "delete_blocked cx raw c = with_mac raw (\<lambda>mac. with_mac_at ''invalid client mac: '' c (\<lambda>client.
     ran 200 (\<lambda>(m, cs). PBlocked m cs) (UnblockClient (ac_env cx) mac client)))"

definition put_radio :: "api_ctx \<Rightarrow> admin_request \<Rightarrow> string \<Rightarrow> string \<Rightarrow> handler" where
  "put_radio cx rq raw radio = with_mac raw (\<lambda>mac. checked ''invalid radio: '' (ValidateRadioName radio)
     (\<lambda>s. case readJSON (rq_intent rq) of
        Inl e \<Rightarrow> bad (''invalid JSON body: '' @ e) s
      | Inr up \<Rightarrow> ran 200 PRadio (PutDeviceRadioIntent (ac_env cx) mac radio up) s))"

definition delete_radio :: "api_ctx \<Rightarrow> string \<Rightarrow> string \<Rightarrow> handler" where
  "delete_radio cx raw radio = with_mac raw (\<lambda>mac. checked ''invalid radio: '' (ValidateRadioName radio)
     (ran 200 PRadio (DeleteDeviceRadioIntent (ac_env cx) mac radio)))"

definition put_wireless :: "api_ctx \<Rightarrow> admin_request \<Rightarrow> string \<Rightarrow> handler" where
  "put_wireless cx rq raw = with_mac raw (\<lambda>mac. with_body (rq_wlans rq) (\<lambda>ws.
     checked_wlans 0 (opt_or [] ws) (ran 200 PWlans (PutDeviceWireless (ac_env cx) mac ws))))"

definition post_wlan :: "api_ctx \<Rightarrow> admin_request \<Rightarrow> string \<Rightarrow> handler" where
  "post_wlan cx rq raw = with_mac raw (\<lambda>mac. with_body (rq_wlan rq) (\<lambda>w.
     checked [] (ValidateWlanName (w_name w)) (checked [] (ValidateWlan w)
       (ran 201 PWlan (CreateDeviceWlan (ac_env cx) mac w)))))"

definition get_wlan :: "api_ctx \<Rightarrow> string \<Rightarrow> string \<Rightarrow> handler" where
  "get_wlan cx raw name = with_mac raw (\<lambda>mac. checked [] (ValidateWlanName name)
     (asked 200 PWlan (GetDeviceWlan (ac_env cx) mac name)))"

definition put_wlan :: "api_ctx \<Rightarrow> admin_request \<Rightarrow> string \<Rightarrow> string \<Rightarrow> handler" where
  "put_wlan cx rq raw name = with_mac raw (\<lambda>mac. checked [] (ValidateWlanName name)
     (with_body (rq_wlan rq) (\<lambda>w.
        if w_name w \<noteq> [] \<and> w_name w \<noteq> name then bad ''name must match path''
        else let w = w\<lparr>w_name := name\<rparr>
          in checked [] (ValidateWlan w) (ran 200 PWlan (UpdateDeviceWlan (ac_env cx) mac name w)))))"

definition delete_wlan :: "api_ctx \<Rightarrow> string \<Rightarrow> string \<Rightarrow> handler" where
  "delete_wlan cx raw name = with_mac raw (\<lambda>mac. checked [] (ValidateWlanName name)
     (ran 200 (\<lambda>_. PDeleted ''name'' name) (DeleteDeviceWlan (ac_env cx) mac name)))"

definition get_events :: "api_ctx \<Rightarrow> admin_request \<Rightarrow> handler" where
  "get_events cx rq s = (s, case parseEventsQuery (ac_rfc3339 cx) (rq_query rq) of
     Inl p \<Rightarrow> writeJSON 400 p | Inr q \<Rightarrow> writeJSON 200 (PEvents (ListEvents (ac_history cx) q)))"

definition get_devices :: "api_ctx \<Rightarrow> handler" where
  "get_devices cx s = (s, writeJSON 200 (PDevices (ListDevices (ac_env cx) s)))"

definition get_device :: "api_ctx \<Rightarrow> string \<Rightarrow> handler" where
  "get_device cx raw = with_mac raw (\<lambda>mac. asked 200 PDevice (GetDevice (ac_env cx) mac))"

definition delete_device :: "api_ctx \<Rightarrow> string \<Rightarrow> handler" where
  "delete_device cx raw = with_mac raw (\<lambda>mac. ran 200 (\<lambda>_. PDeleted ''mac'' mac) (DeleteDevice (ac_env cx) mac))"

definition post_reboot :: "api_ctx \<Rightarrow> string \<Rightarrow> handler" where
  "post_reboot cx raw = with_mac raw (\<lambda>mac. ran 200 PDevice (RebootDevice (ac_env cx) mac))"

definition post_factory_reset :: "api_ctx \<Rightarrow> string \<Rightarrow> handler" where
  "post_factory_reset cx raw = with_mac raw (\<lambda>mac. ran 200 PDevice (FactoryResetDevice (ac_env cx) mac))"

definition get_blocked :: "string \<Rightarrow> handler" where
  "get_blocked raw = with_mac raw (\<lambda>mac. asked 200 (\<lambda>(m, cs). PBlocked m cs) (ListBlockedClients mac))"

definition get_clients :: "string \<Rightarrow> handler" where
  "get_clients raw = with_mac raw (\<lambda>mac. asked 200 PClients (ListDeviceClients mac))"

definition get_site_clients :: handler where
  "get_site_clients s = (s, writeJSON 200 (PSiteClients (ListClients s)))"

definition get_history :: "api_ctx \<Rightarrow> string \<Rightarrow> handler" where
  "get_history cx raw = with_mac raw (\<lambda>mac s. (s, writeJSON 200 (PHistory (GetClientHistory (ac_history cx) mac))))"

definition get_radios :: "string \<Rightarrow> handler" where
  "get_radios raw = with_mac raw (\<lambda>mac. asked 200 PRadios (ListDeviceRadios mac))"

definition get_pending :: "api_ctx \<Rightarrow> handler" where
  "get_pending cx s = (let (ps, s) = ListPending (ac_env cx) s in (s, writeJSON 200 (PPending ps)))"

definition post_adopt :: "api_ctx \<Rightarrow> string \<Rightarrow> handler" where
  "post_adopt cx raw = with_mac raw (\<lambda>mac. ran 200 PDevice (AdoptPending (ac_lane cx) (ac_env cx) mac))"

definition get_wireless :: "api_ctx \<Rightarrow> string \<Rightarrow> handler" where
  "get_wireless cx raw = with_mac raw (\<lambda>mac. asked 200 (\<lambda>ws. PWlans (Some ws)) (GetDeviceWireless (ac_env cx) mac))"

definition get_whoami :: "api_ctx \<Rightarrow> handler" where
  "get_whoami cx s = (s, writeJSON 200 (PWhoAmI ''open-unifi'' ''0.1.0-dev'' (ac_token cx \<noteq> [])))"

definition get_metrics :: "api_ctx \<Rightarrow> handler" where
  "get_metrics cx s = (s, writeJSON 200 (PMetrics (ac_metrics cx) (fst (ac_adoptions cx)) (snd (ac_adoptions cx))))"

definition get_root :: "api_ctx \<Rightarrow> admin_request \<Rightarrow> handler" where
  "get_root cx rq s = (s, if has_prefix ''/api/'' (rq_path rq) then writeErr 404 ''no such endpoint'' else page (ac_dist cx))"

fun endpoint :: "api_ctx \<Rightarrow> admin_request \<Rightarrow> route \<Rightarrow> handler" where
  "endpoint cx rq RDevices = get_devices cx"
| "endpoint cx rq RCreate = post_device cx rq"
| "endpoint cx rq (RDevice m) = get_device cx m"
| "endpoint cx rq (RPatch m) = patch_device cx rq m"
| "endpoint cx rq (RDelete m) = delete_device cx m"
| "endpoint cx rq (RReboot m) = post_reboot cx m"
| "endpoint cx rq (RFactoryReset m) = post_factory_reset cx m"
| "endpoint cx rq (RCmd m) = post_cmd cx rq m"
| "endpoint cx rq (RBlocked m) = get_blocked m"
| "endpoint cx rq (RBlock m) = post_blocked cx rq m"
| "endpoint cx rq (RUnblock m c) = delete_blocked cx m c"
| "endpoint cx rq (RDeviceClients m) = get_clients m"
| "endpoint cx rq RSiteClients = get_site_clients"
| "endpoint cx rq REvents = get_events cx rq"
| "endpoint cx rq (RClientHistory m) = get_history cx m"
| "endpoint cx rq (RRadios m) = get_radios m"
| "endpoint cx rq (RPutRadio m r) = put_radio cx rq m r"
| "endpoint cx rq (RDeleteRadio m r) = delete_radio cx m r"
| "endpoint cx rq RPending = get_pending cx"
| "endpoint cx rq (RAdopt m) = post_adopt cx m"
| "endpoint cx rq (RGetWireless m) = get_wireless cx m"
| "endpoint cx rq (RPutWireless m) = put_wireless cx rq m"
| "endpoint cx rq (RPostWlan m) = post_wlan cx rq m"
| "endpoint cx rq (RGetWlan m n) = get_wlan cx m n"
| "endpoint cx rq (RPutWlan m n) = put_wlan cx rq m n"
| "endpoint cx rq (RDeleteWlan m n) = delete_wlan cx m n"
| "endpoint cx rq RWhoAmI = get_whoami cx"
| "endpoint cx rq RMetrics = get_metrics cx"
| "endpoint cx rq RHealthz = (\<lambda>s. (s, writeJSON 200 (PText ''ok'')))"
| "endpoint cx rq RAssets = (\<lambda>s. (s, assets (ac_dist cx) (rq_path rq)))"
| "endpoint cx rq RRoot = get_root cx rq"

text \<open>The routes registered without the middleware.\<close>

definition is_open :: "route \<Rightarrow> bool" where
  "is_open r \<longleftrightarrow> r \<in> {RHealthz, RAssets, RRoot}"

definition requireToken :: "string \<Rightarrow> string \<Rightarrow> handler \<Rightarrow> handler" where
  "requireToken tok got next s =
    (if token_ok tok got then next s
     else (s, (writeErr 401 ''unauthorized'')\<lparr>rs_challenge := Some (''Bearer realm='' @ [CHR 0x22] @ ''open-unifi'' @ [CHR 0x22])\<rparr>))"

definition serve_http :: "api_ctx \<Rightarrow> admin_request \<Rightarrow> handler" where
  "serve_http cx rq = (let r = route_of (rq_method rq) (rq_segments rq)
     in if is_open r then endpoint cx rq r else requireToken (ac_token cx) (rq_auth rq) (endpoint cx rq r))"

end
