(* ===== verification/Api_Laws.thy ===== *)
theory Api_Laws
  imports Admin_Api
begin

text \<open>
  What the admin API promises: nothing of the store crosses the token check, an answered request is on
  disk, a refused one has changed no record, and the boundary checks leave the application's own
  fences nothing to refuse.
\<close>

section \<open>The outcome of a verb\<close>

text \<open>
  A verb is settled when its success is on disk and its refusal has left every record alone; only the
  statuses 500 and 502 report something that may have happened.
\<close>

definition on_disk :: "int \<Rightarrow> json_store \<Rightarrow> bool" where
  "on_disk now s \<longleftrightarrow> (\<exists>m. js_file s = Some (snapshot now m) \<and> db_devices m = db_devices (js_db s))"

definition verb_result :: "json_store \<times> (app_error + 'a) \<Rightarrow> json_store \<times> app_error option" where
  "verb_result x = (fst x, case snd x of Inl e \<Rightarrow> Some e | Inr _ \<Rightarrow> None)"

definition settled :: "int \<Rightarrow> json_store \<Rightarrow> json_store \<times> app_error option \<Rightarrow> bool" where
  "settled now s x = (case snd x of
     None \<Rightarrow> on_disk now (fst x)
   | Some e \<Rightarrow> error_status e \<notin> {500, 502} \<longrightarrow> db_devices (js_db (fst x)) = db_devices (js_db s))"

named_theorems settled_intros "verbs that are settled"

lemma settledI:
  "(\<And>s' e. x = (s', Inl e) \<Longrightarrow> error_status e \<notin> {500, 502} \<Longrightarrow> db_devices (js_db s') = db_devices (js_db s)) \<Longrightarrow>
   (\<And>s' v. x = (s', Inr v) \<Longrightarrow> on_disk now s') \<Longrightarrow> settled now s (verb_result x)"
  by (cases x) (auto simp: settled_def verb_result_def split: sum.splits)

lemma settled_unchanged [settled_intros]: "settled now s (verb_result (s, Inl e))"
  by (simp add: settled_def verb_result_def)

lemma js_after_result:
  "js_after now io r s = (s', None) \<Longrightarrow> on_disk now s' \<and> (\<exists>m. r = Inr m)"
  "js_after now io r s = (s', Some e) \<Longrightarrow> (r = Inl e \<and> s' = s) \<or> e = ErrSave"
  by (auto simp: js_after_def js_save_def on_disk_def split: sum.splits if_splits)

lemma db_update_result:
  assumes "canonicalMAC mac = mac"
  shows "db_update mac fn b m = Inr m' \<Longrightarrow> \<exists>d d'. d = (case db_Get mac m of Inl _ \<Rightarrow> new_device mac | Inr d \<Rightarrow> d) \<and> fn d = Inr d'"
    and "db_update mac fn b m = Inl (ErrFn e) \<Longrightarrow> \<exists>d. d = (case db_Get mac m of Inl _ \<Rightarrow> new_device mac | Inr d \<Rightarrow> d) \<and> fn d = Inl e"
  using assms by (auto simp: db_update_def db_Get_def db_Put_def Let_def split: if_splits sum.splits option.splits)

lemma saveIntent_settled [settled_intros]:
  "settled (ae_now env) s (verb_result (saveIntent env mac mode change project s))"
proof (cases "CanonicalMAC mac")
  case (Inl e)
  then show ?thesis by (simp add: saveIntent_def settled_def verb_result_def)
next
  case (Inr c)
  then have c: "canonicalMAC c = c" using CanonicalMAC_D by (simp add: mac_simps)
  let ?f = "intent_cycle env change project" and ?b = "mode = SavePending"
  obtain s' err where w: "js_after (ae_now env) (ae_io env) (db_update c (intent_fn ?f) ?b (js_db s)) s = (s', err)"
    by fastforce
  then have run: "saveIntent env mac mode change project s = (s', case err of
      None \<Rightarrow> (case ?f (seeded c s) of Inl e \<Rightarrow> Inl e | Inr (_, out) \<Rightarrow> Inr out)
    | Some ErrNotFound \<Rightarrow> Inl (unknownDevice c)
    | Some (ErrFn _) \<Rightarrow> (case ?f (seeded c s) of Inl e \<Rightarrow> Inl e | Inr (_, out) \<Rightarrow> Inr out)
    | Some e \<Rightarrow> Inl (AppStore e))"
    using Inr by (cases mode) (auto simp: saveIntent_def js_Update_def js_UpdateExisting_def db_Update_def db_UpdateExisting_def Let_def)
  have start: "(case db_Get c (js_db s) of Inl _ \<Rightarrow> new_device c | Inr d \<Rightarrow> d) = seeded c s"
    by (simp add: seeded_def)
  show ?thesis
  proof (cases err)
    case None
    with js_after_result(1) w obtain m where "db_update c (intent_fn ?f) ?b (js_db s) = Inr m" "on_disk (ae_now env) s'" by blast
    moreover from this(1) obtain d' where "intent_fn ?f (seeded c s) = Inr d'"
      using db_update_result(1) [OF c, of "intent_fn ?f" ?b "js_db s" m] start by auto
    ultimately show ?thesis using None by (auto simp: run settled_def verb_result_def intent_fn_def split: sum.splits)
  next
    case (Some e)
    with js_after_result(2) w have r: "(db_update c (intent_fn ?f) ?b (js_db s) = Inl e \<and> s' = s) \<or> e = ErrSave" by blast
    moreover have "\<exists>x. ?f (seeded c s) = Inl x" if "e = ErrFn msg" for msg
      using r that db_update_result(2) [OF c, of "intent_fn ?f" ?b "js_db s" msg] start
      by (auto simp: intent_fn_def split: sum.splits)
    ultimately show ?thesis using Some by (cases e) (auto simp: run settled_def verb_result_def)
  qed
qed

lemma viewed_settled [settled_intros]: "settled now s (verb_result x) \<Longrightarrow> settled now s (verb_result (viewed env x))"
  by (auto simp: settled_def verb_result_def viewed_def split: sum.splits)

lemma verbs_settled [settled_intros]:
  "settled (ae_now env) s (verb_result (PatchDevice env mac p s))"
  "settled (ae_now env) s (verb_result (CreateDevice env up s))"
  "settled (ae_now env) s (verb_result (BlockClient env mac client s))"
  "settled (ae_now env) s (verb_result (UnblockClient env mac client s))"
  "settled (ae_now env) s (verb_result (PutDeviceRadioIntent env mac radio it s))"
  "settled (ae_now env) s (verb_result (DeleteDeviceRadioIntent env mac radio s))"
  "settled (ae_now env) s (verb_result (RebootDevice env mac s))"
  "settled (ae_now env) s (verb_result (FactoryResetDevice env mac s))"
  "settled (ae_now env) s (verb_result (EnqueueDeviceCmd env mac cmd s))"
  "settled (ae_now env) s (verb_result (PutDeviceWireless env mac ws s))"
  "settled (ae_now env) s (verb_result (CreateDeviceWlan env mac w s))"
  "settled (ae_now env) s (verb_result (UpdateDeviceWlan env mac name w s))"
  "settled (ae_now env) s (verb_result (DeleteDeviceWlan env mac name s))"
  by (auto simp: PatchDevice_def CreateDevice_def BlockClient_def UnblockClient_def blocked_save_def
      PutDeviceRadioIntent_def DeleteDeviceRadioIntent_def putRadioIntent_def RebootDevice_def FactoryResetDevice_def
      armLifecycle_def EnqueueDeviceCmd_def PutDeviceWireless_def CreateDeviceWlan_def UpdateDeviceWlan_def
      DeleteDeviceWlan_def Let_def split: sum.splits intro!: settled_intros)

lemma DeleteDevice_settled [settled_intros]: "settled (ae_now env) s (verb_result (DeleteDevice env mac s))"
  by (rule settledI)
    (auto simp: DeleteDevice_def js_Delete_def split: sum.splits prod.splits option.splits store_error.splits
      dest: js_after_result)

lemma readPending_devices: "readPending env s = (pend, s') \<Longrightarrow> db_devices (js_db s') = db_devices (js_db s)"
  by (rule readPending_parts(1))

lemma readPending_disk: "readPending env s = (pend, s') \<Longrightarrow> on_disk now s \<Longrightarrow> on_disk now s'"
  using readPending_devices by (fastforce simp: on_disk_def readPending_def case_prod_beta Let_def)

lemma push_disk: "pushSetInform lane env mac s = (s', e) \<Longrightarrow> on_disk now s \<Longrightarrow> on_disk now s'"
  using readPending_disk by (fastforce simp: pushSetInform_def split: option.splits prod.splits)

lemma push_errors: "pushSetInform lane env mac s = (s', Some e) \<Longrightarrow> error_status e = 502"
  by (auto simp: pushSetInform_def split: option.splits prod.splits bool.splits)

lemma AdoptPending_settled [settled_intros]: "settled (ae_now env) s (verb_result (AdoptPending lane env mac s))"
proof (rule settledI)
  obtain pend s1 where p: "pending_in_cycle env mac s = (pend, s1)" by fastforce
  then have d: "db_devices (js_db s1) = db_devices (js_db s)"
    using readPending_devices by (auto simp: pending_in_cycle_def split: sum.splits if_splits)
  note i = saveIntent_settled [of env s1 mac SavePending "adopt_change (ae_now env) pend" "\<lambda>_. adopt_echo"]
  {
    fix s' e
    assume "AdoptPending lane env mac s = (s', Inl e)" "error_status e \<notin> {500, 502}"
    then show "db_devices (js_db s') = db_devices (js_db s)"
      using i d push_errors by (fastforce simp: AdoptPending_def p settled_def verb_result_def split: prod.splits sum.splits option.splits)
  next
    fix s' v
    assume "AdoptPending lane env mac s = (s', Inr v)"
    then show "on_disk (ae_now env) s'"
      using i push_disk by (fastforce simp: AdoptPending_def p settled_def verb_result_def split: prod.splits sum.splits option.splits)
  }
qed

section \<open>The outcome of a request\<close>

definition api_statuses :: "nat set" where
  "api_statuses = {200, 201, 400, 401, 404, 409, 500, 502}"

text \<open>The contract of a handler at a store, whatever it answers.\<close>

definition sound :: "int \<Rightarrow> json_store \<Rightarrow> json_store \<times> admin_response \<Rightarrow> bool" where
  "sound now s x \<longleftrightarrow> rs_status (snd x) \<in> api_statuses
     \<and> (rs_status (snd x) \<in> {400, 401, 404, 409} \<longrightarrow> db_devices (js_db (fst x)) = db_devices (js_db s))
     \<and> (rs_status (snd x) \<in> {200, 201} \<longrightarrow> db_devices (js_db (fst x)) = db_devices (js_db s) \<or> on_disk now (fst x))"

lemma error_statuses: "error_status e \<in> {404, 409, 500, 502}"
  by (cases e) simp_all

lemma reply_statuses [simp]: "rs_status (writeJSON c p) = c" "rs_status (writeErr c m) = c"
  "rs_status (handleBackendErr e) = error_status e"
  by (simp_all add: writeJSON_def writeErr_def handleBackendErr_def)

lemma answer_status: "rs_status (answer code f r) = (case r of Inl e \<Rightarrow> error_status e | Inr _ \<Rightarrow> code)"
  by (simp add: answer_def split: sum.splits)

lemma files_status: "rs_status (assets files p) \<in> api_statuses" "rs_status (page files) \<in> api_statuses"
  by (auto simp: assets_def page_def api_statuses_def Let_def split: option.splits)

lemmas handler_defs = post_device_def patch_device_def post_cmd_def post_blocked_def delete_blocked_def put_radio_def
  delete_radio_def put_wireless_def post_wlan_def get_wlan_def put_wlan_def delete_wlan_def get_events_def
  get_devices_def get_device_def delete_device_def post_reboot_def post_factory_reset_def get_blocked_def get_clients_def
  get_site_clients_def get_history_def get_radios_def get_pending_def post_adopt_def get_wireless_def get_whoami_def get_root_def get_metrics_def

text \<open>
  What the routes need of the application to keep a contract \<open>P\<close> between the store before a request and
  its answer: \<open>Q\<close> for each verb, that an answer which leaves the store alone is fine, and that the status a
  verb's result is given makes \<open>P\<close> of \<open>Q\<close>.
\<close>

locale api_contract =
  fixes P :: "admin_env \<Rightarrow> json_store \<Rightarrow> json_store \<times> admin_response \<Rightarrow> bool"
    and Q :: "admin_env \<Rightarrow> json_store \<Rightarrow> json_store \<times> app_error option \<Rightarrow> bool"
  assumes unchanged: "rs_status r \<in> api_statuses \<Longrightarrow> P env s (s, r)"
    and listed: "ListPending env s = (ps, s') \<Longrightarrow> P env s (s', writeJSON 200 (PPending ps))"
    and performed: "Q env s (s', err) \<Longrightarrow> code \<in> {200, 201} \<Longrightarrow>
      rs_status r = (case err of Some e \<Rightarrow> error_status e | None \<Rightarrow> code) \<Longrightarrow> P env s (s', r)"
    and devices: "Q env s (verb_result (PatchDevice env mac p s))" "Q env s (verb_result (CreateDevice env up s))"
      "Q env s (verb_result (DeleteDevice env mac s))" "Q env s (verb_result (AdoptPending lane env mac s))"
      "Q env s (verb_result (RebootDevice env mac s))" "Q env s (verb_result (FactoryResetDevice env mac s))"
      "Q env s (verb_result (EnqueueDeviceCmd env mac cmd s))"
    and blocked: "Q env s (verb_result (BlockClient env mac client s))" "Q env s (verb_result (UnblockClient env mac client s))"
    and radios: "Q env s (verb_result (PutDeviceRadioIntent env mac radio it s))" "Q env s (verb_result (DeleteDeviceRadioIntent env mac radio s))"
    and wlans: "Q env s (verb_result (PutDeviceWireless env mac ws s))" "Q env s (verb_result (CreateDeviceWlan env mac w s))"
      "Q env s (verb_result (UpdateDeviceWlan env mac name w s))" "Q env s (verb_result (DeleteDeviceWlan env mac name s))"
begin

lemma kept_bad: "P env s (bad msg s)"
  by (simp add: bad_def unchanged api_statuses_def)

lemma kept_mac: "(\<And>m. P env s (k m s)) \<Longrightarrow> P env s (with_mac_at what raw k s)"
    "(\<And>m. P env s (k m s)) \<Longrightarrow> P env s (with_mac raw k s)"
  by (auto simp: with_mac_def with_mac_at_def unchanged api_statuses_def split: sum.splits)

lemma kept_body: "(\<And>v. P env s (k v s)) \<Longrightarrow> P env s (with_body b k s)"
  by (auto simp: with_body_def intro: kept_bad split: sum.splits)

lemma kept_checked: "P env s (k s) \<Longrightarrow> P env s (checked pre msg k s)"
    "P env s (k s) \<Longrightarrow> P env s (checked_opt f v k s)"
    "P env s (k s) \<Longrightarrow> P env s (checked_keys ks k s)"
  by (auto simp: checked_def checked_opt_def checked_keys_def unchanged api_statuses_def intro: kept_bad split: option.splits)

lemma kept_wlans: "P env s (k s) \<Longrightarrow> P env s (checked_wlans i ws k s)"
  by (induction i ws k rule: checked_wlans.induct) (auto intro: kept_bad)

lemma kept_asked: "code \<in> {200, 201} \<Longrightarrow> P env s (asked code f q s)"
  unfolding asked_def by (rule unchanged) (use error_statuses in \<open>fastforce simp: answer_status api_statuses_def split: sum.splits\<close>)

lemma kept_ran:
  assumes "code \<in> {200, 201}" "Q env s (verb_result (v s))"
  shows "P env s (ran code f v s)"
proof -
  have "P env s (fst (v s), answer code f (snd (v s)))"
    using assms by (intro performed [of env s "fst (v s)" "snd (verb_result (v s))" code]) (auto simp: verb_result_def answer_status split: sum.splits)
  then show ?thesis by (simp add: ran_def case_prod_beta)
qed

lemmas kept = kept_bad kept_mac kept_body kept_checked kept_wlans kept_asked kept_ran devices blocked radios wlans

lemma endpoint_kept: "P (ac_env cx) s (endpoint cx rq r s)"
proof (cases r)
  case (RPutRadio m radio)
  have "P (ac_env cx) s ((\<lambda>s. case readJSON (rq_intent rq) of Inl e \<Rightarrow> bad (''invalid JSON body: '' @ e) s
      | Inr up \<Rightarrow> ran 200 PRadio (PutDeviceRadioIntent (ac_env cx) mac radio up) s) s)" for mac
    by (auto intro!: kept split: sum.splits)
  with RPutRadio show ?thesis by (auto simp: put_radio_def intro!: kept)
next
  case (RPutWlan m name)
  have "P (ac_env cx) s ((if w_name w \<noteq> [] \<and> w_name w \<noteq> name then bad ''name must match path''
      else let w = w\<lparr>w_name := name\<rparr>
        in checked [] (ValidateWlan w) (ran 200 PWlan (UpdateDeviceWlan (ac_env cx) mac name w))) s)" for w mac
    by (auto simp: Let_def intro!: kept)
  with RPutWlan show ?thesis by (auto simp: put_wlan_def intro!: kept)
next
  case RPending
  then show ?thesis by (auto simp: get_pending_def intro: listed split: prod.split)
qed (auto simp: handler_defs Let_def intro!: kept unchanged files_status simp: api_statuses_def split: sum.splits)

lemma serve_kept: "P (ac_env cx) s (serve_http cx rq s)"
  using endpoint_kept unchanged by (simp add: serve_http_def requireToken_def Let_def api_statuses_def writeErr_def writeJSON_def)

end

interpretation api_outcome: api_contract "\<lambda>env. sound (ae_now env)" "\<lambda>env. settled (ae_now env)"
proof unfold_locales
  fix env s ps s'
  assume "ListPending env s = (ps, s')"
  then show "sound (ae_now env) s (s', writeJSON 200 (PPending ps))"
    using readPending_devices by (fastforce simp: ListPending_def sound_def api_statuses_def split: prod.splits)
next
  fix env :: admin_env and s s' :: json_store and err :: "app_error option" and code :: nat and r :: admin_response
  assume "settled (ae_now env) s (s', err)" "code \<in> {200, 201}"
    "rs_status r = (case err of Some e \<Rightarrow> error_status e | None \<Rightarrow> code)"
  then show "sound (ae_now env) s (s', r)"
    using error_statuses by (fastforce simp: sound_def settled_def api_statuses_def split: option.splits)
qed (auto simp: sound_def api_statuses_def intro!: settled_intros)

text \<open>
  C9: every answer of the admin API is accounted for: its status is one of eight, a client error
  (400, 401, 404, 409) has changed no device record, and a success that changed one has written the store's
  file, which holds exactly the records now in memory.
\<close>

theorem api_outcomes:
  assumes "serve_http cx rq s = (s', rs)"
  shows "rs_status rs \<in> {200, 201, 400, 401, 404, 409, 500, 502}
    \<and> (rs_status rs \<in> {400, 401, 404, 409} \<longrightarrow> db_devices (js_db s') = db_devices (js_db s))
    \<and> (rs_status rs \<in> {200, 201} \<and> db_devices (js_db s') \<noteq> db_devices (js_db s)
        \<longrightarrow> (\<exists>m. js_file s' = Some (snapshot (ae_now (ac_env cx)) m) \<and> db_devices m = db_devices (js_db s')))"
  using api_outcome.serve_kept [of cx s rq] assms by (auto simp: sound_def api_statuses_def on_disk_def)

section \<open>The token\<close>

text \<open>
  C10: without the configured token nothing of the controller is read or changed: the store stays as it
  is, and the answer is the same whatever the store, the clock, the event log, the push lane and the
  metrics registry (which names every device) are; it depends on the request and the console's embedded
  files alone.
\<close>

theorem token_isolates:
  assumes "ac_token cx \<noteq> []" "rq_auth rq \<noteq> ''Bearer '' @ ac_token cx"
    and "ac_token cx' = ac_token cx" "ac_dist cx' = ac_dist cx"
  shows "fst (serve_http cx rq s) = s \<and> snd (serve_http cx rq s) = snd (serve_http cx' rq s')"
  using assms by (auto simp: serve_http_def requireToken_def token_exact is_open_def get_root_def Let_def)

section \<open>The boundary covers the fences\<close>

text \<open>A verb refuses with a conflict only when its change did.\<close>

lemma saveIntent_conflict:
  assumes "saveIntent env mac mode change project s = (s', Inl e)" "error_status e = 409"
  shows "\<exists>d. change d = Inl e"
proof -
  obtain c where c: "CanonicalMAC mac = Inr c"
    using assms by (cases "CanonicalMAC mac") (auto simp: saveIntent_def unknownDevice_def)
  then have "intent_cycle env change project (seeded c s) = Inl e"
    using assms by (auto simp: saveIntent_def unknownDevice_def Let_def split: prod.splits option.splits store_error.splits sum.splits)
  then show ?thesis
    using assms(2) by (cases "change (seeded c s)")
      (auto simp: intent_cycle_def mintCfgVersion_def split: prod.splits if_splits option.splits)
qed

lemma viewed_Inl: "viewed env x = (s', Inl e) \<Longrightarrow> x = (s', Inl e)"
  by (cases x) (auto simp: viewed_def split: sum.splits)

definition patch_checked :: "device_patch \<Rightarrow> bool" where
  "patch_checked p \<longleftrightarrow> pred_option (\<lambda>v. ValidateSiteID v = []) (pa_site_id p)
     \<and> pred_option (\<lambda>v. ValidateDeviceName v = []) (pa_name p)
     \<and> pred_option (\<lambda>v. ValidateLEDOverride v = []) (pa_led_override p)
     \<and> pred_option (\<lambda>v. ValidateLEDOverrideColorBrightness v = []) (pa_led_brightness p)
     \<and> pred_option (\<lambda>v. ValidateRegulatoryCountryCode v = []) (pa_country_code p)
     \<and> pred_option (\<lambda>v. ValidateSSHPublicKeyLines v = None) (pa_ssh_keys p)"

lemma and_then_total: "\<exists>y. x = Inr y \<Longrightarrow> (\<And>y. \<exists>z. f y = Inr z) \<Longrightarrow> \<exists>z. and_then x f = Inr z"
  by auto

lemma stage_total:
  "pred_option (\<lambda>v. ValidateDeviceName v = []) vn \<Longrightarrow> \<exists>y. supplied vn patch_name x = Inr y"
  "pred_option (\<lambda>v. ValidateSiteID v = []) vs \<Longrightarrow> \<exists>y. supplied vs patch_site x = Inr y"
  "pred_option (\<lambda>v. ValidateLEDOverride v = []) vl \<Longrightarrow> \<exists>y. supplied vl patch_led x = Inr y"
  "pred_option (\<lambda>v. ValidateLEDOverrideColorBrightness v = []) vb \<Longrightarrow> \<exists>y. supplied vb patch_brightness x = Inr y"
  "\<exists>y. supplied vc patch_color x = Inr y"
  "\<exists>y. supplied vp patch_password x = Inr y"
  "pred_option (\<lambda>v. ValidateRegulatoryCountryCode v = []) vr \<Longrightarrow> \<exists>y. supplied vr patch_country x = Inr y"
  "pred_option (\<lambda>v. ValidateSSHPublicKeyLines v = None) vk \<Longrightarrow> \<exists>y. supplied vk patch_keys x = Inr y"
  by (cases x; auto simp: supplied_def patch_name_def patch_site_def patch_led_def patch_brightness_def patch_color_def
      patch_password_def patch_country_def patch_keys_def fenced_def Let_def split: option.splits)+

lemma patch_checked_passes: "patch_checked p \<Longrightarrow> \<exists>x. patch_change p d = Inr x"
  unfolding patch_checked_def patch_change_def by (intro and_then_total stage_total) auto

lemma ran_conflict: "rs_status (snd (ran code f v s)) = 409 \<Longrightarrow> code \<noteq> 409 \<Longrightarrow> \<exists>s' e. v s = (s', Inl e) \<and> error_status e = 409"
  by (auto simp: ran_def answer_status split: prod.splits sum.splits)

lemma no_conflict_intro:
  "rs_status (snd (k s)) \<noteq> 409 \<Longrightarrow> rs_status (snd (checked pre msg k s)) \<noteq> 409"
  "(\<And>m. rs_status (snd (kk m s)) \<noteq> 409) \<Longrightarrow> rs_status (snd (with_mac raw kk s)) \<noteq> 409"
  "(\<And>v. rs_status (snd (kb v s)) \<noteq> 409) \<Longrightarrow> rs_status (snd (with_body b kb s)) \<noteq> 409"
  by (auto simp: checked_def with_mac_def with_mac_at_def with_body_def bad_def split: sum.splits)

lemma patch_no_conflict: "rs_status (snd (patch_device cx rq raw s)) \<noteq> 409"
  unfolding patch_device_def
proof (intro no_conflict_intro(2,3) notI)
  fix mac p
  let ?run = "ran 200 PDevice (PatchDevice (ac_env cx) mac p)"
  assume a: "rs_status (snd (checked_opt ValidateSiteID (pa_site_id p) (checked_opt ValidateDeviceName (pa_name p)
      (checked_opt ValidateLEDOverride (pa_led_override p)
      (checked_opt ValidateLEDOverrideColorBrightness (pa_led_brightness p)
      (checked_opt ValidateRegulatoryCountryCode (pa_country_code p) (checked_keys (pa_ssh_keys p) ?run))))) s)) = 409"
  then have "patch_checked p" "rs_status (snd (?run s)) = 409"
    by (auto simp: patch_checked_def checked_opt_def checked_keys_def checked_def bad_def split: option.splits if_splits)
  moreover from ran_conflict [OF this(2)] obtain s' e where "PatchDevice (ac_env cx) mac p s = (s', Inl e)" "error_status e = 409" by auto
  then obtain d where "patch_change p d = Inl e"
    using viewed_Inl saveIntent_conflict unfolding PatchDevice_def by blast
  ultimately show False using patch_checked_passes [of p d] by simp
qed

lemma create_no_conflict: "rs_status (snd (post_device cx rq s)) \<noteq> 409"
  unfolding post_device_def Let_def
proof (intro no_conflict_intro(2,3) notI)
  fix up mac
  let ?up = "up\<lparr>up_mac := mac\<rparr>" and ?run = "ran 201 PDevice (CreateDevice (ac_env cx) (up\<lparr>up_mac := mac\<rparr>))"
  assume a: "rs_status (snd (checked [] (if up_name ?up \<noteq> [] then ValidateDeviceName (up_name ?up) else [])
      (checked [] (if up_site_id ?up \<noteq> [] then ValidateSiteID (up_site_id ?up) else []) ?run) s)) = 409"
  then have v: "up_name up \<noteq> [] \<longrightarrow> ValidateDeviceName (up_name up) = []" "up_site_id up \<noteq> [] \<longrightarrow> ValidateSiteID (up_site_id up) = []"
    and "rs_status (snd (?run s)) = 409"
    by (auto simp: checked_def bad_def split: if_splits)
  from ran_conflict [OF this(3)] obtain s' e where "CreateDevice (ac_env cx) ?up s = (s', Inl e)" "error_status e = 409" by auto
  then obtain d where "create_change (ae_now (ac_env cx)) ?up d = Inl e"
    using viewed_Inl saveIntent_conflict unfolding CreateDevice_def by blast
  with v show False by (auto simp: create_change_def fenced_def Let_def split: if_splits)
qed

lemma cmd_no_conflict: "rs_status (snd (post_cmd cx rq raw s)) \<noteq> 409"
  unfolding post_cmd_def
proof (intro no_conflict_intro(2,3) notI)
  fix mac cmd
  let ?run = "ran 200 PDevice (EnqueueDeviceCmd (ac_env cx) mac cmd)"
  assume "rs_status (snd (checked ''invalid cmd: '' (ValidateCmdString cmd) ?run s)) = 409"
  then have v: "ValidateCmdString cmd = []" and "rs_status (snd (?run s)) = 409"
    by (auto simp: checked_def bad_def split: if_splits)
  from ran_conflict [OF this(2)] obtain s' e where "EnqueueDeviceCmd (ac_env cx) mac cmd s = (s', Inl e)" "error_status e = 409" by auto
  then obtain d where "cmd_change cmd d = Inl e"
    using viewed_Inl saveIntent_conflict unfolding EnqueueDeviceCmd_def by blast
  with v show False by (auto simp: cmd_change_def fenced_def)
qed

text \<open>
  C12: the route-first checks leave the application's fences nothing to refuse: a device patch, a device
  registration and a queued command never answer 409 over HTTP, since what the backend would refuse is
  a 400 before it is called.
\<close>

theorem boundary_covers_fences:
  "rs_status (snd (patch_device cx rq raw s)) \<noteq> 409 \<and> rs_status (snd (post_device cx rq s)) \<noteq> 409
    \<and> rs_status (snd (post_cmd cx rq raw s)) \<noteq> 409"
  using patch_no_conflict create_no_conflict cmd_no_conflict by blast

section \<open>A request\<close>

definition no_body :: "'a json_body" where
  "no_body = \<lparr>jb_first = Inl ''EOF'', jb_second = CleanEOF\<rparr>"

definition plain_request :: "string \<Rightarrow> string list \<Rightarrow> string \<Rightarrow> admin_request" where
  "plain_request method segs auth = \<lparr>rq_method = method, rq_path = concat (map (\<lambda>s. CHR ''/'' # s) segs), rq_segments = segs,
     rq_auth = auth, rq_query = (\<lambda>_. []), rq_upsert = no_body, rq_patch = no_body, rq_cmd = no_body,
     rq_block = no_body, rq_intent = no_body, rq_wlans = no_body, rq_wlan = no_body\<rparr>"

definition demo_ctx :: api_ctx where
  "demo_ctx = \<lparr>ac_token = ''s3cret'', ac_env = demo_env GNil, ac_lane = None, ac_history = None,
     ac_metrics = no_metrics, ac_adoptions = (0, 0), ac_rfc3339 = (\<lambda>_. None), ac_dist = (\<lambda>_. None)\<rparr>"

theorem api_outcomes_witness:
  "\<exists>s' rs. serve_http demo_ctx (plain_request ''DELETE'' [''api'', ''v1'', ''devices'', ''zz''] ''Bearer s3cret'') (demo_store demo_device) = (s', rs)
    \<and> rs_status rs = 400 \<and> db_devices (js_db s') = db_devices (js_db (demo_store demo_device))"
proof -
  let ?rq = "plain_request ''DELETE'' [''api'', ''v1'', ''devices'', ''zz''] ''Bearer s3cret''"
  obtain s' rs where run: "serve_http demo_ctx ?rq (demo_store demo_device) = (s', rs)" by fastforce
  have "rs_status (snd (serve_http demo_ctx ?rq (demo_store demo_device))) = 400" by code_simp
  with run api_outcomes [OF run] show ?thesis by simp
qed

theorem token_isolates_witness:
  "snd (serve_http demo_ctx (plain_request ''GET'' [''api'', ''v1'', ''devices''] ''Bearer guess'') (demo_store demo_device))
    = snd (serve_http demo_ctx (plain_request ''GET'' [''api'', ''v1'', ''devices''] ''Bearer guess'') \<lparr>js_db = newDB, js_file = None\<rparr>)"
  by (rule token_isolates [THEN conjunct2]) (simp_all add: demo_ctx_def plain_request_def)

end
