(* ===== verification/Controller.thy ===== *)
theory Controller
  imports App_Laws Api_Laws App_Poll Discovery
begin

text \<open>
  The controller as one machine over its store: informs, admin requests, discovery datagrams and the
  sweep's cycles, in any order. What each lane may write of a record, and what every history keeps.
\<close>

section \<open>What an admin request may write\<close>

text \<open>
  What belongs to the device protocol alone: identity, keys, the reported configuration version, and
  every row of the \<^verbatim>\<open>Extra\<close> map that is not admin-owned.
\<close>

definition same_side :: "device \<Rightarrow> device \<Rightarrow> bool" where
  "same_side d d' \<longleftrightarrow> dev_mac d' = dev_mac d \<and> keys_of d' = keys_of d \<and> dev_applied_cfg d' = dev_applied_cfg d
     \<and> (\<forall>k. k \<notin> set adminOwnedKeys \<longrightarrow> jget (ext d') k = jget (ext d) k)"

lemma same_side_refl [simp]: "same_side d d"
  by (simp add: same_side_def)

lemma same_side_trans: "same_side a b \<Longrightarrow> same_side b c \<Longrightarrow> same_side a c"
  by (simp add: same_side_def)

lemma same_side_keys: "same_side d d' \<Longrightarrow> keys_inv d \<Longrightarrow> keys_inv d'"
  using keys_inv_cong [of d' d] by (simp add: same_side_def)

text \<open>From one store to the next: a record is an old one or a fresh one, on the device's side.\<close>

definition admin_kept :: "json_store \<Rightarrow> json_store \<Rightarrow> bool" where
  "admin_kept s s' \<longleftrightarrow> (db_inv (js_db s) \<longrightarrow> db_inv (js_db s') \<and>
     (\<forall>c d'. devices_of (js_db s') c = Some d' \<longrightarrow> same_side (opt_or (new_device c) (devices_of (js_db s) c)) d'))"

named_theorems admin_intros "store operations of the admin's verbs"

lemma admin_kept_refl [admin_intros]: "admin_kept s s"
  by (simp add: admin_kept_def)

lemma admin_kept_same:
  "(db_inv (js_db s) \<Longrightarrow> db_inv (js_db s')) \<Longrightarrow> devices_of (js_db s') = devices_of (js_db s) \<Longrightarrow> admin_kept s s'"
  by (simp add: admin_kept_def)

lemma admin_kept_before:
  "(db_inv (js_db s) \<Longrightarrow> db_inv (js_db s1)) \<Longrightarrow> devices_of (js_db s1) = devices_of (js_db s) \<Longrightarrow> admin_kept s1 s' \<Longrightarrow> admin_kept s s'"
  by (simp add: admin_kept_def)

lemma admin_kept_after:
  "admin_kept s s1 \<Longrightarrow> (db_inv (js_db s1) \<Longrightarrow> db_inv (js_db s')) \<Longrightarrow> devices_of (js_db s') = devices_of (js_db s1) \<Longrightarrow> admin_kept s s'"
  by (simp add: admin_kept_def)

context admin_verb
begin

lemma save_kept: "admin_kept s (fst (saveIntent env mac mode change project s))"
  unfolding admin_kept_def
proof (intro impI)
  assume i: "db_inv (js_db s)"
  obtain s' r where run: "saveIntent env mac mode change project s = (s', r)" by fastforce
  show "db_inv (js_db (fst (saveIntent env mac mode change project s)))
      \<and> (\<forall>c d'. devices_of (js_db (fst (saveIntent env mac mode change project s))) c = Some d'
        \<longrightarrow> same_side (opt_or (new_device c) (devices_of (js_db s) c)) d')"
    using i run
  proof (cases rule: save_cases)
    case refused
    with i run show ?thesis by simp
  next
    case (stored c d' out)
    then have c: "canonicalMAC c = c" using CanonicalMAC_D by (simp add: mac_simps)
    have "seeded c s = opt_or (new_device c) (devices_of (js_db s) c)"
      by (simp add: seeded_def db_Get_devices c split: option.split)
    then have "same_side (opt_or (new_device c) (devices_of (js_db s) c)) d'"
      using cycle_fields [OF stored(3)] by (simp add: same_side_def keys_of_def)
    then show ?thesis using stored(4,5) run by auto
  qed
qed

end

lemmas saves_kept [admin_intros] = patch_verb.save_kept create_verb.save_kept block_verb.save_kept unblock_verb.save_kept
  intent_verb.save_kept reboot_verb.save_kept reset_verb.save_kept cmd_verb.save_kept put_wlans_verb.save_kept
  create_wlan_verb.save_kept update_wlan_verb.save_kept delete_wlan_verb.save_kept adopt_verb.save_kept

lemma viewed_fst [simp]: "fst (viewed env x) = fst x"
  by (simp add: viewed_def)

lemma verbs_kept [admin_intros]:
  "admin_kept s (fst (PatchDevice env mac p s))"
  "admin_kept s (fst (CreateDevice env up s))"
  "admin_kept s (fst (BlockClient env mac client s))"
  "admin_kept s (fst (UnblockClient env mac client s))"
  "admin_kept s (fst (PutDeviceRadioIntent env mac radio it s))"
  "admin_kept s (fst (DeleteDeviceRadioIntent env mac radio s))"
  "admin_kept s (fst (RebootDevice env mac s))"
  "admin_kept s (fst (FactoryResetDevice env mac s))"
  "admin_kept s (fst (EnqueueDeviceCmd env mac cmd s))"
  "admin_kept s (fst (PutDeviceWireless env mac ws s))"
  "admin_kept s (fst (CreateDeviceWlan env mac w s))"
  "admin_kept s (fst (UpdateDeviceWlan env mac name w s))"
  "admin_kept s (fst (DeleteDeviceWlan env mac name s))"
  by (auto simp: PatchDevice_def CreateDevice_def BlockClient_def UnblockClient_def blocked_save_def
      PutDeviceRadioIntent_def DeleteDeviceRadioIntent_def putRadioIntent_def RebootDevice_def FactoryResetDevice_def
      armLifecycle_def EnqueueDeviceCmd_def PutDeviceWireless_def CreateDeviceWlan_def UpdateDeviceWlan_def
      DeleteDeviceWlan_def Let_def split: sum.splits intro!: admin_intros)

lemma DeleteDevice_kept [admin_intros]: "admin_kept s (fst (DeleteDevice env mac s))"
proof (cases "CanonicalMAC mac")
  case (Inl e)
  then show ?thesis by (simp add: DeleteDevice_def admin_intros)
next
  case (Inr c)
  obtain s' err where d: "js_Delete (ae_now env) (ae_io env) c s = (s', err)" by fastforce
  have "admin_kept s s'"
  proof (cases "db_Delete c (js_db s)")
    case (Inl e)
    with d have "s' = s" by (simp add: js_Delete_def js_after_def)
    then show ?thesis by (simp add: admin_intros)
  next
    case m: (Inr m)
    then have "devices_of m = (devices_of (js_db s))(canonicalMAC c := None)"
      by (auto simp: db_Delete_def Let_def devices_of_def fun_eq_iff row_simps split: option.splits if_splits)
    moreover have "js_db s' = m" using d m by (auto simp: js_Delete_def js_after_def js_save_def split: if_splits)
    ultimately show ?thesis using db_Delete_inv m by (auto simp: admin_kept_def split: if_splits)
  qed
  moreover have "fst (DeleteDevice env mac s) = s'"
    by (simp add: DeleteDevice_def Inr d split: option.split store_error.split)
  ultimately show ?thesis by simp
qed

lemma push_inv: "db_inv (js_db s) \<Longrightarrow> db_inv (js_db (fst (pushSetInform lane env mac s)))"
  using readPending_parts(2) by (auto simp: pushSetInform_def split: option.splits prod.splits)

lemma AdoptPending_kept [admin_intros]: "admin_kept s (fst (AdoptPending lane env mac s))"
proof -
  obtain pend s1 where p: "pending_in_cycle env mac s = (pend, s1)" by fastforce
  then have s1: "db_inv (js_db s) \<Longrightarrow> db_inv (js_db s1)" "devices_of (js_db s1) = devices_of (js_db s)"
    using readPending_parts(2) devices_readPending by (auto simp: pending_in_cycle_def split: sum.splits if_splits)
  obtain s2 r where w: "saveIntent env mac SavePending (adopt_change (ae_now env) pend) (\<lambda>_. adopt_echo) s1 = (s2, r)" by fastforce
  then have k: "admin_kept s s2"
    using adopt_verb.save_kept [of s1 env mac SavePending "ae_now env" pend "\<lambda>_. adopt_echo"] admin_kept_before [OF s1] by simp
  have "fst (AdoptPending lane env mac s) = (case r of Inl e \<Rightarrow> s2 | Inr rec \<Rightarrow> fst (pushSetInform lane env (dev_mac rec) s2))"
    by (simp add: AdoptPending_def p w split: sum.split prod.split option.split)
  with k admin_kept_after [OF k push_inv push_devices] show ?thesis by (cases r) simp_all
qed

interpretation api_writes: api_contract "\<lambda>env s x. admin_kept s (fst x)" "\<lambda>env s x. admin_kept s (fst x)"
proof unfold_locales
  fix env :: admin_env and s s' :: json_store and ps :: "pending_view list"
  assume "ListPending env s = (ps, s')"
  then show "admin_kept s (fst (s', writeJSON 200 (PPending ps)))"
    using readPending_parts(2) devices_readPending by (auto simp: ListPending_def split: prod.splits intro!: admin_kept_same)
qed (auto simp: verb_result_def intro!: admin_intros)

text \<open>
  C8: no admin request, whatever it asks, writes what belongs to the device protocol: a record that
  exists keeps its MAC, its keys, its confirmation, the configuration version the device reported and every
  row that is not admin-owned, and a record the request creates starts without keys.
\<close>

theorem requests_spare_device_side:
  assumes "db_inv (js_db s)" "serve_http cx rq s = (s', rs)" "devices_of (js_db s') c = Some d'"
    and "d = (case devices_of (js_db s) c of Some d \<Rightarrow> d | None \<Rightarrow> new_device c)"
  shows "db_inv (js_db s') \<and> dev_mac d' = dev_mac d \<and> dev_x_authkey d' = dev_x_authkey d \<and> dev_authkeys d' = dev_authkeys d
    \<and> dev_key_confirmed d' = dev_key_confirmed d \<and> dev_applied_cfg d' = dev_applied_cfg d
    \<and> (\<forall>k. k \<notin> set adminOwnedKeys \<longrightarrow> jget (ext d') k = jget (ext d) k)"
  using api_writes.serve_kept [of s cx rq] assms
  by (auto simp: admin_kept_def same_side_def keys_of_def opt_or_def split: option.splits)

lemma requests_spare_device_side_witness:
  "\<exists>s' rs d'. serve_http demo_ctx (plain_request ''POST'' [''api'', ''v1'', ''devices'', ''aabbcc001122'', ''reboot''] ''Bearer s3cret'')
      (demo_store (keyed_device StateAdopted [])) = (s', rs)
    \<and> devices_of (js_db s') ''aabbcc001122'' = Some d' \<and> armedCommand d' = ''reboot'' \<and> dev_x_authkey d' = demo_key"
proof -
  let ?rq = "plain_request ''POST'' [''api'', ''v1'', ''devices'', ''aabbcc001122'', ''reboot''] ''Bearer s3cret''"
    and ?s = "demo_store (keyed_device StateAdopted [])"
  obtain s' rs where run: "serve_http demo_ctx ?rq ?s = (s', rs)" by fastforce
  have "case devices_of (js_db (fst (serve_http demo_ctx ?rq ?s))) ''aabbcc001122'' of
      None \<Rightarrow> False | Some d \<Rightarrow> armedCommand d = ''reboot''" by code_simp
  then obtain d' where d: "devices_of (js_db s') ''aabbcc001122'' = Some d'" "armedCommand d' = ''reboot''"
    using run by (auto split: option.splits)
  have m: "dev_mac (keyed_device StateAdopted []) = ''aabbcc001122''" by (simp add: keyed_device_def new_device_def demo_mac_def)
  note f = demo_store_facts [OF m]
  have "dev_x_authkey d' = dev_x_authkey (keyed_device StateAdopted [])"
    using requests_spare_device_side [OF f [THEN conjunct1] run d(1) refl] f by simp
  with run d show ?thesis by (auto simp: keyed_device_def)
qed

section \<open>The machine\<close>

text \<open>One inform as it reaches the server, with everything that comes from outside.\<close>

record inform_event =
  ev_engine :: engine
  ev_crypto :: crypto
  ev_tick :: tick
  ev_ivs :: "bytes option \<times> bytes option"
  ev_raw :: bytes

definition serve :: "bool \<Rightarrow> server \<Rightarrow> inform_event \<Rightarrow> server" where
  "serve allowPlain s ev = fst (handleInform allowPlain (ev_engine ev) (ev_crypto ev) (ev_tick ev)
     (fst (ev_ivs ev)) (snd (ev_ivs ev)) (ev_raw ev) s)"

text \<open>
  What the lanes share is the store; the noop schedule is the inform lane's, the sightings are the
  discovery lane's and the poll's memory is the sweep's own. A sweep runs as separate locked cycles, so its
  step is one cycle, over whatever record its snapshot holds.
\<close>

record controller =
  ct_server :: server
  ct_sightings :: sightings
  ct_poller :: poller

datatype ctl_event =
    Inform bool inform_event
  | Request api_ctx admin_request
  | Datagram disco_env int "udp_addr option" bytes
  | SweepCycle int bool device

definition ct_store :: "controller \<Rightarrow> json_store" where
  "ct_store c = sv_store (ct_server c)"

definition with_store :: "json_store \<Rightarrow> controller \<Rightarrow> controller" where
  "with_store s c = c\<lparr>ct_server := (ct_server c)\<lparr>sv_store := s\<rparr>\<rparr>"

fun ctl_step :: "controller \<Rightarrow> ctl_event \<Rightarrow> controller" where
  "ctl_step c (Inform allowPlain ev) = c\<lparr>ct_server := serve allowPlain (ct_server c) ev\<rparr>"
| "ctl_step c (Request cx rq) = with_store (fst (serve_http cx rq (ct_store c))) c"
| "ctl_step c (Datagram E now src b) =
     (let d = serve_datagram E \<lparr>dc_sightings = ct_sightings c, dc_store = ct_store c\<rparr> (now, src, b)
      in with_store (dc_store d) (c\<lparr>ct_sightings := dc_sightings d\<rparr>))"
| "ctl_step c (SweepCycle now io dev) =
     (let p = sweep_one now io dev ((ct_poller c)\<lparr>po_store := ct_store c\<rparr>)
      in with_store (po_store p) (c\<lparr>ct_poller := p\<rparr>))"

fun sound_event :: "ctl_event \<Rightarrow> bool" where
  "sound_event (Inform _ ev) = key_source (ev_engine ev)"
| "sound_event _ = True"

fun is_inform :: "ctl_event \<Rightarrow> bool" where
  "is_inform (Inform _ _) = True"
| "is_inform _ = False"

lemma ct_store_with [simp]: "ct_store (with_store s c) = s"
  by (simp add: ct_store_def with_store_def)

text \<open>Whatever is not an inform stays on the admin's side of the record.\<close>

lemma step_kept:
  assumes "\<not> is_inform e"
  shows "admin_kept (ct_store c) (ct_store (ctl_step c e))"
proof (cases e)
  case (Request cx rq)
  then show ?thesis using api_writes.serve_kept [of "ct_store c" cx rq] by simp
next
  case (Datagram E now src b)
  let ?d = "\<lparr>dc_sightings = ct_sightings c, dc_store = ct_store c\<rparr>"
  have i: "db_inv (js_db (ct_store c)) \<Longrightarrow> db_inv (js_db (dc_store (serve_datagram E ?d (now, src, b))))"
    using disco_machine.step_inv [of ?d E "(now, src, b)"] by simp
  have "db_devices (js_db (dc_store (serve_datagram E ?d (now, src, b)))) = db_devices (js_db (ct_store c))"
    by (auto simp: serve_datagram_def handleDiscoveryPacketConn_def record_candidate Let_def split: prod.splits if_splits)
  with i show ?thesis by (simp add: Datagram Let_def admin_kept_same devices_of_def fun_eq_iff)
next
  case (SweepCycle now io dev)
  let ?p = "(ct_poller c)\<lparr>po_store := ct_store c\<rparr>"
  obtain s err where u: "js_Update now io (dev_mac dev) (sweep_fn now) (ct_store c) = (s, err)" by fastforce
  have "po_store (sweep_one now io dev ?p) = (if stale now dev then s else ct_store c)"
    using u by (simp add: sweep_one_eq)
  moreover have "admin_kept (ct_store c) s"
    unfolding admin_kept_def
  proof (intro impI)
    assume "db_inv (js_db (ct_store c))"
    from this u show "db_inv (js_db s) \<and> (\<forall>k d'. devices_of (js_db s) k = Some d' \<longrightarrow>
        same_side (opt_or (new_device k) (devices_of (js_db (ct_store c)) k)) d')"
    proof (cases rule: sweep_cycle)
      case none
      then show ?thesis by simp
    next
      case lost
      then show ?thesis by (auto simp: same_side_def keys_of_def ext_def)
    qed
  qed
  ultimately show ?thesis by (simp add: SweepCycle Let_def admin_intros)
qed (use assms in simp)

lemma kept_server_inv:
  assumes "server_inv s" "admin_kept (sv_store s) st"
  shows "server_inv (s\<lparr>sv_store := st\<rparr>)"
proof -
  have "keys_inv (new_device k)" for k by (simp add: keys_inv_def new_device_def)
  then have "keys_inv (opt_or (new_device k) (devices_of (js_db (sv_store s)) k))" for k
    using assms(1) by (cases "devices_of (js_db (sv_store s)) k") (auto simp: server_inv_def)
  then have "keys_inv d" if "devices_of (js_db st) k = Some d" for k d
    using assms that same_side_keys by (fastforce simp: admin_kept_def server_inv_def)
  then show ?thesis using assms by (simp add: server_inv_def admin_kept_def)
qed

lemma step_server:
  "\<not> is_inform e \<Longrightarrow> ct_server (ctl_step c e) = (ct_server c)\<lparr>sv_store := ct_store (ctl_step c e)\<rparr>"
  by (cases e) (simp_all add: with_store_def ct_store_def Let_def)

lemma step_inv:
  assumes "server_inv (ct_server c)" "sound_event e"
  shows "server_inv (ct_server (ctl_step c e))"
proof (cases "is_inform e")
  case True
  then obtain allowPlain ev where "e = Inform allowPlain ev" by (cases e) auto
  then show ?thesis using assms handleInform_inv by (simp add: serve_def)
next
  case False
  show ?thesis unfolding step_server [OF False]
    using step_kept [OF False, of c] by (intro kept_server_inv assms(1)) (simp only: ct_store_def [of c])
qed

text \<open>
  C1: the controller's state stays well formed whatever happens to it: after any interleaving of informs,
  admin requests, discovery datagrams and sweep cycles, every record is stored under its own canonical
  non-empty MAC, no MAC twice, every key assignment is consistent, and at most 100 candidates are pending.
\<close>

theorem controller_well_formed:
  assumes "server_inv (ct_server c)" "list_all sound_event evs" "m = js_db (ct_store (foldl ctl_step c evs))"
  shows "distinct (map fst (db_devices m)) \<and> length (db_pending m) \<le> 100
    \<and> (\<forall>k d. devices_of m k = Some d \<longrightarrow> k \<noteq> [] \<and> canonicalMAC k = k \<and> dev_mac d = k \<and> keys_inv d)"
proof -
  have "server_inv (ct_server (foldl ctl_step c evs))"
    by (rule foldl_mono_inv [where P = "\<lambda>c. server_inv (ct_server c)"]) (use assms(1,2) step_inv in \<open>auto simp: list_all_iff\<close>)
  then have i: "db_inv m" "\<And>k d. devices_of m k = Some d \<Longrightarrow> keys_inv d"
    unfolding server_inv_def assms(3) ct_store_def by blast+
  then have "k \<noteq> [] \<and> canonicalMAC k = k \<and> dev_mac d = k" if "devices_of m k = Some d" for k d
    using that by (auto simp: db_inv_def devices_of_def jget_def dest!: map_of_SomeD)
  with i show ?thesis by (simp add: db_inv_def maxPending_def)
qed

text \<open>The record of a MAC after the first \<open>n\<close> events of a history.\<close>

definition record_at :: "controller \<Rightarrow> ctl_event list \<Rightarrow> string \<Rightarrow> nat \<Rightarrow> device option" where
  "record_at c evs k n = devices_of (js_db (ct_store (foldl ctl_step c (take n evs)))) k"

lemma record_at_snoc: "n \<le> length evs \<Longrightarrow> record_at c (evs @ [e]) k n = record_at c evs k n"
  by (simp add: record_at_def)

lemma record_at_ends:
  "record_at c evs k 0 = devices_of (js_db (ct_store c)) k"
  "record_at c evs k (length evs) = devices_of (js_db (ct_store (foldl ctl_step c evs))) k"
  by (simp_all add: record_at_def)

text \<open>Along a history without informs.\<close>

lemma quiet_history:
  assumes "db_inv (js_db (ct_store c))" "list_all (\<lambda>e. \<not> is_inform e) evs"
  shows "db_inv (js_db (ct_store (foldl ctl_step c evs)))
    \<and> (\<forall>k d'. record_at c evs k (length evs) = Some d' \<longrightarrow>
      (if \<forall>n \<le> length evs. record_at c evs k n \<noteq> None then \<exists>d. record_at c evs k 0 = Some d \<and> same_side d d'
       else same_side (new_device k) d'))"
  using assms
proof (induction evs rule: rev_induct)
  case Nil
  then show ?case by (auto simp: record_at_def)
next
  case (snoc e evs)
  let ?c = "foldl ctl_step c evs" and ?evs = "evs @ [e]"
  have ih: "db_inv (js_db (ct_store ?c))" "\<And>k d'. record_at c evs k (length evs) = Some d' \<Longrightarrow>
      (if \<forall>n \<le> length evs. record_at c evs k n \<noteq> None then \<exists>d. record_at c evs k 0 = Some d \<and> same_side d d'
       else same_side (new_device k) d')"
    using snoc by auto
  have k: "admin_kept (ct_store ?c) (ct_store (ctl_step ?c e))" using snoc.prems(2) by (simp add: step_kept)
  have "if \<forall>n \<le> length ?evs. record_at c ?evs k n \<noteq> None then \<exists>d. record_at c ?evs k 0 = Some d \<and> same_side d d'
       else same_side (new_device k) d'" if d': "record_at c ?evs k (length ?evs) = Some d'" for k d'
  proof -
    have now: "same_side (opt_or (new_device k) (record_at c evs k (length evs))) d'"
      using k ih(1) d' unfolding record_at_ends by (simp add: admin_kept_def)
    have all: "(\<forall>n \<le> length ?evs. record_at c ?evs k n \<noteq> None) \<longleftrightarrow> (\<forall>n \<le> length evs. record_at c evs k n \<noteq> None)"
      using d' record_at_snoc [of _ evs c e k] by (auto simp: le_Suc_eq)
    show ?thesis
    proof (cases "record_at c evs k (length evs)")
      case None
      then have "\<not> (\<forall>n \<le> length evs. record_at c evs k n \<noteq> None)" by blast
      then show ?thesis unfolding all using now None by auto
    next
      case (Some d)
      with now have "same_side d d'" by simp
      with ih(2) [OF Some] show ?thesis unfolding all record_at_snoc [OF le0]
        by (auto intro: same_side_trans split: if_splits)
    qed
  qed
  then show ?case using k ih(1) by (simp add: admin_kept_def)
qed

text \<open>
  C2: only an inform keys a device: along any history without informs (admin requests, datagrams and sweep
  cycles in any order), a record that is there at the start and is never deleted has at the end exactly the
  keys, the confirmation and the reported configuration version it had at the start; a record that was
  absent at some moment of the history (created on the way, or deleted and created again) ends with no key,
  no confirmation and no reported version.
\<close>

theorem only_informs_rekey:
  assumes "db_inv (js_db (ct_store c))" "list_all (\<lambda>e. \<not> is_inform e) evs"
    and "devices_of (js_db (ct_store (foldl ctl_step c evs))) k = Some d'"
  shows "if \<forall>n \<le> length evs. devices_of (js_db (ct_store (foldl ctl_step c (take n evs)))) k \<noteq> None
    then \<exists>d. devices_of (js_db (ct_store c)) k = Some d \<and> dev_x_authkey d' = dev_x_authkey d \<and> dev_authkeys d' = dev_authkeys d
        \<and> dev_key_confirmed d' = dev_key_confirmed d \<and> dev_applied_cfg d' = dev_applied_cfg d
    else dev_x_authkey d' = [] \<and> dev_authkeys d' = [] \<and> \<not> dev_key_confirmed d' \<and> dev_applied_cfg d' = []"
proof -
  have "if \<forall>n \<le> length evs. record_at c evs k n \<noteq> None then \<exists>d. record_at c evs k 0 = Some d \<and> same_side d d'
      else same_side (new_device k) d'"
    using quiet_history [OF assms(1,2), THEN conjunct2, THEN spec, of k, THEN spec, of d'] assms(3)
    unfolding record_at_ends(2) by blast
  then show ?thesis unfolding record_at_ends record_at_def
    by (auto simp: same_side_def keys_of_def new_device_def split: if_splits)
qed

definition demo_controller :: "device \<Rightarrow> controller" where
  "demo_controller d = \<lparr>ct_server = \<lparr>sv_store = demo_store d, sv_noop = []\<rparr>, ct_sightings = fresh_sightings,
     ct_poller = \<lparr>po_store = demo_store d, po_prev = [], po_adopts = 0, po_fails = 0\<rparr>\<rparr>"

definition demo_history :: "ctl_event list" where
  "demo_history = [Request demo_ctx (plain_request ''POST'' [''api'', ''v1'', ''devices'', ''aabbcc001122'', ''reboot''] ''Bearer s3cret''),
     SweepCycle 1000 True (keyed_device StateAdopted [])]"

lemma demo_history_result:
  "case devices_of (js_db (ct_store (foldl ctl_step (demo_controller (keyed_device StateAdopted [])) demo_history))) ''aabbcc001122'' of
     None \<Rightarrow> False | Some d \<Rightarrow> armedCommand d = ''reboot''"
  by code_simp

lemma demo_keyed_mac: "dev_mac (keyed_device st xs) = ''aabbcc001122''"
  by (simp add: keyed_device_def new_device_def demo_mac_def)

lemma controller_well_formed_witness:
  "\<exists>d. devices_of (js_db (ct_store (foldl ctl_step (demo_controller (keyed_device StateAdopted [])) demo_history))) ''aabbcc001122'' = Some d
    \<and> armedCommand d = ''reboot'' \<and> keys_inv d"
proof -
  let ?d = "keyed_device StateAdopted []"
  obtain d where d: "devices_of (js_db (ct_store (foldl ctl_step (demo_controller ?d) demo_history))) ''aabbcc001122'' = Some d"
      "armedCommand d = ''reboot''" using demo_history_result by (auto split: option.splits)
  have "demo_key \<noteq> []" by code_simp
  then have "keys_inv ?d" by (auto simp: keyed_device_def new_device_def keys_inv_def)
  then have "server_inv (ct_server (demo_controller ?d))"
    using demo_store_facts [OF demo_keyed_mac, of StateAdopted "[]"]
    by (auto simp: server_inv_def demo_controller_def demo_store_def demo_keyed_mac devices_of_def split: if_splits)
  from controller_well_formed [OF this _ refl, of demo_history] d show ?thesis by (auto simp: demo_history_def)
qed

lemma only_informs_rekey_witness:
  "\<exists>d. devices_of (js_db (ct_store (foldl ctl_step (demo_controller (keyed_device StateAdopted [])) demo_history))) ''aabbcc001122'' = Some d
    \<and> armedCommand d = ''reboot'' \<and> dev_x_authkey d = demo_key"
proof -
  let ?d = "keyed_device StateAdopted []"
  let ?at = "\<lambda>n. devices_of (js_db (ct_store (foldl ctl_step (demo_controller ?d) (take n demo_history)))) ''aabbcc001122''"
  note s = demo_store_facts [OF demo_keyed_mac, of StateAdopted "[]"]
  obtain d where d: "devices_of (js_db (ct_store (foldl ctl_step (demo_controller ?d) demo_history))) ''aabbcc001122'' = Some d"
      "armedCommand d = ''reboot''" using demo_history_result by (auto split: option.splits)
  have start: "?at 0 = Some ?d" "db_inv (js_db (ct_store (demo_controller ?d)))"
    using s by (simp_all add: demo_controller_def ct_store_def)
  have "?at 1 \<noteq> None" by code_simp
  moreover have "length demo_history = 2" by (simp add: demo_history_def)
  moreover have "n = 0 \<or> n = 1 \<or> n = 2" if "n \<le> 2" for n :: nat using that by auto
  moreover have "?at 2 \<noteq> None" using d(1) by (simp add: demo_history_def)
  ultimately have "\<forall>n \<le> length demo_history. ?at n \<noteq> None" using start(1) by (metis option.distinct(1))
  with only_informs_rekey [OF start(2) _ d(1)] d start(1) show ?thesis
    by (auto simp: demo_history_def keyed_device_def)
qed

end
