(* ===== verification/Startup.thy ===== *)
theory Startup
  imports Api_Laws Event_History System_Cfg Inform_Codec
begin

text \<open>
  The start of the process, \<^verbatim>\<open>cmd/openunifi\<close>: the flags and their environment defaults, the checks
  \<^verbatim>\<open>run\<close> makes before anything is opened, and the settings the lanes get. \<^verbatim>\<open>net.ParseIP\<close> with
  \<^verbatim>\<open>IsLoopback\<close>, the URL parser and \<^verbatim>\<open>time.ParseDuration\<close> are parameters.
\<close>

section \<open>Flags\<close>

datatype log_level = LevelDebug | LevelInfo | LevelWarn | LevelError

definition parseLevel :: "string \<Rightarrow> string + log_level" where
  "parseLevel s =
    (if s = ''debug'' then Inr LevelDebug
     else if s = ''info'' then Inr LevelInfo
     else if s = ''warn'' then Inr LevelWarn
     else if s = ''error'' then Inr LevelError
     else Inl ''want debug|info|warn|error'')"

definition parseLogFormat :: "string \<Rightarrow> string + string" where
  "parseLogFormat s =
    (if to_lower s = [] \<or> to_lower s = ''text'' then Inr ''text''
     else if to_lower s = ''json'' then Inr ''json''
     else Inl ''want text|json'')"

definition discoveryPort :: "string \<Rightarrow> string + string \<times> int" where
  "discoveryPort addr = (case Atoi addr of
     (p, True) \<Rightarrow> if p \<le> 0 \<or> p > 65535 then Inl ''want numeric UDP port in 1..65535'' else Inr ([], p)
   | (_, False) \<Rightarrow> (case SplitHostPort addr of
       None \<Rightarrow> Inl ''want host:port, :port or bare port (e.g. :10001)''
     | Some (host, p) \<Rightarrow> (case Atoi p of
         (n, ok) \<Rightarrow> if \<not> ok \<or> n \<le> 0 \<or> n > 65535 then Inl (''want numeric UDP port, got '' @ p) else Inr (host, n))))"

definition validateAdminExposure :: "(string \<Rightarrow> bool option) \<Rightarrow> string \<Rightarrow> string \<Rightarrow> bool \<Rightarrow> bool \<Rightarrow> string option" where
  "validateAdminExposure ip addr token anonymous insecure = (case SplitHostPort addr of
     None \<Rightarrow> Some (''invalid --listen-admin '' @ addr @ '': want host:port'')
   | Some (host, _) \<Rightarrow>
      (let loopback = (case ip host of Some l \<Rightarrow> l | None \<Rightarrow> equal_fold host ''localhost'')
       in if token = [] \<and> \<not> anonymous then Some ''admin token is required''
          else if \<not> loopback \<and> \<not> insecure then Some ''non-loopback admin binding is plaintext''
          else None))"

text \<open>\<^verbatim>\<open>strconv.ParseBool\<close>.\<close>

definition ParseBool :: "string \<Rightarrow> bool option" where
  "ParseBool s =
    (if s \<in> {''1'', ''t'', ''T'', ''true'', ''TRUE'', ''True''} then Some True
     else if s \<in> {''0'', ''f'', ''F'', ''false'', ''FALSE'', ''False''} then Some False
     else None)"

definition parseEnvBool :: "string \<Rightarrow> string \<Rightarrow> string + bool" where
  "parseEnvBool name value = (let value = trim_space value in
     if value = [] then Inr False
     else case ParseBool value of
            None \<Rightarrow> Inl (''invalid $'' @ name @ '' '' @ value @ '': want true or false'')
          | Some b \<Rightarrow> Inr b)"

text \<open>
  The client-history flags: a flag that was given has its value, one that was not has its default from
  the environment. \<open>None\<close> is an absent flag.
\<close>

definition envClientHistory :: string where "envClientHistory = ''OPEN_UNIFI_CLIENT_HISTORY''"
definition envClientHistoryRetention :: string where "envClientHistoryRetention = ''OPEN_UNIFI_CLIENT_HISTORY_RETENTION''"

record history_flags =
  hf_enabled :: bool
  hf_retention :: string
  hf_env_err :: "string option"

definition registerClientHistoryFlags :: "(string \<Rightarrow> string) \<Rightarrow> history_flags" where
  "registerClientHistoryFlags getenv =
    (let on = parseEnvBool envClientHistory (getenv envClientHistory);
         retention = trim_space (getenv envClientHistoryRetention)
     in \<lparr>hf_enabled = (case on of Inl _ \<Rightarrow> False | Inr b \<Rightarrow> b),
         hf_retention = (if retention = [] then ''30d'' else retention),
         hf_env_err = (case on of Inl e \<Rightarrow> Some e | Inr _ \<Rightarrow> None)\<rparr>)"

text \<open>Parsing the command line overwrites a default.\<close>

definition parse_history_flags :: "bool option \<Rightarrow> string option \<Rightarrow> history_flags \<Rightarrow> history_flags" where
  "parse_history_flags given kept f =
     f\<lparr>hf_enabled := opt_or (hf_enabled f) given, hf_retention := opt_or (hf_retention f) kept\<rparr>"

definition resolve :: "(string \<Rightarrow> int option) \<Rightarrow> bool \<Rightarrow> history_flags \<Rightarrow> string + bool \<times> int" where
  "resolve pd explicit f = (case hf_env_err f of
     Some e \<Rightarrow> if \<not> explicit then Inl e
       else and_then (ParseRetention pd (hf_retention f)) (\<lambda>r. Inr (hf_enabled f, r))
   | None \<Rightarrow> and_then (ParseRetention pd (hf_retention f)) (\<lambda>r. Inr (hf_enabled f, r)))"

section \<open>The checks of a start\<close>

text \<open>Every flag, and its default.\<close>

record start_flags =
  fl_listen_inform :: string
  fl_listen_admin :: string
  fl_listen_discovery :: string
  fl_discovery :: bool
  fl_discoverable :: bool
  fl_data_dir :: string
  fl_controller_url :: string
  fl_admin_token :: string
  fl_anonymous :: bool
  fl_insecure :: bool
  fl_plaintext :: bool
  fl_ssh_push :: bool
  fl_log_level :: string
  fl_log_format :: string
  fl_otlp_endpoint :: string
  fl_history :: "bool option"
  fl_retention :: "string option"

definition default_flags :: "(string \<Rightarrow> string) \<Rightarrow> start_flags" where
  "default_flags getenv = \<lparr>fl_listen_inform = '':8080'', fl_listen_admin = ''127.0.0.1:8443'',
     fl_listen_discovery = '':10001'', fl_discovery = True, fl_discoverable = False, fl_data_dir = ''data'',
     fl_controller_url = [], fl_admin_token = getenv ''OPEN_UNIFI_ADMIN_TOKEN'', fl_anonymous = False,
     fl_insecure = False, fl_plaintext = False, fl_ssh_push = False, fl_log_level = ''info'',
     fl_log_format = getenv ''OPEN_UNIFI_LOG_FORMAT'', fl_otlp_endpoint = getenv ''OPEN_UNIFI_OTLP_ENDPOINT'',
     fl_history = None, fl_retention = None\<rparr>"

record start_env =
  se_getenv :: "string \<Rightarrow> string"
  se_duration :: "string \<Rightarrow> int option"
  se_ip_loopback :: "string \<Rightarrow> bool option"
  se_url :: "string \<Rightarrow> request_uri option"

record settings =
  st_token :: string
  st_history :: "(bool \<times> int)"
  st_level :: log_level
  st_format :: string
  st_discovery :: "string \<times> int"

datatype start_error = BadHistory string | BadExposure string | BadURL url_error | BadLevel string | BadFormat string
  | BadDiscovery string

definition or_fail :: "('e \<Rightarrow> start_error) \<Rightarrow> 'e + 'a \<Rightarrow> start_error + 'a" where
  "or_fail f r = (case r of Inl e \<Rightarrow> Inl (f e) | Inr v \<Rightarrow> Inr v)"

definition or_refuse :: "('e \<Rightarrow> start_error) \<Rightarrow> 'e option \<Rightarrow> start_error + unit" where
  "or_refuse f r = (case r of Some e \<Rightarrow> Inl (f e) | None \<Rightarrow> Inr ())"

definition run_checks :: "start_env \<Rightarrow> start_flags \<Rightarrow> start_error + settings" where
  "run_checks env fl =
    (let hf = parse_history_flags (fl_history fl) (fl_retention fl) (registerClientHistoryFlags (se_getenv env))
     in and_then (or_fail BadHistory (resolve (se_duration env) (fl_history fl \<noteq> None) hf)) (\<lambda>history.
        and_then (or_refuse BadExposure (validateAdminExposure (se_ip_loopback env) (fl_listen_admin fl)
          (fl_admin_token fl) (fl_anonymous fl) (fl_insecure fl))) (\<lambda>_.
        and_then (or_refuse BadURL (ValidateConfig (se_url env) (fl_controller_url fl))) (\<lambda>_.
        and_then (or_fail BadLevel (parseLevel (fl_log_level fl))) (\<lambda>level.
        and_then (or_fail BadFormat (parseLogFormat (fl_log_format fl))) (\<lambda>format.
        and_then (or_fail BadDiscovery (discoveryPort (fl_listen_discovery fl))) (\<lambda>disco.
        Inr \<lparr>st_token = fl_admin_token fl, st_history = history, st_level = level, st_format = format,
          st_discovery = disco\<rparr>)))))))"

lemma or_fail_Inr [simp]: "or_fail f r = Inr v \<longleftrightarrow> r = Inr v"
  by (cases r) (simp_all add: or_fail_def)

lemma or_refuse_Inr [simp]: "or_refuse f r = Inr u \<longleftrightarrow> r = None"
  by (cases r) (simp_all add: or_refuse_def)

lemma run_checks_Inr:
  assumes "run_checks env fl = Inr st"
  shows "validateAdminExposure (se_ip_loopback env) (fl_listen_admin fl) (fl_admin_token fl) (fl_anonymous fl) (fl_insecure fl) = None"
    "st_token st = fl_admin_token fl" "discoveryPort (fl_listen_discovery fl) = Inr (st_discovery st)"
    "parseLevel (fl_log_level fl) = Inr (st_level st)"
    "ValidateConfig (se_url env) (fl_controller_url fl) = None"
    "resolve (se_duration env) (fl_history fl \<noteq> None)
      (parse_history_flags (fl_history fl) (fl_retention fl) (registerClientHistoryFlags (se_getenv env))) = Inr (st_history st)"
  using assms by (auto simp: run_checks_def Let_def and_then_Inr)

section \<open>What a start exposes\<close>

lemma exposure_accepted: "validateAdminExposure ip addr token anonymous insecure = None \<longleftrightarrow>
    (\<exists>host port. SplitHostPort addr = Some (host, port) \<and> (token \<noteq> [] \<or> anonymous)
      \<and> (insecure \<or> ip host = Some True \<or> ip host = None \<and> equal_fold host ''localhost''))"
  by (auto simp: validateAdminExposure_def Let_def split: option.splits)

text \<open>
  C13: A controller that starts without the two lab switches does not expose its admin API: the listener
  is bound to a loopback address, and a request without exactly the configured token changes nothing and is
  answered 401, on every route, the metrics included. Only three kinds of path are answered otherwise, and
  with nothing of the controller: the health probe (a constant), the console's embedded assets, and what no
  route matches (a 404 under \<^verbatim>\<open>/api/\<close>, elsewhere the embedded page).
\<close>

theorem start_is_guarded:
  assumes "run_checks env fl = Inr st" "\<not> fl_anonymous fl" "\<not> fl_insecure fl"
    and "ac_token cx = st_token st" "rq_auth rq \<noteq> ''Bearer '' @ st_token st"
  shows "(\<exists>host port. SplitHostPort (fl_listen_admin fl) = Some (host, port)
      \<and> (se_ip_loopback env host = Some True \<or> se_ip_loopback env host = None \<and> equal_fold host ''localhost''))
    \<and> fst (serve_http cx rq s) = s
    \<and> (case route_of (rq_method rq) (rq_segments rq) of
         RHealthz \<Rightarrow> snd (serve_http cx rq s) = writeJSON 200 (PText ''ok'')
       | RAssets \<Rightarrow> snd (serve_http cx rq s) = assets (ac_dist cx) (rq_path rq)
       | RRoot \<Rightarrow> snd (serve_http cx rq s) =
           (if has_prefix ''/api/'' (rq_path rq) then writeErr 404 ''no such endpoint'' else page (ac_dist cx))
       | _ \<Rightarrow> rs_status (snd (serve_http cx rq s)) = 401 \<and> rs_body (snd (serve_http cx rq s)) = PErr ''unauthorized'')"
proof -
  note r = run_checks_Inr [OF assms(1)]
  have "st_token st \<noteq> []" using r(1,2) assms(2) by (auto simp: exposure_accepted)
  then have no: "\<not> token_ok (ac_token cx) (rq_auth rq)" using assms(4,5) by (simp add: token_exact)
  have loop: "\<exists>host port. SplitHostPort (fl_listen_admin fl) = Some (host, port)
      \<and> (se_ip_loopback env host = Some True \<or> se_ip_loopback env host = None \<and> equal_fold host ''localhost'')"
    using r(1) assms(2,3) by (auto simp: exposure_accepted)
  show ?thesis using no
    by (intro conjI loop; cases "route_of (rq_method rq) (rq_segments rq)")
      (simp_all add: serve_http_def requireToken_def is_open_def get_root_def writeErr_def writeJSON_def)
qed

definition lab_flags :: "string \<Rightarrow> start_flags" where
  "lab_flags token = (default_flags (\<lambda>_. []))\<lparr>fl_admin_token := token\<rparr>"

definition lab_env :: start_env where
  "lab_env = \<lparr>se_getenv = (\<lambda>_. []), se_duration = (\<lambda>_. None),
     se_ip_loopback = (\<lambda>h. if h = ''127.0.0.1'' then Some True else None), se_url = (\<lambda>_. None)\<rparr>"

lemma lab_retention: "ParseRetention pd ''30d'' = Inr 2592000000000000"
proof -
  have "trim_space ''30d'' = ''30d''" "cut_suffix ''d'' ''30d'' = Some ''30''"
    by code_simp+
  moreover have "parse_uint 32 ''30'' = Some 30"
    by (simp add: parse_uint_def undec_def digit_val_def is_digit_def)
  ultimately show ?thesis by (simp add: ParseRetention_def wrap64_def Let_def)
qed

lemma lab_start: "\<exists>st. run_checks lab_env (lab_flags ''s3cret'') = Inr st \<and> st_token st = ''s3cret''"
proof -
  have "registerClientHistoryFlags (\<lambda>_. []) = \<lparr>hf_enabled = False, hf_retention = ''30d'', hf_env_err = None\<rparr>"
  proof -
    have "trim_space [] = []" by code_simp
    then show ?thesis by (simp add: registerClientHistoryFlags_def parseEnvBool_def)
  qed
  moreover have "validateAdminExposure (\<lambda>h. if h = ''127.0.0.1'' then Some True else None) ''127.0.0.1:8443'' ''s3cret'' False False = None" by code_simp
  moreover have "ValidateConfig (\<lambda>_. None) [] = None" by code_simp
  moreover have "parseLevel ''info'' = Inr LevelInfo" by code_simp
  moreover have "parseLogFormat [] = Inr ''text''" by code_simp
  moreover have "SplitHostPort '':10001'' = Some ([], ''10001'')" by code_simp
  moreover have "Atoi '':10001'' = (0, False)" "Atoi ''10001'' = (10001, True)"
    by (simp_all add: Atoi_def all_digits_def undec_def digit_val_def is_digit_def)
  ultimately show ?thesis
    by (simp add: run_checks_def lab_env_def lab_flags_def default_flags_def parse_history_flags_def resolve_def lab_retention discoveryPort_def
        or_fail_def or_refuse_def Let_def)
qed

lemma start_is_guarded_witness:
  "\<exists>st. run_checks lab_env (lab_flags ''s3cret'') = Inr st
    \<and> rs_status (snd (serve_http demo_ctx (plain_request ''GET'' [''metrics''] ''Bearer guess'') (demo_store demo_device))) = 401"
proof -
  let ?rq = "plain_request ''GET'' [''metrics''] ''Bearer guess''"
  obtain st where st: "run_checks lab_env (lab_flags ''s3cret'') = Inr st" "st_token st = ''s3cret''"
    using lab_start by blast
  have "route_of (rq_method ?rq) (rq_segments ?rq) = RMetrics" by code_simp
  with start_is_guarded [OF st(1), of demo_ctx ?rq "demo_store demo_device"] st show ?thesis
    by (simp add: lab_flags_def default_flags_def demo_ctx_def plain_request_def)
qed

section \<open>The discovery port\<close>

lemma index_of_append: "c \<notin> set a \<Longrightarrow> index_of c (a @ c # b) = Some (length a)"
  by (induction a) auto

lemma last_index_append: "c \<notin> set b \<Longrightarrow> last_index c (a @ c # b) = Some (length a)"
  using index_of_append [of c "rev b" "rev a"] by (simp add: last_index_def)

text \<open>What \<^verbatim>\<open>net.JoinHostPort\<close> writes, \<^verbatim>\<open>net.SplitHostPort\<close> reads.\<close>

lemma Split_Join:
  assumes "set port \<inter> set '':[]'' = {}" "set host \<inter> set ''[]'' = {}"
  shows "SplitHostPort (JoinHostPort host port) = Some (host, port)"
proof (cases "CHR '':'' \<in> set host")
  case True
  have p: "CHR '':'' \<notin> set port" "CHR ''['' \<notin> set port" "CHR '']'' \<notin> set port" using assms(1) by auto
  have h: "CHR ''['' \<notin> set host" "CHR '']'' \<notin> set host" using assms(2) by auto
  let ?hp = "CHR ''['' # host @ CHR '']'' # CHR '':'' # port"
  have "last_index CHR '':'' ?hp = Some (length host + 2)"
    using last_index_append [OF p(1), of "CHR ''['' # host @ [CHR '']'']"] by simp
  moreover have "index_of CHR '']'' ?hp = Some (length host + 1)"
    using index_of_append [of "CHR '']''" "CHR ''['' # host" "CHR '':'' # port"] h(2) by simp
  ultimately show ?thesis using True p h by (simp add: SplitHostPort_def JoinHostPort_def)
next
  case False
  have p: "CHR '':'' \<notin> set port" "CHR ''['' \<notin> set port" "CHR '']'' \<notin> set port" using assms(1) by auto
  have h: "CHR ''['' \<notin> set host" "CHR '']'' \<notin> set host" using assms(2) by auto
  have "last_index CHR '':'' (host @ CHR '':'' # port) = Some (length host)"
    using last_index_append [OF p(1)] .
  moreover have "\<not> (case host @ CHR '':'' # port of c # _ \<Rightarrow> c = CHR ''['' | [] \<Rightarrow> False)" using h(1) by (cases host) auto
  ultimately show ?thesis using False p h by (auto simp: SplitHostPort_def JoinHostPort_def)
qed

end
