(* ===== verification/Telemetry.thy ===== *)
theory Telemetry
  imports Client_Events Inform_Codec
begin

text \<open>
  What the program says about itself and no decision reads: the log line of a client event
  (\<^verbatim>\<open>clientevents/slogsink.go\<close>), the gate of the trace exporter and the throttle of its errors
  (\<^verbatim>\<open>internal/telemetry\<close>), the encryption label of an inform. A URL as the library parses it is its scheme,
  its path and its text under a given path.
\<close>

section \<open>The log line of an event\<close>

datatype attr_value = AttrStr string | AttrInt int

definition add_text :: "string \<Rightarrow> string \<Rightarrow> (string \<times> attr_value) list \<Rightarrow> (string \<times> attr_value) list" where
  "add_text k v attrs = (if v \<noteq> [] then attrs @ [(k, AttrStr v)] else attrs)"

definition slog_attrs :: "client_event \<Rightarrow> (string \<times> attr_value) list" where
  "slog_attrs e =
    (let attrs = [(''key'', AttrStr (ce_key e)), (''client'', AttrStr (ce_client e))];
         attrs = add_text ''hostname'' (ce_hostname e) attrs;
         attrs = add_text ''ap'' (ce_ap e) attrs;
         attrs = add_text ''ap_name'' (ce_ap_name e) attrs;
         attrs = add_text ''ap_from'' (ce_ap_from e) attrs;
         attrs = add_text ''ap_to'' (ce_ap_to e) attrs;
         attrs = add_text ''ssid'' (ce_ssid e) attrs;
         attrs = (if ce_channel e \<noteq> 0 then attrs @ [(''channel'', AttrInt (ce_channel e))] else attrs);
         attrs = (if ce_channel_from e \<noteq> 0 \<or> ce_channel_to e \<noteq> 0
           then attrs @ [(''channel_from'', AttrInt (ce_channel_from e)), (''channel_to'', AttrInt (ce_channel_to e))] else attrs);
         attrs = (if ce_duration e \<noteq> 0 then attrs @ [(''duration_s'', AttrInt (ce_duration e))] else attrs);
         attrs = (if ce_bytes e \<noteq> 0 then attrs @ [(''bytes'', AttrInt (ce_bytes e))] else attrs)
     in attrs @ [(''msg_text'', AttrStr (ce_msg e))])"

text \<open>A text that was left empty is no attribute, but for the three a line always has.\<close>

lemma add_text_empty: "(k, AttrStr []) \<in> set (add_text k' v attrs) \<longleftrightarrow> (k, AttrStr []) \<in> set attrs"
  by (auto simp: add_text_def)

lemma slog_empty: "(k, AttrStr []) \<in> set (slog_attrs e) \<Longrightarrow> k = ''key'' \<or> k = ''client'' \<or> k = ''msg_text''"
  unfolding slog_attrs_def Let_def by (simp add: add_text_empty if_distrib [of set] split: if_split_asm) blast+

section \<open>The trace exporter\<close>

definition informEncryptionLabel :: "packet option \<Rightarrow> string" where
  "informEncryptionLabel pkt = (case pkt of
     None \<Rightarrow> ''plain''
   | Some p \<Rightarrow> if p_flags p AND FlagGCM \<noteq> 0 then ''gcm''
       else if p_flags p AND FlagEncCBC \<noteq> 0 then ''cbc'' else ''plain'')"

definition otlpTracesPath :: string where "otlpTracesPath = ''/v1/traces''"

record otlp_url =
  ou_scheme :: string
  ou_path :: string
  ou_text :: "string \<Rightarrow> string"

datatype exporter =
    ExportURL string bool
  | ExportHost string
  | ExportEnv

text \<open>\<open>Inr None\<close> is the disabled tracer; the boolean of a URL says that its transport is in plain text.\<close>

definition SetupTracing :: "(string \<Rightarrow> string) \<Rightarrow> (string \<Rightarrow> otlp_url option) \<Rightarrow> string \<Rightarrow> string + exporter option" where
  "SetupTracing getenv parse endpoint =
    (if getenv ''OTEL_SDK_DISABLED'' = ''true'' then Inr None
     else if endpoint = [] \<and> getenv ''OTEL_EXPORTER_OTLP_ENDPOINT'' = []
       \<and> getenv ''OTEL_EXPORTER_OTLP_TRACES_ENDPOINT'' = [] then Inr None
     else if has_prefix ''https://'' endpoint \<or> has_prefix ''http://'' endpoint
     then (case parse endpoint of
         None \<Rightarrow> Inl ''otlp endpoint URL''
       | Some u \<Rightarrow> Inr (Some (ExportURL
           (ou_text u (if ou_path u = [] \<or> ou_path u = ''/'' then otlpTracesPath else ou_path u))
           (ou_scheme u = ''http''))))
     else if endpoint \<noteq> [] then Inr (Some (ExportHost endpoint))
     else Inr (Some ExportEnv))"

text \<open>Tracing is opt-in: an exporter needs an endpoint, and the kill switch wins.\<close>

lemma tracing_opt_in:
  assumes "SetupTracing getenv parse endpoint = Inr (Some x)"
  shows "getenv ''OTEL_SDK_DISABLED'' \<noteq> ''true''
    \<and> (endpoint \<noteq> [] \<or> getenv ''OTEL_EXPORTER_OTLP_ENDPOINT'' \<noteq> [] \<or> getenv ''OTEL_EXPORTER_OTLP_TRACES_ENDPOINT'' \<noteq> [])"
  using assms by (auto simp: SetupTracing_def split: if_splits)

section \<open>The error throttle\<close>

text \<open>The handler keeps the time of its last warning; an event is an error at a time.\<close>

record throttled =
  th_interval :: int
  th_last :: "int option"

definition throttled_handle :: "int \<Rightarrow> throttled \<Rightarrow> throttled \<times> bool" where
  "throttled_handle now h = (case th_last h of
     Some t \<Rightarrow> if now - t < th_interval h then (h, False) else (h\<lparr>th_last := Some now\<rparr>, True)
   | None \<Rightarrow> (h\<lparr>th_last := Some now\<rparr>, True))"

fun warnings :: "throttled \<Rightarrow> int list \<Rightarrow> int list" where
  "warnings h [] = []"
| "warnings h (t # ts) = (case throttled_handle t h of (h', w) \<Rightarrow> (if w then [t] else []) @ warnings h' ts)"

lemma warnings_after:
  "th_last h = Some t \<Longrightarrow> successively (\<lambda>a b. th_interval h \<le> b - a) (t # warnings h ts)"
proof (induction ts arbitrary: h t)
  case (Cons now ts)
  show ?case
  proof (cases "now - t < th_interval h")
    case True
    then show ?thesis using Cons by (simp add: throttled_handle_def)
  next
    case False
    then show ?thesis
      using Cons.prems Cons.IH [of "h\<lparr>th_last := Some now\<rparr>" now] by (simp add: throttled_handle_def)
  qed
qed simp

text \<open>However fast errors arrive, two warnings are never closer than the interval.\<close>

lemma warnings_spaced: "successively (\<lambda>a b. th_interval h \<le> b - a) (warnings h ts)"
proof (cases "th_last h")
  case (Some t)
  from warnings_after [OF this, of ts] show ?thesis by (cases "warnings h ts") simp_all
next
  case None
  show ?thesis
  proof (cases ts)
    case (Cons t ts')
    with None show ?thesis using warnings_after [of "h\<lparr>th_last := Some t\<rparr>" t ts'] by (simp add: throttled_handle_def)
  qed simp
qed

end
