(* ===== verification/Spec2Isabelle.thy ===== *)
theory Spec2Isabelle
  imports Store_Locks Controller Metrics Startup Telemetry
begin

text \<open>
  A model of the open-unifi controller (a Go program, sources under \<^verbatim>\<open>src/\<close>), with the theorems
  that make its core correct.

  The program. UniFi access points POST encrypted \<^verbatim>\<open>inform\<close> packets to the controller, which keeps a
  record of every device in a JSON file. One inform is one cycle: parse the packet, find the record
  and its candidate keys, decrypt, decide, store the record and answer with a configuration, a
  command or a noop. A UDP listener feeds the list of pending candidates and answers probes. Session
  changes that informs report become client events and a history of who was where. An administrator
  works on the same records over an HTTP API, and a poll marks silent devices lost.

  Theories, in import order, with the sources they translate.
  \<^item> \<open>Go_Prelude\<close>: Go values, strings, numbers, row maps; the interfaces \<open>row_map\<close>, \<open>codec\<close> and
    \<open>machine\<close>, interpreted on the model's own definitions where those are declared. \<open>Go_Text\<close>: bytes
    as text, white space, splitting, decimal fields.
  \<^item> \<open>Inform_Wire\<close>, \<open>Inform_Codec\<close>: \<^verbatim>\<open>internal/inform\<close>, the packet frame, the CBC and GCM lanes, key
    selection and the reply. \<open>Stations\<close>: \<^verbatim>\<open>stations.go\<close>.
  \<^item> \<open>Device_Record\<close>, \<open>Device_Store\<close>, \<open>Store_Locks\<close>, \<open>Trust_Policy\<close>, \<open>Sessions\<close>, \<open>Admin_Rows\<close>:
    \<^verbatim>\<open>internal/store\<close>. A \<^verbatim>\<open>store.Device\<close> is the record \<open>device\<close>; its \<^verbatim>\<open>Extra\<close> map the association list
    \<open>ext\<close>. \<open>Store_Locks\<close> is the one concurrent part: goroutines as interleaved atomic steps.
  \<^item> \<open>Wlan_Stored\<close>, \<open>Wlan_Plan\<close>, \<open>Delivery\<close>: \<^verbatim>\<open>internal/wireless\<close>, the stored WLAN list, the placement
    of WLANs on radios, and the evidence-based delivery state with its retries.
  \<^item> \<open>Mgmt_Cfg\<close>, \<open>Adoption\<close>, \<open>Adoption_Laws\<close>: \<^verbatim>\<open>internal/server/adoption\<close>, the decision engine. One
    definition per stage of \<^verbatim>\<open>Decide\<close>, composed in the code's order; errors are \<open>Inl\<close>. The renderer is
    the engine's parameter \<open>en_system_cfg\<close> there; \<open>renderSystemCfg\<close> of \<open>System_Cfg\<close> is what the server
    passes for it.
  \<^item> \<open>Password_Crypt\<close>, \<open>Ssh_Keys\<close>, \<open>Cfg_Emit\<close>, \<open>Cfg_Wireless\<close>, \<open>System_Cfg\<close>, \<open>Cfg_Laws\<close>:
    \<^verbatim>\<open>internal/server/systemcfg\<close>. A text is a list of emissions, each written by the guarded line writer;
    one definition per section of the text, in its order.
  \<^item> \<open>Inform_Lane\<close>: \<^verbatim>\<open>internal/server/server.go\<close>, from the HTTP body to the sealed reply.
  \<^item> \<open>Discovery\<close>: \<^verbatim>\<open>internal/server/discovery.go\<close>.
  \<^item> \<open>Client_Events\<close>, \<open>Event_History\<close>: \<^verbatim>\<open>internal/clientevents\<close>, the tracker that turns session transitions
    into client events, and their persisted history.
  \<^item> \<open>Admin_Checks\<close>: the validators of \<^verbatim>\<open>internal/adminapi/helpers.go\<close>. \<open>App_View\<close>, \<open>App_Ops\<close>, \<open>App_Wlans\<close>,
    \<open>App_Poll\<close>, \<open>Set_Inform\<close>, \<open>App_Clients\<close>: \<^verbatim>\<open>internal/app\<close>, the views, the verbs on one record around the
    skeleton \<open>saveIntent\<close>, the poll, adoption with its SSH push, and the client listings. A verb is a
    change step of the record; the locale \<open>admin_verb\<close> is the contract of such a step, interpreted on every
    verb.
  \<^item> \<open>Admin_Api\<close>, \<open>Api_Laws\<close>: \<^verbatim>\<open>internal/adminapi\<close>. A request is matched to a \<open>route\<close>, checked, run on the
    store and answered; the locale \<open>api_contract\<close> carries a property of the verbs over to every request.
  \<^item> \<open>Metrics\<close>: \<^verbatim>\<open>internal/metrics\<close>, its vectors of series and what the poll, a delete and a committed
    inform do to them. \<open>Startup\<close>: \<^verbatim>\<open>cmd/openunifi\<close>, the flags, their environment and the checks of a start.
    \<open>Telemetry\<close>: the log line of an event, and the gate and error throttle of the trace exporter.
  \<^item> \<open>App_Laws\<close>: where the verbs meet the inform lane. \<open>Controller\<close>: all lanes as one machine over the store.
  \<^item> this theory: single informs and cycles, responses, and the return of a reset device.

  What the theorems show. Packets, notes and stored lists read back as written, and the parsers accept
  exactly the well-formed inputs (\<open>ParsePacket_accepts\<close>, \<open>candidate_of_note\<close>, \<open>DeviceWLANs_roundtrip\<close>). The
  store is a partial map from canonical MACs to records under every history, an acknowledged
  write survives a restart, and any interleaving of informs, admin requests, datagrams and sweep cycles
  keeps the whole state well formed (\<open>controller_well_formed\<close>). A decision always comes out, discloses keys
  only to a device that can be trusted with them, and marks a record adopted only on proof; nothing but an
  inform changes a key. A committed cycle stores exactly the record its response was computed from. The
  rendered configuration has no injected rows, is stable, and depends on the WLAN list through its hash
  alone. An admin request needs the token, answers one of eight statuses that mean what they say, touches
  only what the administrator owns, and a change it saved is delivered by the next inform on the device's
  own key. The update cycles of one device exclude each other as long as it is not deleted. Loops the code runs over
  shared state (sessions, placement, anti-replay memory, the poll) equal their declarative references. The
  exported series are the inventory, one per device, and a start without the lab switches leaves the API
  guarded. The event stream is a legal story of where every client is, and the history folds it back into intervals.

  Bounds. Lengths are those of the code (10 MiB bodies, 40-byte headers, 100 pending entries,
  1024-byte datagrams, 6 delivery attempts). Every loop of the model is structural or has a
  measure; no fuel is used, so every operation is a total function. Times are integers (seconds in
  the store, nanoseconds in the anti-replay memory); Go's 64-bit wrap-around is written out
  (\<open>wrap64\<close>) where a value comes from a device, and wire fields are words.

  Parameters. What is not under \<^verbatim>\<open>src/\<close> or has no definition worth repeating is an argument: AES, GCM
  and zlib (record \<open>crypto\<close>, laws \<open>crypto_laws\<close>), JSON text (the decoding of request bodies included), MD5,
  SHA-256 and SHA-512, URL, RFC 3339 and address parsing, the random source, the clock, the outcome of a file
  write, the host's network interfaces, the SSH client, the console's embedded files. The demo values
  (\<open>mask_crypto\<close>, \<open>demo_engine\<close>, \<open>demo_ctx\<close>, ...) instantiate them for the witnesses.

  Not modelled. Spans and the other log lines, which no decision depends on; the listeners, tickers, the data
  directory's file lock and the shutdown order of \<^verbatim>\<open>cmd/openunifi\<close>; the multiplexer's path cleaning and redirects; the web console.
  ASCII case folding stands for Go's Unicode folding, since every folded string is a MAC, a key or a keyword.
\<close>

section \<open>Informs\<close>

definition demo_server :: "device \<Rightarrow> server" where
  "demo_server d = \<lparr>sv_store = \<lparr>js_db = \<lparr>db_devices = [(demo_mac, d)], db_pending = []\<rparr>, js_file = None\<rparr>, sv_noop = []\<rparr>"

definition reset_device :: device where
  "reset_device = keyed_device StateAdopted [(FlagSetdefaultArmed, GBool True)]"

definition demo_lane :: "string \<Rightarrow> lane" where
  "demo_lane used = \<lparr>ln_transport = TransportEncrypted, ln_used_key = used, ln_gcm = True\<rparr>"

definition demo_tick :: tick where
  "demo_tick = \<lparr>tk_now = 1000, tk_ms = ''1000000'', tk_io = True\<rparr>"

lemma demo_key_source: "key_source demo_engine"
  by (simp add: key_source_def demo_engine_def)

lemma demo_mac_facts: "canonicalMAC demo_mac = demo_mac" "demo_mac \<noteq> []"
  by code_simp+

lemma demo_key_given: "demo_key \<noteq> []"
  by code_simp

lemma demo_server_devices [simp]: "devices_of (js_db (sv_store (demo_server d))) demo_mac = Some d"
  by (simp add: demo_server_def devices_of_def jget_def)

lemma demo_server_inv: "server_inv (demo_server (keyed_device st xs))"
  by (auto simp: server_inv_def demo_server_def db_inv_def demo_mac_facts demo_key_given keyed_device_def new_device_def
      devices_of_def jget_def keys_inv_def maxPending_def split: if_splits)

text \<open>
  An inform touches at most one record: all others are as they were, and one that is refused
  with an error (too large, undecodable, not allowed in plain text, MAC mismatch) changes nothing
  at all.
\<close>

theorem inform_touches_one_record:
  assumes "server_inv s"
  shows "\<exists>c. (\<forall>m. m \<noteq> c \<longrightarrow> devices_of (js_db (sv_store (fst (handleInform allowPlain e C tk rnd fresh raw s)))) m
        = devices_of (js_db (sv_store s)) m)
    \<and> (refuses (snd (handleInform allowPlain e C tk rnd fresh raw s)) \<longrightarrow>
        fst (handleInform allowPlain e C tk rnd fresh raw s) = s)"
proof -
  obtain c where c: "touches c s (fst (handleInform allowPlain e C tk rnd fresh raw s))"
    using handleInform_touches [OF assms] by blast
  have "fst (handleInform allowPlain e C tk rnd fresh raw s) = s"
    if "refuses (snd (handleInform allowPlain e C tk rnd fresh raw s))"
  proof (cases rule: handleInform_arms [of allowPlain e C tk rnd fresh raw s])
    case none
    then show ?thesis by simp
  next
    case packet
    with that handlePacket_refusal show ?thesis by metis
  next
    case plain
    with that handlePlain_refusal show ?thesis by metis
  qed
  with c show ?thesis unfolding touches_def by blast
qed

lemma inform_touches_one_record_witness:
  "fst (handleInform False demo_engine mask_crypto demo_tick None None [1] (demo_server (keyed_device StateAdopted [])))
     = demo_server (keyed_device StateAdopted [])"
proof -
  have "refuses (snd (handleInform False demo_engine mask_crypto demo_tick None None [1] (demo_server (keyed_device StateAdopted []))))"
    by (simp add: handleInform_def ParsePacket_def mask_crypto_def MaxBodySize_def)
  with inform_touches_one_record [OF demo_server_inv [of StateAdopted "[]"], of False demo_engine mask_crypto demo_tick None None "[1]"]
  show ?thesis by blast
qed

section \<open>One cycle\<close>

lemma cycle_commits:
  assumes "devices_of (js_db (sv_store s)) (canonicalMAC mac) = Some rec" "canonicalMAC mac \<noteq> []"
    and "inform_mutation e (tk_now tk) (cycle_prev mac s) la jm rec = Inr (rec', out, ts)"
    and "canonicalMAC (dev_mac rec) \<noteq> []" "tk_io tk"
  shows "\<exists>s'. runInformCycle e tk mac jm la s = (s', Committed (response_of (tk_ms tk) out) ts)"
proof -
  let ?f = "inform_mutation e (tk_now tk) (cycle_prev mac s) la jm"
  have g: "db_Get mac (js_db (sv_store s)) = Inr rec" "db_Get (canonicalMAC mac) (js_db (sv_store s)) = Inr rec"
    using assms(1) by (simp_all add: db_Get_devices)
  have p: "canonicalMAC (dev_mac rec') \<noteq> []" using assms(4) inform_mutation_mac [OF assms(3)] by simp
  have "\<exists>st. js_UpdateExisting (tk_now tk) (tk_io tk) mac (fn_of ?f) (sv_store s) = (st, None)"
    using assms(2,3,5) g p
    by (simp add: js_UpdateExisting_def db_UpdateExisting_def db_update_def db_Put_def js_after_def js_save_def fn_of_def Let_def)
  then show ?thesis using g assms(3) by (auto simp: runInformCycle_def cycle_prev_def Let_def)
qed

text \<open>
  C3: a committed cycle is atomic and durable: the response the device gets belongs to exactly the
  mutation that was stored, that record and no other changed, and the file holds the new state.
\<close>

theorem committed_cycle_stored:
  assumes "server_inv s" "runInformCycle e tk mac jm la s = (s', Committed resp ts)"
  shows "\<exists>rec rec' out. devices_of (js_db (sv_store s)) (canonicalMAC mac) = Some rec
    \<and> inform_mutation e (tk_now tk) (opt_or 0 (jget (sv_noop s) mac)) la jm rec = Inr (rec', out, ts)
    \<and> resp = response_of (tk_ms tk) out
    \<and> devices_of (js_db (sv_store s')) = (devices_of (js_db (sv_store s)))(canonicalMAC mac \<mapsto> rec')
    \<and> js_file (sv_store s') = Some (snapshot (tk_now tk) (js_db (sv_store s')))"
  using runInformCycle_committed [OF assms] unfolding cycle_prev_def by metis

lemma committed_cycle_stored_witness:
  "\<exists>s' resp ts rec'. runInformCycle demo_engine demo_tick demo_mac [] (demo_lane demo_key) (demo_server reset_device)
      = (s', Committed resp ts)
    \<and> devices_of (js_db (sv_store s')) demo_mac = Some rec'"
proof -
  have "case inform_mutation demo_engine 1000 0 (demo_lane demo_key) [] reset_device of
      Inr (rec', out, ts) \<Rightarrow> True | Inl _ \<Rightarrow> False" by code_simp
  then obtain rec' out ts where m: "inform_mutation demo_engine 1000 0 (demo_lane demo_key) [] reset_device = Inr (rec', out, ts)"
    by (auto split: sum.splits)
  have "inform_mutation demo_engine (tk_now demo_tick) (cycle_prev demo_mac (demo_server reset_device))
      (demo_lane demo_key) [] reset_device = Inr (rec', out, ts)"
    using m by (simp add: demo_tick_def cycle_prev_def demo_server_def)
  moreover have "canonicalMAC (dev_mac reset_device) \<noteq> []" "tk_io demo_tick"
    by (simp_all add: reset_device_def keyed_device_def new_device_def demo_mac_facts demo_tick_def)
  ultimately obtain s' where r: "runInformCycle demo_engine demo_tick demo_mac [] (demo_lane demo_key) (demo_server reset_device)
      = (s', Committed (response_of (tk_ms demo_tick) out) ts)"
    using cycle_commits [of "demo_server reset_device" demo_mac reset_device demo_engine demo_tick "demo_lane demo_key" "[]"]
    by (auto simp: demo_mac_facts)
  have "server_inv (demo_server reset_device)" unfolding reset_device_def by (rule demo_server_inv)
  from committed_cycle_stored [OF this r] r show ?thesis by (auto simp: demo_mac_facts)
qed

text \<open>
  An adopted device cannot be driven with the factory key: an encrypted inform opened with it
  gets a bare 404 and leaves the server, its file and its schedule untouched.
\<close>

theorem factory_key_refused:
  assumes "devices_of (js_db (sv_store s)) (canonicalMAC mac) = Some rec" "canonicalMAC mac \<noteq> []"
    and "dev_state rec = StateAdopted \<or> dev_state rec = StateAdopting \<and> dev_key_confirmed rec"
    and "ln_transport la = TransportEncrypted" "equal_fold (ln_used_key la) DefaultKeyHex"
  shows "runInformCycle e tk mac jm la s = (s, Rejected 404)"
proof -
  have "key_rejected (ln_used_key la) rec" using assms(3,5) by (auto simp: key_rejected_def device_states)
  from cycle_key_rejected [OF assms(1,2,4) this] show ?thesis .
qed

lemma factory_key_refused_witness:
  "runInformCycle demo_engine demo_tick demo_mac [] (demo_lane DefaultKeyHex) (demo_server (keyed_device StateAdopted []))
     = (demo_server (keyed_device StateAdopted []), Rejected 404)"
proof -
  have "dev_state (keyed_device StateAdopted []) = StateAdopted" by (simp add: keyed_device_def)
  then show ?thesis
    using factory_key_refused [of "demo_server (keyed_device StateAdopted [])" demo_mac "keyed_device StateAdopted []"
        "demo_lane DefaultKeyHex" demo_engine demo_tick "[]"]
    by (simp add: demo_mac_facts demo_lane_def)
qed

section \<open>Responses\<close>

text \<open>
  C17: what the server seals, the device reads: with a cipher that obeys its laws, every sealed reply
  of the encrypted lane parses as a packet for the same device and decrypts, under the key that
  opened the inform, to the JSON text of a response.
\<close>

theorem sealed_reply_readable:
  assumes "crypto_laws C" "key_size_ok key" "wf_packet pkt" "p_data_version pkt = DataVersion"
    and "length iv = 16" "length iv' = 16"
    and "HeaderLen + length (json_bytes (en_json e) resp) + 16 \<le> MaxBodySize"
  shows "\<exists>b q. sealed_reply e C tk (Some iv) (Some iv') pkt key resp = Sealed b \<and> ParsePacket b = Inr q
    \<and> p_mac q = p_mac pkt \<and> DecryptPayload C q key = Inr (json_bytes (en_json e) resp)"
  using Respond_roundtrip [OF assms] by (auto simp: sealed_reply_def)

lemma sealed_reply_readable_witness:
  "\<exists>b q. sealed_reply demo_engine mask_crypto demo_tick (Some (replicate 16 1)) (Some (replicate 16 2)) mask_packet
      (replicate 16 9) [] = Sealed b \<and> ParsePacket b = Inr q"
proof -
  have "length (json_bytes (en_json demo_engine) []) = 5"
    by (simp add: json_bytes_def demo_engine_def one_document_def)
  then show ?thesis
    using sealed_reply_readable [of mask_crypto "replicate 16 9" mask_packet "replicate 16 1" "replicate 16 2" demo_engine "[]" demo_tick]
      mask_crypto_laws
    by (force simp: key_size_ok_def mask_packet_def wf_packet_def NewPacket_def wire_consts)
qed

text \<open>
  The header MAC names the record: the six header bytes give the canonical form of their colon
  spelling, and any other number of bytes is no MAC.
\<close>

theorem header_mac_canonical:
  "canonMACFromHeader raw = (case CanonicalMAC (MACString raw) of Inr c \<Rightarrow> c | Inl _ \<Rightarrow> [])"
  by (simp add: header_mac)

text \<open>
  A stored task decides the type of its own response: the task's rows are merged over the
  response, so a task row \<open>_type\<close> replaces \<open>cmd\<close>, while a task as the controller arms it keeps it.
\<close>

theorem task_type_overrides:
  "jget (response_of ms ((outcome_of KindCmd)\<lparr>out_cmd_task := Some [(''_type'', GStr ''reboot'')]\<rparr>)) ''_type''
     = Some (GStr ''reboot'')
   \<and> jget (response_of ms ((outcome_of KindCmd)\<lparr>out_cmd_task := ArmedCmdTask (ArmCmdTask cmd d)\<rparr>)) ''_type''
     = Some (GStr ''cmd'')"
proof -
  have "ArmedCmdTask (ArmCmdTask cmd d) = (if cmd = [] then None
      else Some [(''cmd'', GStr cmd), (''mac'', GStr (dev_mac d))])"
    by (simp add: ArmedCmdTask_Arm ArmedCmdTask_Arm_empty)
  then show ?thesis by (auto simp: response_of_def outcome_of_def row_simps)
qed

section \<open>A factory-reset device comes back\<close>

lemma reset_result:
  assumes "inform_mutation e now prev la jm rec = Inr (rec1, out, ts)" "out_kind out = KindSetdefault"
  shows "dev_state rec1 = StatePending" "dev_authkeys rec1 = []"
    "k \<in> set FactoryResetSweepKeys \<union> {FlagSetdefaultArmed, FlagRebootOnConnect, CmdTaskKey} \<Longrightarrow>
       jget (ext rec1) k = None"
proof -
  obtain rec2 req where q: "req = \<lparr>rq_transport = ln_transport la, rq_device = rec2, rq_body = ext rec2,
      rq_used_key = ln_used_key la, rq_now = now, rq_prev_target = prev\<rparr>"
    "Decide e req = Inr out" "rec1 = apply_deltas out rec2"
    using assms(1) by (cases rule: inform_mutation_Inr) blast
  obtain o' w n where w: "decide_work e req = Inr (o', w, n)"
      "out = deltas (rq_device req) (confirm_key (rq_used_key req) w) o'" using q(2) by (rule Decide_Inr)
  have k: "out_kind o' = KindSetdefault" using assms(2) w(2) by simp
  have a: "armedLifecycle (cloneDevice (rq_device req)) = Some (o', w)"
    using command_armed [OF w(1)] k by (simp add: command_kinds_def)
  have d: "w = setdefault_demotion (cloneDevice (rq_device req))" "o' = outcome_of KindSetdefault"
    using a k by (auto elim: armedLifecycle_cases)
  have r: "rec1 = apply_deltas out (rq_device req)" by (simp add: q(1,3))
  note f = apply_deltas_fields [OF q(2) w(1), folded r]
  show "dev_state rec1 = StatePending" by (simp add: f d setdefault_fields)
  show "dev_authkeys rec1 = []"
    using f(1) by (simp add: d keys_of_def setdefault_fields)
  have c: "out_credentials out = []" by (simp add: w(2) d(2) deltas_def outcome_of_def Let_def)
  have "ext rec1 = ext w"
    by (simp add: r apply_deltas_def Let_def c) (simp add: w(2))
  then show "jget (ext rec1) k = None"
    if "k \<in> set FactoryResetSweepKeys \<union> {FlagSetdefaultArmed, FlagRebootOnConnect, CmdTaskKey}"
    using that by (simp only: d setdefault_rows) simp
qed

text \<open>
  C6: a factory-reset device is adopted afresh: after the inform that was answered with the reset, an
  encrypted inform under the factory key, of no or a known \<^verbatim>\<open>_type\<close> and without any of the controller's
  delivery rows, is accepted and answered with an adoption push, as long as the key source and the producer of
  the configuration text do not fail (\<open>engine_total\<close>). The record is then adopting under a key that is a 32-character
  draw of that inform's key source, whatever the keys were before, and it holds no other key.
\<close>

theorem factory_reset_recovers:
  assumes "inform_mutation e now prev la jm rec = Inr (rec1, out, ts)" "out_kind out = KindSetdefault"
    and "engine_total e'" "ln_transport la' = TransportEncrypted" "ln_used_key la' = DefaultKeyHex"
    and "\<not> informTypeGentleNoop (opt_or [] (get_str jm' ''_type''))"
    and "jget jm' WlanCfgShaKey = None" "jget jm' WlanCfgPendingShaKey = None"
  shows "\<exists>rec2 out' ts' i xk. inform_mutation e' now' prev' la' jm' rec1 = Inr (rec2, out', ts')
    \<and> out_kind out' = KindSetparam \<and> \<not> out_full out' \<and> dev_state rec2 = StateAdopting
    \<and> en_key_chars e' i 32 = Some xk \<and> dev_x_authkey rec2 = xk \<and> dev_authkeys rec2 = [to_lower xk]"
proof -
  let ?a = "Absorb jm' now' (ln_gcm la') rec1"
  obtain recs ts' where rs: "refreshClientSessions ?a (ext ?a) now' = (recs, ts')" by fastforce
  let ?req = "\<lparr>rq_transport = TransportEncrypted, rq_device = recs, rq_body = ext recs,
      rq_used_key = DefaultKeyHex, rq_now = now', rq_prev_target = prev'\<rparr>"
  let ?d = "cloneDevice recs"
  note reset = reset_result [OF assms(1,2)]
  have rows: "jget (ext recs) k = policy_row (ext rec1) jm' k"
    if "k \<noteq> SessionsExtraKey" "k \<noteq> SessionDisconnectEventExtraKey" for k
    using refresh_other_rows [OF that, of ?a "ext ?a" now'] rs by (simp add: Absorb_row)
  have st: "dev_state recs = StatePending" "dev_authkeys recs = []"
    using refresh_keys_of [of ?a "ext ?a" now'] rs Absorb_keys [of jm' now' "ln_gcm la'" rec1] reset(1,2)
    by (simp_all add: keys_of_def)
  have keys: "list_all (\<lambda>k. k \<noteq> SessionsExtraKey \<and> k \<noteq> SessionDisconnectEventExtraKey)
      [WlanCfgShaKey, WlanCfgPendingShaKey, FlagSetdefaultArmed, FlagRebootOnConnect, CmdTaskKey, ''_type'']"
    "list_all (\<lambda>k. k \<in> set adminOwnedKeys) [FlagSetdefaultArmed, FlagRebootOnConnect, CmdTaskKey]"
    "list_all (\<lambda>k. k \<in> set controllerOwnedKeys \<and> k \<in> set FactoryResetSweepKeys) [WlanCfgShaKey, WlanCfgPendingShaKey]"
    by code_simp+
  have armed: "jget (ext recs) FlagSetdefaultArmed = None" "jget (ext recs) FlagRebootOnConnect = None"
    "jget (ext recs) CmdTaskKey = None"
    using keys(1,2) by (simp_all add: rows policy_row_def reset(3))
  have sha: "jget (ext recs) WlanCfgShaKey = None" "jget (ext recs) WlanCfgPendingShaKey = None"
    using keys(1,3) class_facts(2) assms(7,8) by (simp_all add: rows policy_row_def reset(3))
  have ty: "get_str (ext recs) ''_type'' = get_str jm' ''_type''"
    using keys(1) by (simp add: get_str_def rows unclassed_row)
  have none: "armedLifecycle ?d = None"
    using armed by (simp add: armedLifecycle_def truthy_def ArmedCmdTask_def)
  have total: "\<And>i n. en_key_chars e' i n \<noteq> None" using assms(3) by (simp add: engine_total_def)
  have sha': "jget (ext ?d) WlanCfgShaKey = None" "jget (ext ?d) WlanCfgPendingShaKey = None"
    using sha by simp_all
  obtain w n i xk where w: "drift_and_dispatch e' ?req (wirelessForDevice e' ?d) (request_plan e' ?req) ?d
        = Inr (adoptionPush e' w DefaultKeyHex, w, n)"
      "en_key_chars e' i 32 = Some xk" "dev_x_authkey w = xk" "dev_authkeys w = [to_lower xk]" "dev_state w = StateAdopting"
    using unpaired_dispatch [OF sha', of ?req e' "wirelessForDevice e' ?d" "request_plan e' ?req"] total st by auto
  have dw: "decide_work e' ?req = Inr (adoptionPush e' w DefaultKeyHex, w, n)"
    using w(1) none ty assms(6) st
    by (simp add: decide_work_def decideEncrypted_def Let_def request_plan_def key_rejected_def device_states)
  then obtain out' where o: "Decide e' ?req = Inr out'"
      "out' = deltas recs (confirm_key DefaultKeyHex w) (adoptionPush e' w DefaultKeyHex)"
    by (simp add: Decide_def)
  have "inform_mutation e' now' prev' la' jm' rec1 = Inr (apply_deltas out' recs, out', ts')"
    using rs o(1) assms(4,5) by (simp add: inform_mutation_def)
  moreover have "keys_of (apply_deltas out' recs) = keys_of (confirm_key DefaultKeyHex w)"
    "dev_state (apply_deltas out' recs) = StateAdopting"
    using apply_deltas_fields(1,2) [OF o(1) dw] w(5) by simp_all
  ultimately show ?thesis using w o(2) by (auto simp: keys_of_def)
qed

lemma factory_reset_recovers_witness:
  "\<exists>rec1 out ts rec2 out' ts'. inform_mutation demo_engine 1000 0 (demo_lane demo_key) [] reset_device = Inr (rec1, out, ts)
    \<and> inform_mutation demo_engine 1010 0 (demo_lane DefaultKeyHex) [] rec1 = Inr (rec2, out', ts')
    \<and> out_kind out = KindSetdefault \<and> dev_state rec2 = StateAdopting"
proof -
  have "case inform_mutation demo_engine 1000 0 (demo_lane demo_key) [] reset_device of
      Inr (rec1, out, ts) \<Rightarrow> out_kind out = KindSetdefault | Inl _ \<Rightarrow> False" by code_simp
  then obtain rec1 out ts where r: "inform_mutation demo_engine 1000 0 (demo_lane demo_key) [] reset_device = Inr (rec1, out, ts)"
      "out_kind out = KindSetdefault" by (auto split: sum.splits)
  have "\<not> informTypeGentleNoop (opt_or [] (get_str [] ''_type''))" by code_simp
  with factory_reset_recovers [OF r demo_engine_total, of "demo_lane DefaultKeyHex" "[]" 1010 0]
  show ?thesis using r by (auto simp: demo_lane_def)
qed

end
